(* ===== verification/Socks_Prelude.thy ===== *)
theory Socks_Prelude
  imports Main "HOL-Library.Word"
begin

text \<open>
  Shared ground of the development: bytes, the faults a C program can end in, the error
  monad that threads them, bounded reads and writes of byte arrays, C strings, and the flag
  words (\<open>fd_interest\<close>, \<open>socket_ends\<close>) that the selector and the proxy manipulate with
  bitwise operators.
\<close>

unbundle bit_operations_syntax

named_theorems fault_simps \<open>rewriting of the error monad\<close>
named_theorems buffer_simps \<open>unfolding of buffer operations under the invariant\<close>

section \<open>Bytes and faults\<close>

type_synonym byte = "8 word"

text \<open>
  A C function may stop the process (a failed \<open>assert\<close>, an \<open>abort\<close>) or have undefined
  behaviour (a read or write outside an object, a null or dangling pointer). Each of these is a
  value, so that \<open>no fault\<close> is a theorem and never an assumption of the model.
\<close>

datatype fault =
    Assert_failed
  | Abort_called
  | Out_of_bounds
  | Null_deref
  | Use_after_free

type_synonym 'a run = "fault + 'a"

definition bindE :: "'a run \<Rightarrow> ('a \<Rightarrow> 'b run) \<Rightarrow> 'b run" where
  "bindE m f = (case m of Inl e \<Rightarrow> Inl e | Inr x \<Rightarrow> f x)"

lemma bindE_Inl [simp, fault_simps]: "bindE (Inl e) f = Inl e"
  by (simp add: bindE_def)

lemma bindE_Inr [simp, fault_simps]: "bindE (Inr x) f = f x"
  by (simp add: bindE_def)

lemma bindE_cong [fundef_cong]:
  "m = m' \<Longrightarrow> (\<And>x. m' = Inr x \<Longrightarrow> f x = g x) \<Longrightarrow> bindE m f = bindE m' g"
  by (cases m') auto

lemma bindE_eq_Inr [fault_simps]: "bindE m f = Inr y \<longleftrightarrow> (\<exists>x. m = Inr x \<and> f x = Inr y)"
  by (cases m) auto

lemma bindE_eq_Inl [fault_simps]:
  "bindE m f = Inl e \<longleftrightarrow> m = Inl e \<or> (\<exists>x. m = Inr x \<and> f x = Inl e)"
  by (cases m) auto

lemma bindE_InrE:
  assumes "bindE m f = Inr y"
  obtains x where "m = Inr x" "f x = Inr y"
  using assms by (cases m) auto

lemma bindE_assoc: "bindE (bindE m f) g = bindE m (\<lambda>x. bindE (f x) g)"
  by (cases m) auto

text \<open>A C \<open>assert\<close> in front of the rest of a function.\<close>

definition assertE :: "bool \<Rightarrow> 'a run \<Rightarrow> 'a run" where
  "assertE P m = (if P then m else Inl Assert_failed)"

lemma assertE_True [simp, fault_simps]: "P \<Longrightarrow> assertE P m = m"
  by (simp add: assertE_def)

lemma assertE_eq_Inr [fault_simps]: "assertE P m = Inr y \<longleftrightarrow> P \<and> m = Inr y"
  by (simp add: assertE_def)

lemma assertE_cong [fundef_cong]: "P = Q \<Longrightarrow> (Q \<Longrightarrow> m = n) \<Longrightarrow> assertE P m = assertE Q n"
  by (simp add: assertE_def)

section \<open>Arrays: bounded reads and writes\<close>

text \<open>An array read that leaves the object is a fault.\<close>

definition arr_get :: "'a list \<Rightarrow> nat \<Rightarrow> 'a run" where
  "arr_get xs i = (if i < length xs then Inr (xs ! i) else Inl Out_of_bounds)"

lemma arr_get_ok [simp]: "i < length xs \<Longrightarrow> arr_get xs i = Inr (xs ! i)"
  by (simp add: arr_get_def)

lemma arr_get_eq_Inr [fault_simps]: "arr_get xs i = Inr x \<longleftrightarrow> i < length xs \<and> x = xs ! i"
  by (auto simp: arr_get_def)

text \<open>\<open>memcpy(dst + off, bs, length bs)\<close>: a write that leaves the object is a fault.\<close>

definition overwrite :: "nat \<Rightarrow> 'a list \<Rightarrow> 'a list \<Rightarrow> 'a list" where
  "overwrite off bs dst = take off dst @ bs @ drop (off + length bs) dst"

definition mem_write :: "nat \<Rightarrow> 'a list \<Rightarrow> 'a list \<Rightarrow> 'a list run" where
  "mem_write off bs dst =
     (if off + length bs \<le> length dst then Inr (overwrite off bs dst) else Inl Out_of_bounds)"

lemma length_overwrite [simp]:
  "off + length bs \<le> length dst \<Longrightarrow> length (overwrite off bs dst) = length dst"
  by (simp add: overwrite_def)

lemma mem_write_ok [simp]:
  "off + length bs \<le> length dst \<Longrightarrow> mem_write off bs dst = Inr (overwrite off bs dst)"
  by (simp add: mem_write_def)

lemma take_overwrite [simp]:
  "off + length bs \<le> length dst \<Longrightarrow> take off (overwrite off bs dst) = take off dst"
  by (simp add: overwrite_def)

lemma overwrite_Nil [simp]: "overwrite off [] dst = dst"
  by (simp add: overwrite_def)

lemma overwrite_single: "off < length dst \<Longrightarrow> overwrite off [x] dst = dst[off := x]"
  by (simp add: overwrite_def upd_conv_take_nth_drop)

text \<open>
  Reading the window from \<open>lo\<close> up to the end of freshly written bytes gives the old window
  followed by the new bytes: the fact behind every \<open>memcpy\<close> into a buffer.
\<close>

lemma window_overwrite:
  assumes "lo \<le> off" and "off + length bs \<le> length dst"
  shows "take (off + length bs - lo) (drop lo (overwrite off bs dst)) = take (off - lo) (drop lo dst) @ bs"
proof -
  have "drop lo (overwrite off bs dst) = drop lo (take off dst) @ bs @ drop (off + length bs) dst"
    using assms by (simp add: overwrite_def)
  moreover have "length (drop lo (take off dst)) = off - lo"
    using assms by simp
  moreover have "off + length bs - lo = (off - lo) + length bs"
    using assms by simp
  ultimately show ?thesis
    by (simp add: drop_take)
qed

section \<open>C strings\<close>

text \<open>
  The string that starts at a \<open>char *\<close> is what precedes the first NUL. \<open>strcmp\<close> and
  \<open>strlen\<close> only see this prefix.
\<close>

definition cstr :: "byte list \<Rightarrow> byte list" where
  "cstr bs = takeWhile (\<lambda>b. b \<noteq> 0) bs"

definition bytes_of :: "string \<Rightarrow> byte list" where
  "bytes_of s = map of_char s"

lemma cstr_append_nul [simp]: "0 \<notin> set s \<Longrightarrow> cstr (s @ 0 # rest) = s"
  unfolding cstr_def by (subst takeWhile_append2) auto

lemma cstr_nul_free: "0 \<notin> set (cstr bs)"
  unfolding cstr_def by (auto dest: set_takeWhileD)

lemma cstr_id: "0 \<notin> set s \<Longrightarrow> cstr s = s"
  unfolding cstr_def by (induction s) auto

lemma cstr_idem [simp]: "cstr (cstr bs) = cstr bs"
  by (rule cstr_id [OF cstr_nul_free])

lemma length_cstr_le: "length (cstr bs) \<le> length bs"
  by (simp add: cstr_def length_takeWhile_le)

lemma cstr_terminated: "cstr (s @ 0 # rest) = cstr s"
  by (induction s) (auto simp: cstr_def)

text \<open>\<open>isprint\<close> and \<open>tolower\<close> in the C locale.\<close>

definition isprint :: "byte \<Rightarrow> bool" where
  "isprint c \<longleftrightarrow> 32 \<le> c \<and> c \<le> 126"

definition tolower :: "byte \<Rightarrow> byte" where
  "tolower c = (if 65 \<le> c \<and> c \<le> 90 then c + 32 else c)"

lemma isprint_nonzero: "isprint c \<Longrightarrow> c \<noteq> 0"
  by (auto simp: isprint_def)

section \<open>Numbers in text\<close>

definition isspace :: "byte \<Rightarrow> bool" where
  "isspace c \<longleftrightarrow> c = 32 \<or> (9 \<le> c \<and> c \<le> 13)"

definition isdigit :: "byte \<Rightarrow> bool" where
  "isdigit c \<longleftrightarrow> 48 \<le> c \<and> c \<le> 57"

definition decimal :: "byte list \<Rightarrow> int" where
  "decimal ds = foldl (\<lambda>v c. 10 * v + (uint c - 48)) 0 ds"

text \<open>
  \<open>strtol(s, &end, 10)\<close>: the value, clamped to \<open>long\<close>, and what is left at \<open>end\<close>; \<open>end = s\<close> if there
  are no digits.
\<close>

definition strtol :: "byte list \<Rightarrow> int \<times> byte list" where
  "strtol s =
     (let s1 = dropWhile isspace s;
          neg = (s1 \<noteq> [] \<and> hd s1 = 45);
          s2 = (if s1 \<noteq> [] \<and> (hd s1 = 45 \<or> hd s1 = 43) then tl s1 else s1);
          ds = takeWhile isdigit s2;
          v = decimal ds
      in if ds = [] then (0, s)
         else (if neg then max (- v) (- (2 ^ 63)) else min v (2 ^ 63 - 1), drop (length ds) s2))"

text \<open>On digits alone.\<close>

lemma strtol_digits:
  assumes "\<forall>c\<in>set ds. isdigit c" and "ds \<noteq> []"
  shows "strtol ds = (min (decimal ds) (2 ^ 63 - 1), [])"
proof -
  have no: "\<not> isspace c \<and> c \<noteq> 45 \<and> c \<noteq> 43" if "isdigit c" for c
    using that by (auto simp: isdigit_def isspace_def word_le_nat_alt)
  have "dropWhile isspace ds = ds" "hd ds \<noteq> 45 \<and> hd ds \<noteq> 43"
    using assms no by (cases ds; simp)+
  moreover have "takeWhile isdigit ds = ds"
    using assms(1) by simp
  ultimately show ?thesis
    using assms(2) by (simp add: strtol_def Let_def del: takeWhile_eq_all_conv)
qed

text \<open>Decimal digits, as \<open>%lu\<close> and \<open>%d\<close> print them.\<close>

fun show_nat :: "nat \<Rightarrow> byte list" where
  "show_nat n = (if n < 10 then [of_nat (48 + n)] else show_nat (n div 10) @ [of_nat (48 + n mod 10)])"

declare show_nat.simps [simp del]

definition show_int :: "int \<Rightarrow> byte list" where
  "show_int n = (if n < 0 then 45 # show_nat (nat (- n)) else show_nat (nat n))"

lemma length_show_nat: "n < 10 ^ k \<Longrightarrow> 0 < k \<Longrightarrow> length (show_nat n) \<le> k"
proof (induction n arbitrary: k rule: show_nat.induct)
  case (1 n)
  show ?case
  proof (cases "n < 10")
    case True
    then show ?thesis using 1(3) by (subst show_nat.simps) simp
  next
    case False
    then have "k \<noteq> 1" using 1(2) by auto
    with 1(3) obtain j where j: "k = Suc j" "0 < j" by (cases k) auto
    then have "n div 10 < 10 ^ j" using 1(2) by (simp add: less_mult_imp_div_less mult.commute)
    then have "length (show_nat (n div 10)) \<le> j" using 1(1) False j(2) by blast
    then show ?thesis using False j by (subst show_nat.simps) simp
  qed
qed

lemma show_nat_no_nul: "0 \<notin> set (show_nat n)"
proof (induction n rule: show_nat.induct)
  case (1 n)
  have "of_nat (48 + k) \<noteq> (0 :: byte)" if "k < 10" for k
  proof -
    have "unat (of_nat (48 + k) :: byte) = 48 + k" using that by (simp add: unat_of_nat del: of_nat_add)
    then show ?thesis by (metis add_is_0 unat_0 zero_neq_numeral)
  qed
  then have nz: "n < 10 \<Longrightarrow> of_nat (48 + n) \<noteq> (0 :: byte)" "of_nat (48 + n mod 10) \<noteq> (0 :: byte)" by simp_all
  show ?case
  proof (cases "n < 10")
    case True
    then show ?thesis using nz(1) by (subst show_nat.simps) (simp del: of_nat_add)
  next
    case False
    then show ?thesis using nz(2) 1 [OF False] by (subst show_nat.simps) (simp del: of_nat_add)
  qed
qed

section \<open>Flag words\<close>

text \<open>The macro \<open>hasFlag(x, f)\<close>: some bit of \<open>f\<close> is set in \<open>x\<close>.\<close>

type_synonym flags = "32 word"

definition hasFlag :: "flags \<Rightarrow> flags \<Rightarrow> bool" where
  "hasFlag x f \<longleftrightarrow> x AND f \<noteq> 0"

lemma hasFlag_bit: "hasFlag x f \<longleftrightarrow> (\<exists>n. bit x n \<and> bit f n)"
proof -
  have "n < 32" if "bit x n" for n
    using bit_imp_le_length [OF that] by simp
  then show ?thesis
    by (auto simp: hasFlag_def bit_eq_iff bit_and_iff)
qed

lemma hasFlag_or: "hasFlag x (f OR g) \<longleftrightarrow> hasFlag x f \<or> hasFlag x g"
  by (auto simp: hasFlag_bit bit_or_iff)

lemma hasFlag_zero [simp]: "\<not> hasFlag 0 f" and hasFlag_none [simp]: "\<not> hasFlag x 0"
  by (simp_all add: hasFlag_def)

end
