(* ===== verification/Selector.thy ===== *)
theory Selector
  imports Socks_Prelude
begin

text \<open>
  \<open>src/selector.c\<close>: the I/O multiplexer. The struct \<open>fdselector\<close> is a record that the server's
  world extends, so that callbacks, which receive the selector through their key, act on the
  whole world. A handler is an identifier \<open>'h\<close> looked up in a table of optional callbacks;
  \<open>data\<close> pointers are values of a type \<open>'d\<close>. \<open>fd_set\<close>s are sets of descriptors.

  Answers of the system (allocation, \<open>pselect\<close>, \<open>fcntl\<close>, \<open>sigaction\<close>) are arguments. A pointer
  \<open>s->fds + fd\<close> outside the array is \<open>Out_of_bounds\<close>. The guards \<open>s == NULL\<close> do not appear: an
  operation takes the struct the pointer leads to.
\<close>

section \<open>Types\<close>

datatype selector_status =
  SELECTOR_SUCCESS | SELECTOR_ENOMEM | SELECTOR_MAXFD | SELECTOR_IARGS | SELECTOR_FDINUSE | SELECTOR_IO

definition selector_error :: "selector_status \<Rightarrow> string" where
  "selector_error status =
     (case status of
        SELECTOR_SUCCESS \<Rightarrow> ''Success''
      | SELECTOR_ENOMEM \<Rightarrow> ''Not enough memory''
      | SELECTOR_MAXFD \<Rightarrow> ''Can''@ [CHR 0x27] @ ''t handle any more file descriptors''
      | SELECTOR_IARGS \<Rightarrow> ''Illegal argument''
      | SELECTOR_IO \<Rightarrow> ''I/O error''
      | _ \<Rightarrow> ''something failed'')"

text \<open>\<open>fd_interest\<close>: powers of two combined with the bitwise operators.\<close>

definition OP_NOOP :: flags where "OP_NOOP = 0"
definition OP_READ :: flags where "OP_READ = 1"
definition OP_WRITE :: flags where "OP_WRITE = 4"

definition INTEREST_OFF :: "flags \<Rightarrow> flags \<Rightarrow> flags" where
  "INTEREST_OFF flag msk = flag AND NOT msk"

record ('h, 'd) item =
  it_fd :: int
  it_interest :: flags
  it_mask :: flags
  it_handler :: "'h option"
  it_data :: "'d option"

definition FD_UNUSED :: int where "FD_UNUSED = -1"

definition ITEM_USED :: "('h, 'd) item \<Rightarrow> bool" where
  "ITEM_USED it \<longleftrightarrow> FD_UNUSED \<noteq> it_fd it"

text \<open>The configuration given to \<open>selector_init\<close>.\<close>

record selector_init =
  conf_signal :: int
  conf_tv_sec :: int
  conf_tv_nsec :: int

record ('h, 'd) fdselector =
  fds :: "('h, 'd) item list option"
  fd_size :: nat
  max_fd :: int
  master_r :: "int set"
  master_w :: "int set"
  slave_r :: "int set"
  slave_w :: "int set"
  master_t :: "int \<times> int"
  slave_t :: "int \<times> int"
  resolution_jobs :: "int list"

record 'd selector_key =
  key_fd :: int
  key_data :: "'d option"

record ('d, 'w) fd_handler =
  handle_read :: "('d selector_key \<Rightarrow> 'w \<Rightarrow> 'w run) option"
  handle_write :: "('d selector_key \<Rightarrow> 'w \<Rightarrow> 'w run) option"
  handle_block :: "('d selector_key \<Rightarrow> 'w \<Rightarrow> 'w run) option"
  handle_close :: "('d selector_key \<Rightarrow> 'w \<Rightarrow> 'w run) option"

definition ITEMS_MAX_SIZE :: nat where "ITEMS_MAX_SIZE = 1024"

definition INVALID_FD :: "int \<Rightarrow> bool" where
  "INVALID_FD fd \<longleftrightarrow> fd < 0 \<or> fd \<ge> int ITEMS_MAX_SIZE"

section \<open>Set-up of the library\<close>

text \<open>\<open>sigprocmask_ret\<close> and \<open>sigaction_ret\<close> are the results of the two calls.\<close>

definition selector_init_lib ::
  "selector_init \<Rightarrow> int \<Rightarrow> int \<Rightarrow> selector_status \<times> selector_init" where
  "selector_init_lib c sigprocmask_ret sigaction_ret =
     (if -1 = sigprocmask_ret then (SELECTOR_IO, c)
      else if sigaction_ret \<noteq> 0 then (SELECTOR_IO, c)
      else (SELECTOR_SUCCESS, c))"

definition selector_close :: selector_status where
  "selector_close = SELECTOR_SUCCESS"

section \<open>The table of items\<close>

text \<open>The loop of \<open>next_capacity\<close>: the number of bits of \<open>tmp\<close>.\<close>

fun capacity_bits :: "nat \<Rightarrow> nat" where
  "capacity_bits tmp = (if tmp \<noteq> 0 then Suc (capacity_bits (tmp div 2)) else 0)"

declare capacity_bits.simps [simp del]

definition next_capacity :: "nat \<Rightarrow> nat run" where
  "next_capacity n =
     (let tmp = 2 ^ capacity_bits n in
      assertE (tmp \<ge> n) (Inr ((if tmp > ITEMS_MAX_SIZE then ITEMS_MAX_SIZE else tmp) + 1)))"

definition item_init :: "('h, 'd) item \<Rightarrow> ('h, 'd) item" where
  "item_init it = it\<lparr>it_fd := FD_UNUSED\<rparr>"

text \<open>An item of zeroed memory, as \<open>calloc\<close> and \<open>memset(item, 0, sizeof *item)\<close> leave it.\<close>

definition zero_item :: "('h, 'd) item" where
  "zero_item = \<lparr>it_fd = 0, it_interest = 0, it_mask = 0, it_handler = None, it_data = None\<rparr>"

definition items_init :: "nat \<Rightarrow> ('h, 'd, 'z) fdselector_scheme \<Rightarrow> ('h, 'd, 'z) fdselector_scheme run" where
  "items_init old s =
     assertE (old \<le> fd_size s)
       (case fds s of
          None \<Rightarrow> Inl Null_deref
        | Some xs \<Rightarrow>
            if fd_size s \<le> length xs
            then Inr (s\<lparr>fds := Some (take old xs @ map item_init (drop old (take (fd_size s) xs))
                                      @ drop (fd_size s) xs)\<rparr>)
            else Inl Out_of_bounds)"

text \<open>The pointer \<open>s->fds + fd\<close>, dereferenced.\<close>

definition item_at :: "('h, 'd, 'z) fdselector_scheme \<Rightarrow> int \<Rightarrow> ('h, 'd) item run" where
  "item_at s fd =
     (case fds s of
        None \<Rightarrow> Inl Null_deref
      | Some xs \<Rightarrow> if fd < 0 then Inl Out_of_bounds else arr_get xs (nat fd))"

definition put_item ::
  "int \<Rightarrow> ('h, 'd) item \<Rightarrow> ('h, 'd, 'z) fdselector_scheme \<Rightarrow> ('h, 'd, 'z) fdselector_scheme" where
  "put_item fd it s = s\<lparr>fds := map_option (\<lambda>xs. xs[nat fd := it]) (fds s)\<rparr>"

text \<open>The loop of \<open>items_max_fd\<close>: \<open>i\<close> runs over \<open>n\<close> indices, \<open>mx\<close> is the maximum so far.\<close>

fun max_fd_loop :: "('h, 'd, 'z) fdselector_scheme \<Rightarrow> int \<Rightarrow> nat \<Rightarrow> int \<Rightarrow> int run" where
  "max_fd_loop s i 0 mx = Inr mx"
| "max_fd_loop s i (Suc n) mx =
     bindE (item_at s i) (\<lambda>it.
     max_fd_loop s (i + 1) n (if ITEM_USED it \<and> it_fd it > mx then it_fd it else mx))"

definition items_max_fd :: "('h, 'd, 'z) fdselector_scheme \<Rightarrow> int run" where
  "items_max_fd s = max_fd_loop s 0 (nat (max_fd s + 1)) 0"

definition items_update_fdset_for_fd ::
  "('h, 'd) item \<Rightarrow> ('h, 'd, 'z) fdselector_scheme \<Rightarrow> ('h, 'd, 'z) fdselector_scheme" where
  "items_update_fdset_for_fd it s =
     (let s1 = s\<lparr>master_r := master_r s - {it_fd it}, master_w := master_w s - {it_fd it}\<rparr> in
      if ITEM_USED it
      then let s2 = (if hasFlag (it_interest it AND it_mask it) OP_READ
                     then s1\<lparr>master_r := insert (it_fd it) (master_r s1)\<rparr> else s1)
           in (if hasFlag (it_interest it AND it_mask it) OP_WRITE
               then s2\<lparr>master_w := insert (it_fd it) (master_w s2)\<rparr> else s2)
      else s1)"

text \<open>
  \<open>alloc\<close> tells whether \<open>calloc\<close> or \<open>realloc\<close> succeeds for a number of elements; \<open>junk\<close> is what
  the memory that \<open>realloc\<close> adds happens to hold. An item takes 32 bytes.
\<close>

definition ensure_capacity ::
  "(nat \<Rightarrow> bool) \<Rightarrow> ('h, 'd) item \<Rightarrow> nat \<Rightarrow> ('h, 'd, 'z) fdselector_scheme
   \<Rightarrow> (selector_status \<times> ('h, 'd, 'z) fdselector_scheme) run" where
  "ensure_capacity alloc junk n s =
     (if n < fd_size s then Inr (SELECTOR_SUCCESS, s)
      else if n > ITEMS_MAX_SIZE then Inr (SELECTOR_MAXFD, s)
      else case fds s of
        None \<Rightarrow>
          bindE (next_capacity n) (\<lambda>new_size.
          if \<not> alloc new_size then Inr (SELECTOR_ENOMEM, s)
          else bindE (items_init 0 (s\<lparr>fds := Some (replicate new_size zero_item), fd_size := new_size\<rparr>)) (\<lambda>s1.
               Inr (SELECTOR_SUCCESS, s1)))
      | Some xs \<Rightarrow>
          bindE (next_capacity n) (\<lambda>new_size.
          if new_size > (2 ^ 64 - 1) div 32 then Inr (SELECTOR_ENOMEM, s)
          else if \<not> alloc new_size then Inr (SELECTOR_ENOMEM, s)
          else bindE (items_init (fd_size s)
                 (s\<lparr>fds := Some (take new_size (xs @ replicate new_size junk)), fd_size := new_size\<rparr>)) (\<lambda>s1.
               Inr (SELECTOR_SUCCESS, s1))))"

section \<open>Registration\<close>

definition selector_register ::
  "(nat \<Rightarrow> bool) \<Rightarrow> ('h, 'd) item \<Rightarrow> int \<Rightarrow> 'h option \<Rightarrow> flags \<Rightarrow> 'd option
   \<Rightarrow> ('h, 'd, 'z) fdselector_scheme \<Rightarrow> (selector_status \<times> ('h, 'd, 'z) fdselector_scheme) run" where
  "selector_register alloc junk fd handler interest data s =
     (if INVALID_FD fd \<or> handler = None then Inr (SELECTOR_IARGS, s)
      else bindE (if nat fd > fd_size s then ensure_capacity alloc junk (nat fd) s
                  else Inr (SELECTOR_SUCCESS, s)) (\<lambda>(ret, s1).
           if ret \<noteq> SELECTOR_SUCCESS then Inr (ret, s1)
           else bindE (item_at s1 fd) (\<lambda>it.
                if ITEM_USED it then Inr (SELECTOR_FDINUSE, s1)
                else let it1 = it\<lparr>it_fd := fd, it_handler := handler, it_interest := interest,
                                  it_mask := NOT 0, it_data := data\<rparr>;
                         s2 = put_item fd it1 s1;
                         s3 = (if fd > max_fd s2 then s2\<lparr>max_fd := fd\<rparr> else s2)
                     in Inr (SELECTOR_SUCCESS, items_update_fdset_for_fd it1 s3))))"

text \<open>\<open>H\<close> is the table of handlers; the close callback runs before the item is wiped.\<close>

definition selector_unregister_fd ::
  "('h \<Rightarrow> ('d, ('h, 'd, 'z) fdselector_scheme) fd_handler) \<Rightarrow> int
   \<Rightarrow> ('h, 'd, 'z) fdselector_scheme \<Rightarrow> (selector_status \<times> ('h, 'd, 'z) fdselector_scheme) run" where
  "selector_unregister_fd H fd s =
     (if INVALID_FD fd then Inr (SELECTOR_IARGS, s)
      else bindE (item_at s fd) (\<lambda>it.
           if \<not> ITEM_USED it then Inr (SELECTOR_IARGS, s)
           else case it_handler it of
             None \<Rightarrow> Inl Null_deref
           | Some h \<Rightarrow>
               bindE (case handle_close (H h) of
                        None \<Rightarrow> Inr s
                      | Some f \<Rightarrow> f \<lparr>key_fd = it_fd it, key_data = it_data it\<rparr> s) (\<lambda>s1.
               bindE (item_at s1 fd) (\<lambda>it0.
               let it1 = it0\<lparr>it_interest := OP_NOOP\<rparr>;
                   s2 = items_update_fdset_for_fd it1 (put_item fd it1 s1);
                   s3 = put_item fd (item_init zero_item) s2
               in bindE (items_max_fd s3) (\<lambda>mx. Inr (SELECTOR_SUCCESS, s3\<lparr>max_fd := mx\<rparr>))))))"

section \<open>Interests\<close>

text \<open>
  The five functions that change interests share their guards and the update of the
  descriptor sets; they differ in the assignment to the item.
\<close>

definition change_item ::
  "(('h, 'd) item \<Rightarrow> ('h, 'd) item) \<Rightarrow> int \<Rightarrow> ('h, 'd, 'z) fdselector_scheme
   \<Rightarrow> (selector_status \<times> ('h, 'd, 'z) fdselector_scheme) run" where
  "change_item f fd s =
     (if INVALID_FD fd then Inr (SELECTOR_IARGS, s)
      else bindE (item_at s fd) (\<lambda>it.
           if \<not> ITEM_USED it then Inr (SELECTOR_IARGS, s)
           else Inr (SELECTOR_SUCCESS, items_update_fdset_for_fd (f it) (put_item fd (f it) s))))"

definition selector_set_interest ::
  "int \<Rightarrow> flags \<Rightarrow> ('h, 'd, 'z) fdselector_scheme \<Rightarrow> (selector_status \<times> ('h, 'd, 'z) fdselector_scheme) run" where
  "selector_set_interest fd i s = change_item (\<lambda>it. it\<lparr>it_interest := i\<rparr>) fd s"

definition selector_add_interest ::
  "int \<Rightarrow> flags \<Rightarrow> ('h, 'd, 'z) fdselector_scheme \<Rightarrow> (selector_status \<times> ('h, 'd, 'z) fdselector_scheme) run" where
  "selector_add_interest fd i s =
     change_item (\<lambda>it. it\<lparr>it_interest := it_interest it OR i, it_mask := it_mask it OR i\<rparr>) fd s"

definition selector_unmask_interest ::
  "int \<Rightarrow> flags \<Rightarrow> ('h, 'd, 'z) fdselector_scheme \<Rightarrow> (selector_status \<times> ('h, 'd, 'z) fdselector_scheme) run" where
  "selector_unmask_interest fd i s = change_item (\<lambda>it. it\<lparr>it_mask := it_mask it OR i\<rparr>) fd s"

definition selector_remove_interest ::
  "int \<Rightarrow> flags \<Rightarrow> ('h, 'd, 'z) fdselector_scheme \<Rightarrow> (selector_status \<times> ('h, 'd, 'z) fdselector_scheme) run" where
  "selector_remove_interest fd i s = change_item (\<lambda>it. it\<lparr>it_interest := it_interest it AND NOT i\<rparr>) fd s"

definition selector_mask_interest ::
  "int \<Rightarrow> flags \<Rightarrow> ('h, 'd, 'z) fdselector_scheme \<Rightarrow> (selector_status \<times> ('h, 'd, 'z) fdselector_scheme) run" where
  "selector_mask_interest fd i s = change_item (\<lambda>it. it\<lparr>it_mask := it_mask it AND NOT i\<rparr>) fd s"

definition selector_set_interest_key ::
  "'d selector_key option \<Rightarrow> flags \<Rightarrow> ('h, 'd, 'z) fdselector_scheme
   \<Rightarrow> (selector_status \<times> ('h, 'd, 'z) fdselector_scheme) run" where
  "selector_set_interest_key key i s =
     (case key of
        None \<Rightarrow> Inr (SELECTOR_IARGS, s)
      | Some k \<Rightarrow> if INVALID_FD (key_fd k) then Inr (SELECTOR_IARGS, s)
                  else selector_set_interest (key_fd k) i s)"

section \<open>One round of the event loop\<close>

text \<open>
  The pointer \<open>item\<close> is taken before the read callback runs and used again after it; if the
  callback made the table move, that use is of freed memory.
\<close>

definition same_table :: "('h, 'd, 'z) fdselector_scheme \<Rightarrow> ('h, 'd, 'z) fdselector_scheme \<Rightarrow> bool" where
  "same_table s s1 \<longleftrightarrow> map_option length (fds s) = map_option length (fds s1)"

definition fire ::
  "('d selector_key \<Rightarrow> ('h, 'd, 'z) fdselector_scheme \<Rightarrow> ('h, 'd, 'z) fdselector_scheme run) option
   \<Rightarrow> 'd selector_key \<Rightarrow> ('h, 'd, 'z) fdselector_scheme \<Rightarrow> ('h, 'd, 'z) fdselector_scheme run" where
  "fire cb key s = (case cb of None \<Rightarrow> Inl Assert_failed | Some f \<Rightarrow> f key s)"

definition handle_item ::
  "('h \<Rightarrow> ('d, ('h, 'd, 'z) fdselector_scheme) fd_handler) \<Rightarrow> int
   \<Rightarrow> ('h, 'd, 'z) fdselector_scheme \<Rightarrow> ('h, 'd, 'z) fdselector_scheme run" where
  "handle_item H i s =
     bindE (item_at s i) (\<lambda>it.
     if \<not> ITEM_USED it then Inr s
     else case it_handler it of
       None \<Rightarrow> Inl Null_deref
     | Some h \<Rightarrow>
         let key = \<lparr>key_fd = it_fd it, key_data = it_data it\<rparr> in
         bindE (if it_fd it \<in> slave_r s \<and> hasFlag OP_READ (it_interest it)
                then fire (handle_read (H h)) key s else Inr s) (\<lambda>s1.
         if \<not> same_table s s1 then Inl Use_after_free
         else if i \<in> slave_w s1
         then bindE (item_at s1 i) (\<lambda>it1.
              if hasFlag OP_WRITE (it_interest it1)
              then (case it_handler it1 of
                      None \<Rightarrow> Inl Null_deref
                    | Some h1 \<Rightarrow> fire (handle_write (H h1)) key s1)
              else Inr s1)
         else Inr s1))"

fun handle_items ::
  "('h \<Rightarrow> ('d, ('h, 'd, 'z) fdselector_scheme) fd_handler) \<Rightarrow> int \<Rightarrow> nat
   \<Rightarrow> ('h, 'd, 'z) fdselector_scheme \<Rightarrow> ('h, 'd, 'z) fdselector_scheme run" where
  "handle_items H i 0 s = Inr s"
| "handle_items H i (Suc n) s = bindE (handle_item H i s) (handle_items H (i + 1) n)"

definition handle_iteration ::
  "('h \<Rightarrow> ('d, ('h, 'd, 'z) fdselector_scheme) fd_handler)
   \<Rightarrow> ('h, 'd, 'z) fdselector_scheme \<Rightarrow> ('h, 'd, 'z) fdselector_scheme run" where
  "handle_iteration H s = handle_items H 0 (nat (max_fd s + 1)) s"

fun handle_jobs ::
  "('h \<Rightarrow> ('d, ('h, 'd, 'z) fdselector_scheme) fd_handler) \<Rightarrow> int list
   \<Rightarrow> ('h, 'd, 'z) fdselector_scheme \<Rightarrow> ('h, 'd, 'z) fdselector_scheme run" where
  "handle_jobs H [] s = Inr s"
| "handle_jobs H (j # js) s =
     bindE (item_at s j) (\<lambda>it.
     bindE (if ITEM_USED it
            then (case it_handler it of
                    None \<Rightarrow> Inl Null_deref
                  | Some h \<Rightarrow> (case handle_block (H h) of
                      None \<Rightarrow> Inl Null_deref
                    | Some f \<Rightarrow> f \<lparr>key_fd = it_fd it, key_data = it_data it\<rparr> s))
            else Inr s) (handle_jobs H js))"

text \<open>The mutex keeps other threads out, so the list read at the start is the list cleared at the end.\<close>

definition handle_block_notifications ::
  "('h \<Rightarrow> ('d, ('h, 'd, 'z) fdselector_scheme) fd_handler)
   \<Rightarrow> ('h, 'd, 'z) fdselector_scheme \<Rightarrow> ('h, 'd, 'z) fdselector_scheme run" where
  "handle_block_notifications H s =
     bindE (handle_jobs H (resolution_jobs s) s) (\<lambda>s1. Inr (s1\<lparr>resolution_jobs := []\<rparr>))"

definition selector_notify_block ::
  "bool \<Rightarrow> int \<Rightarrow> ('h, 'd, 'z) fdselector_scheme \<Rightarrow> selector_status \<times> ('h, 'd, 'z) fdselector_scheme" where
  "selector_notify_block malloc_ok fd s =
     (if \<not> malloc_ok then (SELECTOR_ENOMEM, s)
      else (SELECTOR_SUCCESS, s\<lparr>resolution_jobs := fd # resolution_jobs s\<rparr>))"

text \<open>The answer of \<open>pselect\<close>: the ready descriptors of each set, or \<open>errno\<close>.\<close>

datatype psel_res = Psel_ready "int set" "int set" | Psel_err int

definition EINTR :: int where "EINTR = 4"
definition EBADF :: int where "EBADF = 9"
definition EAGAIN_sel :: int where "EAGAIN_sel = 11"

definition selector_select ::
  "('h \<Rightarrow> ('d, ('h, 'd, 'z) fdselector_scheme) fd_handler) \<Rightarrow> (int set \<Rightarrow> int set \<Rightarrow> psel_res)
   \<Rightarrow> ('h, 'd, 'z) fdselector_scheme \<Rightarrow> (selector_status \<times> ('h, 'd, 'z) fdselector_scheme) run" where
  "selector_select H psel s =
     (let s1 = s\<lparr>slave_r := master_r s, slave_w := master_w s, slave_t := master_t s\<rparr> in
      case psel (slave_r s1) (slave_w s1) of
        Psel_err e \<Rightarrow>
          if e = EAGAIN_sel \<or> e = EINTR
          then bindE (handle_block_notifications H s1) (\<lambda>s2. Inr (SELECTOR_SUCCESS, s2))
          else Inr (SELECTOR_IO, s1)
      | Psel_ready rs ws \<Rightarrow>
          bindE (handle_iteration H (s1\<lparr>slave_r := rs, slave_w := ws\<rparr>)) (\<lambda>s2.
          bindE (handle_block_notifications H s2) (\<lambda>s3. Inr (SELECTOR_SUCCESS, s3))))"

definition O_NONBLOCK :: int where "O_NONBLOCK = 2048"

text \<open>\<open>getfd\<close> is the answer of \<open>fcntl(fd, F_GETFD)\<close>, \<open>setfl\<close> that of \<open>fcntl(fd, F_SETFL, flags)\<close>.\<close>

definition selector_fd_set_nio :: "int \<Rightarrow> (int \<Rightarrow> int) \<Rightarrow> int" where
  "selector_fd_set_nio getfd setfl =
     (if getfd = -1 then -1 else if setfl (getfd OR O_NONBLOCK) = -1 then -1 else 0)"

section \<open>Creation and destruction\<close>

fun unregister_all ::
  "('h \<Rightarrow> ('d, ('h, 'd, 'z) fdselector_scheme) fd_handler) \<Rightarrow> int \<Rightarrow> nat
   \<Rightarrow> ('h, 'd, 'z) fdselector_scheme \<Rightarrow> ('h, 'd, 'z) fdselector_scheme run" where
  "unregister_all H i 0 s = Inr s"
| "unregister_all H i (Suc n) s =
     bindE (item_at s i) (\<lambda>it.
     bindE (if ITEM_USED it then selector_unregister_fd H i s else Inr (SELECTOR_SUCCESS, s)) (\<lambda>(ret, s1).
     unregister_all H (i + 1) n s1))"

definition selector_destroy ::
  "('h \<Rightarrow> ('d, ('h, 'd, 'z) fdselector_scheme) fd_handler)
   \<Rightarrow> ('h, 'd, 'z) fdselector_scheme \<Rightarrow> ('h, 'd, 'z) fdselector_scheme run" where
  "selector_destroy H s =
     (case fds s of
        None \<Rightarrow> Inr s
      | Some _ \<Rightarrow>
          bindE (unregister_all H 0 (fd_size s) s) (\<lambda>s1.
          Inr (s1\<lparr>resolution_jobs := [], fds := None, fd_size := 0\<rparr>)))"

text \<open>
  \<open>selector_new\<close> fills the selector part of \<open>s\<close> (freshly allocated memory if \<open>malloc_ok\<close>);
  \<open>None\<close> is the null pointer.
\<close>

definition selector_new ::
  "('h \<Rightarrow> ('d, ('h, 'd, 'z) fdselector_scheme) fd_handler) \<Rightarrow> selector_init \<Rightarrow> bool \<Rightarrow> (nat \<Rightarrow> bool)
   \<Rightarrow> ('h, 'd) item \<Rightarrow> nat \<Rightarrow> ('h, 'd, 'z) fdselector_scheme
   \<Rightarrow> ('h, 'd, 'z) fdselector_scheme option run" where
  "selector_new H conf malloc_ok alloc junk initial_elements s =
     (if \<not> malloc_ok then Inr None
      else let s0 = s\<lparr>fds := None, fd_size := 0, max_fd := 0, master_r := {}, master_w := {},
                      slave_r := {}, slave_w := {}, master_t := (conf_tv_sec conf, conf_tv_nsec conf),
                      slave_t := (0, 0), resolution_jobs := []\<rparr>
           in bindE (ensure_capacity alloc junk initial_elements s0) (\<lambda>(ret, s1).
              if ret \<noteq> SELECTOR_SUCCESS then bindE (selector_destroy H s1) (\<lambda>_. Inr None)
              else Inr (Some s1)))"

section \<open>Abstraction: the registered descriptors\<close>

text \<open>
  The abstract selector is a finite map from descriptors to items. \<open>sel_wf\<close> is the invariant of
  a selector with room for every descriptor of the platform, as \<open>selector_new(1024)\<close> makes it:
  items sit at their own index, the descriptor sets given to \<open>pselect\<close> are exactly the effective
  interests, and \<open>max_fd\<close> is the greatest registered descriptor.
\<close>

definition registered :: "('h, 'd, 'z) fdselector_scheme \<Rightarrow> int \<Rightarrow> ('h, 'd) item option" where
  "registered s fd =
     (case fds s of
        None \<Rightarrow> None
      | Some xs \<Rightarrow> if 0 \<le> fd \<and> nat fd < length xs \<and> ITEM_USED (xs ! nat fd) then Some (xs ! nat fd) else None)"

definition wants :: "flags \<Rightarrow> ('h, 'd) item \<Rightarrow> bool" where
  "wants op it \<longleftrightarrow> hasFlag (it_interest it AND it_mask it) op"

definition interested :: "flags \<Rightarrow> (int \<Rightarrow> ('h, 'd) item option) \<Rightarrow> int set" where
  "interested op m = {fd. \<exists>it. m fd = Some it \<and> wants op it}"

definition item_ok :: "int \<Rightarrow> int \<Rightarrow> ('h, 'd) item \<Rightarrow> bool" where
  "item_ok mx fd it \<longleftrightarrow> it_fd it = fd \<and> 0 \<le> fd \<and> fd < int ITEMS_MAX_SIZE \<and> it_handler it \<noteq> None \<and> fd \<le> mx"

definition sel_wf :: "('h, 'd, 'z) fdselector_scheme \<Rightarrow> bool" where
  "sel_wf s \<longleftrightarrow>
     (\<exists>xs. fds s = Some xs \<and> length xs = fd_size s) \<and> ITEMS_MAX_SIZE < fd_size s
     \<and> (\<forall>fd it. registered s fd = Some it \<longrightarrow> item_ok (max_fd s) fd it)
     \<and> 0 \<le> max_fd s \<and> max_fd s < int ITEMS_MAX_SIZE
     \<and> (max_fd s = 0 \<or> registered s (max_fd s) \<noteq> None)
     \<and> master_r s = interested OP_READ (registered s) \<and> master_w s = interested OP_WRITE (registered s)"

lemma sel_wf_table:
  assumes "sel_wf s"
  obtains xs where "fds s = Some xs" "length xs = fd_size s" "ITEMS_MAX_SIZE < length xs"
  using assms by (auto simp: sel_wf_def)

lemma item_at_valid:
  assumes "sel_wf s" and "\<not> INVALID_FD fd"
  obtains it where "item_at s fd = Inr it" "registered s fd = (if ITEM_USED it then Some it else None)"
proof -
  obtain xs where xs: "fds s = Some xs" "ITEMS_MAX_SIZE < length xs"
    using sel_wf_table [OF assms(1)] by metis
  moreover have "0 \<le> fd" "nat fd < length xs"
    using assms(2) xs(2) by (auto simp: INVALID_FD_def)
  ultimately show thesis
    using that [of "xs ! nat fd"] by (simp add: item_at_def registered_def)
qed

lemma sel_wf_item: "sel_wf s \<Longrightarrow> registered s fd = Some it \<Longrightarrow> item_ok (max_fd s) fd it"
  unfolding sel_wf_def by blast

lemma registered_valid: "sel_wf s \<Longrightarrow> registered s fd = Some it \<Longrightarrow> \<not> INVALID_FD fd"
  using sel_wf_item [of s fd it] by (simp add: item_ok_def INVALID_FD_def)

lemma registered_put_item:
  assumes "sel_wf s" and "\<not> INVALID_FD fd"
  shows "registered (put_item fd it s) = (registered s)(fd := if ITEM_USED it then Some it else None)"
proof
  fix fd'
  obtain xs where xs: "fds s = Some xs" "ITEMS_MAX_SIZE < length xs"
    using sel_wf_table [OF assms(1)] by metis
  have fd: "0 \<le> fd" "nat fd < length xs"
    using assms(2) xs(2) by (auto simp: INVALID_FD_def)
  have other: "nat fd \<noteq> nat fd'" if "fd' \<noteq> fd" "0 \<le> fd'"
    using that fd by auto
  show "registered (put_item fd it s) fd' = ((registered s)(fd := if ITEM_USED it then Some it else None)) fd'"
    using xs(1) fd other by (cases "fd' = fd"; cases "0 \<le> fd'") (simp_all add: registered_def put_item_def)
qed

lemma registered_update_fdset [simp]:
  "registered (items_update_fdset_for_fd it s) = registered s"
  by (rule ext) (simp add: registered_def items_update_fdset_for_fd_def Let_def)

lemma registered_other_fields [simp]:
  "registered (s\<lparr>max_fd := m\<rparr>) = registered s" "registered (s\<lparr>slave_r := a\<rparr>) = registered s"
  "registered (s\<lparr>slave_w := b\<rparr>) = registered s" "registered (s\<lparr>slave_t := t\<rparr>) = registered s"
  "registered (s\<lparr>resolution_jobs := js\<rparr>) = registered s"
  by (simp_all add: registered_def fun_eq_iff)

lemma update_fdset_fields [simp]:
  "fds (items_update_fdset_for_fd it s) = fds s" "fd_size (items_update_fdset_for_fd it s) = fd_size s"
  "max_fd (items_update_fdset_for_fd it s) = max_fd s"
  by (simp_all add: items_update_fdset_for_fd_def Let_def)

lemma put_item_fields [simp]:
  "fd_size (put_item fd it s) = fd_size s" "max_fd (put_item fd it s) = max_fd s"
  "master_r (put_item fd it s) = master_r s" "master_w (put_item fd it s) = master_w s"
  "map_option length (fds (put_item fd it s)) = map_option length (fds s)"
  by (simp_all add: put_item_def option.map_comp comp_def)

lemma update_fdset_sets:
  "master_r (items_update_fdset_for_fd it s) =
     (if ITEM_USED it \<and> wants OP_READ it then insert (it_fd it) (master_r s) else master_r s - {it_fd it})"
  "master_w (items_update_fdset_for_fd it s) =
     (if ITEM_USED it \<and> wants OP_WRITE it then insert (it_fd it) (master_w s) else master_w s - {it_fd it})"
  by (auto simp: items_update_fdset_for_fd_def wants_def Let_def)

text \<open>\<open>items_update_fdset_for_fd\<close> keeps the sets in step with the map.\<close>

lemma interested_update:
  "interested op (m(fd \<mapsto> it)) = (if wants op it then insert fd (interested op m) else interested op m - {fd})"
  "interested op (m(fd := None)) = interested op m - {fd}"
  by (auto simp: interested_def)

lemma table_length:
  "map_option length (fds s') = map_option length (fds s) \<Longrightarrow> \<exists>xs. fds s = Some xs \<and> length xs = n \<Longrightarrow>
   \<exists>xs. fds s' = Some xs \<and> length xs = n"
  by (cases "fds s'") auto

text \<open>Rewriting one registered item and its descriptor sets preserves the invariant.\<close>

lemma sel_wf_rewrite:
  assumes wf: "sel_wf s" and reg: "registered s fd = Some it"
    and it': "it_fd it' = it_fd it" "it_handler it' = it_handler it"
  defines "s' \<equiv> items_update_fdset_for_fd it' (put_item fd it' s)"
  shows "sel_wf s'" and "registered s' = (registered s)(fd \<mapsto> it')"
proof -
  have valid: "\<not> INVALID_FD fd" and ok: "item_ok (max_fd s) fd it"
    using registered_valid [OF wf reg] sel_wf_item [OF wf reg] by auto
  have fd: "it_fd it' = fd" and used: "ITEM_USED it'"
    using ok it' by (auto simp: item_ok_def ITEM_USED_def FD_UNUSED_def)
  show reg': "registered s' = (registered s)(fd \<mapsto> it')"
    using registered_put_item [OF wf valid, of it'] used by (simp add: s'_def)
  have "item_ok (max_fd s) fd' i" if "((registered s)(fd \<mapsto> it')) fd' = Some i" for fd' i
    using that sel_wf_item [OF wf, of fd' i] ok it' fd by (auto simp: item_ok_def split: if_splits)
  moreover have "\<exists>xs. fds s' = Some xs \<and> length xs = fd_size s"
    using sel_wf_table [OF wf] by (intro table_length [of s' s]) (auto simp: s'_def)
  ultimately show "sel_wf s'"
    using wf reg' fd used
    by (auto simp: sel_wf_def s'_def update_fdset_sets interested_update)
qed

section \<open>The interest operations share a contract\<close>

locale interest_op =
  fixes assign :: "flags \<Rightarrow> ('h, 'd) item \<Rightarrow> ('h, 'd) item"
  assumes keeps_fd: "it_fd (assign i it) = it_fd it"
    and keeps_handler: "it_handler (assign i it) = it_handler it"
    and keeps_data: "it_data (assign i it) = it_data it"
begin

lemma on_registered:
  assumes "sel_wf s" and "registered s fd = Some it"
  shows "\<exists>s'. change_item (assign i) fd s = Inr (SELECTOR_SUCCESS, s') \<and> sel_wf s'
    \<and> registered s' = (registered s)(fd \<mapsto> assign i it)"
proof -
  have valid: "\<not> INVALID_FD fd"
    using registered_valid [OF assms] .
  obtain it0 where "item_at s fd = Inr it0" "registered s fd = (if ITEM_USED it0 then Some it0 else None)"
    using item_at_valid [OF assms(1) valid] by metis
  with assms(2) have "item_at s fd = Inr it" "ITEM_USED it"
    by (auto split: if_splits)
  then show ?thesis
    using valid sel_wf_rewrite [OF assms keeps_fd keeps_handler] by (simp add: change_item_def)
qed

lemma on_absent:
  assumes "sel_wf s" and "registered s fd = None"
  shows "change_item (assign i) fd s = Inr (SELECTOR_IARGS, s)"
proof (cases "INVALID_FD fd")
  case False
  then obtain it0 where "item_at s fd = Inr it0" "registered s fd = (if ITEM_USED it0 then Some it0 else None)"
    using item_at_valid [OF assms(1)] by metis
  with assms(2) False show ?thesis
    by (simp add: change_item_def split: if_splits)
qed (simp add: change_item_def)

lemma total:
  assumes "sel_wf s"
  obtains st s' where "change_item (assign i) fd s = Inr (st, s')" "sel_wf s'"
    "registered s' = (registered s)(fd := map_option (assign i) (registered s fd))"
    "st = SELECTOR_SUCCESS \<longleftrightarrow> registered s fd \<noteq> None"
proof (cases "registered s fd")
  case None
  then show thesis
    using that [OF on_absent [OF assms None]] assms by (simp add: fun_upd_idem)
next
  case (Some it)
  then show thesis
    using on_registered [OF assms Some] that by fastforce
qed

end

interpretation set_i: interest_op "\<lambda>i it. it\<lparr>it_interest := i\<rparr>"
  by unfold_locales simp_all

interpretation add_i: interest_op "\<lambda>i it. it\<lparr>it_interest := it_interest it OR i, it_mask := it_mask it OR i\<rparr>"
  by unfold_locales simp_all

interpretation unmask_i: interest_op "\<lambda>i it. it\<lparr>it_mask := it_mask it OR i\<rparr>"
  by unfold_locales simp_all

interpretation remove_i: interest_op "\<lambda>i it. it\<lparr>it_interest := it_interest it AND NOT i\<rparr>"
  by unfold_locales simp_all

interpretation mask_i: interest_op "\<lambda>i it. it\<lparr>it_mask := it_mask it AND NOT i\<rparr>"
  by unfold_locales simp_all

text \<open>
  What the contract says of the five operations: an update of one entry of the map, successful
  exactly when there is one.
\<close>

definition updates_item ::
  "(int \<Rightarrow> flags \<Rightarrow> ('h, 'd, 'z) fdselector_scheme \<Rightarrow> (selector_status \<times> ('h, 'd, 'z) fdselector_scheme) run)
   \<Rightarrow> (flags \<Rightarrow> ('h, 'd) item \<Rightarrow> ('h, 'd) item) \<Rightarrow> ('h, 'd, 'z) fdselector_scheme \<Rightarrow> bool" where
  "updates_item op f s \<longleftrightarrow> (\<forall>fd i. \<exists>st s'. op fd i s = Inr (st, s') \<and> sel_wf s'
     \<and> registered s' = (registered s)(fd := map_option (f i) (registered s fd))
     \<and> (st = SELECTOR_SUCCESS \<longleftrightarrow> registered s fd \<noteq> None))"

lemma updates_item:
  assumes "sel_wf s"
  shows "updates_item selector_set_interest (\<lambda>i it. it\<lparr>it_interest := i\<rparr>) s"
    and "updates_item selector_add_interest (\<lambda>i it. it\<lparr>it_interest := it_interest it OR i, it_mask := it_mask it OR i\<rparr>) s"
    and "updates_item selector_unmask_interest (\<lambda>i it. it\<lparr>it_mask := it_mask it OR i\<rparr>) s"
    and "updates_item selector_remove_interest (\<lambda>i it. it\<lparr>it_interest := it_interest it AND NOT i\<rparr>) s"
    and "updates_item selector_mask_interest (\<lambda>i it. it\<lparr>it_mask := it_mask it AND NOT i\<rparr>) s"
  unfolding updates_item_def selector_set_interest_def selector_add_interest_def selector_unmask_interest_def
    selector_remove_interest_def selector_mask_interest_def
  subgoal by (intro allI) (rule set_i.total [OF assms], blast)
  subgoal by (intro allI) (rule add_i.total [OF assms], blast)
  subgoal by (intro allI) (rule unmask_i.total [OF assms], blast)
  subgoal by (intro allI) (rule remove_i.total [OF assms], blast)
  subgoal by (intro allI) (rule mask_i.total [OF assms], blast)
  done

text \<open>Frame: only the table and the two prototype sets change.\<close>

lemma change_item_frame:
  assumes "change_item f fd s = Inr (st, s')"
  shows "fdselector.more s' = fdselector.more s" and "max_fd s' = max_fd s" and "fd_size s' = fd_size s"
    and "slave_r s' = slave_r s" and "slave_w s' = slave_w s" and "resolution_jobs s' = resolution_jobs s"
    and "map_option length (fds s') = map_option length (fds s)"
  using assms
  by (auto simp: change_item_def items_update_fdset_for_fd_def put_item_def Let_def fault_simps
      option.map_comp comp_def split: if_splits)

section \<open>Registering and unregistering\<close>

text \<open>Within the table, \<open>selector_register\<close> never grows it.\<close>

lemma register_no_growth:
  assumes "sel_wf s" and "\<not> INVALID_FD fd"
  shows "\<not> nat fd > fd_size s"
  using assms by (auto simp: sel_wf_def INVALID_FD_def)

definition new_item :: "int \<Rightarrow> flags \<Rightarrow> 'h \<Rightarrow> 'd option \<Rightarrow> ('h, 'd) item" where
  "new_item fd interest h data =
     \<lparr>it_fd = fd, it_interest = interest, it_mask = NOT 0, it_handler = Some h, it_data = data\<rparr>"

lemma selector_register_fresh:
  assumes wf: "sel_wf s" and valid: "\<not> INVALID_FD fd" and free: "registered s fd = None"
  shows "\<exists>s'. selector_register alloc junk fd (Some h) interest data s = Inr (SELECTOR_SUCCESS, s')
    \<and> sel_wf s' \<and> registered s' = (registered s)(fd \<mapsto> new_item fd interest h data)
    \<and> fdselector.more s' = fdselector.more s \<and> resolution_jobs s' = resolution_jobs s"
proof -
  define it where "it = new_item fd interest h data"
  obtain it0 where it0: "item_at s fd = Inr it0" "registered s fd = (if ITEM_USED it0 then Some it0 else None)"
    using item_at_valid [OF wf valid] by metis
  let ?it = "it0\<lparr>it_fd := fd, it_handler := Some h, it_interest := interest, it_mask := NOT 0, it_data := data\<rparr>"
  let ?s2 = "put_item fd ?it s"
  let ?s3 = "if fd > max_fd ?s2 then ?s2\<lparr>max_fd := fd\<rparr> else ?s2"
  let ?s' = "items_update_fdset_for_fd ?it ?s3"
  have unused: "\<not> ITEM_USED it0" and it: "?it = it"
    using it0 free by (auto simp: it_def new_item_def split: if_splits)
  have res: "selector_register alloc junk fd (Some h) interest data s = Inr (SELECTOR_SUCCESS, ?s')"
    using valid it0 unused register_no_growth [OF wf valid] by (simp add: selector_register_def Let_def)
  have fd: "0 \<le> fd" "fd < int ITEMS_MAX_SIZE" and used: "ITEM_USED it"
    using valid by (auto simp: INVALID_FD_def it_def new_item_def ITEM_USED_def FD_UNUSED_def)
  have mx: "max_fd ?s' = max fd (max_fd s)"
    by simp
  have reg: "registered ?s' = (registered s)(fd \<mapsto> it)"
    using registered_put_item [OF wf valid, of it] used unfolding it by simp
  have "item_ok (max_fd ?s') fd' i" if "((registered s)(fd \<mapsto> it)) fd' = Some i" for fd' i
    using that sel_wf_item [OF wf, of fd' i] fd by (auto simp: item_ok_def it_def new_item_def mx split: if_splits)
  moreover have "\<exists>xs. fds ?s' = Some xs \<and> length xs = fd_size s"
    using sel_wf_table [OF wf] by (intro table_length [of ?s' s]) auto
  moreover have "master_r ?s' = interested OP_READ ((registered s)(fd \<mapsto> it))"
    "master_w ?s' = interested OP_WRITE ((registered s)(fd \<mapsto> it))"
    using wf used unfolding it by (auto simp: sel_wf_def update_fdset_sets interested_update it_def new_item_def)
  ultimately have "sel_wf ?s'"
    using wf fd unfolding sel_wf_def reg mx by (auto simp: max_def)
  moreover have "fdselector.more ?s' = fdselector.more s" "resolution_jobs ?s' = resolution_jobs s"
    by (simp_all add: items_update_fdset_for_fd_def put_item_def Let_def)
  ultimately show ?thesis
    using res reg unfolding it_def by blast
qed

lemma selector_register_refused:
  assumes "sel_wf s" and "INVALID_FD fd \<or> registered s fd \<noteq> None"
  shows "\<exists>st. st \<noteq> SELECTOR_SUCCESS \<and> selector_register alloc junk fd h interest data s = Inr (st, s)"
proof (cases "INVALID_FD fd \<or> h = None")
  case True
  then show ?thesis by (simp add: selector_register_def)
next
  case False
  then obtain it0 where "item_at s fd = Inr it0" "registered s fd = (if ITEM_USED it0 then Some it0 else None)"
    using item_at_valid [OF assms(1)] by metis
  with False assms(2) register_no_growth [OF assms(1), of fd] show ?thesis
    by (auto simp: selector_register_def split: if_splits)
qed

text \<open>The loop of \<open>items_max_fd\<close> finds the greatest registered descriptor below its bound.\<close>

lemma max_fd_loop_ok:
  assumes "\<And>j. i \<le> j \<Longrightarrow> j < i + int n \<Longrightarrow> \<exists>it. item_at s j = Inr it
      \<and> registered s j = (if ITEM_USED it then Some it else None) \<and> (ITEM_USED it \<longrightarrow> it_fd it = j)"
    and "mx \<le> i"
  shows "\<exists>m. max_fd_loop s i n mx = Inr m \<and> mx \<le> m \<and> (m = mx \<or> (registered s m \<noteq> None \<and> i \<le> m \<and> m < i + int n))
    \<and> (\<forall>j. i \<le> j \<and> j < i + int n \<and> registered s j \<noteq> None \<longrightarrow> j \<le> m)"
  using assms
proof (induction n arbitrary: i mx)
  case 0
  then show ?case by simp
next
  case (Suc n)
  obtain it where it: "item_at s i = Inr it" "registered s i = (if ITEM_USED it then Some it else None)"
    "ITEM_USED it \<longrightarrow> it_fd it = i"
    using Suc.prems(1) [of i] by auto
  let ?mx = "if ITEM_USED it \<and> it_fd it > mx then it_fd it else mx"
  have "?mx \<le> i + 1"
    using it(3) Suc.prems(2) by auto
  then obtain m where m: "max_fd_loop s (i + 1) n ?mx = Inr m" "?mx \<le> m"
    "m = ?mx \<or> (registered s m \<noteq> None \<and> i + 1 \<le> m \<and> m < i + 1 + int n)"
    "\<forall>j. i + 1 \<le> j \<and> j < i + 1 + int n \<and> registered s j \<noteq> None \<longrightarrow> j \<le> m"
    using Suc.IH [of "i + 1" ?mx] Suc.prems(1) by auto
  have "j \<le> m" if "i \<le> j" "j < i + int (Suc n)" "registered s j \<noteq> None" for j
  proof (cases "j = i")
    case True
    with that(3) it have "ITEM_USED it" "it_fd it = i" by (auto split: if_splits)
    with m(2) Suc.prems(2) True show ?thesis by (auto split: if_splits)
  next
    case False
    with that m(4) show ?thesis by auto
  qed
  moreover have "m = mx \<or> (registered s m \<noteq> None \<and> i \<le> m \<and> m < i + int (Suc n))"
    using m(3) it by (auto split: if_splits)
  ultimately show ?case
    using it m by (auto split: if_splits)
qed

lemma items_max_fd_ok:
  assumes "\<And>j. 0 \<le> j \<Longrightarrow> j \<le> max_fd s \<Longrightarrow> \<exists>it. item_at s j = Inr it
      \<and> registered s j = (if ITEM_USED it then Some it else None) \<and> (ITEM_USED it \<longrightarrow> it_fd it = j)"
    and "\<And>fd. registered s fd \<noteq> None \<Longrightarrow> 0 \<le> fd \<and> fd \<le> max_fd s" and "0 \<le> max_fd s"
  shows "\<exists>m. items_max_fd s = Inr m \<and> 0 \<le> m \<and> m \<le> max_fd s \<and> (m = 0 \<or> registered s m \<noteq> None)
    \<and> (\<forall>fd. registered s fd \<noteq> None \<longrightarrow> fd \<le> m)"
proof -
  have "\<exists>it. item_at s j = Inr it \<and> registered s j = (if ITEM_USED it then Some it else None)
      \<and> (ITEM_USED it \<longrightarrow> it_fd it = j)" if "0 \<le> j" "j < 0 + int (nat (max_fd s + 1))" for j
    using assms(1) [of j] assms(3) that by simp
  from max_fd_loop_ok [OF this, of 0] obtain m where
    m: "max_fd_loop s 0 (nat (max_fd s + 1)) 0 = Inr m" "0 \<le> m"
    "m = 0 \<or> (registered s m \<noteq> None \<and> 0 \<le> m \<and> m < 0 + int (nat (max_fd s + 1)))"
    "\<forall>j. 0 \<le> j \<and> j < 0 + int (nat (max_fd s + 1)) \<and> registered s j \<noteq> None \<longrightarrow> j \<le> m"
    by blast
  have "fd \<le> m" if "registered s fd \<noteq> None" for fd
    using m(4) assms(2) [OF that] that by auto
  moreover have "m \<le> max_fd s"
    using m(3) assms(3) by auto
  ultimately show ?thesis
    using m by (auto simp: items_max_fd_def)
qed

lemma item_init_unused [simp]: "\<not> ITEM_USED (item_init it)"
  by (simp add: ITEM_USED_def item_init_def)

text \<open>
  Unregistering removes the descriptor. The close callback is run first; the hypothesis says
  what it must leave in place, which is immediate when there is none.
\<close>

lemma selector_unregister_ok:
  assumes wf: "sel_wf s" and reg: "registered s fd = Some it" and h: "it_handler it = Some h"
    and close: "(case handle_close (H h) of None \<Rightarrow> Inr s
                | Some f \<Rightarrow> f \<lparr>key_fd = fd, key_data = it_data it\<rparr> s) = Inr s1"
    and wf1: "sel_wf s1" and reg1: "registered s1 fd = Some it1"
  shows "\<exists>s'. selector_unregister_fd H fd s = Inr (SELECTOR_SUCCESS, s') \<and> sel_wf s'
    \<and> registered s' = (registered s1)(fd := None) \<and> fdselector.more s' = fdselector.more s1
    \<and> resolution_jobs s' = resolution_jobs s1"
proof -
  have valid: "\<not> INVALID_FD fd" and itfd: "it_fd it = fd" "it_fd it1 = fd"
    using registered_valid [OF wf reg] sel_wf_item [OF wf reg] sel_wf_item [OF wf1 reg1]
    by (auto simp: item_ok_def)
  have at: "item_at s fd = Inr it" "ITEM_USED it" "item_at s1 fd = Inr it1" "ITEM_USED it1"
    using item_at_valid [OF wf valid] item_at_valid [OF wf1 valid] reg reg1
    by (metis option.inject option.simps(3))+
  let ?it = "it1\<lparr>it_interest := OP_NOOP\<rparr>"
  let ?s2 = "items_update_fdset_for_fd ?it (put_item fd ?it s1)"
  let ?s3 = "put_item fd (item_init zero_item) ?s2"
  have wf2: "sel_wf ?s2" and reg2: "registered ?s2 = (registered s1)(fd \<mapsto> ?it)"
    using sel_wf_rewrite [OF wf1 reg1, of ?it] by simp_all
  have reg3: "registered ?s3 = (registered s1)(fd := None)"
    using registered_put_item [OF wf2 valid, of "item_init zero_item"] reg2 by simp
  have nowant: "\<not> wants op ?it" for op
    by (simp add: wants_def OP_NOOP_def)
  have sets3: "master_r ?s3 = interested OP_READ (registered ?s3)"
    "master_w ?s3 = interested OP_WRITE (registered ?s3)"
    using wf2 nowant unfolding reg3 sel_wf_def reg2 by (auto simp: interested_update)
  have table3: "\<exists>xs. fds ?s3 = Some xs \<and> length xs = fd_size s1"
    using sel_wf_table [OF wf1] by (intro table_length [of ?s3 s1]) auto
  have mx3: "max_fd ?s3 = max_fd s1" "0 \<le> max_fd s1" "max_fd s1 < int ITEMS_MAX_SIZE" "ITEMS_MAX_SIZE < fd_size s1"
    using wf1 by (simp_all add: sel_wf_def)
  have items3: "item_ok (max_fd s1) fd' i" if "registered ?s3 fd' = Some i" for fd' i
    using that sel_wf_item [OF wf1, of fd' i] unfolding reg3 by (auto split: if_splits)
  have at3: "\<exists>i. item_at ?s3 j = Inr i \<and> registered ?s3 j = (if ITEM_USED i then Some i else None)
      \<and> (ITEM_USED i \<longrightarrow> it_fd i = j)" if "0 \<le> j" "j \<le> max_fd ?s3" for j
  proof -
    obtain xs where xs: "fds ?s3 = Some xs" "length xs = fd_size s1"
      using table3 by blast
    have "nat j < length xs"
      using that mx3 xs(2) by auto
    then have "item_at ?s3 j = Inr (xs ! nat j)"
      "registered ?s3 j = (if ITEM_USED (xs ! nat j) then Some (xs ! nat j) else None)"
      using that(1) xs(1) by (simp_all add: item_at_def registered_def)
    then show ?thesis
      using items3 [of j "xs ! nat j"] by (auto simp: item_ok_def)
  qed
  obtain m where m: "items_max_fd ?s3 = Inr m" "0 \<le> m" "m \<le> max_fd ?s3" "m = 0 \<or> registered ?s3 m \<noteq> None"
    "\<forall>fd. registered ?s3 fd \<noteq> None \<longrightarrow> fd \<le> m"
    using items_max_fd_ok [OF at3] items3 mx3 by (fastforce simp: item_ok_def)
  have close': "(case handle_close (H h) of None \<Rightarrow> Inr s
      | Some f \<Rightarrow> f \<lparr>key_fd = it_fd it, key_data = it_data it\<rparr> s) = Inr s1"
    unfolding itfd(1) by (rule close)
  have "selector_unregister_fd H fd s = Inr (SELECTOR_SUCCESS, ?s3\<lparr>max_fd := m\<rparr>)"
    using valid at h close' m(1) by (simp add: selector_unregister_fd_def Let_def)
  moreover have "item_ok m fd' i" if "registered ?s3 fd' = Some i" for fd' i
    using items3 [OF that] m(5) that by (auto simp: item_ok_def)
  then have "sel_wf (?s3\<lparr>max_fd := m\<rparr>)"
    using table3 mx3 m sets3 unfolding sel_wf_def by simp
  moreover have "fdselector.more (?s3\<lparr>max_fd := m\<rparr>) = fdselector.more s1" "resolution_jobs (?s3\<lparr>max_fd := m\<rparr>) = resolution_jobs s1"
    by (simp_all add: items_update_fdset_for_fd_def put_item_def Let_def)
  ultimately show ?thesis
    using reg3 by auto
qed

lemma selector_unregister_absent:
  assumes "sel_wf s" and "registered s fd = None"
  shows "selector_unregister_fd H fd s = Inr (SELECTOR_IARGS, s)"
proof (cases "INVALID_FD fd")
  case False
  then obtain it0 where "item_at s fd = Inr it0" "registered s fd = (if ITEM_USED it0 then Some it0 else None)"
    using item_at_valid [OF assms(1)] by metis
  with assms(2) False show ?thesis
    by (simp add: selector_unregister_fd_def split: if_splits)
qed (simp add: selector_unregister_fd_def)

section \<open>Capacity\<close>

lemma capacity_bits_bound: "n < 2 ^ capacity_bits n"
proof (induction n rule: capacity_bits.induct)
  case (1 n)
  show ?case
  proof (cases "n = 0")
    case True
    then show ?thesis by (simp add: capacity_bits.simps)
  next
    case False
    with 1 have "n div 2 < 2 ^ capacity_bits (n div 2)" by simp
    then have "n < 2 ^ Suc (capacity_bits (n div 2))" by simp
    with False show ?thesis by (simp add: capacity_bits.simps [of n])
  qed
qed

lemma next_capacity_ok:
  assumes "n \<le> ITEMS_MAX_SIZE"
  obtains c where "next_capacity n = Inr c" "n < c" "c \<le> ITEMS_MAX_SIZE + 1"
  using assms capacity_bits_bound [of n] that
  by (auto simp: next_capacity_def Let_def)

lemma next_capacity_1024: "next_capacity 1024 = Inr (ITEMS_MAX_SIZE + 1)"
proof -
  have "capacity_bits 1024 = 11"
    by (simp add: capacity_bits.simps)
  then show ?thesis
    by (simp add: next_capacity_def ITEMS_MAX_SIZE_def)
qed

lemma selector_new_fails: "\<not> alloc (ITEMS_MAX_SIZE + 1) \<Longrightarrow> selector_new H conf True alloc junk 1024 s = Inr None"
  by (simp add: selector_new_def ensure_capacity_def next_capacity_1024 selector_destroy_def Let_def ITEMS_MAX_SIZE_def)

lemma selector_new_ok:
  assumes "alloc (ITEMS_MAX_SIZE + 1)"
  shows "\<exists>s'. selector_new H conf True alloc junk 1024 s = Inr (Some s') \<and> sel_wf s'
    \<and> registered s' = Map.empty \<and> fd_size s' = ITEMS_MAX_SIZE + 1 \<and> fdselector.more s' = fdselector.more s"
proof -
  note cap = next_capacity_1024
  let ?xs = "replicate (ITEMS_MAX_SIZE + 1) (item_init zero_item :: ('a, 'b) item)"
  let ?s = "s\<lparr>fds := Some ?xs, fd_size := ITEMS_MAX_SIZE + 1, max_fd := 0, master_r := {}, master_w := {},
              slave_r := {}, slave_w := {}, master_t := (conf_tv_sec conf, conf_tv_nsec conf),
              slave_t := (0, 0), resolution_jobs := []\<rparr>"
  have max: "ITEMS_MAX_SIZE = 1024"
    by (simp add: ITEMS_MAX_SIZE_def)
  have new: "selector_new H conf True alloc junk 1024 s = Inr (Some ?s)"
    using assms
    by (simp add: selector_new_def ensure_capacity_def cap items_init_def Let_def max map_replicate)
  have reg: "registered ?s = Map.empty"
    by (auto simp: registered_def fun_eq_iff simp del: replicate_Suc)
  have "sel_wf ?s"
    unfolding sel_wf_def reg by (simp add: interested_def max)
  with new reg show ?thesis by auto
qed

end
