(* ===== verification/Stm.thy ===== *)
theory Stm
  imports Socks_Prelude
begin

text \<open>
  \<open>src/stm.c\<close>: the state-machine engine. A machine is a constant table of state definitions
  with optional callbacks; the only mutable part is the pointer \<open>current\<close>, here the index of a
  state or \<open>None\<close> for NULL. Callbacks act on a world \<open>'w\<close> and may well destroy the machine they
  run in, so \<open>current\<close> is read and written through accessors of the world that can fault
  (\<open>stm_ref\<close>): a use of a machine that a callback has freed is \<open>Use_after_free\<close>.
\<close>

section \<open>Tables and accessors\<close>

record ('k, 'w) state_definition =
  sd_state :: nat
  on_arrival :: "(nat \<Rightarrow> 'k \<Rightarrow> 'w \<Rightarrow> 'w run) option"
  on_departure :: "(nat \<Rightarrow> 'k \<Rightarrow> 'w \<Rightarrow> 'w run) option"
  on_read_ready :: "('k \<Rightarrow> 'w \<Rightarrow> (nat \<times> 'w) run) option"
  on_write_ready :: "('k \<Rightarrow> 'w \<Rightarrow> (nat \<times> 'w) run) option"
  on_block_ready :: "('k \<Rightarrow> 'w \<Rightarrow> (nat \<times> 'w) run) option"

record ('k, 'w) state_machine =
  initial :: nat
  states :: "('k, 'w) state_definition list"
  max_state :: nat

record ('k, 'w) stm_ref =
  get_current :: "'k \<Rightarrow> 'w \<Rightarrow> nat option run"
  set_current :: "'k \<Rightarrow> nat option \<Rightarrow> 'w \<Rightarrow> 'w run"

section \<open>The engine\<close>

text \<open>The loop of \<open>stm_init\<close> from index \<open>i\<close>, \<open>n\<close> indices left.\<close>

fun check_states :: "('k, 'w) state_definition list \<Rightarrow> nat \<Rightarrow> nat \<Rightarrow> unit run" where
  "check_states sts i 0 = Inr ()"
| "check_states sts i (Suc n) =
     bindE (arr_get sts i) (\<lambda>d. if i \<noteq> sd_state d then Inl Abort_called else check_states sts (Suc i) n)"

text \<open>The result is the initial value of \<open>current\<close>.\<close>

definition stm_init :: "('k, 'w) state_machine \<Rightarrow> nat option run" where
  "stm_init m =
     bindE (check_states (states m) 0 (max_state m + 1)) (\<lambda>_.
     if initial m < max_state m then Inr None else Inl Abort_called)"

definition arrive :: "('k, 'w) state_machine \<Rightarrow> ('k, 'w) stm_ref \<Rightarrow> nat \<Rightarrow> 'k \<Rightarrow> 'w \<Rightarrow> 'w run" where
  "arrive m r i key w =
     bindE (set_current r key (Some i) w) (\<lambda>w1.
     bindE (arr_get (states m) i) (\<lambda>d.
     case on_arrival d of None \<Rightarrow> Inr w1 | Some f \<Rightarrow> f (sd_state d) key w1))"

definition handle_first :: "('k, 'w) state_machine \<Rightarrow> ('k, 'w) stm_ref \<Rightarrow> 'k \<Rightarrow> 'w \<Rightarrow> 'w run" where
  "handle_first m r key w =
     bindE (get_current r key w) (\<lambda>cur.
     case cur of None \<Rightarrow> arrive m r (initial m) key w | Some _ \<Rightarrow> Inr w)"

definition depart :: "('k, 'w) state_machine \<Rightarrow> nat option \<Rightarrow> 'k \<Rightarrow> 'w \<Rightarrow> 'w run" where
  "depart m cur key w =
     (case cur of
        None \<Rightarrow> Inr w
      | Some i \<Rightarrow> bindE (arr_get (states m) i) (\<lambda>d.
          case on_departure d of None \<Rightarrow> Inr w | Some f \<Rightarrow> f (sd_state d) key w))"

definition jump :: "('k, 'w) state_machine \<Rightarrow> ('k, 'w) stm_ref \<Rightarrow> nat \<Rightarrow> 'k \<Rightarrow> 'w \<Rightarrow> 'w run" where
  "jump m r nxt key w =
     (if nxt > max_state m then Inl Abort_called
      else bindE (get_current r key w) (\<lambda>cur.
           if cur \<noteq> Some nxt
           then bindE (depart m cur key w) (\<lambda>w1. arrive m r nxt key w1)
           else Inr w))"

text \<open>
  The common body of \<open>stm_handler_read\<close>, \<open>stm_handler_write\<close> and \<open>stm_handler_block\<close>, which
  differ in the callback they select.
\<close>

definition stm_dispatch ::
  "(('k, 'w) state_definition \<Rightarrow> ('k \<Rightarrow> 'w \<Rightarrow> (nat \<times> 'w) run) option) \<Rightarrow>
   ('k, 'w) state_machine \<Rightarrow> ('k, 'w) stm_ref \<Rightarrow> 'k \<Rightarrow> 'w \<Rightarrow> (nat \<times> 'w) run" where
  "stm_dispatch cb m r key w =
     bindE (handle_first m r key w) (\<lambda>w1.
     bindE (get_current r key w1) (\<lambda>cur.
     case cur of
       None \<Rightarrow> Inl Null_deref
     | Some i \<Rightarrow>
         bindE (arr_get (states m) i) (\<lambda>d.
         case cb d of
           None \<Rightarrow> Inl Abort_called
         | Some f \<Rightarrow>
             bindE (f key w1) (\<lambda>(ret, w2).
             bindE (jump m r ret key w2) (\<lambda>w3. Inr (ret, w3))))))"

definition stm_handler_read ::
  "('k, 'w) state_machine \<Rightarrow> ('k, 'w) stm_ref \<Rightarrow> 'k \<Rightarrow> 'w \<Rightarrow> (nat \<times> 'w) run" where
  "stm_handler_read m r key w = stm_dispatch on_read_ready m r key w"

definition stm_handler_write ::
  "('k, 'w) state_machine \<Rightarrow> ('k, 'w) stm_ref \<Rightarrow> 'k \<Rightarrow> 'w \<Rightarrow> (nat \<times> 'w) run" where
  "stm_handler_write m r key w = stm_dispatch on_write_ready m r key w"

definition stm_handler_block ::
  "('k, 'w) state_machine \<Rightarrow> ('k, 'w) stm_ref \<Rightarrow> 'k \<Rightarrow> 'w \<Rightarrow> (nat \<times> 'w) run" where
  "stm_handler_block m r key w = stm_dispatch on_block_ready m r key w"

definition stm_handler_close :: "('k, 'w) state_machine \<Rightarrow> ('k, 'w) stm_ref \<Rightarrow> 'k \<Rightarrow> 'w \<Rightarrow> 'w run" where
  "stm_handler_close m r key w =
     bindE (get_current r key w) (\<lambda>cur. depart m cur key w)"

definition stm_state :: "('k, 'w) state_machine \<Rightarrow> nat option \<Rightarrow> nat run" where
  "stm_state m cur =
     (case cur of None \<Rightarrow> Inr (initial m) | Some i \<Rightarrow> bindE (arr_get (states m) i) (\<lambda>d. Inr (sd_state d)))"

section \<open>Well-indexed tables\<close>

definition table_ok :: "('k, 'w) state_machine \<Rightarrow> bool" where
  "table_ok m \<longleftrightarrow> initial m < max_state m \<and> max_state m < length (states m)
     \<and> (\<forall>i\<le>max_state m. sd_state (states m ! i) = i)"

lemma check_states_ok_iff:
  "check_states sts i n = Inr () \<longleftrightarrow> (\<forall>j. i \<le> j \<and> j < i + n \<longrightarrow> j < length sts \<and> sd_state (sts ! j) = j)"
proof (induction n arbitrary: i)
  case 0
  then show ?case by simp
next
  case (Suc n)
  have split: "(\<forall>j. i \<le> j \<and> j < i + Suc n \<longrightarrow> P j) \<longleftrightarrow> P i \<and> (\<forall>j. Suc i \<le> j \<and> j < Suc i + n \<longrightarrow> P j)" for P
    by (metis Suc_leI add_Suc_right add_Suc le_eq_less_or_eq le_refl less_add_Suc1 order_less_le_trans
        Suc_leD)
  show ?case
    unfolding split by (auto simp: fault_simps Suc.IH arr_get_def)
qed

text \<open>\<open>stm_init\<close> lets exactly the well-indexed tables through.\<close>

lemma stm_init_iff: "stm_init m = Inr None \<longleftrightarrow> table_ok m"
proof -
  have "check_states (states m) 0 (max_state m + 1) = Inr () \<longleftrightarrow>
      max_state m < length (states m) \<and> (\<forall>i\<le>max_state m. sd_state (states m ! i) = i)"
    unfolding check_states_ok_iff by (auto simp: less_Suc_eq_le)
  then show ?thesis
    by (auto simp: stm_init_def table_ok_def fault_simps)
qed

lemma stm_init_aborts: "stm_init m = Inr c \<Longrightarrow> c = None"
  by (auto simp: stm_init_def fault_simps split: if_splits)

lemma stm_dispatchE:
  assumes "stm_dispatch cb m r key w = Inr (ret, w')"
  obtains w1 i f w2 where "handle_first m r key w = Inr w1" "get_current r key w1 = Inr (Some i)"
    "i < length (states m)" "cb (states m ! i) = Some f" "f key w1 = Inr (ret, w2)"
    "jump m r ret key w2 = Inr w'"
  using assms
  by (auto simp: stm_dispatch_def bindE_def arr_get_def
      split: sum.splits option.splits prod.splits if_splits)

section \<open>The contract between the engine and its world\<close>

text \<open>
  What the engine needs of the world it drives: \<open>current\<close> can be read back as written, and the
  callbacks that run on arrival leave it alone, except that arriving in the state \<open>final\<close> may destroy the
  machine, after which it can no longer be read.
\<close>

locale stm_world =
  fixes m :: "('k, 'w) state_machine" and r :: "('k, 'w) stm_ref" and final :: nat
  assumes table: "table_ok m"
    and set_get: "set_current r key c w = Inr w' \<Longrightarrow> get_current r key w' = Inr c"
    and arrival_law: "i \<le> max_state m \<Longrightarrow> on_arrival (states m ! i) = Some f \<Longrightarrow> f i key w = Inr w' \<Longrightarrow>
      get_current r key w = Inr c \<Longrightarrow> get_current r key w' = Inr c \<or> i = final \<and> get_current r key w' = Inl Use_after_free"
begin

text \<open>The machine is in a state, or was destroyed on arriving in the last one.\<close>

definition settled :: "nat \<Rightarrow> 'k \<Rightarrow> 'w \<Rightarrow> bool" where
  "settled i key w \<longleftrightarrow> get_current r key w = Inr (Some i) \<or> i = final \<and> get_current r key w = Inl Use_after_free"

lemma state_lt: "i \<le> max_state m \<Longrightarrow> i < length (states m)"
  using table by (simp add: table_ok_def)

lemma arrive_current:
  assumes "arrive m r i key w = Inr w'" and "i \<le> max_state m"
  shows "settled i key w'"
proof -
  obtain w1 where w1: "set_current r key (Some i) w = Inr w1"
    and rest: "(case on_arrival (states m ! i) of None \<Rightarrow> Inr w1 | Some f \<Rightarrow> f (sd_state (states m ! i)) key w1) = Inr w'"
    using assms state_lt [OF assms(2)] by (auto simp: arrive_def fault_simps)
  have cur: "get_current r key w1 = Inr (Some i)"
    using set_get [OF w1] .
  have st: "sd_state (states m ! i) = i"
    using table assms(2) by (simp add: table_ok_def)
  show ?thesis
  proof (cases "on_arrival (states m ! i)")
    case None
    with rest cur show ?thesis by (simp add: settled_def)
  next
    case (Some f)
    with rest st have "f i key w1 = Inr w'" by simp
    then show ?thesis using arrival_law [OF assms(2) Some _ cur] by (auto simp: settled_def)
  qed
qed

text \<open>After a jump the machine is in the state jumped to, unless arriving there destroyed it.\<close>

lemma jump_current:
  assumes "jump m r nxt key w = Inr w'"
  shows "nxt \<le> max_state m \<and> settled nxt key w'"
  using assms arrive_current [of nxt key _ w']
  by (auto simp: jump_def settled_def fault_simps split: if_splits)

text \<open>
  The first event puts the machine into its initial state; every event goes to the callback of the state it is in, and
  the machine ends in the state which that callback returns.
\<close>

definition found_in :: "nat \<Rightarrow> 'k \<Rightarrow> 'w \<Rightarrow> 'w \<Rightarrow> bool" where
  "found_in i key w w1 \<longleftrightarrow> handle_first m r key w = Inr w1 \<and> get_current r key w1 = Inr (Some i)
     \<and> (case get_current r key w of Inr (Some j) \<Rightarrow> w1 = w \<and> j = i | Inr None \<Rightarrow> i = initial m | Inl _ \<Rightarrow> False)"

lemma handle_first_found:
  assumes "handle_first m r key w = Inr w1" and "get_current r key w1 = Inr (Some i)"
  shows "found_in i key w w1"
proof -
  obtain cur where cur: "get_current r key w = Inr cur" using assms(1) by (auto simp: handle_first_def fault_simps)
  show ?thesis
  proof (cases cur)
    case None
    with assms(1) cur have "arrive m r (initial m) key w = Inr w1" by (simp add: handle_first_def)
    then have "settled (initial m) key w1" using arrive_current table by (simp add: table_ok_def)
    with assms None cur show ?thesis by (simp add: found_in_def settled_def)
  next
    case (Some j)
    with assms cur show ?thesis by (auto simp: found_in_def handle_first_def)
  qed
qed

lemma dispatch_current:
  assumes "stm_dispatch cb m r key w = Inr (ret, w')"
  shows "\<exists>i f w1 w2. found_in i key w w1 \<and> cb (states m ! i) = Some f \<and> f key w1 = Inr (ret, w2) \<and> jump m r ret key w2 = Inr w'
    \<and> ret \<le> max_state m \<and> settled ret key w'"
proof -
  obtain w1 i f w2 where "handle_first m r key w = Inr w1" "get_current r key w1 = Inr (Some i)" "cb (states m ! i) = Some f"
    "f key w1 = Inr (ret, w2)" "jump m r ret key w2 = Inr w'"
    using assms by (rule stm_dispatchE)
  with handle_first_found jump_current show ?thesis by blast
qed

end

end
