(* ===== verification/Server_State.thy ===== *)
theory Server_State
  imports Socks_Prelude
begin

text \<open>
  \<open>src/state.c\<close>: the process-wide counters and settings. The counters keep their C widths
  (\<open>size_t\<close> is 64 bits, \<open>unsigned\<close> 32 bits) because the admission test relies on an unsigned
  sum that wraps around. The last section relates the counters to the clients that are really
  alive: as long as every removal matches an admitted client, the descriptors in use stay
  within the budget of \<open>select(2)\<close>.
\<close>

section \<open>State and operations\<close>

record server_state =
  all_connections :: "64 word"
  transferred_bytes :: "64 word"
  buffsize :: "64 word"
  dissector_state :: bool
  proxy_client_count :: "32 word"
  mgmt_client_count :: "32 word"

definition initial_state :: server_state where
  "initial_state = \<lparr>all_connections = 0, transferred_bytes = 0, buffsize = 2048,
     dissector_state = True, proxy_client_count = 0, mgmt_client_count = 0\<rparr>"

definition get_transferred_bytes :: "server_state \<Rightarrow> 64 word" where
  "get_transferred_bytes s = transferred_bytes s"

definition get_all_connections :: "server_state \<Rightarrow> 64 word" where
  "get_all_connections s = all_connections s"

definition get_current_clients :: "server_state \<Rightarrow> 64 word" where
  "get_current_clients s = ucast (proxy_client_count s + mgmt_client_count s)"

definition get_buffsize :: "server_state \<Rightarrow> 64 word" where
  "get_buffsize s = buffsize s"

definition get_dissector_state :: "server_state \<Rightarrow> bool" where
  "get_dissector_state s = dissector_state s"

definition add_bytes :: "64 word \<Rightarrow> server_state \<Rightarrow> server_state" where
  "add_bytes bytes s = s\<lparr>transferred_bytes := transferred_bytes s + bytes\<rparr>"

definition add_proxy_client :: "server_state \<Rightarrow> bool \<times> server_state" where
  "add_proxy_client s =
     (if mgmt_client_count s + proxy_client_count s * 2 \<le> 1020 - 2
      then (True, s\<lparr>proxy_client_count := proxy_client_count s + 1,
                    all_connections := all_connections s + 1\<rparr>)
      else (False, s))"

definition add_mgmt_client :: "server_state \<Rightarrow> bool \<times> server_state" where
  "add_mgmt_client s =
     (if mgmt_client_count s + proxy_client_count s * 2 \<le> 1020 - 1
      then (True, s\<lparr>mgmt_client_count := mgmt_client_count s + 1,
                    all_connections := all_connections s + 1\<rparr>)
      else (False, s))"

definition rm_proxy_client :: "server_state \<Rightarrow> server_state" where
  "rm_proxy_client s = s\<lparr>proxy_client_count := proxy_client_count s - 1\<rparr>"

definition rm_mgmt_client :: "server_state \<Rightarrow> server_state" where
  "rm_mgmt_client s = s\<lparr>mgmt_client_count := mgmt_client_count s - 1\<rparr>"

definition set_buffsize :: "64 word \<Rightarrow> server_state \<Rightarrow> server_state" where
  "set_buffsize sz s = (if sz \<noteq> 0 then s\<lparr>buffsize := sz\<rparr> else s)"

definition set_dissector_state :: "bool \<Rightarrow> server_state \<Rightarrow> server_state" where
  "set_dissector_state st s = s\<lparr>dissector_state := st\<rparr>"

section \<open>The counters against the clients alive\<close>

text \<open>
  The abstract view: how many proxy and management clients are alive. A proxy client owns up to
  two descriptors, a management client one. \<open>fd_budget\<close> is the number 1020 in the tests of the code: it is compared
  with the descriptors of clients only, and neither the listening sockets nor the standard streams are counted.
\<close>

record live =
  live_proxy :: nat
  live_mgmt :: nat

definition fd_budget :: nat where
  "fd_budget = 1020"

definition fds_in_use :: "live \<Rightarrow> nat" where
  "fds_in_use l = 2 * live_proxy l + live_mgmt l"

definition counts :: "server_state \<Rightarrow> live \<Rightarrow> bool" where
  "counts s l \<longleftrightarrow> proxy_client_count s = of_nat (live_proxy l)
     \<and> mgmt_client_count s = of_nat (live_mgmt l) \<and> fds_in_use l \<le> fd_budget"

text \<open>What the admission of a client means on the abstract side.\<close>

definition admit_proxy :: "live \<Rightarrow> bool \<times> live" where
  "admit_proxy l =
     (if fds_in_use l + 2 \<le> fd_budget then (True, l\<lparr>live_proxy := live_proxy l + 1\<rparr>) else (False, l))"

definition admit_mgmt :: "live \<Rightarrow> bool \<times> live" where
  "admit_mgmt l =
     (if fds_in_use l + 1 \<le> fd_budget then (True, l\<lparr>live_mgmt := live_mgmt l + 1\<rparr>) else (False, l))"

lemma counts_initial: "counts initial_state \<lparr>live_proxy = 0, live_mgmt = 0\<rparr>"
  by (simp add: counts_def initial_state_def fds_in_use_def)

text \<open>Within the budget the 32-bit sum of the admission test does not wrap.\<close>

lemma count_sum:
  assumes "counts s l"
  shows "unat (mgmt_client_count s + proxy_client_count s * 2) = fds_in_use l"
proof -
  have "mgmt_client_count s + proxy_client_count s * 2 = (of_nat (fds_in_use l) :: 32 word)"
    using assms by (simp add: counts_def fds_in_use_def algebra_simps)
  moreover have "fds_in_use l < 2 ^ LENGTH(32)"
    using assms by (simp add: counts_def fd_budget_def)
  ultimately show ?thesis
    by (simp add: unat_of_nat take_bit_nat_eq_self)
qed

lemma add_proxy_client_admits:
  assumes "counts s l"
  shows "fst (add_proxy_client s) = fst (admit_proxy l)"
    and "counts (snd (add_proxy_client s)) (snd (admit_proxy l))"
proof -
  have "mgmt_client_count s + proxy_client_count s * 2 \<le> 1020 - 2 \<longleftrightarrow> fds_in_use l + 2 \<le> fd_budget"
    using count_sum [OF assms] by (simp add: word_le_nat_alt fd_budget_def)
  then show "fst (add_proxy_client s) = fst (admit_proxy l)"
    and "counts (snd (add_proxy_client s)) (snd (admit_proxy l))"
    using assms by (auto simp: add_proxy_client_def admit_proxy_def counts_def fds_in_use_def)
qed

lemma add_mgmt_client_admits:
  assumes "counts s l"
  shows "fst (add_mgmt_client s) = fst (admit_mgmt l)"
    and "counts (snd (add_mgmt_client s)) (snd (admit_mgmt l))"
proof -
  have "mgmt_client_count s + proxy_client_count s * 2 \<le> 1020 - 1 \<longleftrightarrow> fds_in_use l + 1 \<le> fd_budget"
    using count_sum [OF assms] by (simp add: word_le_nat_alt fd_budget_def)
  then show "fst (add_mgmt_client s) = fst (admit_mgmt l)"
    and "counts (snd (add_mgmt_client s)) (snd (admit_mgmt l))"
    using assms by (auto simp: add_mgmt_client_def admit_mgmt_def counts_def fds_in_use_def)
qed

lemma rm_proxy_client_counts:
  "counts s l \<Longrightarrow> 0 < live_proxy l \<Longrightarrow> counts (rm_proxy_client s) (l\<lparr>live_proxy := live_proxy l - 1\<rparr>)"
  by (auto simp: counts_def rm_proxy_client_def fds_in_use_def of_nat_diff)

lemma rm_mgmt_client_counts:
  "counts s l \<Longrightarrow> 0 < live_mgmt l \<Longrightarrow> counts (rm_mgmt_client s) (l\<lparr>live_mgmt := live_mgmt l - 1\<rparr>)"
  by (auto simp: counts_def rm_mgmt_client_def fds_in_use_def of_nat_diff)

section \<open>Runs of admissions and removals\<close>

datatype conn_op = Add_proxy | Add_mgmt | Rm_proxy | Rm_mgmt

text \<open>
  A removal is enabled only for a client that is alive: the obligation of the callers
  \<open>clients.c\<close> and \<open>mgmt.c\<close>.
\<close>

inductive conn_step :: "server_state \<times> live \<Rightarrow> conn_op \<Rightarrow> server_state \<times> live \<Rightarrow> bool" where
  add_proxy: "conn_step (s, l) Add_proxy
     (snd (add_proxy_client s), if fst (add_proxy_client s) then l\<lparr>live_proxy := live_proxy l + 1\<rparr> else l)"
| add_mgmt: "conn_step (s, l) Add_mgmt
     (snd (add_mgmt_client s), if fst (add_mgmt_client s) then l\<lparr>live_mgmt := live_mgmt l + 1\<rparr> else l)"
| rm_proxy: "0 < live_proxy l \<Longrightarrow>
     conn_step (s, l) Rm_proxy (rm_proxy_client s, l\<lparr>live_proxy := live_proxy l - 1\<rparr>)"
| rm_mgmt: "0 < live_mgmt l \<Longrightarrow>
     conn_step (s, l) Rm_mgmt (rm_mgmt_client s, l\<lparr>live_mgmt := live_mgmt l - 1\<rparr>)"

inductive conn_reach :: "server_state \<times> live \<Rightarrow> bool" where
  start: "conn_reach (initial_state, \<lparr>live_proxy = 0, live_mgmt = 0\<rparr>)"
| step: "conn_reach x \<Longrightarrow> conn_step x op y \<Longrightarrow> conn_reach y"

inductive_cases conn_stepE [elim!]: "conn_step (s, l) op y"

lemma conn_step_counts: "conn_step (s, l) op (s', l') \<Longrightarrow> counts s l \<Longrightarrow> counts s' l'"
proof (elim conn_stepE)
  assume c: "counts s l" and "(s', l') = (snd (add_proxy_client s),
      if fst (add_proxy_client s) then l\<lparr>live_proxy := live_proxy l + 1\<rparr> else l)"
  then show "counts s' l'"
    using add_proxy_client_admits [OF c] by (auto simp: admit_proxy_def split: if_splits)
next
  assume c: "counts s l" and "(s', l') = (snd (add_mgmt_client s),
      if fst (add_mgmt_client s) then l\<lparr>live_mgmt := live_mgmt l + 1\<rparr> else l)"
  then show "counts s' l'"
    using add_mgmt_client_admits [OF c] by (auto simp: admit_mgmt_def split: if_splits)
qed (use rm_proxy_client_counts rm_mgmt_client_counts in auto)

lemma conn_reach_counts: "conn_reach (s, l) \<Longrightarrow> counts s l"
proof (induction "(s, l)" arbitrary: s l rule: conn_reach.induct)
  case start
  show ?case by (rule counts_initial)
next
  case (step x op s' l')
  obtain s l where "x = (s, l)" by (metis surj_pair)
  with step show ?case using conn_step_counts [of s l op s' l'] by simp
qed

text \<open>
  A removal too many wraps a counter around, after which nobody is admitted any more.
\<close>

lemma rm_mgmt_underflow:
  assumes "mgmt_client_count s = 0" and "proxy_client_count s = 0"
  shows "fst (add_proxy_client (rm_mgmt_client s)) = False"
    and "fst (add_mgmt_client (rm_mgmt_client s)) = False"
proof -
  have wrap: "\<not> (- 1 :: 32 word) \<le> 1018" "\<not> (- 1 :: 32 word) \<le> 1019"
    by code_simp+
  show "fst (add_proxy_client (rm_mgmt_client s)) = False"
    and "fst (add_mgmt_client (rm_mgmt_client s)) = False"
    using assms wrap
    by (simp_all add: rm_mgmt_client_def add_proxy_client_def add_mgmt_client_def)
qed

end
