(* ===== verification/Users.thy ===== *)
theory Users
  imports Socks_Prelude
begin

text \<open>
  \<open>src/users.c\<close> and \<open>src/tokens.c\<close>: the tables of proxy users and of management tokens. Both are
  fixed arrays of fixed-size character arrays; a \<open>const char *\<close> argument is the list of bytes
  before its NUL. The locale \<open>credential_store\<close> is what the SOCKS authentication and the
  management server rely on; both tables interpret it.
\<close>

section \<open>Users\<close>

definition MAX_USER_LEN :: nat where "MAX_USER_LEN = 10"
definition MAX_PASS_LEN :: nat where "MAX_PASS_LEN = 20"
definition MAX_USERS :: nat where "MAX_USERS = 20"

lemmas user_limits = MAX_USER_LEN_def MAX_PASS_LEN_def MAX_USERS_def

record user =
  username :: "byte list"
  password :: "byte list"

record user_table =
  users :: "user list"
  user_count :: nat

definition no_user :: user where
  "no_user = \<lparr>username = replicate (MAX_USER_LEN + 1) 0, password = replicate (MAX_PASS_LEN + 1) 0\<rparr>"

definition empty_users :: user_table where
  "empty_users = \<lparr>users = replicate MAX_USERS no_user, user_count = 0\<rparr>"

text \<open>The loop of \<open>check_valid\<close>: \<open>len\<close> counts down from the limit as \<open>i\<close> goes up.\<close>

fun check_valid_user :: "byte list \<Rightarrow> nat \<Rightarrow> bool" where
  "check_valid_user [] len = (0 < len)"
| "check_valid_user (c # cs) 0 = False"
| "check_valid_user (c # cs) (Suc len) =
     (if c = 58 \<or> \<not> isprint c then False else check_valid_user cs len)"

definition check_new_user :: "byte list \<Rightarrow> user_table \<Rightarrow> bool" where
  "check_new_user name ut =
     list_all (\<lambda>u. name \<noteq> cstr (username u)) (take (user_count ut) (users ut))"

text \<open>\<open>strcpy(dst, s)\<close> writes the string and its NUL at the start of the array \<open>dst\<close>.\<close>

definition strcpy :: "byte list \<Rightarrow> byte list \<Rightarrow> byte list run" where
  "strcpy dst s = mem_write 0 (s @ [0]) dst"

text \<open>
  \<open>add_user\<close> cuts its argument at the first colon by overwriting it with NUL, whether or not
  the user is then accepted: the string left in the argument is the third result.
\<close>

definition add_user :: "byte list \<Rightarrow> user_table \<Rightarrow> (bool \<times> user_table \<times> byte list) run" where
  "add_user userpass ut =
     (if 58 \<notin> set userpass then Inr (False, ut, userpass)
      else let name = takeWhile (\<lambda>c. c \<noteq> 58) userpass;
               pass = drop (Suc (length name)) userpass
           in if user_count ut = MAX_USERS \<or> \<not> check_valid_user name MAX_USER_LEN
                \<or> \<not> check_valid_user pass MAX_PASS_LEN \<or> \<not> check_new_user name ut
              then Inr (False, ut, name)
              else bindE (arr_get (users ut) (user_count ut)) (\<lambda>u.
                   bindE (strcpy (username u) name) (\<lambda>uname.
                   bindE (strcpy (password u) pass) (\<lambda>upass.
                   Inr (True, ut\<lparr>users := (users ut)[user_count ut := \<lparr>username = uname, password = upass\<rparr>],
                                user_count := user_count ut + 1\<rparr>, name)))))"

definition try_credentials :: "byte list \<Rightarrow> byte list \<Rightarrow> user_table \<Rightarrow> bool" where
  "try_credentials name pass ut =
     list_ex (\<lambda>u. cstr (username u) = name \<and> cstr (password u) = pass)
       (take (user_count ut) (users ut))"

definition get_users :: "user_table \<Rightarrow> user list \<times> nat" where
  "get_users ut = (users ut, user_count ut)"

section \<open>Tokens\<close>

definition MAX_TOKEN_LENGTH :: nat where "MAX_TOKEN_LENGTH = 32"
definition MAX_TOKENS :: nat where "MAX_TOKENS = 10"

lemmas token_limits = MAX_TOKEN_LENGTH_def MAX_TOKENS_def

record token_table =
  tokens :: "byte list list"
  token_count :: nat

definition empty_tokens :: token_table where
  "empty_tokens = \<lparr>tokens = replicate MAX_TOKENS (replicate MAX_TOKEN_LENGTH 0), token_count = 0\<rparr>"

fun check_valid_token :: "byte list \<Rightarrow> nat \<Rightarrow> bool" where
  "check_valid_token [] len = (0 < len)"
| "check_valid_token (c # cs) 0 = False"
| "check_valid_token (c # cs) (Suc len) = (if \<not> isprint c then False else check_valid_token cs len)"

text \<open>\<open>strncpy(dst, s, n)\<close>: at most \<open>n\<close> bytes of the string, padded with NULs up to \<open>n\<close>.\<close>

definition strncpy :: "byte list \<Rightarrow> byte list \<Rightarrow> nat \<Rightarrow> byte list run" where
  "strncpy dst s n = mem_write 0 (take n (s @ replicate n 0)) dst"

definition add_token :: "byte list \<Rightarrow> token_table \<Rightarrow> (bool \<times> token_table) run" where
  "add_token tok tt =
     (if token_count tt \<ge> MAX_TOKENS \<or> \<not> check_valid_token tok MAX_TOKEN_LENGTH
      then Inr (False, tt)
      else bindE (arr_get (tokens tt) (token_count tt)) (\<lambda>t.
           bindE (strncpy t tok MAX_TOKEN_LENGTH) (\<lambda>t'.
           Inr (True, tt\<lparr>tokens := (tokens tt)[token_count tt := t'],
                        token_count := token_count tt + 1\<rparr>))))"

definition check_token :: "byte list \<Rightarrow> token_table \<Rightarrow> bool" where
  "check_token tok tt = list_ex (\<lambda>t. cstr t = tok) (take (token_count tt) (tokens tt))"

definition get_token_count :: "token_table \<Rightarrow> nat" where
  "get_token_count tt = token_count tt"

section \<open>Invariants\<close>

definition users_wf :: "user_table \<Rightarrow> bool" where
  "users_wf ut \<longleftrightarrow> length (users ut) = MAX_USERS \<and> user_count ut \<le> MAX_USERS
     \<and> (\<forall>u\<in>set (users ut). length (username u) = MAX_USER_LEN + 1 \<and> length (password u) = MAX_PASS_LEN + 1)"

definition user_entries :: "user_table \<Rightarrow> (byte list \<times> byte list) list" where
  "user_entries ut = map (\<lambda>u. (cstr (username u), cstr (password u))) (take (user_count ut) (users ut))"

definition tokens_wf :: "token_table \<Rightarrow> bool" where
  "tokens_wf tt \<longleftrightarrow> length (tokens tt) = MAX_TOKENS \<and> token_count tt \<le> MAX_TOKENS
     \<and> (\<forall>t\<in>set (tokens tt). length t = MAX_TOKEN_LENGTH)"

definition token_entries :: "token_table \<Rightarrow> byte list list" where
  "token_entries tt = map cstr (take (token_count tt) (tokens tt))"

lemma users_wf_empty: "users_wf empty_users" and user_entries_empty: "user_entries empty_users = []"
  by (simp_all add: users_wf_def user_entries_def empty_users_def no_user_def)

lemma tokens_wf_empty: "tokens_wf empty_tokens" and token_entries_empty: "token_entries empty_tokens = []"
  by (simp_all add: tokens_wf_def token_entries_def empty_tokens_def)

text \<open>
  A valid string is shorter than the limit (the limit itself is already refused), printable,
  and for users free of colons.
\<close>

lemma check_valid_user_iff:
  "check_valid_user s len \<longleftrightarrow> length s < len \<and> (\<forall>c\<in>set s. c \<noteq> 58 \<and> isprint c)"
  by (induction s len rule: check_valid_user.induct) auto

lemma check_valid_token_iff:
  "check_valid_token s len \<longleftrightarrow> length s < len \<and> (\<forall>c\<in>set s. isprint c)"
  by (induction s len rule: check_valid_token.induct) auto

lemma printable_nul_free: "\<forall>c\<in>set s. isprint c \<Longrightarrow> 0 \<notin> set s"
  using isprint_nonzero by blast

lemma strcpy_ok:
  assumes "length s < length dst" and "0 \<notin> set s"
  obtains d where "strcpy dst s = Inr d" "length d = length dst" "cstr d = s"
proof -
  have "strcpy dst s = Inr (overwrite 0 (s @ [0]) dst)"
    using assms(1) by (simp add: strcpy_def)
  moreover have "overwrite 0 (s @ [0]) dst = s @ 0 # drop (Suc (length s)) dst"
    by (simp add: overwrite_def)
  ultimately show thesis
    using assms that by simp
qed

lemma strncpy_ok:
  assumes "length s < n" and "length dst = n" and "0 \<notin> set s"
  obtains d where "strncpy dst s n = Inr d" "length d = n" "cstr d = s"
proof -
  obtain m where m: "n - length s = Suc m"
    using assms(1) by (metis Suc_diff_Suc)
  have "take n (s @ replicate n 0) = s @ replicate (n - length s) 0"
    using assms(1) by simp
  then have pad: "take n (s @ replicate n 0) = s @ 0 # replicate m 0"
    using m by simp
  have "length (s @ 0 # replicate m (0::byte)) = n"
    using m assms(1) by simp
  then have "strncpy dst s n = Inr (s @ 0 # replicate m 0)"
    unfolding strncpy_def pad using assms(2) by (simp add: mem_write_def overwrite_def)
  with assms(3) m assms(1) show thesis
    using that [of "s @ 0 # replicate m 0"] by simp
qed

lemma map_take_Suc_update:
  "n < length xs \<Longrightarrow> map f (take (Suc n) (xs[n := x])) = map f (take n xs) @ [f x]"
  by (simp add: take_Suc_conv_app_nth)

section \<open>The credential store\<close>

locale credential_store =
  fixes invar :: "'t \<Rightarrow> bool"
    and entries :: "'t \<Rightarrow> 'k list"
    and valid :: "'k \<Rightarrow> 't \<Rightarrow> bool"
    and add :: "'k \<Rightarrow> 't \<Rightarrow> (bool \<times> 't) run"
    and check :: "'k \<Rightarrow> 't \<Rightarrow> bool"
    and limit :: nat
  assumes limit_law: "invar t \<Longrightarrow> length (entries t) \<le> limit"
    and check_law: "invar t \<Longrightarrow> check k t \<longleftrightarrow> k \<in> set (entries t)"
    and accept_law: "invar t \<Longrightarrow> valid k t \<Longrightarrow> length (entries t) < limit \<Longrightarrow>
      \<exists>t'. add k t = Inr (True, t') \<and> invar t' \<and> entries t' = entries t @ [k]"
    and refuse_law: "invar t \<Longrightarrow> \<not> (valid k t \<and> length (entries t) < limit) \<Longrightarrow> add k t = Inr (False, t)"
begin

lemma add_total:
  assumes "invar t"
  obtains ok t' where "add k t = Inr (ok, t')" "invar t'" "entries t' = entries t @ (if ok then [k] else [])"
proof (cases "valid k t \<and> length (entries t) < limit")
  case True
  then show thesis using accept_law [OF assms] that by fastforce
next
  case False
  then show thesis using refuse_law [OF assms False] assms that [of False t] by simp
qed

lemma check_after_add:
  assumes "invar t" and "add k t = Inr (ok, t')"
  shows "check k' t' \<longleftrightarrow> check k' t \<or> (ok \<and> k' = k)"
proof -
  obtain ok' t'' where "add k t = Inr (ok', t'')" "invar t''"
    "entries t'' = entries t @ (if ok' then [k] else [])"
    by (metis add_total [OF assms(1)])
  with assms show ?thesis by (auto simp: check_law)
qed

text \<open>The contract in one piece: what \<open>add\<close> answers, and what can be checked afterwards.\<close>

lemma contract:
  assumes "invar t"
  shows "\<exists>ok t'. add k t = Inr (ok, t') \<and> invar t' \<and> (ok \<longleftrightarrow> valid k t \<and> length (entries t) < limit) \<and> (\<not> ok \<longrightarrow> t' = t)
    \<and> (\<forall>k'. check k' t' \<longleftrightarrow> check k' t \<or> (ok \<and> k' = k))"
proof (cases "valid k t \<and> length (entries t) < limit")
  case True
  then obtain t' where "add k t = Inr (True, t')" "invar t'" using accept_law [OF assms] by blast
  with True show ?thesis using check_after_add [OF assms] by fastforce
next
  case False
  with refuse_law [OF assms False] assms show ?thesis by auto
qed

lemma full_refuses:
  assumes "invar t" and "length (entries t) = limit"
  shows "add k t = Inr (False, t)"
  using refuse_law [OF assms(1)] assms(2) by simp

end

text \<open>\<open>add_user\<close> on the string \<open>name:pass\<close>, without the rewritten argument.\<close>

definition add_user_pair :: "byte list \<times> byte list \<Rightarrow> user_table \<Rightarrow> (bool \<times> user_table) run" where
  "add_user_pair np ut =
     bindE (add_user (fst np @ 58 # snd np) ut) (\<lambda>(ok, ut', arg). Inr (ok, ut'))"

definition valid_user :: "byte list \<times> byte list \<Rightarrow> user_table \<Rightarrow> bool" where
  "valid_user np ut \<longleftrightarrow> check_valid_user (fst np) MAX_USER_LEN \<and> check_valid_user (snd np) MAX_PASS_LEN
     \<and> fst np \<notin> fst ` set (user_entries ut)"

lemma check_new_user_iff: "check_new_user name ut \<longleftrightarrow> name \<notin> fst ` set (user_entries ut)"
  by (force simp: check_new_user_def user_entries_def list_all_iff)

lemma length_user_entries: "users_wf ut \<Longrightarrow> length (user_entries ut) = user_count ut"
  by (simp add: users_wf_def user_entries_def)

lemma length_token_entries: "tokens_wf tt \<Longrightarrow> length (token_entries tt) = token_count tt"
  by (simp add: tokens_wf_def token_entries_def)

text \<open>A colon inside the name moves the cut, and the rest is then refused as a password.\<close>

lemma split_colon:
  assumes "58 \<notin> set name"
  shows "takeWhile (\<lambda>c. c \<noteq> 58) (name @ 58 # pass) = name"
  using assms by (induction name) auto

lemma split_colon_in_name:
  fixes name pass :: "byte list"
  assumes "58 \<in> set name"
  shows "58 \<in> set (drop (Suc (length (takeWhile (\<lambda>c. c \<noteq> 58) (name @ 58 # pass)))) (name @ 58 # pass))"
  using assms by (induction name) auto

lemma add_user_pair_accept:
  assumes wf: "users_wf ut" and v: "valid_user (name, pass) ut" and room: "user_count ut < MAX_USERS"
  obtains ut' where "add_user_pair (name, pass) ut = Inr (True, ut')" "users_wf ut'"
    "user_entries ut' = user_entries ut @ [(name, pass)]"
proof -
  let ?n = "user_count ut"
  let ?u = "users ut ! ?n"
  have nv: "length name < MAX_USER_LEN" "0 \<notin> set name" "58 \<notin> set name"
    and pv: "length pass < MAX_PASS_LEN" "0 \<notin> set pass"
    using v printable_nul_free [of name] printable_nul_free [of pass]
    by (auto simp: valid_user_def check_valid_user_iff)
  have idx: "?n < length (users ut)" and lens: "length (username ?u) = MAX_USER_LEN + 1"
    "length (password ?u) = MAX_PASS_LEN + 1"
    using wf room by (auto simp: users_wf_def)
  obtain du where du: "strcpy (username ?u) name = Inr du" "length du = MAX_USER_LEN + 1" "cstr du = name"
    by (metis strcpy_ok lens(1) nv(1,2) less_Suc_eq Suc_eq_plus1)
  obtain dp where dp: "strcpy (password ?u) pass = Inr dp" "length dp = MAX_PASS_LEN + 1" "cstr dp = pass"
    by (metis strcpy_ok lens(2) pv less_Suc_eq Suc_eq_plus1)
  let ?ut = "ut\<lparr>users := (users ut)[?n := \<lparr>username = du, password = dp\<rparr>], user_count := ?n + 1\<rparr>"
  have "add_user_pair (name, pass) ut = Inr (True, ?ut)"
    using v room idx du dp
    by (simp add: add_user_pair_def add_user_def split_colon [OF nv(3)] Let_def valid_user_def check_new_user_iff)
  moreover have "users_wf ?ut"
    using wf room du dp by (auto simp: users_wf_def dest!: set_update_subset_insert [THEN subsetD])
  moreover have "user_entries ?ut = user_entries ut @ [(name, pass)]"
    using idx du dp by (simp add: user_entries_def map_take_Suc_update)
  ultimately show thesis
    using that by blast
qed

lemma add_user_pair_refuse:
  assumes "users_wf ut" and "\<not> (valid_user (name, pass) ut \<and> length (user_entries ut) < MAX_USERS)"
  shows "add_user_pair (name, pass) ut = Inr (False, ut)"
proof (cases "58 \<in> set name")
  case True
  let ?pass = "drop (Suc (length (takeWhile (\<lambda>c. c \<noteq> 58) (name @ 58 # pass)))) (name @ 58 # pass)"
  have "\<not> check_valid_user ?pass MAX_PASS_LEN"
    using split_colon_in_name [OF True, of pass] unfolding check_valid_user_iff by blast
  then show ?thesis
    unfolding add_user_pair_def add_user_def Let_def by simp
next
  case False
  have "user_count ut = MAX_USERS" if "\<not> user_count ut < MAX_USERS"
    using that assms(1) by (simp add: users_wf_def)
  with assms show ?thesis
    by (auto simp: add_user_pair_def add_user_def Let_def split_colon [OF False] valid_user_def
        check_new_user_iff length_user_entries)
qed

lemma try_credentials_iff: "try_credentials name pass ut \<longleftrightarrow> (name, pass) \<in> set (user_entries ut)"
  by (force simp: try_credentials_def user_entries_def list_ex_iff)

interpretation us: credential_store users_wf user_entries valid_user add_user_pair
  "\<lambda>np ut. try_credentials (fst np) (snd np) ut" MAX_USERS
proof unfold_locales
  fix ut assume "users_wf ut"
  then show "length (user_entries ut) \<le> MAX_USERS"
    by (simp add: length_user_entries users_wf_def)
next
  fix ut and k :: "byte list \<times> byte list"
  assume "users_wf ut" "valid_user k ut" "length (user_entries ut) < MAX_USERS"
  then show "\<exists>t'. add_user_pair k ut = Inr (True, t') \<and> users_wf t' \<and> user_entries t' = user_entries ut @ [k]"
    by (cases k) (metis add_user_pair_accept length_user_entries)
next
  fix ut and k :: "byte list \<times> byte list"
  assume "users_wf ut" "\<not> (valid_user k ut \<and> length (user_entries ut) < MAX_USERS)"
  then show "add_user_pair k ut = Inr (False, ut)"
    by (cases k) (simp add: add_user_pair_refuse)
qed (simp add: try_credentials_iff)

definition valid_token :: "byte list \<Rightarrow> token_table \<Rightarrow> bool" where
  "valid_token tok tt \<longleftrightarrow> check_valid_token tok MAX_TOKEN_LENGTH"

text \<open>What \<open>add_user\<close> accepts, in terms of its argument.\<close>

definition user_name :: "byte list \<Rightarrow> byte list" where
  "user_name s = takeWhile (\<lambda>c. c \<noteq> 58) s"

definition user_pass :: "byte list \<Rightarrow> byte list" where
  "user_pass s = drop (Suc (length (user_name s))) s"

text \<open>\<open>name:password\<close> with a new name, both printable without colons and short enough, and a free place.\<close>

definition acceptable_user :: "byte list \<Rightarrow> (byte list \<times> byte list) list \<Rightarrow> bool" where
  "acceptable_user s us \<longleftrightarrow> 58 \<in> set s \<and> length us < MAX_USERS
     \<and> length (user_name s) < MAX_USER_LEN \<and> (\<forall>c\<in>set (user_name s). isprint c)
     \<and> length (user_pass s) < MAX_PASS_LEN \<and> (\<forall>c\<in>set (user_pass s). c \<noteq> 58 \<and> isprint c)
     \<and> user_name s \<notin> fst ` set us"

lemma add_user_spec:
  assumes "users_wf ut"
  obtains ut' where "add_user s ut = Inr (acceptable_user s (user_entries ut), ut', user_name s)" "users_wf ut'"
    "user_entries ut' = user_entries ut @ (if acceptable_user s (user_entries ut) then [(user_name s, user_pass s)] else [])"
proof (cases "58 \<in> set s")
  case False
  then have "user_name s = s"
    unfolding user_name_def by (metis (mono_tags, lifting) takeWhile_eq_all_conv)
  with False show thesis
    using assms by (intro that [of ut]) (simp_all add: add_user_def acceptable_user_def)
next
  case True
  obtain name pass where np: "s = name @ 58 # pass" "58 \<notin> set name"
    using split_list_first [OF True] by blast
  have n: "user_name s = name" unfolding user_name_def np(1) by (rule split_colon [OF np(2)])
  have p: "user_pass s = pass" unfolding user_pass_def n by (simp add: np(1))
  have acc: "acceptable_user s (user_entries ut) \<longleftrightarrow> valid_user (name, pass) ut \<and> length (user_entries ut) < MAX_USERS"
    using True np(2) by (auto simp: acceptable_user_def valid_user_def n p check_valid_user_iff)
  obtain ok ut' where r: "add_user_pair (name, pass) ut = Inr (ok, ut')" "users_wf ut'"
    "user_entries ut' = user_entries ut @ (if ok then [(name, pass)] else [])"
    using us.add_total [OF assms] by metis
  have ok: "ok \<longleftrightarrow> acceptable_user s (user_entries ut)"
    using r(1) acc us.accept_law [OF assms, of "(name, pass)"] us.refuse_law [OF assms, of "(name, pass)"] by auto
  obtain left where l: "add_user s ut = Inr (ok, ut', left)"
    using r(1) np(1) by (auto simp: add_user_pair_def bindE_eq_Inr)
  then have "left = user_name s"
    using True by (auto simp: user_name_def add_user_def Let_def bindE_eq_Inr split: if_splits)
  with l r(2,3) show thesis using that n p by (simp add: ok)
qed

lemma user_name_shorter: "58 \<in> set s \<Longrightarrow> length (user_name s) < length s"
  unfolding user_name_def
  by (metis (mono_tags, lifting) le_neq_implies_less length_takeWhile_le append_eq_conv_conj append_Nil2 takeWhile_dropWhile_id takeWhile_eq_all_conv)

lemma add_token_accept:
  assumes wf: "tokens_wf tt" and v: "valid_token tok tt" and room: "token_count tt < MAX_TOKENS"
  obtains tt' where "add_token tok tt = Inr (True, tt')" "tokens_wf tt'"
    "token_entries tt' = token_entries tt @ [tok]"
proof -
  let ?n = "token_count tt"
  have tv: "length tok < MAX_TOKEN_LENGTH" "0 \<notin> set tok"
    using v printable_nul_free [of tok] by (auto simp: valid_token_def check_valid_token_iff)
  have idx: "?n < length (tokens tt)" and len: "length (tokens tt ! ?n) = MAX_TOKEN_LENGTH"
    using wf room by (auto simp: tokens_wf_def)
  obtain d where d: "strncpy (tokens tt ! ?n) tok MAX_TOKEN_LENGTH = Inr d" "length d = MAX_TOKEN_LENGTH"
    "cstr d = tok"
    by (metis strncpy_ok tv len)
  let ?tt = "tt\<lparr>tokens := (tokens tt)[?n := d], token_count := ?n + 1\<rparr>"
  have "add_token tok tt = Inr (True, ?tt)"
    using v room idx d by (simp add: add_token_def valid_token_def)
  moreover have "tokens_wf ?tt"
    using wf room d by (auto simp: tokens_wf_def dest!: set_update_subset_insert [THEN subsetD])
  moreover have "token_entries ?tt = token_entries tt @ [tok]"
    using idx d by (simp add: token_entries_def map_take_Suc_update)
  ultimately show thesis
    using that by blast
qed

lemma check_token_iff: "check_token tok tt \<longleftrightarrow> tok \<in> set (token_entries tt)"
  by (force simp: check_token_def token_entries_def list_ex_iff)

interpretation ts: credential_store tokens_wf token_entries valid_token add_token check_token MAX_TOKENS
proof unfold_locales
  fix tt assume "tokens_wf tt"
  then show "length (token_entries tt) \<le> MAX_TOKENS"
    by (simp add: length_token_entries tokens_wf_def)
next
  fix tt and k :: "byte list"
  assume "tokens_wf tt" "valid_token k tt" "length (token_entries tt) < MAX_TOKENS"
  then show "\<exists>t'. add_token k tt = Inr (True, t') \<and> tokens_wf t' \<and> token_entries t' = token_entries tt @ [k]"
    by (metis add_token_accept length_token_entries)
next
  fix tt and k :: "byte list"
  assume "tokens_wf tt" "\<not> (valid_token k tt \<and> length (token_entries tt) < MAX_TOKENS)"
  then show "add_token k tt = Inr (False, tt)"
    by (auto simp: add_token_def valid_token_def length_token_entries)
qed (simp add: check_token_iff)

end
