(* ===== verification/Buffer.thy ===== *)
theory Buffer
  imports Socks_Prelude
begin

text \<open>
  \<open>src/buffer.c\<close>, \<open>include/buffer.h\<close>: the byte buffer with a read and a write pointer that
  carries every message of the server. A \<open>buffer\<close> points into an array; here the array is the
  field \<open>buf_data\<close> and the pointers \<open>limit\<close>, \<open>read\<close> and \<open>write\<close> are offsets from \<open>data\<close>. The
  asserts are \<open>assertE\<close>, dereferences outside the array are the fault \<open>Out_of_bounds\<close>.

  The invariant \<open>buffer_wf\<close> is the header's \<open>R <= W <= limit\<close>, together with the fact that an
  emptied buffer is always rewound to its start. The locale \<open>byte_queue\<close> is what the rest of the
  server relies on: a bounded FIFO of bytes.
\<close>

section \<open>The struct and its operations\<close>

record buffer =
  buf_data :: "byte list"
  buf_limit :: nat
  buf_read :: nat
  buf_write :: nat

definition buffer_reset :: "buffer \<Rightarrow> buffer" where
  "buffer_reset b = b\<lparr>buf_read := 0, buf_write := 0\<rparr>"

definition buffer_init :: "nat \<Rightarrow> byte list \<Rightarrow> buffer" where
  "buffer_init n data =
     buffer_reset \<lparr>buf_data = data, buf_limit = n, buf_read = 0, buf_write = 0\<rparr>"

definition buffer_can_write :: "buffer \<Rightarrow> bool" where
  "buffer_can_write b \<longleftrightarrow> int (buf_limit b) - int (buf_write b) > 0"

text \<open>The pointer returned and the number of bytes stored in \<open>*nbyte\<close>.\<close>

definition buffer_write_ptr :: "buffer \<Rightarrow> (nat \<times> nat) run" where
  "buffer_write_ptr b =
     assertE (buf_write b \<le> buf_limit b) (Inr (buf_write b, buf_limit b - buf_write b))"

definition buffer_can_read :: "buffer \<Rightarrow> bool" where
  "buffer_can_read b \<longleftrightarrow> int (buf_write b) - int (buf_read b) > 0"

definition buffer_read_ptr :: "buffer \<Rightarrow> (nat \<times> nat) run" where
  "buffer_read_ptr b =
     assertE (buf_read b \<le> buf_write b) (Inr (buf_read b, buf_write b - buf_read b))"

definition buffer_write_adv :: "buffer \<Rightarrow> int \<Rightarrow> buffer run" where
  "buffer_write_adv b bytes =
     (if bytes > -1
      then let b1 = b\<lparr>buf_write := buf_write b + nat bytes\<rparr>
           in assertE (buf_write b1 \<le> buf_limit b1) (Inr b1)
      else Inr b)"

definition buffer_compact :: "buffer \<Rightarrow> buffer" where
  "buffer_compact b =
     (if buf_read b = 0 then b
      else if buf_read b = buf_write b then b\<lparr>buf_read := 0, buf_write := 0\<rparr>
      else let n = buf_write b - buf_read b
           in b\<lparr>buf_data := overwrite 0 (take n (drop (buf_read b) (buf_data b))) (buf_data b),
                buf_read := 0, buf_write := n\<rparr>)"

definition buffer_read_adv :: "buffer \<Rightarrow> int \<Rightarrow> buffer run" where
  "buffer_read_adv b bytes =
     (if bytes > -1
      then let b1 = b\<lparr>buf_read := buf_read b + nat bytes\<rparr>
           in assertE (buf_read b1 \<le> buf_write b1)
                (Inr (if buf_read b1 = buf_write b1 then buffer_compact b1 else b1))
      else Inr b)"

definition buffer_read :: "buffer \<Rightarrow> (byte \<times> buffer) run" where
  "buffer_read b =
     (if buffer_can_read b
      then bindE (arr_get (buf_data b) (buf_read b)) (\<lambda>ret.
           bindE (buffer_read_adv b 1) (\<lambda>b1. Inr (ret, b1)))
      else Inr (0, b))"

definition buffer_write :: "buffer \<Rightarrow> byte \<Rightarrow> buffer run" where
  "buffer_write b c =
     (if buffer_can_write b
      then bindE (mem_write (buf_write b) [c] (buf_data b)) (\<lambda>d.
           buffer_write_adv (b\<lparr>buf_data := d\<rparr>) 1)
      else Inr b)"

text \<open>
  The idiom used all over the server to append a block: \<open>buffer_write_ptr\<close>, \<open>memcpy\<close>,
  \<open>buffer_write_adv\<close>.
\<close>

definition buffer_put :: "byte list \<Rightarrow> buffer \<Rightarrow> buffer run" where
  "buffer_put bs b =
     bindE (buffer_write_ptr b) (\<lambda>(ptr, space).
     bindE (mem_write ptr bs (buf_data b)) (\<lambda>d.
     buffer_write_adv (b\<lparr>buf_data := d\<rparr>) (int (length bs))))"

section \<open>Invariant and abstraction\<close>

definition buffer_wf :: "buffer \<Rightarrow> bool" where
  "buffer_wf b \<longleftrightarrow>
     buf_read b \<le> buf_write b \<and> buf_write b \<le> buf_limit b \<and> buf_limit b = length (buf_data b)
     \<and> (buf_read b = buf_write b \<longrightarrow> buf_read b = 0)"

definition contents :: "buffer \<Rightarrow> byte list" where
  "contents b = take (buf_write b - buf_read b) (drop (buf_read b) (buf_data b))"

definition space :: "buffer \<Rightarrow> nat" where
  "space b = buf_limit b - buf_write b"

lemma length_contents: "buffer_wf b \<Longrightarrow> length (contents b) = buf_write b - buf_read b"
  by (auto simp: buffer_wf_def contents_def)

lemma buffer_wf_init [simp]: "length data = n \<Longrightarrow> buffer_wf (buffer_init n data)"
  by (simp add: buffer_wf_def buffer_init_def buffer_reset_def)

lemma contents_init [simp]: "contents (buffer_init n data) = []"
  by (simp add: contents_def buffer_init_def buffer_reset_def)

lemma space_init [simp]: "space (buffer_init n data) = n"
  by (simp add: space_def buffer_init_def buffer_reset_def)

lemma buffer_can_read_iff: "buffer_wf b \<Longrightarrow> buffer_can_read b \<longleftrightarrow> contents b \<noteq> []"
  by (auto simp: buffer_wf_def buffer_can_read_def contents_def)

lemma buffer_can_write_iff: "buffer_can_write b \<longleftrightarrow> 0 < space b"
  by (auto simp: buffer_can_write_def space_def)

lemma buffer_write_ptr_wf [simp]: "buffer_wf b \<Longrightarrow> buffer_write_ptr b = Inr (buf_write b, space b)"
  by (simp add: buffer_write_ptr_def buffer_wf_def space_def)

lemma buffer_read_ptr_wf [simp]:
  "buffer_wf b \<Longrightarrow> buffer_read_ptr b = Inr (buf_read b, length (contents b))"
  by (auto simp: buffer_read_ptr_def buffer_wf_def contents_def)

text \<open>An emptied buffer offers its whole array again.\<close>

lemma space_empty: "buffer_wf b \<Longrightarrow> contents b = [] \<Longrightarrow> space b = buf_limit b"
  by (auto simp: buffer_wf_def contents_def space_def)

lemma space_plus_contents: "buffer_wf b \<Longrightarrow> length (contents b) + space b \<le> buf_limit b"
  by (simp add: buffer_wf_def space_def contents_def)

section \<open>Behaviour of the operations\<close>

lemma contents_prefix_read:
  "buffer_wf b \<Longrightarrow> n \<le> length (contents b) \<Longrightarrow>
   drop n (contents b) = take (buf_write b - (buf_read b + n)) (drop (buf_read b + n) (buf_data b))"
  by (simp add: contents_def drop_take add.commute)

text \<open>The bytes behind the read pointer are the contents.\<close>

lemma contents_nth:
  assumes "buffer_wf b" and "i < length (contents b)"
  shows "buf_read b + i < length (buf_data b)" and "buf_data b ! (buf_read b + i) = contents b ! i"
  using assms by (auto simp: buffer_wf_def contents_def)

lemma arr_get_contents:
  "buffer_wf b \<Longrightarrow> i < length (contents b) \<Longrightarrow> arr_get (buf_data b) (buf_read b + i) = Inr (contents b ! i)"
  by (simp add: contents_nth)

lemma contents_slice:
  assumes "buffer_wf b" and "i + n \<le> length (contents b)"
  shows "take n (drop (buf_read b + i) (buf_data b)) = take n (drop i (contents b))"
proof -
  have "i + n \<le> buf_write b - buf_read b"
    using assms length_contents by metis
  then show ?thesis
    by (simp add: contents_def drop_take min_def add.commute)
qed

lemma buffer_put_ok:
  assumes "buffer_wf b" and "length bs \<le> space b"
  obtains b' where "buffer_put bs b = Inr b'" "buffer_wf b'"
    "contents b' = contents b @ bs" "space b' = space b - length bs" "buf_limit b' = buf_limit b"
proof -
  let ?d = "overwrite (buf_write b) bs (buf_data b)"
  let ?b = "b\<lparr>buf_data := ?d, buf_write := buf_write b + length bs\<rparr>"
  have fits: "buf_write b + length bs \<le> length (buf_data b)" and rw: "buf_read b \<le> buf_write b"
    and lim: "buf_limit b = length (buf_data b)"
    using assms by (auto simp: buffer_wf_def space_def)
  have put: "buffer_put bs b = Inr ?b"
    using fits assms(1) lim by (simp add: buffer_put_def buffer_write_adv_def Let_def)
  have "contents ?b = contents b @ bs"
    using window_overwrite [OF rw fits] by (simp add: contents_def)
  moreover have "buffer_wf ?b"
    using assms(1) fits by (auto simp: buffer_wf_def)
  moreover have "space ?b = space b - length bs" "buf_limit ?b = buf_limit b"
    by (simp_all add: space_def)
  ultimately show thesis
    using put that by blast
qed

lemma buffer_read_adv_ok:
  assumes "buffer_wf b" and "n \<le> length (contents b)"
  obtains b' where "buffer_read_adv b (int n) = Inr b'" "buffer_wf b'"
    "contents b' = drop n (contents b)" "space b \<le> space b'" "buf_limit b' = buf_limit b"
    "buf_data b' = buf_data b"
proof (cases "buf_read b + n = buf_write b")
  case True
  let ?b = "buffer_compact (b\<lparr>buf_read := buf_read b + n\<rparr>)"
  have "buffer_read_adv b (int n) = Inr ?b"
    using True by (simp add: buffer_read_adv_def Let_def)
  moreover have "buffer_wf ?b" "space b \<le> space ?b" "buf_limit ?b = buf_limit b" "buf_data ?b = buf_data b"
    using assms(1) True by (auto simp: buffer_compact_def buffer_wf_def space_def)
  moreover have "contents ?b = drop n (contents b)"
    using assms True by (auto simp: buffer_compact_def contents_def)
  ultimately show thesis
    using that by blast
next
  case False
  let ?b = "b\<lparr>buf_read := buf_read b + n\<rparr>"
  have le: "buf_read b + n \<le> buf_write b"
    using assms by (auto simp: buffer_wf_def contents_def)
  have "buffer_read_adv b (int n) = Inr ?b"
    using False le by (simp add: buffer_read_adv_def Let_def)
  moreover have "buffer_wf ?b" "space b \<le> space ?b" "buf_limit ?b = buf_limit b" "buf_data ?b = buf_data b"
    using assms(1) False le by (auto simp: buffer_wf_def space_def)
  moreover have "contents ?b = drop n (contents b)"
    using contents_prefix_read [OF assms] by (simp add: contents_def)
  ultimately show thesis
    using that by blast
qed

lemma buffer_write_put:
  assumes "buffer_wf b" and "0 < space b"
  shows "buffer_write b c = buffer_put [c] b"
  using assms by (simp add: buffer_write_def buffer_put_def buffer_can_write_iff)

text \<open>\<open>buffer_write\<close> drops the byte when the buffer is full, and appends it otherwise.\<close>

lemma buffer_write_ok:
  assumes "buffer_wf b"
  obtains b' where "buffer_write b c = Inr b'" "buffer_wf b'" "buf_limit b' = buf_limit b"
    "contents b' = contents b @ (if 0 < space b then [c] else [])"
    "space b' = space b - 1"
proof (cases "0 < space b")
  case True
  with assms obtain b' where "buffer_put [c] b = Inr b'" "buffer_wf b'"
    "contents b' = contents b @ [c]" "space b' = space b - length [c]" "buf_limit b' = buf_limit b"
    by (metis buffer_put_ok length_0_conv length_Cons less_eq_Suc_le list.size(3))
  with True show thesis
    using that [of b'] buffer_write_put [OF assms True] by simp
next
  case False
  with assms show thesis
    using that [of b] by (simp add: buffer_write_def buffer_can_write_iff)
qed

lemma buffer_read_ok:
  assumes "buffer_wf b" and "contents b = c # cs"
  obtains b' where "buffer_read b = Inr (c, b')" "buffer_wf b'" "contents b' = cs"
    "buf_data b' = buf_data b" "buf_limit b' = buf_limit b"
proof -
  have can: "buffer_can_read b"
    using assms by (simp add: buffer_can_read_iff)
  have rd: "buf_read b < length (buf_data b)"
    using assms(1) can by (auto simp: buffer_wf_def buffer_can_read_def)
  have "contents b ! 0 = buf_data b ! buf_read b"
    using assms(1) can rd by (simp add: contents_def buffer_can_read_def)
  then have c: "buf_data b ! buf_read b = c"
    using assms(2) by simp
  obtain b' where adv: "buffer_read_adv b (int 1) = Inr b'" "buffer_wf b'"
    "contents b' = drop 1 (contents b)" "buf_limit b' = buf_limit b" "buf_data b' = buf_data b"
    using buffer_read_adv_ok [OF assms(1), of 1] assms(2) by (metis le_add1 length_Cons plus_1_eq_Suc)
  then show thesis
    using that [of b'] can rd c assms(2) by (simp add: buffer_read_def)
qed

lemma buffer_compact_ok:
  assumes "buffer_wf b"
  shows "buffer_wf (buffer_compact b)" and "contents (buffer_compact b) = contents b"
    and "buf_limit (buffer_compact b) = buf_limit b"
    and "space (buffer_compact b) = buf_limit b - length (contents b)"
proof -
  have w: "buf_read b \<le> buf_write b" "buf_write b \<le> length (buf_data b)"
    "buf_limit b = length (buf_data b)" "buf_read b = buf_write b \<longrightarrow> buf_read b = 0"
    using assms by (auto simp: buffer_wf_def)
  let ?n = "buf_write b - buf_read b"
  have len: "length (take ?n (drop (buf_read b) (buf_data b))) = ?n"
    using w by simp
  show "buffer_wf (buffer_compact b)"
    using w len by (auto simp: buffer_compact_def buffer_wf_def Let_def)
  show "contents (buffer_compact b) = contents b"
    using w len by (auto simp: buffer_compact_def contents_def Let_def overwrite_def)
  show "buf_limit (buffer_compact b) = buf_limit b"
    by (simp add: buffer_compact_def Let_def)
  show "space (buffer_compact b) = buf_limit b - length (contents b)"
    using assms w by (auto simp: buffer_compact_def space_def contents_def Let_def)
qed

section \<open>The buffer as a bounded queue of bytes\<close>

text \<open>
  An operation on the queue as the socket code issues it: append what some source delivers when
  it is offered the free room, or remove as many bytes as some sink takes of the front.
\<close>

datatype qop = Put "nat \<Rightarrow> byte list" | Take "byte list \<Rightarrow> nat"

fun qop_ok :: "qop \<Rightarrow> bool" where
  "qop_ok (Put f) \<longleftrightarrow> (\<forall>n. length (f n) \<le> n)"
| "qop_ok (Take g) \<longleftrightarrow> (\<forall>bs. g bs \<le> length bs)"

text \<open>A run of operations: the bytes that entered, the bytes that left, and the final queue.\<close>

fun qrun :: "('q \<Rightarrow> byte list) \<Rightarrow> ('q \<Rightarrow> nat) \<Rightarrow> (byte list \<Rightarrow> 'q \<Rightarrow> 'q run) \<Rightarrow> (nat \<Rightarrow> 'q \<Rightarrow> 'q run)
    \<Rightarrow> qop list \<Rightarrow> 'q \<Rightarrow> (byte list \<times> byte list \<times> 'q) run" where
  "qrun items room put adv [] q = Inr ([], [], q)"
| "qrun items room put adv (Put f # ops) q =
     (let bs = f (room q) in
      bindE (put bs q) (\<lambda>q1.
      bindE (qrun items room put adv ops q1) (\<lambda>(ins, outs, q2). Inr (bs @ ins, outs, q2))))"
| "qrun items room put adv (Take g # ops) q =
     (let n = g (items q) in
      bindE (adv n q) (\<lambda>q1.
      bindE (qrun items room put adv ops q1) (\<lambda>(ins, outs, q2). Inr (ins, take n (items q) @ outs, q2))))"

locale byte_queue =
  fixes invar :: "'q \<Rightarrow> bool"
    and items :: "'q \<Rightarrow> byte list"
    and room :: "'q \<Rightarrow> nat"
    and capacity :: "'q \<Rightarrow> nat"
    and put :: "byte list \<Rightarrow> 'q \<Rightarrow> 'q run"
    and adv :: "nat \<Rightarrow> 'q \<Rightarrow> 'q run"
  assumes put_law: "invar q \<Longrightarrow> length bs \<le> room q \<Longrightarrow>
      \<exists>q'. put bs q = Inr q' \<and> invar q' \<and> items q' = items q @ bs \<and> capacity q' = capacity q"
    and adv_law: "invar q \<Longrightarrow> n \<le> length (items q) \<Longrightarrow>
      \<exists>q'. adv n q = Inr q' \<and> invar q' \<and> items q' = drop n (items q) \<and> capacity q' = capacity q"
    and room_law: "invar q \<Longrightarrow> length (items q) + room q \<le> capacity q"
    and empty_law: "invar q \<Longrightarrow> items q = [] \<Longrightarrow> room q = capacity q"
begin

text \<open>
  Whatever is put and taken, in whatever order: nothing faults, nothing is lost, duplicated or
  reordered, and the queue never holds more than its capacity.
\<close>

lemma fifo:
  assumes "invar q" and "\<forall>op\<in>set ops. qop_ok op"
  shows "\<exists>ins outs q'. qrun items room put adv ops q = Inr (ins, outs, q') \<and> invar q'
    \<and> items q @ ins = outs @ items q' \<and> capacity q' = capacity q"
  using assms
proof (induction ops arbitrary: q)
  case Nil
  then show ?case by simp
next
  case (Cons op ops)
  show ?case
  proof (cases op)
    case (Put f)
    with Cons.prems have "length (f (room q)) \<le> room q" by simp
    then obtain q1 where q1: "put (f (room q)) q = Inr q1" "invar q1"
      "items q1 = items q @ f (room q)" "capacity q1 = capacity q"
      using put_law [OF Cons.prems(1)] by blast
    obtain ins outs q' where "qrun items room put adv ops q1 = Inr (ins, outs, q')"
      "invar q'" "items q1 @ ins = outs @ items q'" "capacity q' = capacity q1"
      using Cons.IH [OF q1(2)] Cons.prems(2) by auto
    with q1 Put show ?thesis by (simp add: Let_def)
  next
    case (Take g)
    with Cons.prems have "g (items q) \<le> length (items q)" by simp
    then obtain q1 where q1: "adv (g (items q)) q = Inr q1" "invar q1"
      "items q1 = drop (g (items q)) (items q)" "capacity q1 = capacity q"
      using adv_law [OF Cons.prems(1)] by blast
    obtain ins outs q' where r: "qrun items room put adv ops q1 = Inr (ins, outs, q')"
      "invar q'" "items q1 @ ins = outs @ items q'" "capacity q' = capacity q1"
      using Cons.IH [OF q1(2)] Cons.prems(2) by auto
    have "items q @ ins = take (g (items q)) (items q) @ outs @ items q'"
      using r(3) q1(3) by (metis append.assoc append_take_drop_id)
    with q1 r Take show ?thesis by (simp add: Let_def)
  qed
qed

lemma never_over_capacity:
  assumes "invar q"
  shows "length (items q) \<le> capacity q"
  using room_law [OF assms] by simp

text \<open>A drained queue can take a byte again, however it got there.\<close>

lemma drained_has_room:
  assumes "invar q" and "\<forall>op\<in>set ops. qop_ok op" and "0 < capacity q"
    and "qrun items room put adv ops q = Inr (ins, outs, q')" and "outs = items q @ ins"
  shows "0 < room q'"
proof -
  obtain ins' outs' q'' where r: "qrun items room put adv ops q = Inr (ins', outs', q'')"
    "invar q''" "items q @ ins' = outs' @ items q''" "capacity q'' = capacity q"
    using fifo [OF assms(1,2)] by blast
  with assms(4,5) have "items q' = []" "invar q'" "capacity q' = capacity q"
    by auto
  with assms(3) show ?thesis by (simp add: empty_law)
qed

end

interpretation bq: byte_queue buffer_wf contents Buffer.space buf_limit buffer_put "\<lambda>n b. buffer_read_adv b (int n)"
proof unfold_locales
  fix b :: buffer and bs :: "byte list"
  assume "buffer_wf b" "length bs \<le> Buffer.space b"
  then show "\<exists>b'. buffer_put bs b = Inr b' \<and> buffer_wf b' \<and> contents b' = contents b @ bs
      \<and> buf_limit b' = buf_limit b"
    by (metis buffer_put_ok)
next
  fix b :: buffer and n :: nat
  assume "buffer_wf b" "n \<le> length (contents b)"
  then show "\<exists>b'. buffer_read_adv b (int n) = Inr b' \<and> buffer_wf b' \<and> contents b' = drop n (contents b)
      \<and> buf_limit b' = buf_limit b"
    by (metis buffer_read_adv_ok)
qed (use space_plus_contents in \<open>auto simp: space_empty\<close>)

end
