(* ===== verification/Pop3_Sniffer.thy ===== *)
theory Pop3_Sniffer
  imports Buffer
begin

text \<open>
  \<open>src/pop3_sniffer.c\<close>: the byte-driven automaton that looks for \<open>USER\<close> and \<open>PASS\<close> in the
  traffic towards an origin. \<open>pop3_consume\<close> is the C loop over a private copy of the buffer's
  pointers; \<open>pop3_feed\<close> is its meaning as a fold over the unread bytes. Array accesses are
  bounds-checked, so the absence of faults is memory safety of the parser.
\<close>

section \<open>The parser\<close>

definition MAX_CREDENTIALS_LEN :: nat where "MAX_CREDENTIALS_LEN = 40"

datatype PopState = POP3_USER_CMD | POP3_FILL_USER | POP3_PASS_CMD | POP3_FILL_PASS | POP3_UNKOWN_CMD

record pop3_parser =
  pop_state :: PopState
  password_complete :: bool
  user_complete :: bool
  pop_user :: "byte list"
  pop_pass :: "byte list"
  pop_buf :: buffer
  read_ptr :: nat
  write_ptr :: nat

text \<open>The string literals \<open>USER\<close> and \<open>PASS\<close> with their trailing space and NUL.\<close>

definition pop3_user_str :: "byte list" where
  "pop3_user_str = [85, 83, 69, 82, 32, 0]"

definition pop3_pass_str :: "byte list" where
  "pop3_pass_str = [80, 65, 83, 83, 32, 0]"

definition unknown_cmd :: "pop3_parser \<Rightarrow> byte \<Rightarrow> PopState" where
  "unknown_cmd p c =
     (if c = 10 then (if user_complete p then POP3_PASS_CMD else POP3_USER_CMD) else POP3_UNKOWN_CMD)"

definition user_cmd :: "pop3_parser \<Rightarrow> byte \<Rightarrow> (PopState \<times> pop3_parser) run" where
  "user_cmd p c =
     bindE (arr_get pop3_user_str (read_ptr p)) (\<lambda>k.
     if tolower c = tolower k
     then let p1 = p\<lparr>read_ptr := read_ptr p + 1\<rparr> in
          bindE (arr_get pop3_user_str (read_ptr p1)) (\<lambda>k1.
          if k1 = 0 then Inr (POP3_FILL_USER, p1\<lparr>read_ptr := 0\<rparr>) else Inr (POP3_USER_CMD, p1))
     else Inr (unknown_cmd p c, p))"

definition fill_user :: "pop3_parser \<Rightarrow> byte \<Rightarrow> (PopState \<times> pop3_parser) run" where
  "fill_user p c =
     (if c = 10
      then bindE (mem_write (write_ptr p) [0] (pop_user p)) (\<lambda>u.
           Inr (POP3_PASS_CMD, p\<lparr>pop_user := u, write_ptr := 0, user_complete := True\<rparr>))
      else if write_ptr p + 1 = MAX_CREDENTIALS_LEN then Inr (POP3_UNKOWN_CMD, p)
      else bindE (mem_write (write_ptr p) [c] (pop_user p)) (\<lambda>u.
           Inr (POP3_FILL_USER, p\<lparr>pop_user := u, write_ptr := write_ptr p + 1\<rparr>)))"

definition pass_cmd :: "pop3_parser \<Rightarrow> byte \<Rightarrow> (PopState \<times> pop3_parser) run" where
  "pass_cmd p c =
     bindE (arr_get pop3_pass_str (read_ptr p)) (\<lambda>k.
     if tolower c = tolower k
     then let p1 = p\<lparr>read_ptr := read_ptr p + 1\<rparr> in
          bindE (arr_get pop3_pass_str (read_ptr p1)) (\<lambda>k1.
          if k1 = 0 then Inr (POP3_FILL_PASS, p1\<lparr>read_ptr := 0\<rparr>) else Inr (POP3_PASS_CMD, p1))
     else Inr (unknown_cmd p c, p))"

definition fill_pass :: "pop3_parser \<Rightarrow> byte \<Rightarrow> (PopState \<times> pop3_parser) run" where
  "fill_pass p c =
     (if c = 10
      then bindE (mem_write (write_ptr p) [0] (pop_pass p)) (\<lambda>u.
           Inr (POP3_PASS_CMD, p\<lparr>pop_pass := u, write_ptr := 0, password_complete := True\<rparr>))
      else if write_ptr p + 1 = MAX_CREDENTIALS_LEN then Inr (POP3_UNKOWN_CMD, p)
      else bindE (mem_write (write_ptr p) [c] (pop_pass p)) (\<lambda>u.
           Inr (POP3_FILL_PASS, p\<lparr>pop_pass := u, write_ptr := write_ptr p + 1\<rparr>)))"

definition init_parser :: "pop3_parser \<Rightarrow> pop3_parser" where
  "init_parser p = p\<lparr>pop_state := POP3_USER_CMD, read_ptr := 0, write_ptr := 0,
                     password_complete := False, user_complete := False\<rparr>"

text \<open>The \<open>switch\<close> in the body of the loop of \<open>pop3_consume\<close>.\<close>

definition pop3_step :: "pop3_parser \<Rightarrow> byte \<Rightarrow> pop3_parser run" where
  "pop3_step p c =
     bindE (case pop_state p of
              POP3_USER_CMD \<Rightarrow> user_cmd p c
            | POP3_FILL_USER \<Rightarrow> fill_user p c
            | POP3_PASS_CMD \<Rightarrow> pass_cmd p c
            | POP3_FILL_PASS \<Rightarrow> fill_pass p c
            | POP3_UNKOWN_CMD \<Rightarrow> Inr (unknown_cmd p c, p))
       (\<lambda>(st, p1). Inr (p1\<lparr>pop_state := st\<rparr>))"

text \<open>Each turn of the loop reads a byte and leaves the copied pointers otherwise alone.\<close>

lemma pop3_step_buf: "pop3_step p c = Inr p' \<Longrightarrow> pop_buf p' = pop_buf p"
  by (auto simp: pop3_step_def user_cmd_def fill_user_def pass_cmd_def fill_pass_def Let_def fault_simps
      split: PopState.splits if_splits)

lemma buffer_read_shrinks:
  "buffer_can_read b \<Longrightarrow> buffer_read b = Inr (c, b') \<Longrightarrow>
   buf_write b' - buf_read b' < buf_write b - buf_read b"
  by (auto simp: buffer_can_read_def buffer_read_def buffer_read_adv_def buffer_compact_def Let_def fault_simps
      split: if_splits)

function (sequential) pop3_consume :: "pop3_parser \<Rightarrow> pop3_parser run" where
  "pop3_consume p =
     (if buffer_can_read (pop_buf p) \<and> \<not> password_complete p
      then bindE (buffer_read (pop_buf p)) (\<lambda>(c, b).
           bindE (pop3_step (p\<lparr>pop_buf := b\<rparr>) c) (\<lambda>p1. pop3_consume p1))
      else Inr p)"
  by pat_completeness auto
termination
  by (relation "measure (\<lambda>p. buf_write (pop_buf p) - buf_read (pop_buf p))")
    (auto dest!: pop3_step_buf buffer_read_shrinks)

declare pop3_consume.simps [simp del]

definition pop3_parse :: "pop3_parser \<Rightarrow> buffer \<Rightarrow> (bool \<times> pop3_parser) run" where
  "pop3_parse p request =
     bindE (pop3_consume (p\<lparr>pop_buf := request\<rparr>)) (\<lambda>p1.
     let ans = user_complete p1 \<and> password_complete p1 in
     Inr (ans, if ans then init_parser p1 else p1))"

section \<open>Invariant: no access leaves an array\<close>

definition pop3_wf :: "pop3_parser \<Rightarrow> bool" where
  "pop3_wf p \<longleftrightarrow> read_ptr p \<le> 4 \<and> write_ptr p < MAX_CREDENTIALS_LEN
     \<and> length (pop_user p) = MAX_CREDENTIALS_LEN \<and> length (pop_pass p) = MAX_CREDENTIALS_LEN
     \<and> (password_complete p \<longrightarrow> user_complete p)
     \<and> (pop_state p \<in> {POP3_PASS_CMD, POP3_FILL_PASS} \<longrightarrow> user_complete p)"

lemma keyword_nth:
  assumes "i \<le> 4"
  shows "pop3_user_str ! i \<noteq> 0" and "pop3_pass_str ! i \<noteq> 0"
    and "pop3_user_str ! Suc i = 0 \<longleftrightarrow> i = 4" and "pop3_pass_str ! Suc i = 0 \<longleftrightarrow> i = 4"
proof -
  have "i = 0 \<or> i = 1 \<or> i = 2 \<or> i = 3 \<or> i = 4"
    using assms by auto
  then show "pop3_user_str ! i \<noteq> 0" and "pop3_pass_str ! i \<noteq> 0"
    and "pop3_user_str ! Suc i = 0 \<longleftrightarrow> i = 4" and "pop3_pass_str ! Suc i = 0 \<longleftrightarrow> i = 4"
    by (auto simp: pop3_user_str_def pop3_pass_str_def)
qed

lemma length_keywords [simp]: "length pop3_user_str = 6" "length pop3_pass_str = 6"
  by (simp_all add: pop3_user_str_def pop3_pass_str_def)

lemma pop3_step_ok:
  assumes "pop3_wf p"
  shows "\<exists>p'. pop3_step p c = Inr p' \<and> pop3_wf p'"
proof -
  have r: "read_ptr p \<le> 4" and w: "write_ptr p < MAX_CREDENTIALS_LEN"
    and l: "length (pop_user p) = MAX_CREDENTIALS_LEN" "length (pop_pass p) = MAX_CREDENTIALS_LEN"
    using assms by (auto simp: pop3_wf_def)
  have nth: "arr_get pop3_user_str (read_ptr p) = Inr (pop3_user_str ! read_ptr p)"
    "arr_get pop3_user_str (Suc (read_ptr p)) = Inr (pop3_user_str ! Suc (read_ptr p))"
    "arr_get pop3_pass_str (read_ptr p) = Inr (pop3_pass_str ! read_ptr p)"
    "arr_get pop3_pass_str (Suc (read_ptr p)) = Inr (pop3_pass_str ! Suc (read_ptr p))"
    using r by simp_all
  show ?thesis
    using assms w l keyword_nth(3,4) [OF r]
    by (cases "pop_state p")
      (auto simp: pop3_step_def user_cmd_def fill_user_def pass_cmd_def fill_pass_def unknown_cmd_def
        nth pop3_wf_def)
qed

section \<open>The loop as a fold over the unread bytes\<close>

fun pop3_feed :: "byte list \<Rightarrow> pop3_parser \<Rightarrow> pop3_parser run" where
  "pop3_feed [] p = Inr p"
| "pop3_feed (c # cs) p =
     (if password_complete p then Inr p else bindE (pop3_step p c) (pop3_feed cs))"

lemma pop3_feed_append: "pop3_feed (xs @ ys) p = bindE (pop3_feed xs p) (pop3_feed ys)"
proof (induction xs arbitrary: p)
  case Nil
  then show ?case by simp
next
  case (Cons x xs)
  have "pop3_feed ys p = Inr p" if "password_complete p"
    using that by (cases ys) simp_all
  with Cons show ?case by (cases "pop3_step p x") simp_all
qed

lemma pop3_feed_ok: "pop3_wf p \<Longrightarrow> \<exists>p'. pop3_feed cs p = Inr p' \<and> pop3_wf p'"
proof (induction cs arbitrary: p)
  case (Cons c cs)
  obtain p1 where "pop3_step p c = Inr p1" "pop3_wf p1"
    using pop3_step_ok [OF Cons.prems] by blast
  with Cons show ?case by auto
qed simp

text \<open>
  The step functions do not look at the copied buffer, so the loop is the fold, whatever the
  pointers were; the bytes themselves are never modified.
\<close>

lemma pop3_step_buf_irrelevant:
  "pop3_step (p\<lparr>pop_buf := b\<rparr>) c = bindE (pop3_step p c) (\<lambda>p1. Inr (p1\<lparr>pop_buf := b\<rparr>))"
  by (auto simp: pop3_step_def user_cmd_def fill_user_def pass_cmd_def fill_pass_def unknown_cmd_def Let_def
      bindE_def arr_get_def mem_write_def split: PopState.splits sum.splits if_splits)

lemma pop3_consume_feed:
  assumes "buffer_wf (pop_buf p)" and "pop3_wf p"
  shows "\<exists>b. buffer_wf b \<and> buf_data b = buf_data (pop_buf p)
    \<and> pop3_consume p = bindE (pop3_feed (contents (pop_buf p)) p) (\<lambda>p1. Inr (p1\<lparr>pop_buf := b\<rparr>))"
  using assms
proof (induction "contents (pop_buf p)" arbitrary: p)
  case Nil
  then have "\<not> buffer_can_read (pop_buf p)"
    by (simp add: buffer_can_read_iff)
  with Nil show ?case
    by (intro exI [of _ "pop_buf p"]) (simp add: pop3_consume.simps)
next
  case (Cons c cs)
  show ?case
  proof (cases "password_complete p")
    case True
    with Cons show ?thesis
      by (intro exI [of _ "pop_buf p"]) (simp add: pop3_consume.simps flip: Cons.hyps(2))
  next
    case False
    obtain b' where b': "buffer_read (pop_buf p) = Inr (c, b')" "buffer_wf b'" "contents b' = cs"
      "buf_data b' = buf_data (pop_buf p)"
      by (metis buffer_read_ok [OF Cons.prems(1) Cons.hyps(2) [symmetric]])
    obtain p1 where p1: "pop3_step p c = Inr p1" "pop3_wf p1"
      using pop3_step_ok [OF Cons.prems(2)] by blast
    have can: "buffer_can_read (pop_buf p)"
      using Cons.prems(1) Cons.hyps(2) by (simp add: buffer_can_read_iff flip: Cons.hyps(2))
    have wf1: "pop3_wf (p1\<lparr>pop_buf := b'\<rparr>)"
      using p1(2) by (simp add: pop3_wf_def)
    obtain b where b: "buffer_wf b" "buf_data b = buf_data b'"
      "pop3_consume (p1\<lparr>pop_buf := b'\<rparr>) = bindE (pop3_feed cs (p1\<lparr>pop_buf := b'\<rparr>)) (\<lambda>q. Inr (q\<lparr>pop_buf := b\<rparr>))"
      using Cons.hyps(1) [of "p1\<lparr>pop_buf := b'\<rparr>"] b' wf1 by auto
    have feed_buf: "bindE (pop3_feed xs (q\<lparr>pop_buf := b'\<rparr>)) (\<lambda>q. Inr (q\<lparr>pop_buf := b\<rparr>)) =
        bindE (pop3_feed xs q) (\<lambda>q. Inr (q\<lparr>pop_buf := b\<rparr>))" for xs q
      by (induction xs arbitrary: q) (simp_all add: pop3_step_buf_irrelevant bindE_assoc)
    have "pop3_consume p = bindE (pop3_feed (c # cs) p) (\<lambda>q. Inr (q\<lparr>pop_buf := b\<rparr>))"
      using False can b'(1) p1(1) b(3)
      by (simp add: pop3_consume.simps [of p] pop3_step_buf_irrelevant feed_buf)
    with b b' show ?thesis
      by (intro exI [of _ b]) (simp flip: Cons.hyps(2))
  qed
qed

text \<open>One call on the bytes waiting in the request buffer, which is only read.\<close>

lemma pop3_wf_irrelevant [simp]: "pop3_wf (p\<lparr>pop_buf := b\<rparr>) = pop3_wf p"
  by (simp add: pop3_wf_def)

lemma pop3_wf_init: "pop3_wf p \<Longrightarrow> pop3_wf (init_parser p)"
  by (simp add: pop3_wf_def init_parser_def MAX_CREDENTIALS_LEN_def)

lemma pop3_parse_ok:
  assumes "pop3_wf p" and "buffer_wf request"
  shows "\<exists>found p'. pop3_parse p request = Inr (found, p') \<and> pop3_wf p' \<and> buf_data (pop_buf p') = buf_data request"
proof -
  let ?p = "p\<lparr>pop_buf := request\<rparr>"
  obtain p1 where p1: "pop3_feed (contents request) ?p = Inr p1" "pop3_wf p1"
    using pop3_feed_ok [of ?p "contents request"] assms(1) by auto
  obtain b where "buf_data b = buf_data request" "pop3_consume ?p = Inr (p1\<lparr>pop_buf := b\<rparr>)"
    using pop3_consume_feed [of ?p] assms p1(1) by auto
  with p1(2) show ?thesis
    using pop3_wf_init [of "p1\<lparr>pop_buf := b\<rparr>"] by (auto simp: pop3_parse_def Let_def init_parser_def)
qed

section \<open>What is captured\<close>

text \<open>A keyword, in any mix of cases, moves the parser to reading its argument.\<close>

lemma feed_user_keyword:
  assumes "map tolower ks = map tolower (take 5 pop3_user_str)" and "pop_state p = POP3_USER_CMD"
    and "read_ptr p = 0" and "\<not> password_complete p"
  shows "pop3_feed ks p = Inr (p\<lparr>pop_state := POP3_FILL_USER\<rparr>)"
proof -
  have "length ks = 5"
    using arg_cong [OF assms(1), of length] by simp
  then obtain a b c d e where "ks = [a, b, c, d, e]"
    by (auto simp: numeral_eq_Suc length_Suc_conv)
  with assms show ?thesis
    by (simp add: pop3_user_str_def pop3_step_def user_cmd_def arr_get_def)
qed

lemma feed_pass_keyword:
  assumes "map tolower ks = map tolower (take 5 pop3_pass_str)" and "pop_state p = POP3_PASS_CMD"
    and "read_ptr p = 0" and "\<not> password_complete p"
  shows "pop3_feed ks p = Inr (p\<lparr>pop_state := POP3_FILL_PASS\<rparr>)"
proof -
  have "length ks = 5"
    using arg_cong [OF assms(1), of length] by simp
  then obtain a b c d e where "ks = [a, b, c, d, e]"
    by (auto simp: numeral_eq_Suc length_Suc_conv)
  with assms show ?thesis
    by (simp add: pop3_pass_str_def pop3_step_def pass_cmd_def arr_get_def)
qed

lemma overwrite_snoc:
  assumes "off + length bs < length dst"
  shows "overwrite (off + length bs) [c] (overwrite off bs dst) = overwrite off (bs @ [c]) dst"
  using assms by (simp add: overwrite_def)

lemma feed_fill_user:
  assumes "10 \<notin> set bs" and "pop_state p = POP3_FILL_USER" and "\<not> password_complete p"
    and "write_ptr p + length bs < MAX_CREDENTIALS_LEN" and "length (pop_user p) = MAX_CREDENTIALS_LEN"
  shows "pop3_feed bs p = Inr (p\<lparr>pop_user := overwrite (write_ptr p) bs (pop_user p),
                                 write_ptr := write_ptr p + length bs\<rparr>)"
  using assms
proof (induction bs rule: rev_induct)
  case (snoc c bs)
  then show ?case
    by (simp add: pop3_feed_append pop3_step_def fill_user_def overwrite_snoc)
qed simp

lemma feed_fill_pass:
  assumes "10 \<notin> set bs" and "pop_state p = POP3_FILL_PASS" and "\<not> password_complete p"
    and "write_ptr p + length bs < MAX_CREDENTIALS_LEN" and "length (pop_pass p) = MAX_CREDENTIALS_LEN"
  shows "pop3_feed bs p = Inr (p\<lparr>pop_pass := overwrite (write_ptr p) bs (pop_pass p),
                                 write_ptr := write_ptr p + length bs\<rparr>)"
  using assms
proof (induction bs rule: rev_induct)
  case (snoc c bs)
  then show ?case
    by (simp add: pop3_feed_append pop3_step_def fill_pass_def overwrite_snoc)
qed simp

lemma cstr_overwrite: "0 \<notin> set bs \<Longrightarrow> cstr (overwrite 0 (bs @ [0]) dst) = bs"
  by (simp add: overwrite_def)

text \<open>A complete exchange seen by a fresh parser.\<close>

lemma feed_credentials:
  assumes ku: "map tolower ku = map tolower (take 5 pop3_user_str)"
    and kp: "map tolower kp = map tolower (take 5 pop3_pass_str)"
    and u: "10 \<notin> set u" "length u < MAX_CREDENTIALS_LEN"
    and v: "10 \<notin> set v" "length v < MAX_CREDENTIALS_LEN"
    and lens: "length (pop_user p) = MAX_CREDENTIALS_LEN" "length (pop_pass p) = MAX_CREDENTIALS_LEN"
  shows "\<exists>p'. pop3_feed (ku @ u @ [10] @ kp @ v @ [10]) (init_parser p) = Inr p'
     \<and> user_complete p' \<and> password_complete p'
     \<and> pop_user p' = overwrite 0 (u @ [0]) (pop_user p) \<and> pop_pass p' = overwrite 0 (v @ [0]) (pop_pass p)"
proof -
  let ?p1 = "(init_parser p)\<lparr>pop_state := POP3_FILL_USER\<rparr>"
  let ?p2 = "?p1\<lparr>pop_user := overwrite 0 u (pop_user p), write_ptr := length u\<rparr>"
  let ?p3 = "?p2\<lparr>pop_state := POP3_PASS_CMD, pop_user := overwrite 0 (u @ [0]) (pop_user p),
                  write_ptr := 0, user_complete := True\<rparr>"
  let ?p4 = "?p3\<lparr>pop_state := POP3_FILL_PASS\<rparr>"
  let ?p5 = "?p4\<lparr>pop_pass := overwrite 0 v (pop_pass p), write_ptr := length v\<rparr>"
  have 1: "pop3_feed ku (init_parser p) = Inr ?p1"
    by (rule feed_user_keyword [OF ku]) (simp_all add: init_parser_def)
  have 2: "pop3_feed u ?p1 = Inr ?p2"
    using feed_fill_user [OF u(1), of ?p1] u lens by (simp add: init_parser_def)
  have 3: "pop3_feed [10] ?p2 = Inr ?p3"
    using u lens overwrite_snoc [of 0 u "pop_user p" 0]
    by (simp add: pop3_step_def fill_user_def init_parser_def)
  have 4: "pop3_feed kp ?p3 = Inr ?p4"
    using feed_pass_keyword [OF kp, of ?p3] by (simp add: init_parser_def)
  have 5: "pop3_feed v ?p4 = Inr ?p5"
    using feed_fill_pass [OF v(1), of ?p4] v lens by (simp add: init_parser_def)
  have 6: "pop3_feed [10] ?p5 = Inr (?p5\<lparr>pop_state := POP3_PASS_CMD, pop_pass := overwrite 0 (v @ [0]) (pop_pass p),
      write_ptr := 0, password_complete := True\<rparr>)"
    using v lens overwrite_snoc [of 0 v "pop_pass p" 0]
    by (simp add: pop3_step_def fill_pass_def init_parser_def)
  show ?thesis
    unfolding pop3_feed_append 1 bindE_Inr 2 3 4 5 6 by simp
qed

text \<open>
  Nothing is complete before its line has ended: the user after one line feed, the password after two.
\<close>

definition lines_seen :: "nat \<Rightarrow> pop3_parser \<Rightarrow> bool" where
  "lines_seen n p \<longleftrightarrow> (pop_state p = POP3_PASS_CMD \<or> pop_state p = POP3_FILL_PASS \<longrightarrow> user_complete p)
     \<and> (user_complete p \<longrightarrow> 1 \<le> n) \<and> (password_complete p \<longrightarrow> 2 \<le> n)"

lemma lines_seen_step:
  assumes "lines_seen n p" and "pop3_step p c = Inr p'"
  shows "lines_seen (if c = 10 then Suc n else n) p'"
  using assms by (cases "pop_state p")
    (auto simp: lines_seen_def pop3_step_def user_cmd_def fill_user_def pass_cmd_def fill_pass_def unknown_cmd_def Let_def fault_simps
      split: if_splits)

lemma lines_seen_feed:
  "lines_seen n p \<Longrightarrow> pop3_feed cs p = Inr p' \<Longrightarrow> lines_seen (n + count_list cs 10) p'"
proof (induction cs arbitrary: n p)
  case (Cons c cs)
  show ?case
  proof (cases "password_complete p")
    case True
    with Cons.prems show ?thesis by (auto simp: lines_seen_def)
  next
    case False
    then obtain p1 where p1: "pop3_step p c = Inr p1" "pop3_feed cs p1 = Inr p'" using Cons.prems(2) by (auto simp: bindE_eq_Inr)
    from Cons.IH [OF lines_seen_step [OF Cons.prems(1) p1(1)] p1(2)] show ?thesis by (auto split: if_splits)
  qed
qed simp

text \<open>One call as a fold over the waiting bytes.\<close>

lemma pop3_feed_buf: "pop3_feed cs (q\<lparr>pop_buf := r\<rparr>) = bindE (pop3_feed cs q) (\<lambda>q'. Inr (q'\<lparr>pop_buf := r\<rparr>))"
  by (induction cs arbitrary: q) (simp_all add: pop3_step_buf_irrelevant bindE_assoc)

lemma pop3_parse_feed:
  assumes "pop3_wf p" and "buffer_wf request" and "pop3_feed (contents request) p = Inr p1"
  shows "\<exists>b. pop3_parse p request = Inr (if user_complete p1 \<and> password_complete p1 then (True, init_parser (p1\<lparr>pop_buf := b\<rparr>))
    else (False, p1\<lparr>pop_buf := b\<rparr>))"
proof -
  let ?p = "p\<lparr>pop_buf := request\<rparr>"
  obtain p2 where p2: "pop3_feed (contents request) ?p = Inr p2" using pop3_feed_ok [of ?p "contents request"] assms(1) by auto
  obtain b where b: "pop3_consume ?p = Inr (p2\<lparr>pop_buf := b\<rparr>)"
    using pop3_consume_feed [of ?p] assms(1,2) p2 by auto
  have "p2 = p1\<lparr>pop_buf := request\<rparr>" using p2 assms(3) by (simp add: pop3_feed_buf)
  then show ?thesis using b by (intro exI [of _ b]) (simp add: pop3_parse_def Let_def)
qed

text \<open>The calls on successive reads, when each finds only bytes that are new.\<close>

fun pop3_calls :: "pop3_parser \<Rightarrow> buffer list \<Rightarrow> (bool list \<times> pop3_parser) run" where
  "pop3_calls p [] = Inr ([], p)"
| "pop3_calls p (r # rs) = bindE (pop3_parse p r) (\<lambda>(found, p1). bindE (pop3_calls p1 rs) (\<lambda>(fs, p2). Inr (found # fs, p2)))"

lemma pop3_calls_feed:
  assumes "pop3_wf p" and "\<forall>r\<in>set rs. buffer_wf r" and "lines_seen n p" and "n + count_list (concat (map contents rs)) 10 < 2"
    and "pop3_feed (concat (map contents rs)) p = Inr p1"
  shows "\<exists>b. pop3_calls p rs = Inr (replicate (length rs) False, p1\<lparr>pop_buf := b\<rparr>)"
  using assms
proof (induction rs arbitrary: p n p1)
  case Nil
  then show ?case by (intro exI [of _ "pop_buf p"]) simp
next
  case (Cons r rs)
  obtain q where q: "pop3_feed (contents r) p = Inr q" "pop3_wf q" using pop3_feed_ok [OF Cons.prems(1)] by blast
  have seen: "lines_seen (n + count_list (contents r) 10) q" by (rule lines_seen_feed [OF Cons.prems(3) q(1)])
  have few: "n + count_list (contents r) 10 + count_list (concat (map contents rs)) 10 < 2" using Cons.prems(4) by simp
  then have "\<not> password_complete q" using seen by (auto simp: lines_seen_def)
  then obtain b where b: "pop3_parse p r = Inr (False, q\<lparr>pop_buf := b\<rparr>)"
    using pop3_parse_feed [OF Cons.prems(1) _ q(1)] Cons.prems(2) by auto
  have rest: "pop3_feed (concat (map contents rs)) (q\<lparr>pop_buf := b\<rparr>) = Inr (p1\<lparr>pop_buf := b\<rparr>)"
    using Cons.prems(5) q(1) by (simp add: pop3_feed_append pop3_feed_buf)
  have "lines_seen (n + count_list (contents r) 10) (q\<lparr>pop_buf := b\<rparr>)" using seen by (simp add: lines_seen_def)
  from Cons.IH [OF _ _ this few rest] q(2) Cons.prems(2)
  obtain b' where "pop3_calls (q\<lparr>pop_buf := b\<rparr>) rs = Inr (replicate (length rs) False, (p1\<lparr>pop_buf := b\<rparr>)\<lparr>pop_buf := b'\<rparr>)" by auto
  with b show ?case by (intro exI [of _ b']) simp
qed

text \<open>A login in any pieces: the call on the piece that completes it reports it, with both strings, and no earlier one does.\<close>

lemma count_strict_prefix:
  assumes "xs @ ys = zs @ [a]" and "ys \<noteq> []"
  shows "count_list xs a \<le> count_list zs a"
proof -
  obtain ys' where "ys = ys' @ [a]" "zs = xs @ ys'" using assms by (cases ys rule: rev_cases) auto
  then show ?thesis by simp
qed

lemma calls_capture_login:
  assumes ku: "map tolower ku = map tolower (take 5 pop3_user_str)"
    and kp: "map tolower kp = map tolower (take 5 pop3_pass_str)"
    and u: "10 \<notin> set u" "0 \<notin> set u" "length u < MAX_CREDENTIALS_LEN"
    and v: "10 \<notin> set v" "0 \<notin> set v" "length v < MAX_CREDENTIALS_LEN"
    and wf: "pop3_wf p" "\<forall>r\<in>set rs. buffer_wf r" "buffer_wf r"
    and cut: "concat (map contents rs) @ ys = ku @ u @ [10] @ kp @ v @ [10]" "ys \<noteq> []" and r: "contents r = ys @ after"
  shows "\<exists>p1 p2. pop3_calls (init_parser p) rs = Inr (replicate (length rs) False, p1) \<and> pop3_wf p1 \<and> pop3_parse p1 r = Inr (True, p2)
    \<and> cstr (pop_user p2) = u \<and> cstr (pop_pass p2) = v"
proof -
  let ?xs = "concat (map contents rs)"
  have wf0: "pop3_wf (init_parser p)" using wf(1) by (simp add: pop3_wf_def init_parser_def)
  obtain q where q: "pop3_feed (?xs @ ys) (init_parser p) = Inr q" "user_complete q" "password_complete q"
    "pop_user q = overwrite 0 (u @ [0]) (pop_user p)" "pop_pass q = overwrite 0 (v @ [0]) (pop_pass p)"
    using feed_credentials [OF ku kp u(1,3) v(1,3), of p] wf(1) unfolding cut(1) by (auto simp: pop3_wf_def)
  obtain p1 where p1: "pop3_feed ?xs (init_parser p) = Inr p1" "pop3_wf p1" using pop3_feed_ok [OF wf0] by blast
  have "10 \<notin> tolower ` set (take 5 pop3_user_str)" "10 \<notin> tolower ` set (take 5 pop3_pass_str)"
    by (simp_all add: pop3_user_str_def pop3_pass_str_def tolower_def)
  then have "10 \<notin> tolower ` set ku" "10 \<notin> tolower ` set kp" using ku kp by (metis list.set_map)+
  then have "10 \<notin> set ku" "10 \<notin> set kp" by (force simp: tolower_def image_iff)+
  then have "count_list (ku @ u @ [10] @ kp @ v) 10 = 1" using u(1) v(1) by (simp add: count_list_0_iff)
  then have few: "0 + count_list ?xs 10 < 2"
    using count_strict_prefix [of ?xs ys "ku @ u @ [10] @ kp @ v" 10] cut by simp
  have "lines_seen 0 (init_parser p)" by (simp add: lines_seen_def init_parser_def)
  then obtain b where calls: "pop3_calls (init_parser p) rs = Inr (replicate (length rs) False, p1\<lparr>pop_buf := b\<rparr>)"
    using pop3_calls_feed [OF wf0 wf(2) _ few p1(1)] by blast
  have "pop3_feed ys p1 = Inr q" using q(1) p1(1) by (simp add: pop3_feed_append)
  then have "pop3_feed (contents r) (p1\<lparr>pop_buf := b\<rparr>) = Inr (q\<lparr>pop_buf := b\<rparr>)"
    using q(3) by (cases after) (simp_all add: r pop3_feed_append pop3_feed_buf)
  then obtain p2 where "pop3_parse (p1\<lparr>pop_buf := b\<rparr>) r = Inr (True, p2)" "pop_user p2 = pop_user q" "pop_pass p2 = pop_pass q"
    using pop3_parse_feed [of "p1\<lparr>pop_buf := b\<rparr>" r] p1(2) wf(3) q(2,3) by (auto simp: init_parser_def)
  moreover have "cstr (pop_user q) = u" "cstr (pop_pass q) = v" using q(4,5) u(2) v(2) by (simp_all add: cstr_overwrite)
  ultimately show ?thesis using calls p1(2) by (intro exI [of _ "p1\<lparr>pop_buf := b\<rparr>"] exI [of _ p2]) simp
qed

end
