(* ===== verification/SocketsIO.thy ===== *)
theory SocketsIO
  imports Buffer
begin

text \<open>
  \<open>src/socketsIO.c\<close>: the only two functions that move bytes between a socket and a buffer.
  The answers of \<open>read\<close> and \<open>send\<close> are parameters, functions of what the call is given; the
  POSIX contract the code relies on (no more bytes than asked for) is \<open>read_ok\<close> and \<open>send_ok\<close>.
\<close>

section \<open>System calls\<close>

datatype read_res = Read_ok "byte list" | Read_err int
datatype send_res = Send_ok nat | Send_err int

type_synonym sys_read = "nat \<Rightarrow> read_res"
type_synonym sys_send = "byte list \<Rightarrow> send_res"

definition EAGAIN :: int where
  "EAGAIN = 11"

definition read_ok :: "sys_read \<Rightarrow> bool" where
  "read_ok rd \<longleftrightarrow> (\<forall>n bs. rd n = Read_ok bs \<longrightarrow> length bs \<le> n)"

definition send_ok :: "sys_send \<Rightarrow> bool" where
  "send_ok sd \<longleftrightarrow> (\<forall>bs k. sd bs = Send_ok k \<longrightarrow> k \<le> length bs)"

text \<open>The macro \<open>checkEOF(count)\<close> of \<open>clients.h\<close> and \<open>mgmt.c\<close>; \<open>err\<close> is \<open>errno\<close>.\<close>

definition checkEOF :: "int \<Rightarrow> int \<Rightarrow> bool" where
  "checkEOF count err \<longleftrightarrow> count = 0 \<or> (count < 0 \<and> err \<noteq> EAGAIN)"

section \<open>The two transfers\<close>

definition BUFFSIZE :: nat where
  "BUFFSIZE = 2048"

text \<open>Both return the C result, \<open>errno\<close> (read only when the result is negative) and the buffer.\<close>

definition read_from_sock :: "sys_read \<Rightarrow> buffer \<Rightarrow> (int \<times> int \<times> buffer) run" where
  "read_from_sock rd b =
     bindE (buffer_write_ptr b) (\<lambda>(write_ptr, size0).
     let size1 = (if size0 > BUFFSIZE then BUFFSIZE else size0) in
     case rd size1 of
       Read_err e \<Rightarrow> Inr (-1, e, b)
     | Read_ok bs \<Rightarrow>
         if length bs > 0
         then bindE (mem_write write_ptr bs (buf_data b)) (\<lambda>d.
              bindE (buffer_write_adv (b\<lparr>buf_data := d\<rparr>) (int (length bs))) (\<lambda>b1.
              Inr (int (length bs), 0, b1)))
         else Inr (0, 0, b))"

definition write_to_sock :: "sys_send \<Rightarrow> buffer \<Rightarrow> (int \<times> int \<times> buffer) run" where
  "write_to_sock sd b =
     bindE (buffer_read_ptr b) (\<lambda>(read_ptr, size).
     case sd (take size (drop read_ptr (buf_data b))) of
       Send_err e \<Rightarrow> Inr (-1, e, b)
     | Send_ok bytes_sent \<Rightarrow>
         bindE (buffer_read_adv b (int bytes_sent)) (\<lambda>b1.
         Inr (int size - int bytes_sent, 0, b1)))"

section \<open>What they do to a well-formed buffer\<close>

definition rd_bytes :: "sys_read \<Rightarrow> nat \<Rightarrow> byte list" where
  "rd_bytes rd n = (case rd (min n BUFFSIZE) of Read_ok bs \<Rightarrow> bs | Read_err _ \<Rightarrow> [])"

definition sd_count :: "sys_send \<Rightarrow> byte list \<Rightarrow> nat" where
  "sd_count sd bs = (case sd bs of Send_ok k \<Rightarrow> k | Send_err _ \<Rightarrow> 0)"

lemma rd_bytes_le: "read_ok rd \<Longrightarrow> length (rd_bytes rd n) \<le> n"
  by (fastforce simp: rd_bytes_def read_ok_def split: read_res.splits)

lemma sd_count_le: "send_ok sd \<Longrightarrow> sd_count sd bs \<le> length bs"
  by (simp add: sd_count_def send_ok_def split: send_res.splits)

lemma buffer_put_Nil: "buffer_wf b \<Longrightarrow> buffer_put [] b = Inr b"
  by (simp add: buffer_put_def buffer_write_adv_def buffer_wf_def)

lemma buffer_read_adv_0: "buffer_wf b \<Longrightarrow> buffer_read_adv b 0 = Inr b"
  by (auto simp: buffer_read_adv_def buffer_wf_def buffer_compact_def)

lemma read_from_sock_put:
  assumes "buffer_wf b"
  shows "read_from_sock rd b =
    bindE (buffer_put (rd_bytes rd (Buffer.space b)) b) (\<lambda>b1.
      Inr (case rd (min (Buffer.space b) BUFFSIZE) of
             Read_ok bs \<Rightarrow> (int (length bs), 0, b1) | Read_err e \<Rightarrow> (-1, e, b1)))"
proof -
  have m: "(if BUFFSIZE < Buffer.space b then BUFFSIZE else Buffer.space b) = min (Buffer.space b) BUFFSIZE"
    by (simp add: min_def)
  show ?thesis
  proof (cases "rd_bytes rd (Buffer.space b) = []")
    case True
    with assms show ?thesis
      by (simp add: read_from_sock_def m rd_bytes_def buffer_put_Nil split: read_res.splits)
  next
    case False
    with assms show ?thesis
      by (simp add: read_from_sock_def m rd_bytes_def buffer_put_def bindE_assoc split: read_res.splits)
  qed
qed

lemma write_to_sock_adv:
  assumes "buffer_wf b"
  shows "write_to_sock sd b =
    bindE (buffer_read_adv b (int (sd_count sd (contents b)))) (\<lambda>b1.
      Inr (case sd (contents b) of
             Send_ok k \<Rightarrow> (int (length (contents b)) - int k, 0, b1) | Send_err e \<Rightarrow> (-1, e, b1)))"
proof -
  have c: "take (length (contents b)) (drop (buf_read b) (buf_data b)) = contents b"
    using length_contents [OF assms] by (simp add: contents_def)
  show ?thesis
    using assms buffer_read_adv_0 [OF assms]
    by (simp add: write_to_sock_def c sd_count_def split: send_res.splits)
qed

lemma read_from_sock_ok:
  assumes "buffer_wf b" and "read_ok rd"
  obtains n e b' where "read_from_sock rd b = Inr (n, e, b')" "buffer_wf b'"
    "contents b' = contents b @ rd_bytes rd (Buffer.space b)" "buf_limit b' = buf_limit b"
    "n \<ge> 0 \<Longrightarrow> n = int (length (rd_bytes rd (Buffer.space b)))" "n < 0 \<Longrightarrow> b' = b"
    "n \<ge> 0 \<or> n = -1" "Buffer.space b' = Buffer.space b - length (rd_bytes rd (Buffer.space b))"
proof -
  obtain b' where p: "buffer_put (rd_bytes rd (Buffer.space b)) b = Inr b'" "buffer_wf b'"
    "contents b' = contents b @ rd_bytes rd (Buffer.space b)" "buf_limit b' = buf_limit b"
    "Buffer.space b' = Buffer.space b - length (rd_bytes rd (Buffer.space b))"
    by (metis buffer_put_ok [OF assms(1) rd_bytes_le [OF assms(2)]])
  show thesis
  proof (cases "rd (min (Buffer.space b) BUFFSIZE)")
    case (Read_ok bs)
    then have "rd_bytes rd (Buffer.space b) = bs" by (simp add: rd_bytes_def)
    with p Read_ok show thesis
      using that [of "int (length bs)" 0 b'] by (simp add: read_from_sock_put [OF assms(1)])
  next
    case (Read_err e)
    then have none: "rd_bytes rd (Buffer.space b) = []" by (simp add: rd_bytes_def)
    with p(1) have "b' = b" using buffer_put_Nil [OF assms(1)] by simp
    with p none Read_err show thesis
      using that [of "-1" e b'] by (simp add: read_from_sock_put [OF assms(1)])
  qed
qed

lemma write_to_sock_ok:
  assumes "buffer_wf b" and "send_ok sd"
  obtains n e b' where "write_to_sock sd b = Inr (n, e, b')" "buffer_wf b'"
    "contents b' = drop (sd_count sd (contents b)) (contents b)" "buf_limit b' = buf_limit b"
    "n \<ge> 0 \<Longrightarrow> n = int (length (contents b'))" "n < 0 \<Longrightarrow> b' = b" "n \<ge> 0 \<or> n = -1"
proof -
  obtain b' where p: "buffer_read_adv b (int (sd_count sd (contents b))) = Inr b'" "buffer_wf b'"
    "contents b' = drop (sd_count sd (contents b)) (contents b)" "buf_limit b' = buf_limit b"
    by (metis buffer_read_adv_ok [OF assms(1) sd_count_le [OF assms(2)]])
  show thesis
  proof (cases "sd (contents b)")
    case (Send_ok k)
    then have k: "sd_count sd (contents b) = k" "k \<le> length (contents b)"
      using sd_count_le [OF assms(2), of "contents b"] by (simp_all add: sd_count_def)
    have "int (length (contents b)) - int k = int (length (contents b'))"
      using p(3) k by simp
    then have "write_to_sock sd b = Inr (int (length (contents b')), 0, b')"
      using p(1) k Send_ok by (simp add: write_to_sock_adv [OF assms(1)])
    then show thesis
      using that p by simp
  next
    case (Send_err e)
    then have "sd_count sd (contents b) = 0" by (simp add: sd_count_def)
    with p have "b' = b" using buffer_read_adv_0 [OF assms(1)] by simp
    with p Send_err show thesis
      using that [of "-1" e b'] by (simp add: write_to_sock_adv [OF assms(1)])
  qed
qed

section \<open>Any interleaving of transfers is a faithful pipe\<close>

text \<open>
  The events that touch one buffer: a call of \<open>read_from_sock\<close> on the socket that feeds it, a
  call of \<open>write_to_sock\<close> on the socket it is drained to. \<open>sock_run\<close> executes them in order and
  records the bytes received and the bytes sent.
\<close>

datatype sock_event = Recv sys_read | Send sys_send

fun event_ok :: "sock_event \<Rightarrow> bool" where
  "event_ok (Recv rd) \<longleftrightarrow> read_ok rd"
| "event_ok (Send sd) \<longleftrightarrow> send_ok sd"

fun sock_run :: "sock_event list \<Rightarrow> buffer \<Rightarrow> (byte list \<times> byte list \<times> buffer) run" where
  "sock_run [] b = Inr ([], [], b)"
| "sock_run (Recv rd # evs) b =
     bindE (read_from_sock rd b) (\<lambda>(n, e, b1).
     bindE (sock_run evs b1) (\<lambda>(ins, outs, b2). Inr (rd_bytes rd (Buffer.space b) @ ins, outs, b2)))"
| "sock_run (Send sd # evs) b =
     bindE (write_to_sock sd b) (\<lambda>(n, e, b1).
     bindE (sock_run evs b1) (\<lambda>(ins, outs, b2).
       Inr (ins, take (sd_count sd (contents b)) (contents b) @ outs, b2)))"

fun to_qop :: "sock_event \<Rightarrow> qop" where
  "to_qop (Recv rd) = Put (rd_bytes rd)"
| "to_qop (Send sd) = Take (sd_count sd)"

lemma to_qop_ok: "event_ok ev \<Longrightarrow> qop_ok (to_qop ev)"
  by (cases ev) (simp_all add: rd_bytes_le sd_count_le)

text \<open>The socket functions refine the operations of the abstract queue.\<close>

lemma sock_run_refines_queue:
  assumes "buffer_wf b" and "\<forall>ev\<in>set evs. event_ok ev"
  shows "sock_run evs b =
    qrun contents Buffer.space buffer_put (\<lambda>n b. buffer_read_adv b (int n)) (map to_qop evs) b"
  using assms
proof (induction evs arbitrary: b)
  case Nil
  then show ?case by simp
next
  case (Cons ev evs)
  show ?case
  proof (cases ev)
    case (Recv rd)
    with Cons.prems have ok: "read_ok rd" by simp
    obtain n e b' where r: "read_from_sock rd b = Inr (n, e, b')" "buffer_wf b'"
      by (metis read_from_sock_ok [OF Cons.prems(1) ok])
    then have "buffer_put (rd_bytes rd (Buffer.space b)) b = Inr b'"
      by (cases "rd (min (Buffer.space b) BUFFSIZE)")
        (auto simp: read_from_sock_put [OF Cons.prems(1)] fault_simps)
    with r Recv Cons.IH [OF r(2)] Cons.prems(2) show ?thesis by (simp add: Let_def)
  next
    case (Send sd)
    with Cons.prems have ok: "send_ok sd" by simp
    obtain n e b' where r: "write_to_sock sd b = Inr (n, e, b')" "buffer_wf b'"
      by (metis write_to_sock_ok [OF Cons.prems(1) ok])
    then have "buffer_read_adv b (int (sd_count sd (contents b))) = Inr b'"
      by (cases "sd (contents b)")
        (auto simp: write_to_sock_adv [OF Cons.prems(1)] fault_simps)
    with r Send Cons.IH [OF r(2)] Cons.prems(2) show ?thesis by (simp add: Let_def)
  qed
qed

text \<open>The relay cannot wedge on its own buffer: once everything received has been sent, there is room again.\<close>

lemma drained_relay_has_room:
  assumes "buffer_wf b" and "\<forall>ev\<in>set evs. event_ok ev" and "0 < buf_limit b"
    and "sock_run evs b = Inr (ins, outs, b')" and "outs = contents b @ ins"
  shows "buffer_can_write b'"
proof -
  have "\<forall>op\<in>set (map to_qop evs). qop_ok op"
    using assms(2) to_qop_ok by auto
  from bq.drained_has_room [OF assms(1) this assms(3) _ assms(5)] assms(4) show ?thesis
    by (simp add: sock_run_refines_queue [OF assms(1,2)] buffer_can_write_iff)
qed

end
