(* ===== verification/Mgmt_Protocol.thy ===== *)
theory Mgmt_Protocol
  imports SocketsIO
begin

text \<open>
  \<open>src/mgmt_protocol.c\<close>: the input window of the management lexer. The pointers of the struct
  \<open>Input\<close> are offsets into \<open>in_buf\<close>; \<open>yyt1\<close> and \<open>yyt2\<close> are the tag variables of the generated
  lexer. \<open>in_buf\<close> is the memory that may be used from \<open>buf\<close> on, and any access behind it is a fault. Both
  functions store a sentinel NUL at \<open>lim\<close>, which for a full window is the byte behind an array of \<open>bufSize\<close>
  bytes. So they need one byte more than the array has (\<open>roomy\<close>); with the array alone \<open>initState\<close>
  leaves it (\<open>initState_behind_array\<close>), and so does a refill that fills the window (\<open>fillBuffer_behind_array\<close>). How the
  struct of a management client comes to have that byte is said at \<open>read_buf_padding\<close>.
\<close>

record Input =
  in_buf :: "byte list"
  in_lim :: nat
  in_cur :: nat
  in_mar :: nat
  in_tok :: nat
  in_yyt1 :: nat
  in_yyt2 :: nat
  in_state :: int
  in_cond :: nat
  in_bufSize :: nat

text \<open>The conditions of the lexer: before and after authentication.\<close>

definition yycpass :: nat where "yycpass = 0"
definition yyctrns :: nat where "yyctrns = 1"

datatype MgmtCommand =
    MGMT_INVALID_CMD | MGMT_INCOMPLETE | MGMT_TOKEN | MGMT_STATS | MGMT_CAPA | MGMT_USERS
  | MGMT_GET_BUFFSIZE | MGMT_SET_BUFFSIZE | MGMT_GET_DISSECTOR_STATUS | MGMT_SET_DISSECTOR_STATUS
  | MGMT_ADD_USER | MGMT_QUIT | MGMT_INVALID_ARGS

definition initState :: "Input \<Rightarrow> Input run" where
  "initState inp =
     (let e = in_bufSize inp;
          i1 = inp\<lparr>in_tok := e, in_cur := e, in_mar := e, in_lim := e, in_state := -1, in_cond := yycpass\<rparr>
      in bindE (mem_write (in_lim i1) [0] (in_buf i1)) (\<lambda>b. Inr (i1\<lparr>in_buf := b\<rparr>)))"

text \<open>
  \<open>fillBuffer\<close> moves the unfinished token to the front and reads behind it. The tag variables
  are not moved. The results are the return value of \<open>read\<close> and \<open>errno\<close>.
\<close>

definition fillBuffer :: "sys_read \<Rightarrow> Input \<Rightarrow> (int \<times> int \<times> Input) run" where
  "fillBuffer rd inp =
     (let start = in_tok inp;
          shift = start;
          free = in_bufSize inp - (in_lim inp - start)
      in bindE (mem_write 0 (take (in_bufSize inp - shift) (drop start (in_buf inp))) (in_buf inp)) (\<lambda>b1.
         let i1 = inp\<lparr>in_buf := b1, in_lim := in_lim inp - shift, in_cur := in_cur inp - shift,
                      in_mar := in_mar inp - shift, in_tok := in_tok inp - shift\<rparr>
         in case rd free of
              Read_err e \<Rightarrow>
                bindE (mem_write (in_lim i1) [0] (in_buf i1)) (\<lambda>b2. Inr (-1, e, i1\<lparr>in_buf := b2\<rparr>))
            | Read_ok bs \<Rightarrow>
                bindE (mem_write (in_lim i1) bs (in_buf i1)) (\<lambda>b2.
                let i2 = i1\<lparr>in_buf := b2, in_lim := in_lim i1 + length bs\<rparr> in
                bindE (mem_write (in_lim i2) [0] (in_buf i2)) (\<lambda>b3.
                Inr (int (length bs), 0, i2\<lparr>in_buf := b3\<rparr>)))))"

section \<open>Invariant\<close>

definition input_wf :: "Input \<Rightarrow> bool" where
  "input_wf i \<longleftrightarrow> in_lim i < length (in_buf i) \<and> in_bufSize i \<le> length (in_buf i) \<and> in_tok i \<le> in_cur i \<and> in_cur i \<le> in_lim i
     \<and> in_tok i \<le> in_mar i \<and> in_mar i \<le> in_lim i
     \<and> in_lim i \<le> in_bufSize i \<and> in_buf i ! in_lim i = 0"

text \<open>There is room for the sentinel of a full window.\<close>

definition roomy :: "Input \<Rightarrow> bool" where
  "roomy i \<longleftrightarrow> in_bufSize i < length (in_buf i)"

text \<open>The bytes of the token being read and after it.\<close>

definition pending :: "Input \<Rightarrow> byte list" where
  "pending i = take (in_lim i - in_tok i) (drop (in_tok i) (in_buf i))"

lemma length_pending: "input_wf i \<Longrightarrow> length (pending i) = in_lim i - in_tok i"
  by (auto simp: pending_def input_wf_def)

lemma drop_pending: "input_wf i \<Longrightarrow> drop (in_tok i) (in_buf i) = pending i @ drop (in_lim i) (in_buf i)"
  unfolding pending_def input_wf_def by (metis append_take_drop_id drop_drop le_add_diff_inverse2 le_trans)

text \<open>Moving the start of the token over \<open>n\<close> bytes.\<close>

lemma pending_shift:
  assumes "input_wf i" and "in_buf i' = in_buf i" "in_lim i' = in_lim i" "in_tok i' = in_tok i + n"
  shows "pending i' = drop n (pending i)"
  using assms by (simp add: pending_def drop_take add.commute)

lemma nth_overwrite_single: "off < length dst \<Longrightarrow> overwrite off [x] dst ! off = x"
  by (simp add: overwrite_single)

lemma initState_ok:
  assumes "roomy i"
  shows "\<exists>i'. initState i = Inr i' \<and> input_wf i' \<and> roomy i' \<and> pending i' = [] \<and> in_cond i' = yycpass
    \<and> in_lim i' = in_bufSize i \<and> in_bufSize i' = in_bufSize i"
  using assms by (simp add: initState_def Let_def input_wf_def roomy_def pending_def nth_overwrite_single)

lemma initState_behind_array:
  assumes "length (in_buf i) = in_bufSize i"
  shows "initState i = Inl Out_of_bounds"
  using assms by (simp add: initState_def Let_def mem_write_def)

text \<open>
  Refilling keeps the unfinished token, appends what was read, and leaves the sentinel behind
  the last byte.
\<close>

lemma fillBuffer_ok:
  assumes wf: "input_wf i" and room: "roomy i" and rd: "read_ok rd"
  shows "\<exists>n e i'. fillBuffer rd i = Inr (n, e, i') \<and> input_wf i' \<and> roomy i' \<and> in_tok i' = 0
    \<and> in_cur i' = in_cur i - in_tok i \<and> in_cond i' = in_cond i \<and> in_state i' = in_state i
    \<and> in_bufSize i' = in_bufSize i \<and> in_yyt1 i' = in_yyt1 i \<and> in_yyt2 i' = in_yyt2 i
    \<and> (\<exists>bs. pending i' = pending i @ bs \<and> (0 \<le> n \<longrightarrow> n = int (length bs)) \<and> (n < 0 \<longrightarrow> bs = []))"
proof -
  let ?shift = "in_tok i"
  let ?len = "in_lim i - in_tok i"
  let ?mv = "take (in_bufSize i - ?shift) (drop ?shift (in_buf i))"
  let ?b1 = "overwrite 0 ?mv (in_buf i)"
  have w: "in_bufSize i < length (in_buf i)" "in_tok i \<le> in_cur i" "in_cur i \<le> in_lim i"
    "in_tok i \<le> in_mar i" "in_mar i \<le> in_lim i" "in_lim i \<le> in_bufSize i"
    using wf room by (auto simp: input_wf_def roomy_def)
  have lenmv: "length ?mv = in_bufSize i - ?shift" "length ?b1 = length (in_buf i)"
    using w by simp_all
  have b1: "take ?len ?b1 = pending i"
  proof -
    have "take ?len ?b1 = take ?len ?mv"
      using w by (auto simp: overwrite_def min_def)
    also have "\<dots> = pending i" using w by (simp add: pending_def min_def)
    finally show ?thesis .
  qed
  have mv: "mem_write 0 ?mv (in_buf i) = Inr ?b1"
    using w by (simp add: mem_write_def)
  have order: "in_cur i - ?shift \<le> ?len" "in_mar i - ?shift \<le> ?len" "?len \<le> in_bufSize i"
    using w by auto
  show ?thesis
  proof (cases "rd (in_bufSize i - ?len)")
    case (Read_err e)
    have "take ?len (overwrite ?len [0] ?b1) = pending i"
      using b1 w lenmv by simp
    then show ?thesis
      using mv Read_err w lenmv order
      by (simp add: fillBuffer_def Let_def input_wf_def roomy_def pending_def nth_overwrite_single)
  next
    case (Read_ok bs)
    then have bs: "?len + length bs \<le> in_bufSize i"
      using rd w by (fastforce simp: read_ok_def)
    let ?b2 = "overwrite ?len bs ?b1"
    let ?b3 = "overwrite (?len + length bs) [0] ?b2"
    have len2: "length ?b2 = length (in_buf i)"
      using bs lenmv w(1) by simp
    have "take (?len + length bs) ?b3 = take (?len + length bs) ?b2"
      using bs len2 w(1) by simp
    also have "\<dots> = pending i @ bs"
      using window_overwrite [of 0 ?len bs ?b1] bs lenmv b1 w(1) by simp
    finally have pend: "take (?len + length bs) ?b3 = pending i @ bs" .
    have w2: "mem_write ?len bs ?b1 = Inr ?b2"
      using bs lenmv w(1) by (simp add: mem_write_def)
    have w3: "mem_write (?len + length bs) [0] ?b2 = Inr ?b3"
      using bs len2 w(1) by (simp add: mem_write_def)
    have "in_cur i - ?shift \<le> ?len + length bs" "in_mar i - ?shift \<le> ?len + length bs"
      using order by auto
    then show ?thesis
      using mv Read_ok w w2 w3 bs len2 pend
      by (simp add: fillBuffer_def Let_def input_wf_def roomy_def pending_def nth_overwrite_single)
  qed
qed

text \<open>With nothing behind the array, the read that fills the window has its sentinel stored outside.\<close>

lemma fillBuffer_behind_array:
  assumes "input_wf i" and exact: "length (in_buf i) = in_bufSize i"
    and bs: "rd (in_bufSize i - length (pending i)) = Read_ok bs" "length (pending i) + length bs = in_bufSize i"
  shows "fillBuffer rd i = Inl Out_of_bounds"
proof -
  let ?len = "in_lim i - in_tok i" and ?mv = "take (in_bufSize i - in_tok i) (drop (in_tok i) (in_buf i))"
  have len: "length (pending i) = ?len" by (rule length_pending [OF assms(1)])
  have "length (overwrite 0 ?mv (in_buf i)) = in_bufSize i" using exact by simp
  then have "mem_write 0 ?mv (in_buf i) = Inr (overwrite 0 ?mv (in_buf i))"
    "mem_write ?len bs (overwrite 0 ?mv (in_buf i)) = Inr (overwrite ?len bs (overwrite 0 ?mv (in_buf i)))"
    "mem_write (?len + length bs) [0] (overwrite ?len bs (overwrite 0 ?mv (in_buf i))) = Inl Out_of_bounds"
    using exact bs(2) len by (simp_all add: mem_write_def)
  then show ?thesis using bs(1) len by (simp add: fillBuffer_def Let_def)
qed

end
