(* ===== verification/Socks_World.thy ===== *)
theory Socks_World
  imports Selector Stm Server_State Users Pop3_Sniffer Mgmt_Protocol
begin

text \<open>
  The data of the running server: \<open>struct client\<close> (\<open>include/clients.h\<close>), \<open>struct mgmt_client\<close>
  (\<open>include/mgmt.h\<close>) and everything the handlers reach: the selector, the counters of
  \<open>state.c\<close>, the tables of users and tokens, the heap of clients, the resolver threads. The
  world record extends the selector's.

  The operating system is explicit on both sides. What it answers is the environment \<open>w_env\<close>,
  one record of answers per callback (a callback makes each kind of call at most once, except
  \<open>malloc\<close>, which is indexed, and \<open>read\<close>, which \<open>handle_mgmt_read\<close> may call a second time: \<open>env_reread\<close>; \<open>env_junk\<close> is what fresh memory holds, \<open>env_wild\<close> what a pointer
  in it is); the records come from the
  sequence \<open>w_envs\<close>. What the server does to the system is the trace \<open>w_trace\<close>. A pointer to a
  client is a number; a client that was freed is no longer in the heap, and using it is the
  fault \<open>Use_after_free\<close>.
\<close>

section \<open>Constants\<close>

definition CLIENT_WRITE :: flags where "CLIENT_WRITE = 1"
definition CLIENT_READ :: flags where "CLIENT_READ = 2"
definition CLIENT :: flags where "CLIENT = CLIENT_READ OR CLIENT_WRITE"
definition ORIGIN_WRITE :: flags where "ORIGIN_WRITE = 4"
definition ORIGIN_READ :: flags where "ORIGIN_READ = 8"
definition ORIGIN :: flags where "ORIGIN = ORIGIN_READ OR ORIGIN_WRITE"

definition AUTH_METHOD :: nat where "AUTH_METHOD = 0"
definition PLAIN_AUTH :: nat where "PLAIN_AUTH = 1"
definition REQUEST :: nat where "REQUEST = 2"
definition RESOLVING :: nat where "RESOLVING = 3"
definition CONNECTING :: nat where "CONNECTING = 4"
definition PROXY :: nat where "PROXY = 5"
definition DONE :: nat where "DONE = 6"
definition WRITE_REMAINING :: nat where "WRITE_REMAINING = 7"

lemmas socks5_states = AUTH_METHOD_def PLAIN_AUTH_def REQUEST_def RESOLVING_def CONNECTING_def
  PROXY_def DONE_def WRITE_REMAINING_def

lemma states_le [simp]:
  "AUTH_METHOD \<le> WRITE_REMAINING" "PLAIN_AUTH \<le> WRITE_REMAINING" "REQUEST \<le> WRITE_REMAINING" "RESOLVING \<le> WRITE_REMAINING"
  "CONNECTING \<le> WRITE_REMAINING" "PROXY \<le> WRITE_REMAINING" "DONE \<le> WRITE_REMAINING"
  by (simp_all add: socks5_states)

lemma states_distinct [simp]:
  "AUTH_METHOD \<noteq> PLAIN_AUTH" "AUTH_METHOD \<noteq> REQUEST" "AUTH_METHOD \<noteq> RESOLVING"
  "AUTH_METHOD \<noteq> CONNECTING" "AUTH_METHOD \<noteq> PROXY" "AUTH_METHOD \<noteq> DONE"
  "AUTH_METHOD \<noteq> WRITE_REMAINING" "PLAIN_AUTH \<noteq> AUTH_METHOD" "PLAIN_AUTH \<noteq> REQUEST"
  "PLAIN_AUTH \<noteq> RESOLVING" "PLAIN_AUTH \<noteq> CONNECTING" "PLAIN_AUTH \<noteq> PROXY"
  "PLAIN_AUTH \<noteq> DONE" "PLAIN_AUTH \<noteq> WRITE_REMAINING" "REQUEST \<noteq> AUTH_METHOD"
  "REQUEST \<noteq> PLAIN_AUTH" "REQUEST \<noteq> RESOLVING" "REQUEST \<noteq> CONNECTING"
  "REQUEST \<noteq> PROXY" "REQUEST \<noteq> DONE" "REQUEST \<noteq> WRITE_REMAINING"
  "RESOLVING \<noteq> AUTH_METHOD" "RESOLVING \<noteq> PLAIN_AUTH" "RESOLVING \<noteq> REQUEST"
  "RESOLVING \<noteq> CONNECTING" "RESOLVING \<noteq> PROXY" "RESOLVING \<noteq> DONE"
  "RESOLVING \<noteq> WRITE_REMAINING" "CONNECTING \<noteq> AUTH_METHOD" "CONNECTING \<noteq> PLAIN_AUTH"
  "CONNECTING \<noteq> REQUEST" "CONNECTING \<noteq> RESOLVING" "CONNECTING \<noteq> PROXY"
  "CONNECTING \<noteq> DONE" "CONNECTING \<noteq> WRITE_REMAINING" "PROXY \<noteq> AUTH_METHOD"
  "PROXY \<noteq> PLAIN_AUTH" "PROXY \<noteq> REQUEST" "PROXY \<noteq> RESOLVING"
  "PROXY \<noteq> CONNECTING" "PROXY \<noteq> DONE" "PROXY \<noteq> WRITE_REMAINING"
  "DONE \<noteq> AUTH_METHOD" "DONE \<noteq> PLAIN_AUTH" "DONE \<noteq> REQUEST"
  "DONE \<noteq> RESOLVING" "DONE \<noteq> CONNECTING" "DONE \<noteq> PROXY"
  "DONE \<noteq> WRITE_REMAINING" "WRITE_REMAINING \<noteq> AUTH_METHOD"
  "WRITE_REMAINING \<noteq> PLAIN_AUTH" "WRITE_REMAINING \<noteq> REQUEST"
  "WRITE_REMAINING \<noteq> RESOLVING" "WRITE_REMAINING \<noteq> CONNECTING"
  "WRITE_REMAINING \<noteq> PROXY" "WRITE_REMAINING \<noteq> DONE"
  by (simp_all add: socks5_states)

definition AF_INET :: int where "AF_INET = 2"
definition AF_INET6 :: int where "AF_INET6 = 10"
definition SOCK_STREAM :: int where "SOCK_STREAM = 1"

section \<open>Addresses\<close>

text \<open>Address and port are kept as the bytes in memory, that is in network order.\<close>

record sockaddr =
  sa_family :: int
  sa_addr :: "byte list"
  sa_port :: "byte list"

text \<open>
  The sizes of the C objects that hold an address, and where the address of a \<open>struct sockaddr_in6\<close> ends: a
  plain \<open>struct sockaddr\<close> is too small for it.
\<close>

definition SOCKADDR_SIZE :: nat where "SOCKADDR_SIZE = 16"
definition SOCKADDR_STORAGE_SIZE :: nat where "SOCKADDR_STORAGE_SIZE = 128"
definition SIN6_ADDR_END :: nat where "SIN6_ADDR_END = 24"

lemmas sockaddr_sizes = SOCKADDR_SIZE_def SOCKADDR_STORAGE_SIZE_def SIN6_ADDR_END_def

record addrinfo =
  ai_family :: int
  ai_socktype :: int
  ai_protocol :: int
  ai_addr :: sockaddr

text \<open>\<open>ntohs\<close> on the two bytes of a port.\<close>

definition ntohs :: "byte list \<Rightarrow> nat" where
  "ntohs p = (case p of [hi, lo] \<Rightarrow> 256 * unat hi + unat lo | _ \<Rightarrow> 0)"

section \<open>Clients\<close>

text \<open>
  A pointer to an \<open>addrinfo\<close> is the list of the nodes from there on (\<open>[]\<close> is NULL, the tail is
  \<open>ai_next\<close>). \<open>curr_freed\<close> records that \<open>curr_addr\<close> still holds a pointer that was freed.
  \<open>stm_current\<close> is the \<open>current\<close> field of the client's own state machine.
\<close>

record client =
  client_sock :: int
  origin_sock :: int
  client_addr :: sockaddr
  atyp :: nat
  client_buf :: buffer
  origin_buf :: buffer
  socks_user :: "byte list"
  active_ends :: flags
  dest_fqdn :: "byte list option"
  dest_port :: "byte list"
  resolution :: "addrinfo list"
  curr_addr :: "addrinfo list"
  curr_freed :: bool
  stm_current :: "nat option"
  pop3_parser :: "pop3_parser option"

definition MAX_CREDENTIALS :: nat where "MAX_CREDENTIALS = 256"

record mgmt_client =
  mc_fd :: int
  write_buf :: buffer
  pending_buf :: buffer
  input :: Input
  quitted :: bool

definition MGMT_BUFFSIZE :: nat where "MGMT_BUFFSIZE = 2048"

text \<open>
  The bytes between \<open>read_buf_raw\<close> and the next member of \<open>struct mgmt_client\<close>. Before them stand an \<open>int\<close> of four
  bytes and three arrays; behind them a \<open>struct buffer\<close>, which starts with a pointer and is aligned to eight bytes on the
  64-bit targets this development is about. The language gives no right to use these bytes.
\<close>

definition read_buf_padding :: nat where
  "read_buf_padding = (8 - (4 + 3 * MGMT_BUFFSIZE) mod 8) mod 8"

lemma read_buf_padding_4 [simp]: "read_buf_padding = 4"
  by (simp add: read_buf_padding_def MGMT_BUFFSIZE_def)

section \<open>The operating system\<close>

datatype shutdown_how = SHUT_RD | SHUT_WR

datatype os_event =
    Shutdown int shutdown_how
  | Close int
  | Spawn_resolver nat
  | Free_client nat

text \<open>\<open>accept\<close>: the new descriptor, the peer address and the length stored in \<open>clntAddrLen\<close>.\<close>

datatype accept_res = Accept_ok int sockaddr nat | Accept_err

record sysenv =
  env_read :: sys_read
  env_reread :: sys_read
  env_send :: sys_send
  env_socket :: int
  env_connect :: int
  env_so_error :: int
  env_sockname :: sockaddr
  env_malloc :: "nat \<Rightarrow> bool"
  env_junk :: "nat \<Rightarrow> byte list"
  env_wild :: nat
  env_thread :: bool
  env_accept :: accept_res

definition env_ok :: "sysenv \<Rightarrow> bool" where
  "env_ok e \<longleftrightarrow> read_ok (env_read e) \<and> read_ok (env_reread e) \<and> send_ok (env_send e)
     \<and> length (sa_addr (env_sockname e)) = (if sa_family (env_sockname e) = AF_INET then 4 else 16)
     \<and> length (sa_port (env_sockname e)) = 2 \<and> (\<forall>n. length (env_junk e n) = n)"

text \<open>What the access log records of a destination.\<close>

datatype dest_log = Log_name "byte list" nat | Log_addr addrinfo | Log_unknown

datatype log_entry =
    Access_log "byte list" sockaddr dest_log nat
  | Sniffer_log "byte list" sockaddr dest_log "byte list" "byte list"

section \<open>The world\<close>

datatype handler_id = socks5_handler | mgmt_handler | master_handler | monitor_handler

datatype attachment = A_client nat | A_mgmt nat

record world = "(handler_id, attachment) fdselector" +
  w_state :: server_state
  w_users :: user_table
  w_tokens :: token_table
  w_clients :: "nat \<Rightarrow> client option"
  w_mgmt :: "nat \<Rightarrow> mgmt_client option"
  w_next :: nat
  w_threads :: "nat list"
  w_trace :: "os_event list"
  w_log :: "log_entry list"
  w_env :: sysenv
  w_envs :: "nat \<Rightarrow> sysenv"
  w_tick :: nat

type_synonym key = "attachment selector_key"

definition get_client :: "nat \<Rightarrow> world \<Rightarrow> client run" where
  "get_client cid w = (case w_clients w cid of None \<Rightarrow> Inl Use_after_free | Some c \<Rightarrow> Inr c)"

definition put_client :: "nat \<Rightarrow> client \<Rightarrow> world \<Rightarrow> world" where
  "put_client cid c w = w\<lparr>w_clients := (w_clients w)(cid \<mapsto> c)\<rparr>"

definition emit :: "os_event \<Rightarrow> world \<Rightarrow> world" where
  "emit ev w = w\<lparr>w_trace := w_trace w @ [ev]\<rparr>"

lemma get_put_client [simp]: "get_client cid (put_client cid' c w) = (if cid = cid' then Inr c else get_client cid w)"
  by (simp add: get_client_def put_client_def)

text \<open>\<open>ATTACHMENT(key)\<close>: the cast of \<open>key->data\<close> to a client.\<close>

definition ATTACHMENT :: "key \<Rightarrow> nat run" where
  "ATTACHMENT k = (case key_data k of Some (A_client cid) \<Rightarrow> Inr cid | _ \<Rightarrow> Inl Null_deref)"

text \<open>
  \<open>stm_state(client->stm)\<close>. In the table of the proxy every state definition carries its own
  index, so the state is the index itself.
\<close>

definition client_state :: "client \<Rightarrow> nat" where
  "client_state c = (case stm_current c of None \<Rightarrow> AUTH_METHOD | Some i \<Rightarrow> i)"

section \<open>Close callbacks\<close>

text \<open>\<open>handle_mgmt_close\<close> of \<open>mgmt.c\<close>, the only close callback of the server.\<close>

definition handle_mgmt_close :: "key \<Rightarrow> world \<Rightarrow> world run" where
  "handle_mgmt_close k w =
     (let w1 = emit (Close (key_fd k)) w;
          w2 = (case key_data k of
                  Some (A_mgmt mid) \<Rightarrow> w1\<lparr>w_mgmt := (w_mgmt w1)(mid := None)\<rparr>
                | _ \<Rightarrow> w1)
      in Inr (w2\<lparr>w_state := rm_mgmt_client (w_state w2)\<rparr>))"

text \<open>The close entries of the four handler tables.\<close>

definition close_table :: "handler_id \<Rightarrow> (attachment, world) fd_handler" where
  "close_table h =
     \<lparr>handle_read = None, handle_write = None, handle_block = None,
      handle_close = (case h of mgmt_handler \<Rightarrow> Some handle_mgmt_close | _ \<Rightarrow> None)\<rparr>"

definition unregister :: "int \<Rightarrow> world \<Rightarrow> (selector_status \<times> world) run" where
  "unregister fd w = selector_unregister_fd close_table fd w"

text \<open>\<open>selector_unregister_fd\<close> looks at nothing of the table but the close entries.\<close>

lemma unregister_any_table:
  assumes "\<And>h. handle_close (H h) = handle_close (close_table h)"
  shows "selector_unregister_fd H fd w = unregister fd w"
  unfolding unregister_def selector_unregister_fd_def assms by (rule refl)

section \<open>Frames\<close>

text \<open>The fields beyond the selector are a function of the record's extension.\<close>

lemma more_eq_fields:
  assumes "fdselector.more w' = fdselector.more w"
  shows "w_state w' = w_state w" "w_users w' = w_users w" "w_tokens w' = w_tokens w"
    "w_clients w' = w_clients w" "w_mgmt w' = w_mgmt w" "w_next w' = w_next w"
    "w_threads w' = w_threads w" "w_trace w' = w_trace w" "w_log w' = w_log w" "w_env w' = w_env w"
    "w_envs w' = w_envs w" "w_tick w' = w_tick w"
proof -
  have eq: "w' = w\<lparr>fds := fds w', fd_size := fd_size w', max_fd := max_fd w', master_r := master_r w',
      master_w := master_w w', slave_r := slave_r w', slave_w := slave_w w', master_t := master_t w',
      slave_t := slave_t w', resolution_jobs := resolution_jobs w'\<rparr>"
    by (rule fdselector.equality) (simp_all add: assms)
  show "w_state w' = w_state w" "w_users w' = w_users w" "w_tokens w' = w_tokens w"
    "w_clients w' = w_clients w" "w_mgmt w' = w_mgmt w" "w_next w' = w_next w"
    "w_threads w' = w_threads w" "w_trace w' = w_trace w" "w_log w' = w_log w" "w_env w' = w_env w"
    "w_envs w' = w_envs w" "w_tick w' = w_tick w"
    by (subst eq, simp)+
qed

text \<open>Operations on the selector part leave everything else alone, and conversely.\<close>

lemma registered_world [simp]:
  fixes w :: world
  shows "registered (w\<lparr>w_state := st\<rparr>) = registered w" "registered (w\<lparr>w_users := us\<rparr>) = registered w"
  "registered (w\<lparr>w_clients := cl\<rparr>) = registered w" "registered (w\<lparr>w_mgmt := mg\<rparr>) = registered w"
  "registered (w\<lparr>w_next := nx\<rparr>) = registered w" "registered (w\<lparr>w_threads := th\<rparr>) = registered w"
  "registered (w\<lparr>w_trace := tr\<rparr>) = registered w" "registered (w\<lparr>w_log := lg\<rparr>) = registered w"
  "registered (w\<lparr>w_env := en\<rparr>) = registered w" "registered (w\<lparr>w_tick := t\<rparr>) = registered w"
  "registered (put_client cid c w) = registered w" "registered (emit ev w) = registered w"
  by (simp_all add: put_client_def emit_def registered_def fun_eq_iff)

lemma sel_wf_world [simp]:
  fixes w :: world
  shows "sel_wf (w\<lparr>w_state := st\<rparr>) = sel_wf w" "sel_wf (w\<lparr>w_users := us\<rparr>) = sel_wf w"
  "sel_wf (w\<lparr>w_clients := cl\<rparr>) = sel_wf w" "sel_wf (w\<lparr>w_mgmt := mg\<rparr>) = sel_wf w"
  "sel_wf (w\<lparr>w_next := nx\<rparr>) = sel_wf w" "sel_wf (w\<lparr>w_threads := th\<rparr>) = sel_wf w"
  "sel_wf (w\<lparr>w_trace := tr\<rparr>) = sel_wf w" "sel_wf (w\<lparr>w_log := lg\<rparr>) = sel_wf w"
  "sel_wf (w\<lparr>w_env := en\<rparr>) = sel_wf w" "sel_wf (w\<lparr>w_tick := t\<rparr>) = sel_wf w"
  by (simp_all add: sel_wf_def)

lemma sel_wf_put_client [simp]: "sel_wf (put_client cid c w) = sel_wf w"
  by (simp add: put_client_def)

lemma sel_wf_emit [simp]: "sel_wf (emit ev w) = sel_wf w"
  by (simp add: emit_def)

lemma get_client_emit [simp]: "get_client cid (emit ev w) = get_client cid w"
  by (simp add: get_client_def emit_def)

lemma get_client_more:
  assumes "fdselector.more w' = fdselector.more w"
  shows "get_client cid w' = get_client cid w"
  unfolding get_client_def more_eq_fields(4) [OF assms] by (rule refl)

end
