(* ===== verification/Close_Client.thy ===== *)
theory Close_Client
  imports Socks_World
begin

text \<open>
  \<open>enable_write\<close> and \<open>closeClient\<close> of \<open>src/clients.c\<close>: the bookkeeping of the four directions
  (\<open>socket_ends\<close>) of a proxied connection. Both handshake and relay end a connection only
  through \<open>closeClient\<close>. In the source the client and the key are both passed; the key is only
  used for the selector and, by \<open>enable_write\<close>, for the same client again.
\<close>

section \<open>Operations\<close>

definition enable_write :: "nat \<Rightarrow> world \<Rightarrow> world run" where
  "enable_write cid w =
     bindE (get_client cid w) (\<lambda>c.
     bindE (if hasFlag (active_ends c) CLIENT_WRITE
            then bindE (selector_add_interest (client_sock c) OP_WRITE w) (\<lambda>(_, w1).
                 bindE (selector_unmask_interest (client_sock c) OP_WRITE w1) (\<lambda>(_, w2). Inr w2))
            else Inr w) (\<lambda>w1.
     if hasFlag (active_ends c) ORIGIN_WRITE
     then bindE (selector_add_interest (origin_sock c) OP_WRITE w1) (\<lambda>(_, w2).
          bindE (selector_unmask_interest (client_sock c) OP_WRITE w2) (\<lambda>(_, w3). Inr w3))
     else Inr w1))"

text \<open>One of the four blocks \<open>remove interest; shutdown\<close>.\<close>

definition shut_end :: "bool \<Rightarrow> int \<Rightarrow> flags \<Rightarrow> shutdown_how \<Rightarrow> world \<Rightarrow> world run" where
  "shut_end flag fd op how w =
     (if flag
      then bindE (selector_remove_interest fd op w) (\<lambda>(_, w1). Inr (emit (Shutdown fd how) w1))
      else Inr w)"

text \<open>One of the two blocks \<open>unregister; close\<close>.\<close>

definition release :: "bool \<Rightarrow> int \<Rightarrow> world \<Rightarrow> world run" where
  "release flag fd w =
     (if flag
      then bindE (unregister fd w) (\<lambda>(_, w1). Inr (if fd > 0 then emit (Close fd) w1 else w1))
      else Inr w)"

text \<open>
  The recursion shrinks: a call for \<open>CLIENT_READ | ORIGIN\<close> has no \<open>CLIENT_WRITE\<close> left, a call
  for \<open>CLIENT_READ\<close> neither of the two write ends.
\<close>

definition close_depth :: "flags \<Rightarrow> nat" where
  "close_depth level = (if hasFlag level CLIENT_WRITE then 2 else if hasFlag level ORIGIN_WRITE then 1 else 0)"

lemma bit_ends:
  "bit CLIENT_WRITE n \<longleftrightarrow> n = 0" "bit CLIENT_READ n \<longleftrightarrow> n = 1" "bit ORIGIN_WRITE n \<longleftrightarrow> n = 2"
  "bit ORIGIN_READ n \<longleftrightarrow> n = 3" "bit CLIENT n \<longleftrightarrow> n = 0 \<or> n = 1" "bit ORIGIN n \<longleftrightarrow> n = 2 \<or> n = 3"
proof -
  have b: "bit (2 ^ k :: flags) n \<longleftrightarrow> n = k" if "k < 32" for k
    using that by (auto simp: bit_exp_iff)
  show w: "bit CLIENT_WRITE n \<longleftrightarrow> n = 0" and r: "bit CLIENT_READ n \<longleftrightarrow> n = 1"
    and ow: "bit ORIGIN_WRITE n \<longleftrightarrow> n = 2" and or: "bit ORIGIN_READ n \<longleftrightarrow> n = 3"
    using b [of 0] b [of 1] b [of 2] b [of 3]
    by (simp_all add: CLIENT_WRITE_def CLIENT_READ_def ORIGIN_WRITE_def ORIGIN_READ_def)
  show "bit CLIENT n \<longleftrightarrow> n = 0 \<or> n = 1" and "bit ORIGIN n \<longleftrightarrow> n = 2 \<or> n = 3"
    unfolding CLIENT_def ORIGIN_def using w r ow or by (auto simp: bit_or_iff)
qed

lemma ends_bits:
  "hasFlag x CLIENT_WRITE \<longleftrightarrow> bit x 0" "hasFlag x CLIENT_READ \<longleftrightarrow> bit x 1"
  "hasFlag x ORIGIN_WRITE \<longleftrightarrow> bit x 2" "hasFlag x ORIGIN_READ \<longleftrightarrow> bit x 3"
  "hasFlag x CLIENT \<longleftrightarrow> bit x 0 \<or> bit x 1" "hasFlag x ORIGIN \<longleftrightarrow> bit x 2 \<or> bit x 3"
  unfolding hasFlag_bit bit_ends by auto

lemmas end_flags = ends_bits bit_ends bit_and_iff bit_or_iff bit_not_iff_eq

text \<open>
  \<open>closeClient\<close> from the four shutdowns to the two releases: \<open>level\<close> is already cut down to the
  ends that are still active, \<open>ends\<close> are the ends that remain.
\<close>

definition shut_ends :: "client \<Rightarrow> flags \<Rightarrow> world \<Rightarrow> world run" where
  "shut_ends c level w =
     bindE (shut_end (hasFlag level CLIENT_READ) (client_sock c) OP_READ SHUT_RD w) (\<lambda>w1.
     bindE (shut_end (hasFlag level ORIGIN_WRITE) (origin_sock c) OP_WRITE SHUT_WR w1) (\<lambda>w2.
     bindE (shut_end (hasFlag level CLIENT_WRITE) (client_sock c) OP_WRITE SHUT_WR w2) (\<lambda>w3.
     shut_end (hasFlag level ORIGIN_READ) (origin_sock c) OP_READ SHUT_RD w3)))"

definition release_socks :: "client \<Rightarrow> flags \<Rightarrow> flags \<Rightarrow> world \<Rightarrow> world run" where
  "release_socks c level ends w =
     bindE (release (hasFlag level CLIENT \<and> \<not> hasFlag ends CLIENT) (client_sock c) w) (\<lambda>w1.
     release (hasFlag level ORIGIN \<and> \<not> hasFlag ends ORIGIN) (origin_sock c) w1)"

definition close_pass :: "nat \<Rightarrow> client \<Rightarrow> flags \<Rightarrow> world \<Rightarrow> world run" where
  "close_pass cid c level w =
     (let ends = active_ends c AND NOT level in
     bindE (shut_ends c level w) (\<lambda>w4.
     release_socks c level ends (put_client cid (c\<lparr>active_ends := ends\<rparr>) w4)))"

function closeClient :: "nat \<Rightarrow> flags \<Rightarrow> world \<Rightarrow> (nat \<times> world) run" where
  "closeClient cid level0 w =
     bindE (get_client cid w) (\<lambda>c.
     let level = level0 AND active_ends c;
         ends = active_ends c AND NOT level in
     bindE (close_pass cid c level w) (\<lambda>w7.
     if hasFlag level CLIENT_WRITE then closeClient cid (CLIENT_READ OR ORIGIN) w7
     else if hasFlag level ORIGIN_WRITE then closeClient cid CLIENT_READ w7
     else if ends = 0 then Inr (DONE, w7)
     else if \<not> hasFlag ends (CLIENT_READ OR ORIGIN_READ) then Inr (WRITE_REMAINING, w7)
     else bindE (enable_write cid w7) (\<lambda>w8. Inr (client_state c, w8))))"
  by pat_completeness auto
termination
  by (relation "measure (\<lambda>(cid, level, w). close_depth level)")
    (auto simp: close_depth_def end_flags)

declare closeClient.simps [simp del]

section \<open>What a handler may touch\<close>

text \<open>
  \<open>touches S w w'\<close>: the selector stays consistent, only the descriptors in \<open>S\<close> changed their
  entry, no descriptor was added or given another handler or attachment, and of the rest of the
  server only the clients and the trace may differ; in particular no thread is started and no job
  is queued.
\<close>

definition touches :: "int set \<Rightarrow> world \<Rightarrow> world \<Rightarrow> bool" where
  "touches S w w' \<longleftrightarrow> sel_wf w'
     \<and> (\<forall>fd. fd \<notin> S \<longrightarrow> registered w' fd = registered w fd)
     \<and> (\<forall>fd it'. registered w' fd = Some it' \<longrightarrow>
          (\<exists>it. registered w fd = Some it \<and> it_handler it' = it_handler it \<and> it_data it' = it_data it))
     \<and> w_state w' = w_state w \<and> w_users w' = w_users w \<and> w_tokens w' = w_tokens w \<and> w_mgmt w' = w_mgmt w
     \<and> w_next w' = w_next w \<and> w_threads w' = w_threads w \<and> w_log w' = w_log w \<and> w_env w' = w_env w
     \<and> w_envs w' = w_envs w \<and> w_tick w' = w_tick w \<and> resolution_jobs w' = resolution_jobs w"

lemma touches_refl: "sel_wf w \<Longrightarrow> touches S w w"
  by (simp add: touches_def)

lemma touches_trans: "touches S w w' \<Longrightarrow> touches S w' w'' \<Longrightarrow> touches S w w''"
  by (simp add: touches_def) metis

lemma touches_mono: "touches S w w' \<Longrightarrow> S \<subseteq> T \<Longrightarrow> touches T w w'"
  by (auto simp: touches_def)

lemma touches_put_client [simp]: "touches S w (put_client cid c w') = touches S w w'"
  by (simp add: touches_def) (simp add: put_client_def)

lemma touches_emit [simp]: "touches S w (emit ev w') = touches S w w'"
  by (simp add: touches_def) (simp add: emit_def)

lemma touches_None: "touches S w w' \<Longrightarrow> registered w fd = None \<Longrightarrow> registered w' fd = None"
  unfolding touches_def by (metis not_None_eq option.distinct(1))

lemma touches_wf: "touches S w w' \<Longrightarrow> sel_wf w'"
  by (simp add: touches_def)

lemma change_touches:
  assumes "sel_wf (w :: world)"
    and "\<And>it. it_fd (f it) = it_fd it" "\<And>it. it_handler (f it) = it_handler it" "\<And>it. it_data (f it) = it_data it"
  obtains st w' where "change_item f fd w = Inr (st, w')" "touches {fd} w w'"
    "w_clients w' = w_clients w" "w_trace w' = w_trace w"
    "registered w' = (registered w)(fd := map_option f (registered w fd))"
proof -
  have op: "interest_op (\<lambda>_ :: flags. f)"
    using assms by unfold_locales simp_all
  obtain st w' where w': "change_item f fd w = Inr (st, w')" "sel_wf w'"
    "registered w' = (registered w)(fd := map_option f (registered w fd))"
    by (rule interest_op.total [OF op assms(1), where fd = fd])
  note more = more_eq_fields [OF change_item_frame(1) [OF w'(1)]]
  have "touches {fd} w w'"
    unfolding touches_def using w' more assms(3,4) change_item_frame(6) [OF w'(1)] by auto
  with w' more that show thesis by blast
qed

text \<open>The instances for the five operations of the selector.\<close>

lemma set_touches:
  assumes "sel_wf (w :: world)"
  obtains st w' where "selector_set_interest fd i w = Inr (st, w')" "touches {fd} w w'"
    "w_clients w' = w_clients w" "w_trace w' = w_trace w"
    "registered w' = (registered w)(fd := map_option (\<lambda>it. it\<lparr>it_interest := i\<rparr>) (registered w fd))"
  unfolding selector_set_interest_def
  by (rule change_touches [OF assms, where fd = fd and f = "\<lambda>it. it\<lparr>it_interest := i\<rparr>"]) auto

lemma add_touches:
  assumes "sel_wf (w :: world)"
  obtains st w' where "selector_add_interest fd i w = Inr (st, w')" "touches {fd} w w'"
    "w_clients w' = w_clients w" "w_trace w' = w_trace w"
    "registered w' = (registered w)(fd := map_option (\<lambda>it. it\<lparr>it_interest := it_interest it OR i, it_mask := it_mask it OR i\<rparr>) (registered w fd))"
  unfolding selector_add_interest_def
  by (rule change_touches [OF assms, where fd = fd and f = "\<lambda>it. it\<lparr>it_interest := it_interest it OR i, it_mask := it_mask it OR i\<rparr>"]) auto

lemma unmask_touches:
  assumes "sel_wf (w :: world)"
  obtains st w' where "selector_unmask_interest fd i w = Inr (st, w')" "touches {fd} w w'"
    "w_clients w' = w_clients w" "w_trace w' = w_trace w"
    "registered w' = (registered w)(fd := map_option (\<lambda>it. it\<lparr>it_mask := it_mask it OR i\<rparr>) (registered w fd))"
  unfolding selector_unmask_interest_def
  by (rule change_touches [OF assms, where fd = fd and f = "\<lambda>it. it\<lparr>it_mask := it_mask it OR i\<rparr>"]) auto

lemma remove_touches:
  assumes "sel_wf (w :: world)"
  obtains st w' where "selector_remove_interest fd i w = Inr (st, w')" "touches {fd} w w'"
    "w_clients w' = w_clients w" "w_trace w' = w_trace w"
    "registered w' = (registered w)(fd := map_option (\<lambda>it. it\<lparr>it_interest := it_interest it AND NOT i\<rparr>) (registered w fd))"
  unfolding selector_remove_interest_def
  by (rule change_touches [OF assms, where fd = fd and f = "\<lambda>it. it\<lparr>it_interest := it_interest it AND NOT i\<rparr>"]) auto

lemma mask_touches:
  assumes "sel_wf (w :: world)"
  obtains st w' where "selector_mask_interest fd i w = Inr (st, w')" "touches {fd} w w'"
    "w_clients w' = w_clients w" "w_trace w' = w_trace w"
    "registered w' = (registered w)(fd := map_option (\<lambda>it. it\<lparr>it_mask := it_mask it AND NOT i\<rparr>) (registered w fd))"
  unfolding selector_mask_interest_def
  by (rule change_touches [OF assms, where fd = fd and f = "\<lambda>it. it\<lparr>it_mask := it_mask it AND NOT i\<rparr>"]) auto

text \<open>Unregistering a descriptor of the proxy: no close callback runs.\<close>

definition proxy_fd :: "world \<Rightarrow> int \<Rightarrow> bool" where
  "proxy_fd w fd \<longleftrightarrow> (\<forall>it. registered w fd = Some it \<longrightarrow> it_handler it = Some socks5_handler)"

lemma touches_proxy_fd: "touches S w w' \<Longrightarrow> proxy_fd w fd \<Longrightarrow> proxy_fd w' fd"
  unfolding touches_def proxy_fd_def by metis

lemma unregister_touches:
  assumes "sel_wf w" and "proxy_fd w fd"
  obtains st w' where "unregister fd w = Inr (st, w')" "touches {fd} w w'"
    "w_clients w' = w_clients w" "w_trace w' = w_trace w" "registered w' = (registered w)(fd := None)"
    "if registered w fd = None then st = SELECTOR_IARGS \<and> w' = w else st = SELECTOR_SUCCESS"
proof (cases "registered w fd")
  case None
  then have "registered w = (registered w)(fd := None)"
    by (simp add: fun_eq_iff)
  with None show thesis
    using that [of SELECTOR_IARGS w] selector_unregister_absent [OF assms(1) None] touches_refl [OF assms(1)]
    by (simp add: unregister_def)
next
  case (Some it)
  with assms(2) have h: "it_handler it = Some socks5_handler"
    by (simp add: proxy_fd_def)
  have "\<exists>w'. selector_unregister_fd close_table fd w = Inr (SELECTOR_SUCCESS, w') \<and> sel_wf w'
      \<and> registered w' = (registered w)(fd := None) \<and> fdselector.more w' = fdselector.more w \<and> resolution_jobs w' = resolution_jobs w"
    by (rule selector_unregister_ok [OF assms(1) Some h _ assms(1) Some]) (simp add: close_table_def)
  then obtain w' where w': "selector_unregister_fd close_table fd w = Inr (SELECTOR_SUCCESS, w')" "sel_wf w'"
    "registered w' = (registered w)(fd := None)" "resolution_jobs w' = resolution_jobs w" and m: "fdselector.more w' = fdselector.more w"
    by blast
  note more = more_eq_fields [OF m]
  have "touches {fd} w w'"
    unfolding touches_def using w' more by simp
  with w' more Some show thesis
    using that by (simp add: unregister_def)
qed

section \<open>The ends that a close takes down\<close>

text \<open>
  Closing the client's write end takes everything down; closing the origin's write end takes
  the client's read end down with it.
\<close>

definition closure :: "flags \<Rightarrow> flags \<Rightarrow> flags" where
  "closure level ends =
     (let l = level AND ends in
      if hasFlag l CLIENT_WRITE then l OR CLIENT_READ OR ORIGIN
      else if hasFlag l ORIGIN_WRITE then l OR CLIENT_READ else l)"

definition ends_after :: "flags \<Rightarrow> flags \<Rightarrow> flags" where
  "ends_after level ends = ends AND NOT (closure level ends)"

text \<open>The state that goes with a set of ends; \<open>cur\<close> is the state of the machine.\<close>

definition close_state :: "nat \<Rightarrow> flags \<Rightarrow> nat" where
  "close_state cur ends =
     (if ends = 0 then DONE else if \<not> hasFlag ends (CLIENT_READ OR ORIGIN_READ) then WRITE_REMAINING else cur)"

text \<open>A socket is gone when its last end was just taken down.\<close>

definition gone :: "flags \<Rightarrow> flags \<Rightarrow> flags \<Rightarrow> bool" where
  "gone m ends ends' \<longleftrightarrow> hasFlag ends m \<and> \<not> hasFlag ends' m"

text \<open>A shut end is not polled: its socket carries no interest for that direction.\<close>

definition quiet :: "world \<Rightarrow> int \<Rightarrow> flags \<Rightarrow> bool" where
  "quiet w fd op \<longleftrightarrow> (\<forall>it. registered w fd = Some it \<longrightarrow> \<not> hasFlag (it_interest it) op)"

definition ends_quiet :: "client \<Rightarrow> world \<Rightarrow> bool" where
  "ends_quiet c w \<longleftrightarrow>
     (\<not> hasFlag (active_ends c) CLIENT_READ \<longrightarrow> quiet w (client_sock c) OP_READ)
     \<and> (\<not> hasFlag (active_ends c) CLIENT_WRITE \<longrightarrow> quiet w (client_sock c) OP_WRITE)
     \<and> (\<not> hasFlag (active_ends c) ORIGIN_READ \<longrightarrow> quiet w (origin_sock c) OP_READ)
     \<and> (\<not> hasFlag (active_ends c) ORIGIN_WRITE \<longrightarrow> quiet w (origin_sock c) OP_WRITE)"

definition close_spec :: "nat \<Rightarrow> client \<Rightarrow> flags \<Rightarrow> world \<Rightarrow> world \<Rightarrow> bool" where
  "close_spec cid c ends' w w' \<longleftrightarrow>
     touches {client_sock c, origin_sock c} w w'
     \<and> w_clients w' = (w_clients w)(cid \<mapsto> c\<lparr>active_ends := ends'\<rparr>)
     \<and> (gone CLIENT (active_ends c) ends' \<longrightarrow> registered w' (client_sock c) = None)
     \<and> (gone ORIGIN (active_ends c) ends' \<longrightarrow> registered w' (origin_sock c) = None)
     \<and> (\<exists>evs. w_trace w' = w_trace w @ evs
          \<and> (\<forall>fd. count_list evs (Close fd) =
                of_bool (gone CLIENT (active_ends c) ends' \<and> fd = client_sock c \<and> fd > 0)
                + of_bool (gone ORIGIN (active_ends c) ends' \<and> fd = origin_sock c \<and> fd > 0)))
     \<and> (client_sock c \<noteq> origin_sock c \<and> ends_quiet c w \<longrightarrow> ends_quiet (c\<lparr>active_ends := ends'\<rparr>) w')"

text \<open>\<open>calm\<close>: a direction that is not polled before is not polled after.\<close>

definition calm :: "world \<Rightarrow> world \<Rightarrow> bool" where
  "calm w w' \<longleftrightarrow> (\<forall>fd op. quiet w fd op \<longrightarrow> quiet w' fd op)"

lemma calmD: "calm w w' \<Longrightarrow> quiet w fd op \<Longrightarrow> quiet w' fd op"
  by (simp add: calm_def)

lemma calm_refl [simp]: "calm w w"
  by (simp add: calm_def)

lemma quiet_world [simp]: "quiet (put_client cid c w) = quiet w" "quiet (emit ev w) = quiet w"
  by (simp_all add: quiet_def fun_eq_iff)

lemma shut_end_ok:
  assumes "sel_wf w" and "fd \<in> S"
  obtains w' where "shut_end flag fd op how w = Inr w'" "touches S w w'" "w_clients w' = w_clients w"
    "w_trace w' = w_trace w @ (if flag then [Shutdown fd how] else [])"
    "flag \<longrightarrow> quiet w' fd op" "calm w w'"
proof (cases flag)
  case False
  then show thesis
    using that [of w] touches_refl [OF assms(1)] by (simp add: shut_end_def)
next
  case True
  obtain st w1 where w1: "selector_remove_interest fd op w = Inr (st, w1)" "touches {fd} w w1"
    "w_clients w1 = w_clients w" "w_trace w1 = w_trace w"
    "registered w1 = (registered w)(fd := map_option (\<lambda>it. it\<lparr>it_interest := it_interest it AND NOT op\<rparr>) (registered w fd))"
    by (rule remove_touches [OF assms(1)])
  have "quiet w1 fd op"
    by (auto simp: quiet_def w1(5) hasFlag_bit bit_and_iff bit_not_iff_eq)
  moreover have "calm w w1"
    by (auto simp: calm_def quiet_def w1(5) hasFlag_bit bit_and_iff split: if_splits)
  ultimately show thesis
    using that [of "emit (Shutdown fd how) w1"] w1 True assms(2) touches_mono [OF w1(2), of S]
    by (simp add: shut_end_def calm_def) (simp add: emit_def)
qed

lemma shut_ends_ok:
  assumes "sel_wf w"
  obtains w' where "shut_ends c level w = Inr w'" "touches {client_sock c, origin_sock c} w w'"
    "w_clients w' = w_clients w" "\<exists>evs. w_trace w' = w_trace w @ evs \<and> (\<forall>fd. count_list evs (Close fd) = 0)"
    "calm w w'"
    "hasFlag level CLIENT_READ \<longrightarrow> quiet w' (client_sock c) OP_READ" "hasFlag level CLIENT_WRITE \<longrightarrow> quiet w' (client_sock c) OP_WRITE"
    "hasFlag level ORIGIN_READ \<longrightarrow> quiet w' (origin_sock c) OP_READ" "hasFlag level ORIGIN_WRITE \<longrightarrow> quiet w' (origin_sock c) OP_WRITE"
proof -
  let ?cs = "client_sock c" and ?os = "origin_sock c"
  let ?S = "{?cs, ?os}"
  obtain w1 where w1: "shut_end (hasFlag level CLIENT_READ) ?cs OP_READ SHUT_RD w = Inr w1" "touches ?S w w1"
    "w_clients w1 = w_clients w" "w_trace w1 = w_trace w @ (if hasFlag level CLIENT_READ then [Shutdown ?cs SHUT_RD] else [])"
    "hasFlag level CLIENT_READ \<longrightarrow> quiet w1 ?cs OP_READ" "calm w w1"
    using shut_end_ok [OF assms, of ?cs ?S] by blast
  obtain w2 where w2: "shut_end (hasFlag level ORIGIN_WRITE) ?os OP_WRITE SHUT_WR w1 = Inr w2" "touches ?S w1 w2"
    "w_clients w2 = w_clients w1" "w_trace w2 = w_trace w1 @ (if hasFlag level ORIGIN_WRITE then [Shutdown ?os SHUT_WR] else [])"
    "hasFlag level ORIGIN_WRITE \<longrightarrow> quiet w2 ?os OP_WRITE" "calm w1 w2"
    using shut_end_ok [OF touches_wf [OF w1(2)], of ?os ?S] by blast
  obtain w3 where w3: "shut_end (hasFlag level CLIENT_WRITE) ?cs OP_WRITE SHUT_WR w2 = Inr w3" "touches ?S w2 w3"
    "w_clients w3 = w_clients w2" "w_trace w3 = w_trace w2 @ (if hasFlag level CLIENT_WRITE then [Shutdown ?cs SHUT_WR] else [])"
    "hasFlag level CLIENT_WRITE \<longrightarrow> quiet w3 ?cs OP_WRITE" "calm w2 w3"
    using shut_end_ok [OF touches_wf [OF w2(2)], of ?cs ?S] by blast
  obtain w4 where w4: "shut_end (hasFlag level ORIGIN_READ) ?os OP_READ SHUT_RD w3 = Inr w4" "touches ?S w3 w4"
    "w_clients w4 = w_clients w3" "w_trace w4 = w_trace w3 @ (if hasFlag level ORIGIN_READ then [Shutdown ?os SHUT_RD] else [])"
    "hasFlag level ORIGIN_READ \<longrightarrow> quiet w4 ?os OP_READ" "calm w3 w4"
    using shut_end_ok [OF touches_wf [OF w3(2)], of ?os ?S] by blast
  show thesis
  proof (rule that [of w4])
    show "shut_ends c level w = Inr w4"
      using w1(1) w2(1) w3(1) w4(1) by (simp add: shut_ends_def)
    show "touches ?S w w4"
      using w1(2) w2(2) w3(2) w4(2) touches_trans by blast
    show "\<exists>evs. w_trace w4 = w_trace w @ evs \<and> (\<forall>fd. count_list evs (Close fd) = 0)"
      using w1(4) w2(4) w3(4) w4(4) by simp
    show "calm w w4" using w1(6) w2(6) w3(6) w4(6) by (simp add: calm_def)
  qed (use w1(3,5) w2(3,5,6) w3(3,5,6) w4(3,5,6) in \<open>auto dest: calmD\<close>)
qed

lemma release_ok:
  assumes "sel_wf w" and "proxy_fd w fd" and "fd \<in> S"
  obtains w' where "release flag fd w = Inr w'" "touches S w w'" "w_clients w' = w_clients w"
    "w_trace w' = w_trace w @ (if flag \<and> fd > 0 then [Close fd] else [])"
    "flag \<longrightarrow> registered w' fd = None" "calm w w'"
proof (cases flag)
  case False
  then show thesis
    using that [of w] touches_refl [OF assms(1)] by (simp add: release_def)
next
  case True
  obtain st w1 where w1: "unregister fd w = Inr (st, w1)" "touches {fd} w w1"
    "w_clients w1 = w_clients w" "w_trace w1 = w_trace w" "registered w1 = (registered w)(fd := None)"
    by (rule unregister_touches [OF assms(1,2)])
  let ?w' = "if fd > 0 then emit (Close fd) w1 else w1"
  have reg: "registered ?w' = (registered w)(fd := None)"
    using w1(5) by simp
  have "calm w ?w'"
    unfolding calm_def quiet_def reg by auto
  moreover have "w_clients ?w' = w_clients w" "w_trace ?w' = w_trace w @ (if flag \<and> fd > 0 then [Close fd] else [])"
    "release flag fd w = Inr ?w'"
    using w1 True by (simp_all add: emit_def [abs_def] release_def)
  moreover have "touches S w ?w'"
    using touches_mono [OF w1(2), of S] assms(3) by simp
  ultimately show thesis
    using that [of ?w'] reg by simp
qed

lemma release_socks_ok:
  fixes level ends :: flags
  assumes wf: "sel_wf w" and own: "proxy_fd w (client_sock c)" "proxy_fd w (origin_sock c)"
  defines "gc \<equiv> hasFlag level CLIENT \<and> \<not> hasFlag ends CLIENT" and "go \<equiv> hasFlag level ORIGIN \<and> \<not> hasFlag ends ORIGIN"
  obtains w' where "release_socks c level ends w = Inr w'" "touches {client_sock c, origin_sock c} w w'"
    "w_clients w' = w_clients w" "gc \<longrightarrow> registered w' (client_sock c) = None" "go \<longrightarrow> registered w' (origin_sock c) = None"
    "w_trace w' = w_trace w @ (if gc \<and> client_sock c > 0 then [Close (client_sock c)] else [])
        @ (if go \<and> origin_sock c > 0 then [Close (origin_sock c)] else [])" "calm w w'"
proof -
  let ?cs = "client_sock c" and ?os = "origin_sock c"
  let ?S = "{?cs, ?os}"
  obtain w1 where w1: "release gc ?cs w = Inr w1" "touches ?S w w1" "w_clients w1 = w_clients w"
    "w_trace w1 = w_trace w @ (if gc \<and> ?cs > 0 then [Close ?cs] else [])" "gc \<longrightarrow> registered w1 ?cs = None" "calm w w1"
    using release_ok [OF wf own(1), of ?S] by blast
  obtain w2 where w2: "release go ?os w1 = Inr w2" "touches ?S w1 w2" "w_clients w2 = w_clients w1"
    "w_trace w2 = w_trace w1 @ (if go \<and> ?os > 0 then [Close ?os] else [])" "go \<longrightarrow> registered w2 ?os = None" "calm w1 w2"
    using release_ok [OF touches_wf [OF w1(2)] touches_proxy_fd [OF w1(2) own(2)], of ?S] by blast
  have "registered w2 ?cs = None" if gc
    using touches_None [OF w2(2)] w1(5) that by blast
  moreover have "release_socks c level ends w = Inr w2"
    using w1(1) w2(1) by (simp add: release_socks_def gc_def go_def)
  moreover have "calm w w2"
    using w1(6) w2(6) by (simp add: calm_def)
  ultimately show thesis
    using that [of w2] w1(3,4) w2(3,4,5) touches_trans [OF w1(2) w2(2)] by simp
qed

lemma close_pass_ok:
  assumes wf: "sel_wf w" and own: "proxy_fd w (client_sock c)" "proxy_fd w (origin_sock c)"
    and level: "\<And>n. bit level n \<Longrightarrow> bit (active_ends c) n"
  obtains w' where "close_pass cid c level w = Inr w'" "close_spec cid c (active_ends c AND NOT level) w w'"
proof -
  let ?cs = "client_sock c" and ?os = "origin_sock c" and ?ends = "active_ends c AND NOT level"
  obtain w4 where w4: "shut_ends c level w = Inr w4" "touches {?cs, ?os} w w4" "w_clients w4 = w_clients w"
    "\<exists>evs. w_trace w4 = w_trace w @ evs \<and> (\<forall>fd. count_list evs (Close fd) = 0)" "calm w w4"
    "hasFlag level CLIENT_READ \<longrightarrow> quiet w4 ?cs OP_READ" "hasFlag level CLIENT_WRITE \<longrightarrow> quiet w4 ?cs OP_WRITE"
    "hasFlag level ORIGIN_READ \<longrightarrow> quiet w4 ?os OP_READ" "hasFlag level ORIGIN_WRITE \<longrightarrow> quiet w4 ?os OP_WRITE"
    by (rule shut_ends_ok [OF wf, of c level])
  let ?c' = "c\<lparr>active_ends := ?ends\<rparr>"
  let ?w5 = "put_client cid ?c' w4"
  have t5: "touches {?cs, ?os} w ?w5" using w4(2) by simp
  obtain w7 where w7: "release_socks c level ?ends ?w5 = Inr w7" "touches {?cs, ?os} ?w5 w7" "w_clients w7 = w_clients ?w5"
    "hasFlag level CLIENT \<and> \<not> hasFlag ?ends CLIENT \<longrightarrow> registered w7 ?cs = None"
    "hasFlag level ORIGIN \<and> \<not> hasFlag ?ends ORIGIN \<longrightarrow> registered w7 ?os = None"
    "w_trace w7 = w_trace ?w5 @ (if (hasFlag level CLIENT \<and> \<not> hasFlag ?ends CLIENT) \<and> ?cs > 0 then [Close ?cs] else [])
        @ (if (hasFlag level ORIGIN \<and> \<not> hasFlag ?ends ORIGIN) \<and> ?os > 0 then [Close ?os] else [])" "calm ?w5 w7"
    by (rule release_socks_ok [OF touches_wf [OF t5] touches_proxy_fd [OF t5 own(1)] touches_proxy_fd [OF t5 own(2)]])
  have gone: "gone CLIENT (active_ends c) ?ends \<longleftrightarrow> hasFlag level CLIENT \<and> \<not> hasFlag ?ends CLIENT"
    "gone ORIGIN (active_ends c) ?ends \<longleftrightarrow> hasFlag level ORIGIN \<and> \<not> hasFlag ?ends ORIGIN"
    using level by (auto simp: gone_def end_flags)
  have q: "quiet w7 fd op" if "quiet w4 fd op \<or> quiet w fd op" for fd op
    using that w4(5) w7(7) by (auto simp: calm_def)
  have flags: "hasFlag ?ends e \<longleftrightarrow> hasFlag (active_ends c) e \<and> \<not> hasFlag level e"
    if "e \<in> {CLIENT_READ, CLIENT_WRITE, ORIGIN_READ, ORIGIN_WRITE}" for e
    using that by (auto simp: end_flags)
  have "ends_quiet ?c' w7" if "ends_quiet c w"
    using that w4(6-9) q unfolding ends_quiet_def by (simp add: flags) blast
  moreover have "\<exists>evs. w_trace w7 = w_trace w @ evs \<and> (\<forall>fd. count_list evs (Close fd) =
      of_bool (gone CLIENT (active_ends c) ?ends \<and> fd = ?cs \<and> fd > 0) + of_bool (gone ORIGIN (active_ends c) ?ends \<and> fd = ?os \<and> fd > 0))"
    unfolding gone using w4(4) w7(6) by (auto simp: put_client_def)
  ultimately have "close_spec cid c ?ends w w7"
    unfolding close_spec_def using touches_trans [OF t5 w7(2)] w4(3) w7(3,4,5) gone by (simp add: put_client_def)
  then show thesis
    using that w4(1) w7(1) by (simp add: close_pass_def Let_def)
qed

text \<open>
  Enabling the writes: one \<open>add_interest\<close> and one \<open>unmask_interest\<close>. Reading is not touched, and
  neither is a descriptor other than the one that asks for \<open>OP_WRITE\<close>.
\<close>

lemma op_bits: "hasFlag x OP_READ \<longleftrightarrow> bit x 0" "hasFlag x OP_WRITE \<longleftrightarrow> bit x 2"
  "bit OP_READ n \<longleftrightarrow> n = 0" "bit OP_WRITE n \<longleftrightarrow> n = 2"
  using ends_bits(1,3) [of x] bit_ends(1,3) [of n]
  by (simp_all add: OP_READ_def OP_WRITE_def CLIENT_WRITE_def ORIGIN_WRITE_def)

lemma want_write_ok:
  assumes "sel_wf w" and "{fd, fd'} \<subseteq> S"
  obtains w' where "bindE (selector_add_interest fd OP_WRITE w) (\<lambda>(_, w1).
      bindE (selector_unmask_interest fd' OP_WRITE w1) (\<lambda>(_, w2). Inr w2)) = Inr w'"
    "touches S w w'" "w_clients w' = w_clients w" "w_trace w' = w_trace w"
    "\<forall>fd'' op. quiet w fd'' op \<and> (fd'' \<noteq> fd \<or> op = OP_READ) \<longrightarrow> quiet w' fd'' op"
proof -
  obtain st w1 where w1: "selector_add_interest fd OP_WRITE w = Inr (st, w1)" "touches {fd} w w1"
    "w_clients w1 = w_clients w" "w_trace w1 = w_trace w"
    "registered w1 = (registered w)(fd := map_option (\<lambda>it. it\<lparr>it_interest := it_interest it OR OP_WRITE,
        it_mask := it_mask it OR OP_WRITE\<rparr>) (registered w fd))"
    by (rule add_touches [OF assms(1)])
  obtain st' w2 where w2: "selector_unmask_interest fd' OP_WRITE w1 = Inr (st', w2)" "touches {fd'} w1 w2"
    "w_clients w2 = w_clients w1" "w_trace w2 = w_trace w1"
    "registered w2 = (registered w1)(fd' := map_option (\<lambda>it. it\<lparr>it_mask := it_mask it OR OP_WRITE\<rparr>) (registered w1 fd'))"
    by (rule unmask_touches [OF touches_wf [OF w1(2)]])
  have "touches S w w2"
    using touches_trans [OF touches_mono [OF w1(2)] touches_mono [OF w2(2)]] assms(2) by simp
  moreover have "quiet w1 fd'' op" if "quiet w fd'' op" "fd'' \<noteq> fd \<or> op = OP_READ" for fd'' op
    using that by (auto simp: quiet_def w1(5) op_bits bit_or_iff split: if_splits)
  moreover have "quiet w2 fd'' op" if "quiet w1 fd'' op" for fd'' op
    using that by (auto simp: quiet_def w2(5) split: if_splits)
  ultimately show thesis
    using that [of w2] w1(1,3,4) w2(1,3,4) by simp
qed

lemma enable_write_ok:
  assumes wf: "sel_wf w" and c: "get_client cid w = Inr c"
  obtains w' where "enable_write cid w = Inr w'" "touches {client_sock c, origin_sock c} w w'"
    "w_clients w' = w_clients w" "w_trace w' = w_trace w"
    "client_sock c \<noteq> origin_sock c \<and> ends_quiet c w \<longrightarrow> ends_quiet c w'"
proof -
  let ?cs = "client_sock c" and ?os = "origin_sock c"
  let ?f = "\<lambda>fd w. bindE (selector_add_interest fd OP_WRITE w) (\<lambda>(_, w1).
      bindE (selector_unmask_interest ?cs OP_WRITE w1) (\<lambda>(_, w2). Inr w2))"
  have step: "\<exists>w'. (if hasFlag (active_ends c) e then ?f fd w else Inr w) = Inr w' \<and> touches {?cs, ?os} w w'
      \<and> w_clients w' = w_clients w \<and> w_trace w' = w_trace w
      \<and> (\<forall>fd'' op. quiet w fd'' op \<and> (fd'' \<noteq> fd \<or> op = OP_READ \<or> \<not> hasFlag (active_ends c) e) \<longrightarrow> quiet w' fd'' op)"
    if wf': "sel_wf w" and fd: "fd \<in> {?cs, ?os}" for e fd w
  proof (cases "hasFlag (active_ends c) e")
    case True
    obtain w' where "?f fd w = Inr w'" "touches {?cs, ?os} w w'" "w_clients w' = w_clients w" "w_trace w' = w_trace w"
      "\<forall>fd'' op. quiet w fd'' op \<and> (fd'' \<noteq> fd \<or> op = OP_READ) \<longrightarrow> quiet w' fd'' op"
      by (rule want_write_ok [OF wf', where fd = fd and fd' = ?cs and S = "{?cs, ?os}"]) (use fd in auto)
    with True show ?thesis by auto
  qed (use touches_refl [OF wf'] in simp)
  obtain w1 where w1: "(if hasFlag (active_ends c) CLIENT_WRITE then ?f ?cs w else Inr w) = Inr w1" "touches {?cs, ?os} w w1"
    "w_clients w1 = w_clients w" "w_trace w1 = w_trace w"
    "\<forall>fd'' op. quiet w fd'' op \<and> (fd'' \<noteq> ?cs \<or> op = OP_READ \<or> \<not> hasFlag (active_ends c) CLIENT_WRITE) \<longrightarrow> quiet w1 fd'' op"
    using step [OF wf insertI1, of CLIENT_WRITE] by auto
  obtain w2 where w2: "(if hasFlag (active_ends c) ORIGIN_WRITE then ?f ?os w1 else Inr w1) = Inr w2" "touches {?cs, ?os} w1 w2"
    "w_clients w2 = w_clients w1" "w_trace w2 = w_trace w1"
    "\<forall>fd'' op. quiet w1 fd'' op \<and> (fd'' \<noteq> ?os \<or> op = OP_READ \<or> \<not> hasFlag (active_ends c) ORIGIN_WRITE) \<longrightarrow> quiet w2 fd'' op"
    using step [OF touches_wf [OF w1(2)] insertI2 [OF insertI1], of ORIGIN_WRITE] by auto
  have "enable_write cid w = Inr w2"
    unfolding enable_write_def c using w1(1) w2(1) by simp
  moreover have "ends_quiet c w2" if "?cs \<noteq> ?os" "ends_quiet c w"
    using that w1(5) w2(5) unfolding ends_quiet_def by metis
  ultimately show thesis
    using that [of w2] touches_trans [OF w1(2) w2(2)] w1(3,4) w2(3,4) by simp
qed

section \<open>closeClient meets its specification\<close>

lemma close_spec_trans:
  assumes s1: "close_spec cid c e1 w w1" and s2: "close_spec cid (c\<lparr>active_ends := e1\<rparr>) e2 w1 w2"
    and mono: "\<And>n. bit e1 n \<Longrightarrow> bit (active_ends c) n" "\<And>n. bit e2 n \<Longrightarrow> bit e1 n"
  shows "close_spec cid c e2 w w2"
proof -
  let ?S = "{client_sock c, origin_sock c}"
  have t: "touches ?S w w1" "touches ?S w1 w2"
    using s1 s2 by (simp_all add: close_spec_def)
  have g: "gone m (active_ends c) e2 \<longleftrightarrow> gone m (active_ends c) e1 \<or> gone m e1 e2"
    "\<not> (gone m (active_ends c) e1 \<and> gone m e1 e2)" for m
    using mono unfolding gone_def hasFlag_bit by blast+
  obtain evs1 where e1: "w_trace w1 = w_trace w @ evs1"
    "\<And>fd. count_list evs1 (Close fd) = of_bool (gone CLIENT (active_ends c) e1 \<and> fd = client_sock c \<and> fd > 0)
        + of_bool (gone ORIGIN (active_ends c) e1 \<and> fd = origin_sock c \<and> fd > 0)"
    using s1 unfolding close_spec_def by blast
  obtain evs2 where e2: "w_trace w2 = w_trace w1 @ evs2"
    "\<And>fd. count_list evs2 (Close fd) = of_bool (gone CLIENT e1 e2 \<and> fd = client_sock c \<and> fd > 0)
        + of_bool (gone ORIGIN e1 e2 \<and> fd = origin_sock c \<and> fd > 0)"
    using s2 unfolding close_spec_def by auto
  have tr: "w_trace w2 = w_trace w @ (evs1 @ evs2) \<and> (\<forall>fd. count_list (evs1 @ evs2) (Close fd) =
      of_bool (gone CLIENT (active_ends c) e2 \<and> fd = client_sock c \<and> fd > 0)
      + of_bool (gone ORIGIN (active_ends c) e2 \<and> fd = origin_sock c \<and> fd > 0))"
    using e1 e2 g [of CLIENT] g [of ORIGIN] by (simp add: of_bool_def)
  have none: "gone CLIENT (active_ends c) e2 \<longrightarrow> registered w2 (client_sock c) = None"
    "gone ORIGIN (active_ends c) e2 \<longrightarrow> registered w2 (origin_sock c) = None"
    using s1 s2 touches_None [OF t(2)] g(1) [of CLIENT] g(1) [of ORIGIN] unfolding close_spec_def by simp_all
  have cl: "w_clients w2 = (w_clients w)(cid \<mapsto> c\<lparr>active_ends := e2\<rparr>)"
    and q: "client_sock c \<noteq> origin_sock c \<and> ends_quiet c w \<longrightarrow> ends_quiet (c\<lparr>active_ends := e2\<rparr>) w2"
    using s1 s2 unfolding close_spec_def by simp_all
  show ?thesis
    unfolding close_spec_def using touches_trans [OF t] cl none tr q by blast
qed

lemma close_spec_enable:
  assumes "close_spec cid c e w w1" and "touches {client_sock c, origin_sock c} w1 w2"
    and "w_clients w2 = w_clients w1" "w_trace w2 = w_trace w1"
    and "client_sock c \<noteq> origin_sock c \<and> ends_quiet (c\<lparr>active_ends := e\<rparr>) w1 \<longrightarrow> ends_quiet (c\<lparr>active_ends := e\<rparr>) w2"
  shows "close_spec cid c e w w2"
  using assms touches_trans [OF _ assms(2)] touches_None [OF assms(2)] unfolding close_spec_def by simp

text \<open>\<open>ends_after\<close> one pass at a time.\<close>

lemma ends_after_CLIENT_WRITE:
  assumes "hasFlag (level AND ends) CLIENT_WRITE"
  shows "ends_after (CLIENT_READ OR ORIGIN) (ends AND NOT (level AND ends)) = ends_after level ends"
  using assms by (intro bit_eqI) (auto simp: ends_after_def closure_def Let_def end_flags)

lemma ends_after_ORIGIN_WRITE:
  assumes "\<not> hasFlag (level AND ends) CLIENT_WRITE" and "hasFlag (level AND ends) ORIGIN_WRITE"
  shows "ends_after CLIENT_READ (ends AND NOT (level AND ends)) = ends_after level ends"
  using assms by (intro bit_eqI) (auto simp: ends_after_def closure_def Let_def end_flags)

lemma ends_after_read:
  assumes "\<not> hasFlag (level AND ends) CLIENT_WRITE" and "\<not> hasFlag (level AND ends) ORIGIN_WRITE"
  shows "ends_after level ends = ends AND NOT (level AND ends)"
  using assms by (simp add: ends_after_def closure_def Let_def)

lemma ends_after_sub: "bit (ends_after level ends) n \<Longrightarrow> bit ends n"
  by (simp add: ends_after_def bit_and_iff)

lemma client_state_ends [simp]: "client_state (c\<lparr>active_ends := e\<rparr>) = client_state c"
  by (simp add: client_state_def)

lemma closeClient_ok:
  assumes "sel_wf w" and "w_clients w cid = Some c"
    and "proxy_fd w (client_sock c)" "proxy_fd w (origin_sock c)"
  shows "\<exists>w'. closeClient cid level w = Inr (close_state (client_state c) (ends_after level (active_ends c)), w')
    \<and> close_spec cid c (ends_after level (active_ends c)) w w'"
  using assms
proof (induction "close_depth level" arbitrary: level w c rule: less_induct)
  case less
  let ?l = "level AND active_ends c"
  let ?e = "active_ends c AND NOT ?l"
  let ?c = "c\<lparr>active_ends := ?e\<rparr>"
  have c: "get_client cid w = Inr c"
    using less.prems(2) by (simp add: get_client_def)
  obtain w1 where w1: "close_pass cid c ?l w = Inr w1" "close_spec cid c ?e w w1"
    using close_pass_ok [OF less.prems(1,3,4), of ?l cid] by (auto simp: bit_and_iff)
  have t1: "touches {client_sock c, origin_sock c} w w1" and c1: "w_clients w1 cid = Some ?c"
    using w1(2) by (simp_all add: close_spec_def)
  have pre1: "sel_wf w1" "proxy_fd w1 (client_sock ?c)" "proxy_fd w1 (origin_sock ?c)"
    using touches_wf [OF t1] touches_proxy_fd [OF t1] less.prems(3,4) by simp_all
  have again: ?case
    if rec: "closeClient cid level w = closeClient cid l2 w1" and d: "close_depth l2 < close_depth level"
      and e2: "ends_after l2 ?e = ends_after level (active_ends c)" for l2
  proof -
    obtain w2 where w2: "closeClient cid l2 w1 = Inr (close_state (client_state ?c) (ends_after l2 (active_ends ?c)), w2)"
      "close_spec cid ?c (ends_after l2 (active_ends ?c)) w1 w2"
      using less.hyps [OF d pre1(1) c1 pre1(2,3)] by blast
    have "close_spec cid c (ends_after level (active_ends c)) w w2"
      using close_spec_trans [OF w1(2) _ _ ends_after_sub [of l2 ?e]] w2(2) e2 by (simp add: bit_and_iff)
    with w2(1) rec e2 show ?thesis by auto
  qed
  note step = closeClient.simps [of cid level w, unfolded c, simplified bindE_Inr Let_def w1(1)]
  show ?case
  proof (cases "hasFlag ?l CLIENT_WRITE")
    case True
    then show ?thesis
      by (intro again [of "CLIENT_READ OR ORIGIN"] ends_after_CLIENT_WRITE)
        (simp add: step, simp add: close_depth_def end_flags)
  next
    case cw: False
    show ?thesis
    proof (cases "hasFlag ?l ORIGIN_WRITE")
      case True
      then show ?thesis
        using cw by (intro again [of CLIENT_READ] ends_after_ORIGIN_WRITE)
          (simp add: step, simp add: close_depth_def end_flags)
    next
      case ow: False
      note e = ends_after_read [OF cw ow]
      obtain w2 where w2: "enable_write cid w1 = Inr w2" "touches {client_sock ?c, origin_sock ?c} w1 w2"
        "w_clients w2 = w_clients w1" "w_trace w2 = w_trace w1"
        "client_sock ?c \<noteq> origin_sock ?c \<and> ends_quiet ?c w1 \<longrightarrow> ends_quiet ?c w2"
        using enable_write_ok [OF pre1(1), of cid ?c] c1 by (auto simp: get_client_def)
      have "close_spec cid c ?e w w2"
        using close_spec_enable [OF w1(2)] w2 by simp
      with w2(1) w1(2) show ?thesis
        unfolding step e close_state_def using cw ow by auto
    qed
  qed
qed

end
