(* ===== verification/Handshake.thy ===== *)
theory Handshake
  imports Close_Client
begin

text \<open>
  \<open>src/handshake.c\<close> and the access log of \<open>src/util.c\<close>: the three message readers of the SOCKS5
  negotiation (method selection, RFC 1929 credentials, request) and the replies. Each reader is
  called once per readable event; it appends what the socket delivers to \<open>origin_buf\<close> and acts
  only when the message is complete. The abstract side is a parser on byte strings; the lemmas
  show that the readers, however the bytes are cut, do what the parser says.
\<close>

section \<open>Constants\<close>

definition server_version :: byte where "server_version = 5"
definition EMPTY_IP :: "byte list" where "EMPTY_IP = [0, 0, 0, 0]"

definition REPLY_SUCCEEDED :: nat where "REPLY_SUCCEEDED = 0"
definition REPLY_SERVER_FAILURE :: nat where "REPLY_SERVER_FAILURE = 1"
definition REPLY_NOT_ALLOWED :: nat where "REPLY_NOT_ALLOWED = 2"
definition REPLY_NETWORK_UNREACHABLE :: nat where "REPLY_NETWORK_UNREACHABLE = 3"
definition REPLY_HOST_UNREACHABLE :: nat where "REPLY_HOST_UNREACHABLE = 4"
definition REPLY_CONNECTION_REFUSED :: nat where "REPLY_CONNECTION_REFUSED = 5"
definition REPLY_TTL_EXPIRED :: nat where "REPLY_TTL_EXPIRED = 6"
definition REPLY_COMMAND_NOT_SUPPORTED :: nat where "REPLY_COMMAND_NOT_SUPPORTED = 7"
definition REPLY_ADDRESS_NOT_SUPPORTED :: nat where "REPLY_ADDRESS_NOT_SUPPORTED = 8"

definition ATYP_IPV4 :: nat where "ATYP_IPV4 = 1"
definition ATYP_DOMAIN_NAME :: nat where "ATYP_DOMAIN_NAME = 3"
definition ATYP_IPV6 :: nat where "ATYP_IPV6 = 4"

lemmas reply_codes = REPLY_SUCCEEDED_def REPLY_SERVER_FAILURE_def REPLY_NOT_ALLOWED_def
  REPLY_NETWORK_UNREACHABLE_def REPLY_HOST_UNREACHABLE_def REPLY_CONNECTION_REFUSED_def
  REPLY_TTL_EXPIRED_def REPLY_COMMAND_NOT_SUPPORTED_def REPLY_ADDRESS_NOT_SUPPORTED_def

lemmas atyp_codes = ATYP_IPV4_def ATYP_DOMAIN_NAME_def ATYP_IPV6_def

section \<open>The access log\<close>

text \<open>
  The destination as \<open>log_access_info\<close> and \<open>log_sniffer_info\<close> format it. A domain name is copied
  with \<open>strncpy\<close> into 255 bytes of an uninitialised array and extended with \<open>strncat\<close>: a name
  of 255 bytes leaves no terminator there, and the search for it runs into memory nobody wrote.
  \<open>null_check\<close> is the test of \<open>curr_addr\<close> against NULL, which only \<open>log_access_info\<close> makes. The address of the client
  is recorded as it is stored; how the entry is printed is in \<open>Logger\<close>, also that an IPv6 address is read behind the end
  of \<open>client_addr\<close>. Such an address never gets there without a fault of \<open>master_read_handler\<close>.
\<close>

definition log_dest :: "bool \<Rightarrow> client \<Rightarrow> dest_log run" where
  "log_dest null_check c =
     (if atyp c = ATYP_DOMAIN_NAME
      then case dest_fqdn c of
             None \<Rightarrow> Inl Null_deref
           | Some name \<Rightarrow>
               if length (cstr name) \<ge> 255 then Inl Out_of_bounds
               else Inr (Log_name (cstr name) (ntohs (dest_port c)))
      else if curr_freed c then Inl Use_after_free
      else case curr_addr c of
             [] \<Rightarrow> if null_check then Inr Log_unknown else Inl Null_deref
           | a # _ \<Rightarrow> Inr (Log_addr a))"

definition log_access_info :: "client \<Rightarrow> nat \<Rightarrow> world \<Rightarrow> world run" where
  "log_access_info c reply w =
     bindE (log_dest True c) (\<lambda>d.
     Inr (w\<lparr>w_log := w_log w @ [Access_log (cstr (socks_user c)) (client_addr c) d reply]\<rparr>))"

definition log_sniffer_info :: "client \<Rightarrow> byte list \<Rightarrow> byte list \<Rightarrow> world \<Rightarrow> world run" where
  "log_sniffer_info c user pass w =
     bindE (log_dest False c) (\<lambda>d.
     Inr (w\<lparr>w_log := w_log w @ [Sniffer_log (cstr (socks_user c)) (client_addr c) d (cstr user) (cstr pass)]\<rparr>))"

section \<open>Replies\<close>

definition simple_reply :: "byte \<Rightarrow> byte \<Rightarrow> client \<Rightarrow> client run" where
  "simple_reply version method c =
     bindE (buffer_write (client_buf c) version) (\<lambda>b1.
     bindE (buffer_write b1 method) (\<lambda>b2. Inr (c\<lparr>client_buf := b2\<rparr>)))"

definition reply_addr_len :: "nat \<Rightarrow> byte list \<Rightarrow> nat" where
  "reply_addr_len at addr =
     (if at = ATYP_IPV4 then 4 else if at = ATYP_IPV6 then 16 else length (cstr addr))"

text \<open>\<open>port\<close> is the two bytes in memory; the body after the header is skipped when it does not fit.\<close>

definition server_reply :: "nat \<Rightarrow> nat \<Rightarrow> nat \<Rightarrow> byte list \<Rightarrow> byte list \<Rightarrow> world \<Rightarrow> world run" where
  "server_reply cid reply at addr port w =
     bindE (get_client cid w) (\<lambda>c.
     bindE (log_access_info c reply w) (\<lambda>w1.
     bindE (buffer_write (client_buf c) server_version) (\<lambda>b1.
     bindE (buffer_write b1 (of_nat reply)) (\<lambda>b2.
     bindE (buffer_write b2 0) (\<lambda>b3.
     bindE (buffer_write b3 (of_nat at)) (\<lambda>b4.
     bindE (buffer_write_ptr b4) (\<lambda>(buf, space).
     let addrLen = reply_addr_len at addr in
     if space < addrLen + 2 then Inr (put_client cid (c\<lparr>client_buf := b4\<rparr>) w1)
     else if length addr < addrLen then Inl Out_of_bounds
     else bindE (mem_write buf (take addrLen addr) (buf_data b4)) (\<lambda>d.
          bindE (buffer_write_adv (b4\<lparr>buf_data := d\<rparr>) (int addrLen)) (\<lambda>b5.
          bindE (mem_write (buf + addrLen) port (buf_data b5)) (\<lambda>d'.
          bindE (buffer_write_adv (b5\<lparr>buf_data := d'\<rparr>) 2) (\<lambda>b6.
          Inr (put_client cid (c\<lparr>client_buf := b6\<rparr>) w1))))))))))))"

section \<open>The readers\<close>

text \<open>The common opening: the client behind the key, and one \<open>read_from_sock\<close> into \<open>origin_buf\<close>.\<close>

definition receive :: "key \<Rightarrow> world \<Rightarrow> (nat \<times> client \<times> bool \<times> world) run" where
  "receive k w =
     bindE (ATTACHMENT k) (\<lambda>cid.
     bindE (get_client cid w) (\<lambda>c.
     assertE (client_sock c = key_fd k)
       (bindE (read_from_sock (env_read (w_env w)) (origin_buf c)) (\<lambda>(n, err, b).
        let c1 = c\<lparr>origin_buf := b\<rparr> in
        Inr (cid, c1, checkEOF n err, put_client cid c1 w)))))"

text \<open>The loop over the offered methods: the first one that fits the configuration wins.\<close>

fun choose_method :: "nat \<Rightarrow> byte list \<Rightarrow> byte option" where
  "choose_method nUsers [] = None"
| "choose_method nUsers (m # ms) =
     (if m = 0 \<and> nUsers = 0 then Some 0
      else if m = 2 \<and> nUsers \<noteq> 0 then Some 2
      else choose_method nUsers ms)"

text \<open>A reply followed by \<open>closeClient(c, CLIENT_READ, key)\<close>.\<close>

definition refuse :: "nat \<Rightarrow> client run \<Rightarrow> world \<Rightarrow> (nat \<times> world) run" where
  "refuse cid rc w = bindE rc (\<lambda>c. closeClient cid CLIENT_READ (put_client cid c w))"

definition read_auth_method :: "key \<Rightarrow> world \<Rightarrow> (nat \<times> world) run" where
  "read_auth_method k w =
     bindE (receive k w) (\<lambda>(cid, c, eof, w1).
     if eof then closeClient cid CLIENT_READ w1
     else
     bindE (buffer_read_ptr (origin_buf c)) (\<lambda>(p, avail).
     let d = buf_data (origin_buf c) in
     if avail < 2 then Inr (client_state c, w1)
     else
     bindE (arr_get d (p + 1)) (\<lambda>n.
     if avail < unat n + 2 then Inr (client_state c, w1)
     else
     bindE (arr_get d p) (\<lambda>version.
     let methods = take (unat n) (drop (p + 2) d) in
     bindE (buffer_read_adv (origin_buf c) (int (unat n + 2))) (\<lambda>b.
     let c1 = c\<lparr>origin_buf := b\<rparr>;
         nUsers = snd (get_users (w_users w1)) in
     if version \<noteq> server_version then refuse cid (simple_reply server_version 0xFF c1) w1
     else case choose_method nUsers methods of
       None \<Rightarrow> refuse cid (simple_reply server_version 0xFF c1) w1
     | Some m \<Rightarrow>
         bindE (simple_reply server_version m c1) (\<lambda>c2.
         bindE (selector_add_interest (client_sock c) OP_WRITE (put_client cid c2 w1)) (\<lambda>(_, w2).
         Inr (if m = 0 then REQUEST else PLAIN_AUTH, w2))))))))"

definition plain_auth_version :: byte where "plain_auth_version = 1"

definition read_plain_auth :: "key \<Rightarrow> world \<Rightarrow> (nat \<times> world) run" where
  "read_plain_auth k w =
     bindE (receive k w) (\<lambda>(cid, c, eof, w1).
     if eof then closeClient cid CLIENT_READ w1
     else
     bindE (buffer_read_ptr (origin_buf c)) (\<lambda>(p, avail).
     let d = buf_data (origin_buf c) in
     if avail < 2 then Inr (client_state c, w1)
     else
     bindE (arr_get d (p + 1)) (\<lambda>ul.
     let userLen = unat ul in
     if avail < 2 + userLen then Inr (client_state c, w1)
     else
     bindE (arr_get d p) (\<lambda>version.
     bindE (arr_get d (p + 2 + userLen)) (\<lambda>pl.
     let passLen = unat pl in
     if avail < 3 + userLen + passLen then Inr (client_state c, w1)
     else
     bindE (buffer_read_adv (origin_buf c) (int (3 + userLen + passLen))) (\<lambda>b.
     let c1 = c\<lparr>origin_buf := b\<rparr>;
         user = take userLen (drop (p + 2) d);
         pass = take passLen (drop (p + 3 + userLen) d) in
     if version \<noteq> plain_auth_version then refuse cid (simple_reply plain_auth_version 0xFF c1) w1
     else
     bindE (mem_write 0 user (socks_user c1)) (\<lambda>su1.
     bindE (mem_write userLen [0] su1) (\<lambda>su2.
     let c2 = c1\<lparr>socks_user := su2\<rparr> in
     if try_credentials (cstr su2) (cstr (pass @ [0])) (w_users w1)
     then bindE (simple_reply plain_auth_version 0 c2) (\<lambda>c3.
          bindE (selector_add_interest (client_sock c) OP_WRITE (put_client cid c3 w1)) (\<lambda>(_, w2).
          Inr (REQUEST, w2)))
     else refuse cid (simple_reply plain_auth_version 1 c2) w1))))))))"

text \<open>\<open>server_reply(c, reply, ATYP_IPV4, EMPTY_IP, 0)\<close> and \<open>closeClient(c, CLIENT_READ, key)\<close>.\<close>

definition fail_reply :: "nat \<Rightarrow> nat \<Rightarrow> world \<Rightarrow> (nat \<times> world) run" where
  "fail_reply cid reply w =
     bindE (server_reply cid reply ATYP_IPV4 EMPTY_IP [0, 0] w) (\<lambda>w1.
     closeClient cid CLIENT_READ w1)"

definition request_addr_len :: "nat \<Rightarrow> byte \<Rightarrow> nat option" where
  "request_addr_len at b4 =
     (if at = ATYP_IPV4 then Some 4
      else if at = ATYP_IPV6 then Some 16
      else if at = ATYP_DOMAIN_NAME then Some (1 + unat b4)
      else None)"

definition CONNECT :: byte where "CONNECT = 1"

text \<open>
  The two address branches differ in the family and the structure allocated. When the second
  \<open>malloc\<close> fails the first block is freed but \<open>curr_addr\<close> keeps pointing to it.
\<close>

definition numeric_target :: "int \<Rightarrow> byte list \<Rightarrow> byte list \<Rightarrow> addrinfo" where
  "numeric_target family addr port =
     \<lparr>ai_family = family, ai_socktype = SOCK_STREAM, ai_protocol = 0,
      ai_addr = \<lparr>sa_family = family, sa_addr = addr, sa_port = port\<rparr>\<rparr>"

definition set_numeric_target ::
  "nat \<Rightarrow> client \<Rightarrow> int \<Rightarrow> byte list \<Rightarrow> byte list \<Rightarrow> world \<Rightarrow> (nat \<times> world) run" where
  "set_numeric_target cid c family addr port w =
     (let a = numeric_target family addr port in
      if \<not> env_malloc (w_env w) 0 then fail_reply cid REPLY_SERVER_FAILURE (put_client cid (c\<lparr>curr_addr := []\<rparr>) w)
      else if \<not> env_malloc (w_env w) 1
      then fail_reply cid REPLY_SERVER_FAILURE (put_client cid (c\<lparr>curr_addr := [a], curr_freed := True\<rparr>) w)
      else Inr (CONNECTING, put_client cid (c\<lparr>curr_addr := [a]\<rparr>) w))"

definition read_proxy_request :: "key \<Rightarrow> world \<Rightarrow> (nat \<times> world) run" where
  "read_proxy_request k w =
     bindE (receive k w) (\<lambda>(cid, c, eof, w1).
     if eof then fail_reply cid REPLY_COMMAND_NOT_SUPPORTED w1
     else
     bindE (buffer_read_ptr (origin_buf c)) (\<lambda>(p, avail).
     let d = buf_data (origin_buf c) in
     if avail < 5 then Inr (client_state c, w1)
     else
     bindE (arr_get d (p + 3)) (\<lambda>b3.
     bindE (arr_get d (p + 4)) (\<lambda>b4.
     let at = unat b3;
         c1 = c\<lparr>atyp := at\<rparr>;
         w2 = put_client cid c1 w1 in
     case request_addr_len at b4 of
       None \<Rightarrow> fail_reply cid REPLY_ADDRESS_NOT_SUPPORTED w2
     | Some addrLen \<Rightarrow>
     if avail < 6 + addrLen then Inr (client_state c1, w2)
     else
     bindE (buffer_read_adv (origin_buf c1) (int (addrLen + 6))) (\<lambda>b.
     let c2 = c1\<lparr>origin_buf := b\<rparr>;
         w3 = put_client cid c2 w2 in
     bindE (arr_get d (p + 1)) (\<lambda>cmd.
     if cmd \<noteq> CONNECT then fail_reply cid REPLY_COMMAND_NOT_SUPPORTED w3
     else
     bindE (selector_remove_interest (client_sock c) OP_READ w3) (\<lambda>(_, w4).
     let port = take 2 (drop (p + 4 + addrLen) d) in
     if at = ATYP_DOMAIN_NAME
     then if \<not> env_malloc (w_env w4) 0
          then fail_reply cid REPLY_SERVER_FAILURE (put_client cid (c2\<lparr>dest_fqdn := None\<rparr>) w4)
          else Inr (RESOLVING, put_client cid (c2\<lparr>dest_fqdn := Some (take (addrLen - 1) (drop (p + 5) d) @ [0]),
                                                   dest_port := port\<rparr>) w4)
     else if at = ATYP_IPV4
     then set_numeric_target cid c2 AF_INET (take 4 (drop (p + 4) d)) port w4
     else set_numeric_target cid c2 AF_INET6 (take 16 (drop (p + 4) d)) port w4)))))))"

section \<open>Clients and keys in good order\<close>

definition client_wf :: "client \<Rightarrow> bool" where
  "client_wf c \<longleftrightarrow> buffer_wf (client_buf c) \<and> buffer_wf (origin_buf c)
     \<and> length (socks_user c) = MAX_CREDENTIALS \<and> (\<forall>p. pop3_parser c = Some p \<longrightarrow> pop3_wf p)"

text \<open>What holds whenever the selector calls a handler of the proxy for client \<open>c\<close>.\<close>

definition serving :: "key \<Rightarrow> nat \<Rightarrow> client \<Rightarrow> world \<Rightarrow> bool" where
  "serving k cid c w \<longleftrightarrow> sel_wf w \<and> key_data k = Some (A_client cid) \<and> w_clients w cid = Some c \<and> client_wf c
     \<and> proxy_fd w (client_sock c) \<and> proxy_fd w (origin_sock c) \<and> env_ok (w_env w)"

definition rd_eof :: "sys_read \<Rightarrow> nat \<Rightarrow> bool" where
  "rd_eof rd n = (case rd (min n BUFFSIZE) of Read_ok bs \<Rightarrow> bs = [] | Read_err e \<Rightarrow> e \<noteq> EAGAIN)"

text \<open>The bytes a reader has to judge: what was waiting and what the socket just delivered.\<close>

definition received :: "client \<Rightarrow> world \<Rightarrow> byte list" where
  "received c w = contents (origin_buf c) @ rd_bytes (env_read (w_env w)) (Buffer.space (origin_buf c))"

definition hung_up :: "client \<Rightarrow> world \<Rightarrow> bool" where
  "hung_up c w = rd_eof (env_read (w_env w)) (Buffer.space (origin_buf c))"

text \<open>The socket delivered all the bytes there was room for.\<close>

definition filled_up :: "client \<Rightarrow> world \<Rightarrow> bool" where
  "filled_up c w \<longleftrightarrow>
     Buffer.space (origin_buf c) \<le> length (rd_bytes (env_read (w_env w)) (Buffer.space (origin_buf c)))"

lemma read_from_sock_eof:
  assumes "buffer_wf b" and "read_from_sock rd b = Inr (n, e, b')"
  shows "checkEOF n e \<longleftrightarrow> rd_eof rd (Buffer.space b)"
  using assms
  by (auto simp: read_from_sock_put rd_eof_def checkEOF_def fault_simps split: read_res.splits)

lemma receive_ok:
  assumes "serving k cid c w" and "key_fd k = client_sock c"
  obtains b where "receive k w = Inr (cid, c\<lparr>origin_buf := b\<rparr>, hung_up c w, put_client cid (c\<lparr>origin_buf := b\<rparr>) w)"
    "buffer_wf b" "contents b = received c w" "buf_limit b = buf_limit (origin_buf c)" "filled_up c w \<longleftrightarrow> Buffer.space b = 0"
proof -
  have wf: "buffer_wf (origin_buf c)" and rd: "read_ok (env_read (w_env w))"
    using assms(1) by (simp_all add: serving_def client_wf_def env_ok_def)
  obtain n e b where b: "read_from_sock (env_read (w_env w)) (origin_buf c) = Inr (n, e, b)" "buffer_wf b"
    "contents b = received c w" "buf_limit b = buf_limit (origin_buf c)" "filled_up c w \<longleftrightarrow> Buffer.space b = 0"
    unfolding received_def filled_up_def by (metis read_from_sock_ok [OF wf rd] diff_is_0_eq)
  moreover have "checkEOF n e \<longleftrightarrow> hung_up c w"
    unfolding hung_up_def by (rule read_from_sock_eof [OF wf b(1)])
  ultimately show thesis
    using that [of b] assms by (simp add: receive_def ATTACHMENT_def serving_def get_client_def Let_def)
qed

lemma serving_put [simp]:
  assumes "serving k cid c w" and "client_wf c'" "client_sock c' = client_sock c" "origin_sock c' = origin_sock c"
  shows "serving k cid c' (put_client cid c' w)"
  using assms unfolding serving_def by (simp add: proxy_fd_def) (simp add: put_client_def)

lemma simple_reply_ok:
  assumes "client_wf c"
  obtains b where "simple_reply v m c = Inr (c\<lparr>client_buf := b\<rparr>)" "buffer_wf b" "buf_limit b = buf_limit (client_buf c)"
    "contents b = contents (client_buf c) @ take (Buffer.space (client_buf c)) [v, m]"
proof -
  have wf: "buffer_wf (client_buf c)" using assms by (simp add: client_wf_def)
  obtain b1 where b1: "buffer_write (client_buf c) v = Inr b1" "buffer_wf b1" "buf_limit b1 = buf_limit (client_buf c)"
    "contents b1 = contents (client_buf c) @ (if 0 < Buffer.space (client_buf c) then [v] else [])"
    "Buffer.space b1 = Buffer.space (client_buf c) - 1"
    by (rule buffer_write_ok [OF wf])
  obtain b2 where b2: "buffer_write b1 m = Inr b2" "buffer_wf b2" "buf_limit b2 = buf_limit b1"
    "contents b2 = contents b1 @ (if 0 < Buffer.space b1 then [m] else [])" "Buffer.space b2 = Buffer.space b1 - 1"
    by (rule buffer_write_ok [OF b1(2)])
  have "contents b2 = contents (client_buf c) @ take (Buffer.space (client_buf c)) [v, m]"
    using b1(4,5) b2(4) by (cases "Buffer.space (client_buf c)") (auto simp: take_Cons')
  then show thesis
    using that [of b2] b1 b2 by (simp add: simple_reply_def)
qed

text \<open>
  The outcome of a handler call on behalf of one client: the state returned, the ends still
  active, the bytes still waiting in \<open>origin_buf\<close>, the bytes appended to \<open>client_buf\<close>, the lines
  logged. Nobody else's descriptors or data are touched. \<open>tidy\<close>: an end that is down is not polled,
  and a socket without ends is not registered.
\<close>

definition tidy :: "client \<Rightarrow> world \<Rightarrow> client \<Rightarrow> world \<Rightarrow> bool" where
  "tidy c w c' w' \<longleftrightarrow>
     (client_sock c \<noteq> origin_sock c \<and> hasFlag (active_ends c) CLIENT_WRITE \<and> ends_quiet c w \<longrightarrow> ends_quiet c' w')
     \<and> (gone CLIENT (active_ends c) (active_ends c') \<longrightarrow> registered w' (client_sock c) = None)
     \<and> (gone ORIGIN (active_ends c) (active_ends c') \<longrightarrow> registered w' (origin_sock c) = None)
     \<and> curr_freed c' = curr_freed c"

definition served ::
  "nat \<Rightarrow> client \<Rightarrow> world \<Rightarrow> (nat \<times> world) run \<Rightarrow> nat \<Rightarrow> flags \<Rightarrow> byte list \<Rightarrow> byte list \<Rightarrow> log_entry list \<Rightarrow> client \<Rightarrow> bool"
  where
  "served cid c w r st ends rest out logs c' \<longleftrightarrow> (\<exists>w'. r = Inr (st, w')
     \<and> w_clients w' = (w_clients w)(cid \<mapsto> c')
     \<and> touches {client_sock c, origin_sock c} (w\<lparr>w_log := w_log w @ logs\<rparr>) w'
     \<and> client_wf c' \<and> client_sock c' = client_sock c \<and> origin_sock c' = origin_sock c
     \<and> stm_current c' = stm_current c
     \<and> active_ends c' = ends \<and> contents (origin_buf c') = rest
     \<and> contents (client_buf c') = contents (client_buf c) @ out \<and> tidy c w c' w')"

definition closing :: "client \<Rightarrow> nat \<times> flags" where
  "closing c = (let e = ends_after CLIENT_READ (active_ends c) in (close_state (client_state c) e, e))"

lemma client_wf_ends [simp]: "client_wf (c\<lparr>active_ends := e\<rparr>) = client_wf c"
  by (simp add: client_wf_def)

text \<open>Closing the read end after some change to the client.\<close>

lemma close_served:
  assumes "serving k cid c w" and "client_wf c1" "client_sock c1 = client_sock c" "origin_sock c1 = origin_sock c"
    "stm_current c1 = stm_current c" "active_ends c1 = active_ends c" "curr_freed c1 = curr_freed c"
    and "contents (client_buf c1) = contents (client_buf c) @ out"
  shows "served cid c w (closeClient cid CLIENT_READ (put_client cid c1 w)) (fst (closing c)) (snd (closing c))
    (contents (origin_buf c1)) out [] (c1\<lparr>active_ends := snd (closing c)\<rparr>)"
proof -
  let ?w = "put_client cid c1 w"
  have s: "serving k cid c1 ?w"
    using assms by simp
  then have pre: "sel_wf ?w" "w_clients ?w cid = Some c1" "proxy_fd ?w (client_sock c1)" "proxy_fd ?w (origin_sock c1)"
    by (simp_all add: serving_def)
  obtain w' where w': "closeClient cid CLIENT_READ ?w = Inr (close_state (client_state c1) (ends_after CLIENT_READ (active_ends c1)), w')"
    "close_spec cid c1 (ends_after CLIENT_READ (active_ends c1)) ?w w'"
    using closeClient_ok [OF pre] by blast
  have st: "client_state c1 = client_state c"
    using assms(5) by (simp add: client_state_def)
  have "touches {client_sock c, origin_sock c} ?w w'"
    using w'(2) assms(3,4) by (simp add: close_spec_def)
  then have t: "touches {client_sock c, origin_sock c} w w'"
    unfolding touches_def by (simp add: put_client_def)
  have "ends_quiet c1 ?w = ends_quiet c w"
    using assms(3,4,6) by (simp add: ends_quiet_def)
  then have "tidy c w (c1\<lparr>active_ends := snd (closing c)\<rparr>) w'"
    using w'(2) assms(3-7) by (simp add: tidy_def close_spec_def closing_def Let_def)
  then show ?thesis
    unfolding served_def using w' t assms st
    by (simp add: closing_def Let_def close_spec_def put_client_def)
qed

lemma refuse_served:
  assumes "serving k cid c w" and "client_wf c1" "client_sock c1 = client_sock c" "origin_sock c1 = origin_sock c"
    "stm_current c1 = stm_current c" "active_ends c1 = active_ends c" "client_buf c1 = client_buf c" "curr_freed c1 = curr_freed c"
  shows "\<exists>c'. served cid c w (refuse cid (simple_reply v m c1) w) (fst (closing c)) (snd (closing c))
    (contents (origin_buf c1)) (take (Buffer.space (client_buf c)) [v, m]) [] c'"
proof -
  obtain b where b: "simple_reply v m c1 = Inr (c1\<lparr>client_buf := b\<rparr>)" "buffer_wf b"
    "contents b = contents (client_buf c) @ take (Buffer.space (client_buf c)) [v, m]"
    using simple_reply_ok [OF assms(2), of v m] assms(7) by metis
  have wf: "client_wf (c1\<lparr>client_buf := b\<rparr>)"
    using assms(2) b(2) by (simp add: client_wf_def)
  show ?thesis
    using close_served [OF assms(1) wf] assms b by (auto simp: refuse_def)
qed

text \<open>A reply that leaves the connection open and asks for writability.\<close>

lemma polled_for_write:
  assumes "registered w' = (registered w)(fd := map_option (\<lambda>it. it\<lparr>it_interest := it_interest it OR OP_WRITE,
    it_mask := it_mask it OR OP_WRITE\<rparr>) (registered w fd))"
  shows "quiet w fd' OP_READ \<Longrightarrow> quiet w' fd' OP_READ" and "fd' \<noteq> fd \<Longrightarrow> quiet w fd' op \<Longrightarrow> quiet w' fd' op"
  using assms by (auto simp: quiet_def op_bits bit_or_iff OP_WRITE_def split: if_splits)

lemma accept_served:
  assumes "serving k cid c w" and "client_wf c1" "client_sock c1 = client_sock c" "origin_sock c1 = origin_sock c"
    "stm_current c1 = stm_current c" "active_ends c1 = active_ends c" "client_buf c1 = client_buf c" "curr_freed c1 = curr_freed c"
  shows "\<exists>c'. socks_user c' = socks_user c1 \<and> served cid c w
    (bindE (simple_reply v m c1) (\<lambda>c2.
     bindE (selector_add_interest (client_sock c) OP_WRITE (put_client cid c2 w)) (\<lambda>(_, w2). Inr (st, w2))))
    st (active_ends c) (contents (origin_buf c1)) (take (Buffer.space (client_buf c)) [v, m]) [] c'"
proof -
  obtain b where b: "simple_reply v m c1 = Inr (c1\<lparr>client_buf := b\<rparr>)" "buffer_wf b"
    "contents b = contents (client_buf c) @ take (Buffer.space (client_buf c)) [v, m]"
    using simple_reply_ok [OF assms(2), of v m] assms(7) by metis
  let ?w = "put_client cid (c1\<lparr>client_buf := b\<rparr>) w"
  have wf: "sel_wf ?w" "client_wf (c1\<lparr>client_buf := b\<rparr>)"
    using assms(1,2) b(2) by (simp_all add: client_wf_def serving_def)
  obtain s w2 where w2: "selector_add_interest (client_sock c) OP_WRITE ?w = Inr (s, w2)" "touches {client_sock c} ?w w2"
    "w_clients w2 = w_clients ?w"
    "registered w2 = (registered ?w)(client_sock c := map_option (\<lambda>it. it\<lparr>it_interest := it_interest it OR OP_WRITE,
       it_mask := it_mask it OR OP_WRITE\<rparr>) (registered ?w (client_sock c)))"
    by (rule add_touches [OF wf(1)]) blast
  have "tidy c w (c1\<lparr>client_buf := b\<rparr>) w2"
    using assms(3-8) polled_for_write [of w2 w "client_sock c"] w2(4) by (simp add: tidy_def ends_quiet_def gone_def)
  moreover have "touches {client_sock c, origin_sock c} w w2"
    using touches_mono [OF w2(2), of "{client_sock c, origin_sock c}"] unfolding touches_def by (simp add: put_client_def)
  ultimately show ?thesis
    using assms b w2 wf(2) by (intro exI [of _ "c1\<lparr>client_buf := b\<rparr>"]) (simp add: served_def put_client_def)
qed

lemma wait_served:
  assumes "serving k cid c w" and "client_wf c1" "client_sock c1 = client_sock c" "origin_sock c1 = origin_sock c"
    "stm_current c1 = stm_current c" "active_ends c1 = active_ends c" "client_buf c1 = client_buf c" "curr_freed c1 = curr_freed c"
  shows "served cid c w (Inr (st, put_client cid c1 w)) st (active_ends c) (contents (origin_buf c1)) [] [] c1"
  using assms touches_refl [of w] unfolding served_def
  by (simp add: serving_def tidy_def ends_quiet_def gone_def) (simp add: put_client_def)

section \<open>Method selection\<close>

text \<open>
  \<open>VER NMETHODS METHODS\<close> of RFC 1928. \<open>None\<close>: the message is not complete yet. Otherwise the
  method chosen, if any, and the bytes that follow the message.
\<close>

definition parse_hello :: "nat \<Rightarrow> byte list \<Rightarrow> (byte option \<times> byte list) option" where
  "parse_hello nUsers bs =
     (case bs of
        v # n # ms \<Rightarrow>
          if length ms < unat n then None
          else Some (if v = 5 then choose_method nUsers (take (unat n) ms) else None, drop (unat n) ms)
      | _ \<Rightarrow> None)"

definition hello_reply :: "byte option \<Rightarrow> byte list" where
  "hello_reply m = [5, case m of None \<Rightarrow> 0xFF | Some x \<Rightarrow> x]"

definition hello_state :: "client \<Rightarrow> byte option \<Rightarrow> nat" where
  "hello_state c m = (case m of None \<Rightarrow> fst (closing c) | Some x \<Rightarrow> if x = 0 then REQUEST else PLAIN_AUTH)"

lemma choose_method_iff:
  "choose_method n ms = Some m \<longleftrightarrow> (m = 0 \<and> n = 0 \<and> 0 \<in> set ms) \<or> (m = 2 \<and> n \<noteq> 0 \<and> 2 \<in> set ms)"
  by (induction ms) (auto split: if_splits)

lemma parse_hello_append:
  "parse_hello n bs = Some (m, rest) \<Longrightarrow> parse_hello n (bs @ xs) = Some (m, rest @ xs)"
  by (auto simp: parse_hello_def split: list.splits if_splits)

lemma client_wf_origin [simp]: "buffer_wf b \<Longrightarrow> client_wf c \<Longrightarrow> client_wf (c\<lparr>origin_buf := b\<rparr>)"
  by (simp add: client_wf_def)

lemma client_state_origin [simp]: "client_state (c\<lparr>origin_buf := b\<rparr>) = client_state c"
  by (simp add: client_state_def)

lemma closing_origin [simp]: "closing (c\<lparr>origin_buf := b\<rparr>) = closing c"
  by (simp add: closing_def)

lemma put_put_client [simp]: "put_client cid c1 (put_client cid c w) = put_client cid c1 w"
  by (simp add: put_client_def)

lemma put_client_users [simp]: "w_users (put_client cid c w) = w_users w" "w_env (put_client cid c w) = w_env w"
  by (simp_all add: put_client_def)

lemma two_bytes:
  obtains (short) "length (bs :: 'a list) < 2" | (head) v n ms where "bs = v # n # ms"
  by (cases bs rule: remdups_adj.cases) auto

text \<open>The reader after \<open>receive\<close>: \<open>b\<close> is \<open>origin_buf\<close> with the new bytes.\<close>

lemma hello_wait:
  assumes "parse_hello n bs = None"
  obtains "length bs < 2" | v l ms where "bs = v # l # ms" "length ms < unat l"
  using assms by (cases bs rule: two_bytes) (auto simp: parse_hello_def split: if_splits)

lemma hello_done:
  assumes "parse_hello n bs = Some (m, rest)"
  obtains v l ms where "bs = v # l # ms" "unat l \<le> length ms" "rest = drop (unat l) ms"
    "m = (if v = 5 then choose_method n (take (unat l) ms) else None)"
  using assms by (auto simp: parse_hello_def split: list.splits if_splits)

lemma read_auth_method_wait:
  assumes r: "receive k w = Inr (cid, c, False, w1)" and b: "buffer_wf (origin_buf c)"
    and p: "parse_hello n (contents (origin_buf c)) = None"
  shows "read_auth_method k w = Inr (client_state c, w1)"
  using p
proof (cases rule: hello_wait)
  case 1
  then show ?thesis using b by (simp add: read_auth_method_def r)
next
  case (2 v l ms)
  then have "arr_get (buf_data (origin_buf c)) (buf_read (origin_buf c) + 1) = Inr l"
    using arr_get_contents [OF b, of 1] by simp
  with 2 b show ?thesis by (simp add: read_auth_method_def r)
qed

lemma read_auth_method_done:
  assumes r: "receive k w = Inr (cid, c, False, w1)" and b: "buffer_wf (origin_buf c)"
    and p: "parse_hello (user_count (w_users w1)) (contents (origin_buf c)) = Some (m, rest)"
  obtains b' where "buffer_wf b'" "contents b' = rest"
    "read_auth_method k w = (case m of
       None \<Rightarrow> refuse cid (simple_reply 5 0xFF (c\<lparr>origin_buf := b'\<rparr>)) w1
     | Some x \<Rightarrow> bindE (simple_reply 5 x (c\<lparr>origin_buf := b'\<rparr>)) (\<lambda>c2.
         bindE (selector_add_interest (client_sock c) OP_WRITE (put_client cid c2 w1)) (\<lambda>(_, w2).
         Inr (if x = 0 then REQUEST else PLAIN_AUTH, w2))))"
  using p
proof (cases rule: hello_done)
  case (1 v l ms)
  let ?b = "origin_buf c"
  have d: "arr_get (buf_data ?b) (buf_read ?b) = Inr v" "arr_get (buf_data ?b) (buf_read ?b + 1) = Inr l"
    using arr_get_contents [OF b, of 0] arr_get_contents [OF b, of 1] 1(1) by simp_all
  obtain b' where b': "buffer_read_adv ?b (int (unat l + 2)) = Inr b'" "buffer_wf b'"
    "contents b' = drop (unat l + 2) (contents ?b)"
    using buffer_read_adv_ok [OF b, of "unat l + 2"] 1(1,2) by auto
  have sl: "take (unat l) (drop (buf_read ?b + 2) (buf_data ?b)) = take (unat l) ms"
    using contents_slice [OF b, of 2 "unat l"] 1(1,2) by simp
  have rest: "contents b' = rest"
    using b'(3) 1(1,3) by simp
  show thesis
    using b b'(1) d 1(1,2) sl
    by (intro that [OF b'(2) rest]; cases "v = 5"; cases "choose_method (user_count (w_users w1)) (take (unat l) ms)")
      (simp_all add: read_auth_method_def r 1(4) server_version_def get_users_def Let_def)
qed

lemma refuse_put [simp]: "refuse cid rc (put_client cid c w) = refuse cid rc w"
  by (simp add: refuse_def)

lemma read_auth_method_ok:
  assumes s: "serving k cid c w" and fd: "key_fd k = client_sock c"
  shows "\<exists>c'. if hung_up c w
    then served cid c w (read_auth_method k w) (fst (closing c)) (snd (closing c)) (received c w) [] [] c'
    else case parse_hello (user_count (w_users w)) (received c w) of
      None \<Rightarrow> served cid c w (read_auth_method k w) (client_state c) (active_ends c) (received c w) [] [] c'
    | Some (m, rest) \<Rightarrow> served cid c w (read_auth_method k w) (hello_state c m)
        (if m = None then snd (closing c) else active_ends c) rest
        (take (Buffer.space (client_buf c)) (hello_reply m)) [] c'"
proof -
  obtain b where r: "receive k w = Inr (cid, c\<lparr>origin_buf := b\<rparr>, hung_up c w, put_client cid (c\<lparr>origin_buf := b\<rparr>) w)"
    and b: "buffer_wf b" "contents b = received c w"
    by (rule receive_ok [OF assms])
  let ?c = "c\<lparr>origin_buf := b\<rparr>"
  have wf: "client_wf ?c" using s b(1) by (simp add: serving_def)
  consider (eof) "hung_up c w" | (wait) "\<not> hung_up c w" "parse_hello (user_count (w_users w)) (received c w) = None"
    | (complete) m rest where "\<not> hung_up c w" "parse_hello (user_count (w_users w)) (received c w) = Some (m, rest)"
    by (metis option.exhaust prod.exhaust)
  then show ?thesis
  proof cases
    case eof
    then show ?thesis
      using close_served [OF s wf, of "[]"] b by (auto simp: read_auth_method_def r)
  next
    case wait
    then show ?thesis
      using read_auth_method_wait [of k w cid ?c] r b wait_served [OF s wf] by auto
  next
    case complete
    obtain b' where b': "buffer_wf b'" "contents b' = rest"
      and run: "read_auth_method k w = (case m of
         None \<Rightarrow> refuse cid (simple_reply 5 0xFF (?c\<lparr>origin_buf := b'\<rparr>)) (put_client cid ?c w)
       | Some x \<Rightarrow> bindE (simple_reply 5 x (?c\<lparr>origin_buf := b'\<rparr>)) (\<lambda>c2.
           bindE (selector_add_interest (client_sock ?c) OP_WRITE (put_client cid c2 (put_client cid ?c w))) (\<lambda>(_, w2).
           Inr (if x = 0 then REQUEST else PLAIN_AUTH, w2))))"
      using read_auth_method_done [of k w cid ?c "put_client cid ?c w" m rest] r b complete by auto
    let ?c' = "c\<lparr>origin_buf := b'\<rparr>"
    have wf': "client_wf ?c'" using s b'(1) by (simp add: serving_def)
    show ?thesis
    proof (cases m)
      case None
      then show ?thesis
        using refuse_served [OF s wf', of 5 "0xFF"] complete b'(2) run
        by (auto simp: hello_state_def hello_reply_def)
    next
      case (Some x)
      then show ?thesis
        using accept_served [OF s wf', of 5 x "if x = 0 then REQUEST else PLAIN_AUTH"] complete b'(2) run
        by (auto simp: hello_state_def hello_reply_def)
    qed
  qed
qed

section \<open>Credentials\<close>

text \<open>\<open>VER ULEN UNAME PLEN PASSWD\<close> of RFC 1929, and the bytes that follow the message.\<close>

definition parse_auth :: "byte list \<Rightarrow> (byte \<times> byte list \<times> byte list \<times> byte list) option" where
  "parse_auth bs =
     (case bs of
        v # ul # rs \<Rightarrow>
          (case drop (unat ul) rs of
             [] \<Rightarrow> None
           | pl # ps \<Rightarrow> if length ps < unat pl then None
                      else Some (v, take (unat ul) rs, take (unat pl) ps, drop (unat pl) ps))
      | _ \<Rightarrow> None)"

definition authentic :: "byte \<Rightarrow> byte list \<Rightarrow> byte list \<Rightarrow> user_table \<Rightarrow> bool" where
  "authentic v user pass ut \<longleftrightarrow> v = 1 \<and> (cstr user, cstr pass) \<in> set (user_entries ut)"

definition auth_reply :: "byte \<Rightarrow> byte list \<Rightarrow> byte list \<Rightarrow> user_table \<Rightarrow> byte list" where
  "auth_reply v user pass ut = [1, if v \<noteq> 1 then 0xFF else if authentic v user pass ut then 0 else 1]"

lemma parse_auth_encode:
  assumes "length user = unat ul" and "length pass = unat pl"
  shows "parse_auth (v # ul # user @ pl # pass @ rest) = Some (v, user, pass, rest)"
  using assms by (simp add: parse_auth_def)

lemma auth_wait:
  assumes "parse_auth bs = None"
  obtains "length bs < 2" | v ul rs where "bs = v # ul # rs" "length rs < unat ul"
    | v ul rs where "bs = v # ul # rs" "length rs = unat ul"
    | v ul u pl ps where "bs = v # ul # u @ pl # ps" "length u = unat ul" "length ps < unat pl"
proof (cases bs rule: two_bytes)
  case (head v ul rs)
  show thesis
  proof (cases "drop (unat ul) rs")
    case Nil
    then show thesis using that(2,3) head by (cases "length rs = unat ul") auto
  next
    case (Cons pl ps)
    then have "rs = take (unat ul) rs @ pl # ps" "length (take (unat ul) rs) = unat ul"
      by (metis append_take_drop_id) (use Cons in \<open>auto simp: min_def dest: sym\<close>)
    moreover have "length ps < unat pl"
      using assms head Cons by (simp add: parse_auth_def split: if_splits)
    ultimately show thesis using that(4) head by metis
  qed
qed (rule that)

lemma auth_done:
  assumes "parse_auth bs = Some (v, user, pass, rest)"
  obtains ul pl where "bs = v # ul # user @ pl # pass @ rest" "length user = unat ul" "length pass = unat pl"
proof (cases bs rule: two_bytes)
  case (head v' ul rs)
  obtain pl ps where c: "drop (unat ul) rs = pl # ps" and "unat pl \<le> length ps" "v' = v"
    "user = take (unat ul) rs" "pass = take (unat pl) ps" "rest = drop (unat pl) ps"
    using assms head by (auto simp: parse_auth_def split: list.splits if_splits)
  moreover have "unat ul < length rs"
    using c by (metis drop_all list.distinct(1) not_le)
  moreover have "rs = take (unat ul) rs @ pl # ps"
    using c by (metis append_take_drop_id)
  ultimately show thesis
    using that [of ul pl] head by (simp add: min_def)
qed (use assms in \<open>auto simp: parse_auth_def split: list.splits\<close>)

lemma parse_auth_append:
  assumes "parse_auth bs = Some (v, user, pass, rest)"
  shows "parse_auth (bs @ xs) = Some (v, user, pass, rest @ xs)"
  using assms by (rule auth_done) (simp add: parse_auth_encode)

text \<open>
  With an incomplete message the reader waits, unless the byte after the name lies outside the
  array.
\<close>

definition cut_after_name :: "byte list \<Rightarrow> bool" where
  "cut_after_name bs = (case bs of v # ul # user \<Rightarrow> length user = unat ul | _ \<Rightarrow> False)"

lemma read_plain_auth_none:
  assumes r: "receive k w = Inr (cid, c, False, w1)" and b: "buffer_wf (origin_buf c)"
    and p: "parse_auth (contents (origin_buf c)) = None"
  shows "read_plain_auth k w = Inr (client_state c, w1)
    \<or> Buffer.space (origin_buf c) = 0 \<and> cut_after_name (contents (origin_buf c)) \<and> read_plain_auth k w = Inl Out_of_bounds"
proof -
  let ?b = "origin_buf c"
  let ?d = "buf_data ?b" and ?p = "buf_read ?b"
  note at = arr_get_contents [OF b]
  show ?thesis
    using p
  proof (cases rule: auth_wait)
    case 1
    then show ?thesis using b by (simp add: read_plain_auth_def r)
  next
    case (2 v ul rs)
    then show ?thesis using b at [of 1] by (simp add: read_plain_auth_def r Let_def)
  next
    case (3 v ul rs)
    then have len: "?p + 2 + unat ul = buf_write ?b"
      using length_contents [OF b] b by (auto simp: buffer_wf_def)
    show ?thesis
    proof (cases "Buffer.space ?b = 0")
      case True
      then have "arr_get ?d (?p + 2 + unat ul) = Inl Out_of_bounds"
        using b len by (simp add: arr_get_def buffer_wf_def Buffer.space_def)
      with True show ?thesis using b at [of 0] at [of 1] 3 by (simp add: read_plain_auth_def r Let_def cut_after_name_def)
    next
      case False
      then obtain pl where "arr_get ?d (?p + 2 + unat ul) = Inr pl"
        using b len by (simp add: arr_get_def buffer_wf_def Buffer.space_def)
      then show ?thesis using b at [of 0] at [of 1] 3 by (simp add: read_plain_auth_def r Let_def)
    qed
  next
    case (4 v ul u pl ps)
    have "arr_get ?d (?p + 2 + unat ul) = Inr pl"
      using at [of "2 + unat ul"] 4 by (simp add: nth_append add.assoc)
    then show ?thesis using b at [of 0] at [of 1] 4 by (simp add: read_plain_auth_def r Let_def)
  qed
qed

lemma store_user:
  assumes "length (su :: byte list) = MAX_CREDENTIALS" and "length user < MAX_CREDENTIALS"
  obtains su1 su2 where "mem_write 0 user su = Inr su1" "mem_write (length user) [0] su1 = Inr su2"
    "length su2 = MAX_CREDENTIALS" "cstr su2 = cstr user"
proof -
  have "mem_write 0 user su = Inr (overwrite 0 user su)"
    "mem_write (length user) [0] (overwrite 0 user su) = Inr (overwrite 0 (user @ [0]) su)"
    using assms overwrite_snoc [of 0 user su 0] by simp_all
  moreover have "cstr (overwrite 0 (user @ [0]) su) = cstr user"
    by (simp add: overwrite_def cstr_terminated)
  ultimately show thesis
    using that assms by simp
qed

lemma read_plain_auth_done:
  assumes r: "receive k w = Inr (cid, c, False, w1)" and wf: "client_wf c"
    and p: "parse_auth (contents (origin_buf c)) = Some (v, user, pass, rest)"
  obtains b' su where "buffer_wf b'" "contents b' = rest" "length su = MAX_CREDENTIALS" "cstr su = cstr user"
    "read_plain_auth k w =
       (if v \<noteq> 1 then refuse cid (simple_reply 1 0xFF (c\<lparr>origin_buf := b'\<rparr>)) w1
        else if authentic v user pass (w_users w1)
        then bindE (simple_reply 1 0 (c\<lparr>origin_buf := b', socks_user := su\<rparr>)) (\<lambda>c2.
             bindE (selector_add_interest (client_sock c) OP_WRITE (put_client cid c2 w1)) (\<lambda>(_, w2). Inr (REQUEST, w2)))
        else refuse cid (simple_reply 1 1 (c\<lparr>origin_buf := b', socks_user := su\<rparr>)) w1)"
  using p
proof (cases rule: auth_done)
  case (1 ul pl)
  let ?b = "origin_buf c"
  let ?d = "buf_data ?b" and ?p = "buf_read ?b"
  have b: "buffer_wf ?b" and su: "length (socks_user c) = MAX_CREDENTIALS"
    using wf by (simp_all add: client_wf_def)
  note at = arr_get_contents [OF b]
  have d: "arr_get ?d ?p = Inr v" "arr_get ?d (?p + 1) = Inr ul" "arr_get ?d (?p + 2 + unat ul) = Inr pl"
    using at [of 0] at [of 1] at [of "2 + unat ul"] 1 by (simp_all add: nth_append add.assoc)
  have sl: "take (unat ul) (drop (?p + 2) ?d) = user" "take (unat pl) (drop (?p + 3 + unat ul) ?d) = pass"
    using contents_slice [OF b, of 2 "unat ul"] contents_slice [OF b, of "3 + unat ul" "unat pl"] 1
    by (simp_all add: add.assoc drop_append numeral_3_eq_3)
  obtain b' where b': "buffer_read_adv ?b (int (3 + unat ul + unat pl)) = Inr b'" "buffer_wf b'"
    "contents b' = drop (3 + unat ul + unat pl) (contents ?b)"
    using buffer_read_adv_ok [OF b, of "3 + unat ul + unat pl"] 1 by auto
  have rest: "contents b' = rest"
    using b'(3) 1 by (simp add: numeral_3_eq_3)
  have "unat ul < 2 ^ LENGTH(8)" by (rule unsigned_less)
  then have ul: "length user < MAX_CREDENTIALS"
    using 1 by (simp add: MAX_CREDENTIALS_def)
  obtain su1 su2 where su2: "mem_write 0 user (socks_user c) = Inr su1" "mem_write (unat ul) [0] su1 = Inr su2"
    "length su2 = MAX_CREDENTIALS" "cstr su2 = cstr user"
    using store_user [OF su ul] 1(2) by metis
  have len: "\<not> length (contents ?b) < 2 + unat ul" "\<not> length (contents ?b) < 3 + unat ul + unat pl" "\<not> length (contents ?b) < 2"
    using 1 by auto
  show thesis
    by (rule that [OF b'(2) rest su2(3,4)])
      (simp add: read_plain_auth_def r b d sl len b'(1) su2 plain_auth_version_def authentic_def
        try_credentials_iff cstr_terminated Let_def del: of_nat_add One_nat_def add_2_eq_Suc' add_2_eq_Suc Suc_eq_plus1_left)
qed

definition auth_state :: "client \<Rightarrow> bool \<Rightarrow> nat" where
  "auth_state c ok = (if ok then REQUEST else fst (closing c))"

lemma read_plain_auth_ok:
  assumes s: "serving k cid c w" and fd: "key_fd k = client_sock c"
    and room: "filled_up c w \<and> cut_after_name (received c w) \<longrightarrow> hung_up c w"
  shows "\<exists>c'. if hung_up c w
    then served cid c w (read_plain_auth k w) (fst (closing c)) (snd (closing c)) (received c w) [] [] c'
    else case parse_auth (received c w) of
      None \<Rightarrow> served cid c w (read_plain_auth k w) (client_state c) (active_ends c) (received c w) [] [] c'
    | Some (v, user, pass, rest) \<Rightarrow>
        served cid c w (read_plain_auth k w) (auth_state c (authentic v user pass (w_users w)))
          (if authentic v user pass (w_users w) then active_ends c else snd (closing c)) rest
          (take (Buffer.space (client_buf c)) (auth_reply v user pass (w_users w))) [] c'
        \<and> (authentic v user pass (w_users w) \<longrightarrow> cstr (socks_user c') = cstr user)"
proof -
  obtain b where r: "receive k w = Inr (cid, c\<lparr>origin_buf := b\<rparr>, hung_up c w, put_client cid (c\<lparr>origin_buf := b\<rparr>) w)"
    and b: "buffer_wf b" "contents b = received c w" and full: "filled_up c w \<longleftrightarrow> Buffer.space b = 0"
    by (rule receive_ok [OF s fd])
  let ?c = "c\<lparr>origin_buf := b\<rparr>"
  have wf: "client_wf ?c" using s b(1) by (simp add: serving_def)
  consider (eof) "hung_up c w" | (wait) "\<not> hung_up c w" "parse_auth (received c w) = None"
    | (complete) v user pass rest where "\<not> hung_up c w" "parse_auth (received c w) = Some (v, user, pass, rest)"
    by (metis option.exhaust prod_cases4)
  then show ?thesis
  proof cases
    case eof
    then show ?thesis
      using close_served [OF s wf, of "[]"] b by (auto simp: read_plain_auth_def r)
  next
    case wait
    with room full have "\<not> (Buffer.space b = 0 \<and> cut_after_name (contents b))" using b(2) by simp
    then have "read_plain_auth k w = Inr (client_state c, put_client cid ?c w)"
      using read_plain_auth_none [of k w cid ?c] wait r b by auto
    with wait show ?thesis
      using wait_served [OF s wf, of "client_state c"] b(2) by auto
  next
    case complete
    let ?w = "put_client cid ?c w" and ?ok = "authentic v user pass (w_users w)"
    obtain b' su where b': "buffer_wf b'" "contents b' = rest" and su: "length su = MAX_CREDENTIALS" "cstr su = cstr user"
      and run: "read_plain_auth k w = (if v \<noteq> 1 then refuse cid (simple_reply 1 0xFF (?c\<lparr>origin_buf := b'\<rparr>)) ?w
        else if authentic v user pass (w_users ?w)
        then bindE (simple_reply 1 0 (?c\<lparr>origin_buf := b', socks_user := su\<rparr>)) (\<lambda>c2.
             bindE (selector_add_interest (client_sock ?c) OP_WRITE (put_client cid c2 ?w)) (\<lambda>(_, w2). Inr (REQUEST, w2)))
        else refuse cid (simple_reply 1 1 (?c\<lparr>origin_buf := b', socks_user := su\<rparr>)) ?w)"
      using read_plain_auth_done [of k w cid ?c ?w v user pass rest] r b(2) wf complete by auto
    have wf': "client_wf (c\<lparr>origin_buf := b'\<rparr>)" "client_wf (c\<lparr>origin_buf := b', socks_user := su\<rparr>)"
      using s b'(1) su(1) by (simp_all add: serving_def client_wf_def)
    consider "v \<noteq> 1" | "v = 1" "\<not> ?ok" | "v = 1" ?ok by blast
    then show ?thesis
    proof cases
      case 1
      then have "\<not> ?ok" by (simp add: authentic_def)
      with 1 show ?thesis
        using refuse_served [OF s wf'(1), of 1 "0xFF"] complete b'(2) run by (auto simp: auth_state_def auth_reply_def)
    next
      case 2
      then show ?thesis
        using refuse_served [OF s wf'(2), of 1 1] complete b'(2) run by (auto simp: auth_state_def auth_reply_def)
    next
      case 3
      then show ?thesis
        using accept_served [OF s wf'(2), of 1 0 REQUEST] complete b'(2) run su(2) by (auto simp: auth_state_def auth_reply_def)
    qed
  qed
qed

text \<open>
  The password length is fetched before it is known to have arrived. When the user name ends
  exactly where the buffer ends, that read is outside the buffer.
\<close>

lemma read_plain_auth_overread:
  assumes s: "serving k cid c w" and fd: "key_fd k = client_sock c" and up: "filled_up c w" "\<not> hung_up c w"
    and cut: "cut_after_name (received c w)"
  shows "read_plain_auth k w = Inl Out_of_bounds"
proof -
  obtain v ul user where msg: "received c w = v # ul # user" "length user = unat ul"
    using cut by (auto simp: cut_after_name_def split: list.splits)
  obtain b where r: "receive k w = Inr (cid, c\<lparr>origin_buf := b\<rparr>, hung_up c w, put_client cid (c\<lparr>origin_buf := b\<rparr>) w)"
    and b: "buffer_wf b" "contents b = received c w" and full: "Buffer.space b = 0"
    using receive_ok [OF s fd] up(1) by metis
  note at = arr_get_contents [OF b(1)]
  have d: "arr_get (buf_data b) (buf_read b) = Inr v" "arr_get (buf_data b) (Suc (buf_read b)) = Inr ul"
    using at [of 0] at [of 1] b(2) msg by simp_all
  have "arr_get (buf_data b) (Suc (Suc (buf_read b + unat ul))) = Inl Out_of_bounds"
    using b full length_contents [OF b(1)] msg by (auto simp: buffer_wf_def Buffer.space_def arr_get_def)
  then show ?thesis
    using r up(2) b d msg by (simp add: read_plain_auth_def Let_def)
qed

section \<open>Replies to a request\<close>

fun buffer_writes :: "byte list \<Rightarrow> buffer \<Rightarrow> buffer run" where
  "buffer_writes [] b = Inr b"
| "buffer_writes (x # xs) b = bindE (buffer_write b x) (buffer_writes xs)"

lemma buffer_writes_ok:
  assumes "buffer_wf b"
  shows "\<exists>b'. buffer_writes xs b = Inr b' \<and> buffer_wf b' \<and> buf_limit b' = buf_limit b
    \<and> contents b' = contents b @ take (Buffer.space b) xs \<and> Buffer.space b' = Buffer.space b - length xs"
  using assms
proof (induction xs arbitrary: b)
  case (Cons x xs)
  obtain b1 where b1: "buffer_write b x = Inr b1" "buffer_wf b1" "buf_limit b1 = buf_limit b"
    "contents b1 = contents b @ (if 0 < Buffer.space b then [x] else [])" "Buffer.space b1 = Buffer.space b - 1"
    by (rule buffer_write_ok [OF Cons.prems])
  then show ?case
    using Cons.IH [OF b1(2)] by (cases "Buffer.space b") auto
qed simp

text \<open>\<open>VER REP RSV ATYP BND.ADDR BND.PORT\<close>, as far as the room in the buffer goes.\<close>

definition reply_bytes :: "nat \<Rightarrow> nat \<Rightarrow> nat \<Rightarrow> byte list \<Rightarrow> byte list \<Rightarrow> byte list" where
  "reply_bytes room reply at addr port =
     (let hd = [5, of_nat reply, 0, of_nat at] in
      if room < 4 + length addr + 2 then take room hd else hd @ addr @ port)"

lemma server_reply_ok:
  assumes c: "w_clients w cid = Some c" and wf: "buffer_wf (client_buf c)" and d: "log_dest True c = Inr d"
    and at: "at = ATYP_IPV4 \<and> length addr = 4 \<or> at = ATYP_IPV6 \<and> length addr = 16" and port: "length port = 2"
  obtains b where "server_reply cid reply at addr port w =
      Inr (put_client cid (c\<lparr>client_buf := b\<rparr>)
        (w\<lparr>w_log := w_log w @ [Access_log (cstr (socks_user c)) (client_addr c) d reply]\<rparr>))"
    "buffer_wf b" "contents b = contents (client_buf c) @ reply_bytes (Buffer.space (client_buf c)) reply at addr port"
proof -
  let ?b0 = "client_buf c" and ?hd = "[server_version, of_nat reply, 0, of_nat at]"
  have len: "reply_addr_len at addr = length addr"
    using at by (auto simp: reply_addr_len_def atyp_codes)
  obtain b4 where w4: "buffer_writes ?hd ?b0 = Inr b4" and b4: "buffer_wf b4" "contents b4 = contents ?b0 @ take (Buffer.space ?b0) ?hd"
    "Buffer.space b4 = Buffer.space ?b0 - 4"
    using buffer_writes_ok [OF wf, of ?hd] by auto
  then obtain b1 b2 b3 where ws: "buffer_write ?b0 server_version = Inr b1" "buffer_write b1 (of_nat reply) = Inr b2"
    "buffer_write b2 0 = Inr b3" "buffer_write b3 (of_nat at) = Inr b4"
    by (auto simp: fault_simps)
  note run = server_reply_def [of cid reply at addr port w, unfolded get_client_def c log_access_info_def,
      simplified option.case bindE_Inr d ws buffer_write_ptr_wf [OF b4(1)] prod.case Let_def len]
  show thesis
  proof (cases "Buffer.space b4 < length addr + 2")
    case True
    then have "reply_bytes (Buffer.space ?b0) reply at addr port = take (Buffer.space ?b0) ?hd"
      using b4(3) at by (auto simp: reply_bytes_def server_version_def Let_def)
    then show thesis
      using that [of b4] True b4 run by simp
  next
    case False
    obtain b5 where b5: "buffer_put addr b4 = Inr b5" "buffer_wf b5" "contents b5 = contents b4 @ addr"
      "Buffer.space b5 = Buffer.space b4 - length addr" "buf_limit b5 = buf_limit b4"
      using buffer_put_ok [OF b4(1), of addr] False by auto
    obtain b6 where b6: "buffer_put port b5 = Inr b6" "buffer_wf b6" "contents b6 = contents b5 @ port"
      by (rule buffer_put_ok [OF b5(2), of port]) (use False b5(4) port in auto)
    have w5: "buf_write b5 = buf_write b4 + length addr"
      using b5(1) b4(1) by (auto simp: buffer_put_def buffer_write_adv_def fault_simps Let_def split: if_splits)
    have "server_reply cid reply at addr port w = Inr (put_client cid (c\<lparr>client_buf := b6\<rparr>)
        (w\<lparr>w_log := w_log w @ [Access_log (cstr (socks_user c)) (client_addr c) d reply]\<rparr>))"
      using run False b5(1) b6(1) b4(1) b5(2) w5 port
      by (auto simp: buffer_put_def fault_simps)
    moreover have "reply_bytes (Buffer.space ?b0) reply at addr port = ?hd @ addr @ port" "take (Buffer.space ?b0) ?hd = ?hd"
      using False b4(3) at by (auto simp: reply_bytes_def server_version_def Let_def)
    ultimately show thesis
      using that [of b6] b4(2) b5(3) b6 by simp
  qed
qed

lemma quiet_log: "quiet (w\<lparr>w_log := l\<rparr>) = quiet w"
  by (simp add: quiet_def fun_eq_iff)

lemma served_log:
  assumes "served cid c (w\<lparr>w_log := w_log w @ logs\<rparr>) r st ends rest out [] c'"
  shows "served cid c w r st ends rest out logs c'"
  using assms unfolding served_def tidy_def ends_quiet_def by (simp add: quiet_log)

lemma serving_log [simp]: "serving k cid c (w\<lparr>w_log := l\<rparr>) = serving k cid c w"
  by (simp add: serving_def proxy_fd_def)

lemma put_client_log: "put_client cid c (w\<lparr>w_log := l\<rparr>) = (put_client cid c w)\<lparr>w_log := l\<rparr>"
  by (simp add: put_client_def)

text \<open>Refusing a request: the reply is queued, logged, and the client's read end is closed.\<close>

lemma fail_reply_served:
  assumes s: "serving k cid c w" and c1: "client_wf c1" "client_sock c1 = client_sock c" "origin_sock c1 = origin_sock c"
    "stm_current c1 = stm_current c" "active_ends c1 = active_ends c" "client_buf c1 = client_buf c" "curr_freed c1 = curr_freed c"
    and d: "log_dest True c1 = Inr d"
  shows "\<exists>c'. served cid c w (fail_reply cid reply (put_client cid c1 w)) (fst (closing c)) (snd (closing c))
    (contents (origin_buf c1)) (reply_bytes (Buffer.space (client_buf c)) reply ATYP_IPV4 EMPTY_IP [0, 0])
    [Access_log (cstr (socks_user c1)) (client_addr c1) d reply] c'"
proof -
  let ?w = "put_client cid c1 w"
  let ?log = "[Access_log (cstr (socks_user c1)) (client_addr c1) d reply]"
  have w: "w_clients ?w cid = Some c1" "buffer_wf (client_buf c1)"
    using c1(1) by (simp_all add: put_client_def client_wf_def)
  obtain b where r: "server_reply cid reply ATYP_IPV4 EMPTY_IP [0, 0] ?w = Inr (put_client cid (c1\<lparr>client_buf := b\<rparr>)
      (?w\<lparr>w_log := w_log ?w @ ?log\<rparr>))" "buffer_wf b"
    "contents b = contents (client_buf c) @ reply_bytes (Buffer.space (client_buf c)) reply ATYP_IPV4 EMPTY_IP [0, 0]"
    by (rule server_reply_ok [OF w d, of ATYP_IPV4 EMPTY_IP "[0, 0]" reply]) (use c1(6) in \<open>auto simp: EMPTY_IP_def\<close>)
  have wf: "client_wf (c1\<lparr>client_buf := b\<rparr>)"
    using c1(1) r(2) by (simp add: client_wf_def)
  have "fail_reply cid reply ?w = closeClient cid CLIENT_READ (put_client cid (c1\<lparr>client_buf := b\<rparr>) (w\<lparr>w_log := w_log w @ ?log\<rparr>))"
    using r(1) by (simp add: fail_reply_def) (simp add: put_client_def)
  then show ?thesis
    using served_log close_served [of k cid c "w\<lparr>w_log := w_log w @ ?log\<rparr>", OF _ wf] s c1 r(3) by fastforce
qed

section \<open>Requests\<close>

text \<open>
  \<open>VER CMD RSV ATYP DST.ADDR DST.PORT\<close> of RFC 1928. The version byte is not looked at. The
  address is given without the length byte of a domain name.
\<close>

datatype request =
    Req_wait
  | Req_bad_atyp nat
  | Req byte nat "byte list" "byte list" "byte list"

definition parse_request :: "byte list \<Rightarrow> request" where
  "parse_request bs =
     (if length bs < 5 then Req_wait
      else let at = unat (bs ! 3) in
           case request_addr_len at (bs ! 4) of
             None \<Rightarrow> Req_bad_atyp at
           | Some n \<Rightarrow>
               if length bs < 6 + n then Req_wait
               else Req (bs ! 1) at
                      (if at = ATYP_DOMAIN_NAME then take (n - 1) (drop 5 bs) else take n (drop 4 bs))
                      (take 2 (drop (4 + n) bs)) (drop (6 + n) bs))"

text \<open>What a reader that saw \<open>bs\<close> remembers of the address type.\<close>

definition seen_atyp :: "client \<Rightarrow> byte list \<Rightarrow> client" where
  "seen_atyp c bs = (if length bs < 5 then c else c\<lparr>atyp := unat (bs ! 3)\<rparr>)"

lemma request_addr_len_pos: "request_addr_len at b = Some n \<Longrightarrow> 1 \<le> n"
  by (auto simp: request_addr_len_def split: if_splits)

lemma parse_request_append:
  assumes "parse_request bs = Req cmd at addr port rest"
  shows "parse_request (bs @ xs) = Req cmd at addr port (rest @ xs)"
proof -
  obtain n where n: "request_addr_len (unat (bs ! 3)) (bs ! 4) = Some n" "6 + n \<le> length bs"
    using assms by (auto simp: parse_request_def Let_def split: if_splits option.splits)
  then show ?thesis
    using assms request_addr_len_pos [OF n(1)]
    by (auto simp: parse_request_def Let_def nth_append split: if_splits)
qed

text \<open>Encoding a request and parsing it back.\<close>

fun addr_field :: "nat \<Rightarrow> byte list \<Rightarrow> byte list" where
  "addr_field at addr = (if at = ATYP_DOMAIN_NAME then of_nat (length addr) # addr else addr)"

lemma parse_request_encode:
  assumes "length port = 2" and "at = ATYP_IPV4 \<and> length addr = 4 \<or> at = ATYP_IPV6 \<and> length addr = 16
      \<or> at = ATYP_DOMAIN_NAME \<and> length addr < 256"
  shows "parse_request ([5, cmd, 0, of_nat at] @ addr_field at addr @ port @ rest) = Req cmd at addr port rest"
proof -
  have "unat (of_nat (length addr) :: byte) = length addr" if "length addr < 256"
    using that by (simp add: unat_of_nat)
  moreover have "drop (5 + m) (a # b # c # d # e # xs) = drop m xs" "drop (7 + m) (a # b # c # d # e # xs) = drop (2 + m) xs"
    for m and a b c d e :: byte and xs
    by (simp_all add: eval_nat_numeral)
  moreover obtain a as where "addr = a # as" if "at \<noteq> ATYP_DOMAIN_NAME"
    using assms(2) by (cases addr) auto
  ultimately show ?thesis
    using assms by (auto simp: parse_request_def request_addr_len_def atyp_codes Let_def)
qed

lemma read_proxy_request_short:
  assumes "receive k w = Inr (cid, c, False, w1)" and "buffer_wf (origin_buf c)" and "length (contents (origin_buf c)) < 5"
  shows "read_proxy_request k w = Inr (client_state c, w1)"
  using assms by (simp add: read_proxy_request_def)

text \<open>From five bytes on.\<close>

lemma read_proxy_request_long:
  assumes r: "receive k w = Inr (cid, c, False, w1)" and b: "buffer_wf (origin_buf c)"
    and w1: "w1 = put_client cid c w0" and len: "\<not> length (contents (origin_buf c)) < 5"
  defines "bs \<equiv> contents (origin_buf c)"
  defines "c1 \<equiv> c\<lparr>atyp := unat (bs ! 3)\<rparr>"
  shows "read_proxy_request k w = (case parse_request bs of
      Req_wait \<Rightarrow> Inr (client_state c, put_client cid c1 w0)
    | Req_bad_atyp at \<Rightarrow> fail_reply cid REPLY_ADDRESS_NOT_SUPPORTED (put_client cid c1 w0)
    | Req cmd at addr port rest \<Rightarrow>
        bindE (buffer_read_adv (origin_buf c) (int (length bs - length rest))) (\<lambda>b'.
        let c2 = c1\<lparr>origin_buf := b'\<rparr>; w2 = put_client cid c2 w0 in
        if cmd \<noteq> CONNECT then fail_reply cid REPLY_COMMAND_NOT_SUPPORTED w2
        else bindE (selector_remove_interest (client_sock c) OP_READ w2) (\<lambda>(_, w4).
          if at = ATYP_DOMAIN_NAME
          then if \<not> env_malloc (w_env w4) 0
               then fail_reply cid REPLY_SERVER_FAILURE (put_client cid (c2\<lparr>dest_fqdn := None\<rparr>) w4)
               else Inr (RESOLVING, put_client cid (c2\<lparr>dest_fqdn := Some (addr @ [0]), dest_port := port\<rparr>) w4)
          else set_numeric_target cid c2 (if at = ATYP_IPV4 then AF_INET else AF_INET6) addr port w4)))"
proof -
  let ?b = "origin_buf c"
  note at = arr_get_contents [OF b]
  have d: "arr_get (buf_data ?b) (buf_read ?b + 3) = Inr (bs ! 3)" "arr_get (buf_data ?b) (buf_read ?b + 4) = Inr (bs ! 4)"
    "arr_get (buf_data ?b) (buf_read ?b + 1) = Inr (bs ! 1)"
    using at [of 3] at [of 4] at [of 1] len unfolding bs_def by simp_all
  have st: "client_state c1 = client_state c" "client_state (c\<lparr>atyp := unat (bs ! 3)\<rparr>) = client_state c"
    by (simp_all add: c1_def client_state_def)
  note run = read_proxy_request_def [of k w, unfolded r, simplified bindE_Inr prod.case if_False
      buffer_read_ptr_wf [OF b] Let_def d, folded bs_def]
  show ?thesis
  proof (cases "request_addr_len (unat (bs ! 3)) (bs ! 4)")
    case None
    then show ?thesis
      using len by (simp add: run parse_request_def w1 c1_def Let_def flip: bs_def)
  next
    case (Some n)
    show ?thesis
    proof (cases "length bs < 6 + n")
      case True
      then show ?thesis
        using len Some by (simp add: run parse_request_def w1 c1_def st Let_def flip: bs_def)
    next
      case False
      note sl = contents_slice [OF b, folded bs_def]
      have sl3: "take 2 (drop (buf_read ?b + 4 + n) (buf_data ?b)) = take 2 (drop (4 + n) bs)"
        "take (n - 1) (drop (buf_read ?b + 5) (buf_data ?b)) = take (n - 1) (drop 5 bs)"
        using False request_addr_len_pos [OF Some] sl [of "4 + n" 2] sl [of 5 "n - 1"] by (simp_all add: add.assoc)
      have num: "take 4 (drop (buf_read ?b + 4) (buf_data ?b)) = take n (drop 4 bs)" if "unat (bs ! 3) = ATYP_IPV4"
        using that Some False sl [of 4 4] by (auto simp: request_addr_len_def)
      have num6: "take 16 (drop (buf_read ?b + 4) (buf_data ?b)) = take n (drop 4 bs)"
        if "unat (bs ! 3) \<noteq> ATYP_IPV4" "unat (bs ! 3) \<noteq> ATYP_DOMAIN_NAME"
        using that Some False sl [of 4 16] by (auto simp: request_addr_len_def split: if_splits)
      have parse: "parse_request bs = Req (bs ! 1) (unat (bs ! 3))
          (if unat (bs ! 3) = ATYP_DOMAIN_NAME then take (n - 1) (drop 5 bs) else take n (drop 4 bs))
          (take 2 (drop (4 + n) bs)) (drop (6 + n) bs)"
        using len Some False by (simp add: parse_request_def Let_def flip: bs_def)
      have adv: "length bs - length (drop (6 + n) bs) = n + 6"
        using False by simp
      show ?thesis
        unfolding run parse request.case adv using len Some False sl3 num num6
        by (simp add: w1 c1_def Let_def case_prod_beta' flip: bs_def cong: if_cong)
    qed
  qed
qed

lemma parse_request_rest:
  assumes "parse_request bs = Req cmd at addr port rest"
  shows "rest = drop (length bs - length rest) bs" and "5 \<le> length bs" and "at = unat (bs ! 3)"
    and "at = ATYP_IPV4 \<or> at = ATYP_IPV6 \<or> at = ATYP_DOMAIN_NAME"
  using assms by (auto simp: parse_request_def request_addr_len_def Let_def split: if_splits option.splits)

text \<open>What a client becomes by a complete CONNECT request.\<close>

definition targeted :: "nat \<Rightarrow> byte list \<Rightarrow> byte list \<Rightarrow> client \<Rightarrow> bool" where
  "targeted at addr port c \<longleftrightarrow> atyp c = at \<and>
     (if at = ATYP_DOMAIN_NAME then dest_fqdn c = Some (addr @ [0]) \<and> dest_port c = port
      else curr_addr c = [numeric_target (if at = ATYP_IPV4 then AF_INET else AF_INET6) addr port])"

lemma remove_served:
  assumes s: "serving k cid c w" and c1: "client_wf c1" "client_sock c1 = client_sock c" "origin_sock c1 = origin_sock c"
    "stm_current c1 = stm_current c" "active_ends c1 = active_ends c" "client_buf c1 = client_buf c" "curr_freed c1 = curr_freed c"
  obtains st w4 where "selector_remove_interest (client_sock c) OP_READ (put_client cid cc w) = Inr (st, w4)"
    "w_env w4 = w_env w" "quiet w4 (client_sock c) OP_READ" "registered w4 = (registered w)(client_sock c :=
      map_option (\<lambda>it. it\<lparr>it_interest := it_interest it AND NOT OP_READ\<rparr>) (registered w (client_sock c)))"
    "\<And>nxt. served cid c w (Inr (nxt, put_client cid c1 w4)) nxt (active_ends c) (contents (origin_buf c1)) [] [] c1"
proof -
  let ?w = "put_client cid cc w"
  have wf: "sel_wf ?w" using s by (simp add: serving_def)
  obtain st w4 where w4: "selector_remove_interest (client_sock c) OP_READ ?w = Inr (st, w4)" "touches {client_sock c} ?w w4"
    "w_clients w4 = w_clients ?w"
    "registered w4 = (registered ?w)(client_sock c := map_option (\<lambda>it. it\<lparr>it_interest := it_interest it AND NOT OP_READ\<rparr>)
      (registered ?w (client_sock c)))"
    by (rule remove_touches [OF wf]) blast
  have t: "touches {client_sock c, origin_sock c} w w4"
    using touches_mono [OF w4(2), of "{client_sock c, origin_sock c}"] unfolding touches_def by (simp add: put_client_def)
  have "quiet w4 (client_sock c) OP_READ" and "\<And>fd op. quiet w fd op \<Longrightarrow> quiet w4 fd op"
    unfolding quiet_def w4(4) by (auto simp: hasFlag_bit bit_and_iff bit_not_iff_eq split: if_splits)
  moreover from this(2) have "tidy c w c1 (put_client cid c1 w4)"
    using c1 by (simp add: tidy_def ends_quiet_def gone_def)
  moreover have "w_env w4 = w_env w"
    using t by (simp add: touches_def)
  moreover have "w_clients (put_client cid c1 w4) = (w_clients w)(cid \<mapsto> c1)"
    using w4(3) by (simp add: put_client_def)
  moreover have "registered w4 = (registered w)(client_sock c :=
      map_option (\<lambda>it. it\<lparr>it_interest := it_interest it AND NOT OP_READ\<rparr>) (registered w (client_sock c)))"
    using w4(4) by (simp add: put_client_def)
  ultimately show thesis
    using that [OF w4(1)] t c1 unfolding served_def by simp
qed

lemma read_proxy_request_connect:
  assumes s: "serving k cid c w" and fd: "key_fd k = client_sock c" and up: "\<not> hung_up c w"
    and req: "parse_request (received c w) = Req CONNECT at addr port rest"
    and mem: "env_malloc (w_env w) 0" "env_malloc (w_env w) 1"
  shows "\<exists>c'. served cid c w (read_proxy_request k w) (if at = ATYP_DOMAIN_NAME then RESOLVING else CONNECTING)
      (active_ends c) rest [] [] c' \<and> targeted at addr port c'"
    and "\<exists>w'. read_proxy_request k w = Inr (if at = ATYP_DOMAIN_NAME then RESOLVING else CONNECTING, w')
      \<and> quiet w' (client_sock c) OP_READ \<and> registered w' = (registered w)(client_sock c :=
        map_option (\<lambda>it. it\<lparr>it_interest := it_interest it AND NOT OP_READ\<rparr>) (registered w (client_sock c)))"
proof -
  obtain b where r: "receive k w = Inr (cid, c\<lparr>origin_buf := b\<rparr>, False, put_client cid (c\<lparr>origin_buf := b\<rparr>) w)"
    and b: "buffer_wf b" "contents b = received c w"
    using receive_ok [OF s fd] up by metis
  let ?bs = "received c w"
  note p = parse_request_rest [OF req]
  obtain b' where b': "buffer_read_adv b (int (length ?bs - length rest)) = Inr b'" "buffer_wf b'" "contents b' = rest"
    by (rule buffer_read_adv_ok [OF b(1), of "length ?bs - length rest"]) (use b(2) p(1) in auto)
  let ?c2 = "c\<lparr>atyp := at, origin_buf := b'\<rparr>"
  define c3 where "c3 = (if at = ATYP_DOMAIN_NAME then ?c2\<lparr>dest_fqdn := Some (addr @ [0]), dest_port := port\<rparr>
    else ?c2\<lparr>curr_addr := [numeric_target (if at = ATYP_IPV4 then AF_INET else AF_INET6) addr port]\<rparr>)"
  have c3: "client_wf c3" "client_sock c3 = client_sock c" "origin_sock c3 = origin_sock c" "stm_current c3 = stm_current c"
    "active_ends c3 = active_ends c" "client_buf c3 = client_buf c" "curr_freed c3 = curr_freed c"
    "contents (origin_buf c3) = rest" "targeted at addr port c3"
    using s b'(2,3) by (simp_all add: c3_def serving_def client_wf_def targeted_def)
  obtain st w4 where w4: "selector_remove_interest (client_sock c) OP_READ (put_client cid ?c2 w) = Inr (st, w4)"
    "w_env w4 = w_env w" "quiet w4 (client_sock c) OP_READ" "registered w4 = (registered w)(client_sock c :=
      map_option (\<lambda>it. it\<lparr>it_interest := it_interest it AND NOT OP_READ\<rparr>) (registered w (client_sock c)))"
    and sv: "\<And>nxt. served cid c w (Inr (nxt, put_client cid c3 w4)) nxt (active_ends c) (contents (origin_buf c3)) [] [] c3"
    by (rule remove_served [OF s c3(1-7), where cc = ?c2]) auto
  have len: "\<not> length (contents (origin_buf (c\<lparr>origin_buf := b\<rparr>))) < 5" and b0: "buffer_wf (origin_buf (c\<lparr>origin_buf := b\<rparr>))"
    using p(2) b by simp_all
  have run: "read_proxy_request k w = Inr (if at = ATYP_DOMAIN_NAME then RESOLVING else CONNECTING, put_client cid c3 w4)"
    using read_proxy_request_long [OF r b0 refl len] b b'(1) req w4(1,2) p(3) mem
    by (simp add: set_numeric_target_def c3_def Let_def)
  then show "\<exists>c'. served cid c w (read_proxy_request k w) (if at = ATYP_DOMAIN_NAME then RESOLVING else CONNECTING)
      (active_ends c) rest [] [] c' \<and> targeted at addr port c'"
    using sv c3(8,9) by metis
  show "\<exists>w'. read_proxy_request k w = Inr (if at = ATYP_DOMAIN_NAME then RESOLVING else CONNECTING, w')
      \<and> quiet w' (client_sock c) OP_READ \<and> registered w' = (registered w)(client_sock c :=
        map_option (\<lambda>it. it\<lparr>it_interest := it_interest it AND NOT OP_READ\<rparr>) (registered w (client_sock c)))"
    using run w4(3,4) by simp
qed

text \<open>Everything else: end of input, an incomplete message, an unknown address type, another command.\<close>

definition request_failure :: "client \<Rightarrow> world \<Rightarrow> (nat \<times> byte list) option" where
  "request_failure c w =
     (if hung_up c w then Some (REPLY_COMMAND_NOT_SUPPORTED, received c w)
      else case parse_request (received c w) of
        Req_wait \<Rightarrow> None
      | Req_bad_atyp at \<Rightarrow> Some (REPLY_ADDRESS_NOT_SUPPORTED, received c w)
      | Req cmd at addr port rest \<Rightarrow> if cmd \<noteq> CONNECT then Some (REPLY_COMMAND_NOT_SUPPORTED, rest) else None)"

definition judged :: "client \<Rightarrow> world \<Rightarrow> client" where
  "judged c w = (if hung_up c w then c else seen_atyp c (received c w))"

lemma log_dest_origin [simp]: "log_dest z (c\<lparr>origin_buf := b\<rparr>) = log_dest z c"
  "log_dest z (c\<lparr>atyp := a, origin_buf := b\<rparr>) = log_dest z (c\<lparr>atyp := a\<rparr>)"
  by (simp_all add: log_dest_def split: option.split)

lemma request_failure_run:
  assumes s: "serving k cid c w" and fd: "key_fd k = client_sock c" and f: "request_failure c w = Some (code, rest)"
  obtains b where "buffer_wf b" "contents b = rest"
    "read_proxy_request k w = fail_reply cid code (put_client cid ((judged c w)\<lparr>origin_buf := b\<rparr>) w)"
proof -
  obtain b where r: "receive k w = Inr (cid, c\<lparr>origin_buf := b\<rparr>, hung_up c w, put_client cid (c\<lparr>origin_buf := b\<rparr>) w)"
    and b: "buffer_wf b" "contents b = received c w"
    by (rule receive_ok [OF s fd])
  let ?bs = "received c w" and ?c = "c\<lparr>origin_buf := b\<rparr>"
  show thesis
  proof (cases "hung_up c w")
    case True
    with f have "code = REPLY_COMMAND_NOT_SUPPORTED" "rest = ?bs" by (simp_all add: request_failure_def)
    with True show thesis
      using that [OF b(1)] b(2) r by (simp add: judged_def read_proxy_request_def)
  next
    case False
    have nw: "parse_request ?bs \<noteq> Req_wait" using f False by (auto simp: request_failure_def)
    then have len: "\<not> length ?bs < 5" by (auto simp: parse_request_def)
    then have j: "(judged c w)\<lparr>origin_buf := b'\<rparr> = ?c\<lparr>atyp := unat (?bs ! 3), origin_buf := b'\<rparr>" for b'
      using False by (simp add: judged_def seen_atyp_def)
    have swap: "c\<lparr>atyp := a, origin_buf := b\<rparr> = c\<lparr>origin_buf := b, atyp := a\<rparr>" for a b
      by (cases c) simp
    note run = read_proxy_request_long [of k w cid ?c, OF _ _ refl]
    show thesis
    proof (cases "parse_request ?bs")
      case (Req_bad_atyp at)
      with f False have "code = REPLY_ADDRESS_NOT_SUPPORTED" "rest = ?bs" by (simp_all add: request_failure_def)
      then show thesis
        using that [OF b(1)] run len r b False Req_bad_atyp j [of b] swap by simp
    next
      case (Req cmd at addr port rest')
      with f False have fc: "code = REPLY_COMMAND_NOT_SUPPORTED" "rest = rest'" "cmd \<noteq> CONNECT"
        by (auto simp: request_failure_def split: if_splits)
      obtain b' where b': "buffer_read_adv b (int (length ?bs - length rest)) = Inr b'" "buffer_wf b'" "contents b' = rest"
        by (rule buffer_read_adv_ok [OF b(1), of "length ?bs - length rest"])
          (use b(2) parse_request_rest(1) [OF Req] fc(2) in auto)
      then show thesis
        using that [OF b'(2,3)] run len r b False Req fc j [of b'] by simp
    qed (use nw in simp)
  qed
qed

lemma judged_fields [simp]:
  "client_sock (judged c w) = client_sock c" "origin_sock (judged c w) = origin_sock c" "stm_current (judged c w) = stm_current c"
  "active_ends (judged c w) = active_ends c" "client_buf (judged c w) = client_buf c" "dest_fqdn (judged c w) = dest_fqdn c"
  "socks_user (judged c w) = socks_user c" "client_addr (judged c w) = client_addr c" "client_wf (judged c w) = client_wf c"
  "curr_freed (judged c w) = curr_freed c"
  by (simp_all add: judged_def seen_atyp_def client_wf_def)

lemma read_proxy_request_refused:
  assumes s: "serving k cid c w" and fd: "key_fd k = client_sock c" and f: "request_failure c w = Some (code, rest)"
    and d: "log_dest True (judged c w) = Inr d"
  shows "\<exists>c'. served cid c w (read_proxy_request k w) (fst (closing c)) (snd (closing c)) rest
    (reply_bytes (Buffer.space (client_buf c)) code ATYP_IPV4 EMPTY_IP [0, 0])
    [Access_log (cstr (socks_user c)) (client_addr c) d code] c'"
proof -
  obtain b where b: "buffer_wf b" "contents b = rest"
    "read_proxy_request k w = fail_reply cid code (put_client cid ((judged c w)\<lparr>origin_buf := b\<rparr>) w)"
    by (rule request_failure_run [OF s fd f])
  have wf: "client_wf ((judged c w)\<lparr>origin_buf := b\<rparr>)"
    using s b(1) by (simp add: serving_def)
  show ?thesis
    using fail_reply_served [OF s wf, of d code] d b by simp
qed

lemma read_proxy_request_faulted:
  assumes s: "serving k cid c w" and fd: "key_fd k = client_sock c" and f: "request_failure c w = Some (code, rest)"
    and d: "log_dest True (judged c w) = Inl e"
  shows "read_proxy_request k w = Inl e"
proof -
  obtain b where b: "read_proxy_request k w = fail_reply cid code (put_client cid ((judged c w)\<lparr>origin_buf := b\<rparr>) w)"
    using request_failure_run [OF s fd f] by metis
  show ?thesis
    unfolding b fail_reply_def server_reply_def using d by (simp add: log_access_info_def)
qed

text \<open>
  The error path of a request for a domain name logs a name that was never stored: a
  null pointer is read, whatever the rest of the state.
\<close>

lemma read_proxy_request_null:
  assumes s: "serving k cid c w" and fd: "key_fd k = client_sock c" and f: "request_failure c w = Some (code, rest)"
    and dn: "atyp (judged c w) = ATYP_DOMAIN_NAME" "dest_fqdn c = None"
  shows "read_proxy_request k w = Inl Null_deref"
  by (rule read_proxy_request_faulted [OF s fd f]) (use dn in \<open>simp add: log_dest_def\<close>)

lemma read_proxy_request_waits:
  assumes s: "serving k cid c w" and fd: "key_fd k = client_sock c" and up: "\<not> hung_up c w"
    and req: "parse_request (received c w) = Req_wait"
  shows "\<exists>c'. served cid c w (read_proxy_request k w) (client_state c) (active_ends c) (received c w) [] [] c'"
proof -
  obtain b where r: "receive k w = Inr (cid, c\<lparr>origin_buf := b\<rparr>, False, put_client cid (c\<lparr>origin_buf := b\<rparr>) w)"
    and b: "buffer_wf b" "contents b = received c w"
    using receive_ok [OF s fd] up by metis
  let ?c = "c\<lparr>origin_buf := b\<rparr>"
  have wf: "client_wf ?c" "client_wf (?c\<lparr>atyp := a\<rparr>)" for a
    using s b(1) by (simp_all add: serving_def client_wf_def)
  show ?thesis
  proof (cases "length (received c w) < 5")
    case True
    then show ?thesis
      using read_proxy_request_short [OF r] b wait_served [OF s wf(1)] by auto
  next
    case False
    then have "read_proxy_request k w = Inr (client_state c, put_client cid (?c\<lparr>atyp := unat (received c w ! 3)\<rparr>) w)"
      using read_proxy_request_long [OF r _ refl] b req by simp
    then show ?thesis
      using wait_served [OF s wf(2)] b by auto
  qed
qed

section \<open>What a client encodes is what is read\<close>

text \<open>The three readers on a message as RFC 1928 and RFC 1929 have a client build it, with anything behind it.\<close>

lemma byte_of_length: "n < 256 \<Longrightarrow> unat (of_nat n :: byte) = n"
  by (simp add: unat_of_nat take_bit_nat_eq_self)

lemma choose_method_wanted: "choose_method n ms = (let m = (if n = 0 then 0 else 2) in if m \<in> set ms then Some m else None)"
proof -
  have "choose_method n ms = None \<longleftrightarrow> (\<forall>m. choose_method n ms \<noteq> Some m)" by (cases "choose_method n ms") auto
  then show ?thesis using choose_method_iff [of n ms] by (auto simp: Let_def)
qed

lemma hello_read_back:
  assumes "serving k cid c w" and "key_fd k = client_sock c" and "\<not> hung_up c w"
  shows "length ms < 256 \<and> received c w = [5, of_nat (length ms)] @ ms @ rest \<longrightarrow>
    (\<exists>c'. if (if user_count (w_users w) = 0 then 0 else 2) \<in> set ms
      then served cid c w (read_auth_method k w) (if (if user_count (w_users w) = 0 then 0 else 2 :: byte) = 0 then REQUEST else PLAIN_AUTH)
        (active_ends c) rest (take (Buffer.space (client_buf c)) [5, if user_count (w_users w) = 0 then 0 else 2]) [] c'
      else served cid c w (read_auth_method k w) (fst (closing c)) (snd (closing c)) rest
        (take (Buffer.space (client_buf c)) [5, 255]) [] c')"
proof
  assume h: "length ms < 256 \<and> received c w = [5, of_nat (length ms)] @ ms @ rest"
  let ?n = "user_count (w_users w)"
  have "parse_hello ?n (received c w) = Some (choose_method ?n ms, rest)"
    using h by (simp add: parse_hello_def byte_of_length)
  then show "\<exists>c'. if (if ?n = 0 then 0 else 2) \<in> set ms
      then served cid c w (read_auth_method k w) (if (if ?n = 0 then 0 else 2 :: byte) = 0 then REQUEST else PLAIN_AUTH)
        (active_ends c) rest (take (Buffer.space (client_buf c)) [5, if ?n = 0 then 0 else 2]) [] c'
      else served cid c w (read_auth_method k w) (fst (closing c)) (snd (closing c)) rest
        (take (Buffer.space (client_buf c)) [5, 255]) [] c'"
    using read_auth_method_ok [OF assms(1,2)] assms(3)
    by (simp add: choose_method_wanted Let_def hello_state_def hello_reply_def split: if_splits; blast)
qed

lemma auth_read_back:
  assumes "serving k cid c w" and "key_fd k = client_sock c" and "\<not> hung_up c w"
  shows "length user < 256 \<and> length pass < 256 \<and> received c w = [1, of_nat (length user)] @ user @ [of_nat (length pass)] @ pass @ rest \<longrightarrow>
    (\<exists>c'. if (cstr user, cstr pass) \<in> set (user_entries (w_users w))
      then served cid c w (read_plain_auth k w) REQUEST (active_ends c) rest (take (Buffer.space (client_buf c)) [1, 0]) [] c'
        \<and> cstr (socks_user c') = cstr user
      else served cid c w (read_plain_auth k w) (fst (closing c)) (snd (closing c)) rest (take (Buffer.space (client_buf c)) [1, 1]) [] c')"
proof
  assume h: "length user < 256 \<and> length pass < 256 \<and> received c w = [1, of_nat (length user)] @ user @ [of_nat (length pass)] @ pass @ rest"
  have p: "parse_auth (received c w) = Some (1, user, pass, rest)"
    using h parse_auth_encode [of user "of_nat (length user)" pass "of_nat (length pass)" 1 rest] by (simp add: byte_of_length)
  have "\<not> cut_after_name (received c w)"
    using h by (simp add: cut_after_name_def byte_of_length)
  then show "\<exists>c'. if (cstr user, cstr pass) \<in> set (user_entries (w_users w))
      then served cid c w (read_plain_auth k w) REQUEST (active_ends c) rest (take (Buffer.space (client_buf c)) [1, 0]) [] c'
        \<and> cstr (socks_user c') = cstr user
      else served cid c w (read_plain_auth k w) (fst (closing c)) (snd (closing c)) rest (take (Buffer.space (client_buf c)) [1, 1]) [] c'"
    using read_plain_auth_ok [OF assms(1,2)] assms(3) p
    by (simp add: authentic_def auth_state_def auth_reply_def split: if_splits)
qed

lemma connect_read_back:
  assumes "serving k cid c w" and "key_fd k = client_sock c" and "\<not> hung_up c w"
  shows "length port = 2 \<and> (at = ATYP_IPV4 \<and> length addr = 4 \<or> at = ATYP_IPV6 \<and> length addr = 16 \<or> at = ATYP_DOMAIN_NAME \<and> length addr < 256)
      \<and> received c w = [5, CONNECT, 0, of_nat at] @ addr_field at addr @ port @ rest \<and> env_malloc (w_env w) 0 \<and> env_malloc (w_env w) 1 \<longrightarrow>
    (\<exists>c'. served cid c w (read_proxy_request k w) (if at = ATYP_DOMAIN_NAME then RESOLVING else CONNECTING)
       (active_ends c) rest [] [] c' \<and> targeted at addr port c')"
proof
  assume h: "length port = 2 \<and> (at = ATYP_IPV4 \<and> length addr = 4 \<or> at = ATYP_IPV6 \<and> length addr = 16 \<or> at = ATYP_DOMAIN_NAME \<and> length addr < 256)
      \<and> received c w = [5, CONNECT, 0, of_nat at] @ addr_field at addr @ port @ rest \<and> env_malloc (w_env w) 0 \<and> env_malloc (w_env w) 1"
  then have "parse_request (received c w) = Req CONNECT at addr port rest"
    using parse_request_encode [of port at addr CONNECT rest] by metis
  from read_proxy_request_connect(1) [OF assms this] h
  show "\<exists>c'. served cid c w (read_proxy_request k w) (if at = ATYP_DOMAIN_NAME then RESOLVING else CONNECTING)
       (active_ends c) rest [] [] c' \<and> targeted at addr port c'" by simp
qed

end
