(* ===== verification/Clients.thy ===== *)
theory Clients
  imports Handshake
begin

text \<open>
  \<open>src/clients.c\<close>: the life of a proxied connection after the handshake's readers. It is
  created by \<open>master_read_handler\<close>, resolves a name in a thread, connects to one of the addresses,
  relays in both directions and is destroyed on arrival in \<open>DONE\<close>. The states and their callbacks
  are the table \<open>state_actions\<close>, driven by the engine of \<open>stm.c\<close>.
\<close>

section \<open>Creation\<close>

definition no_addr :: sockaddr where
  "no_addr = \<lparr>sa_family = 0, sa_addr = [], sa_port = []\<rparr>"

text \<open>
  The compound literal of \<open>create_client\<close> with the two buffers initialised and \<open>socks_user\<close> set
  to \<open>?\<close>. Fields that are not named are zero.
\<close>

definition fresh_client :: "int \<Rightarrow> nat \<Rightarrow> byte list \<Rightarrow> byte list \<Rightarrow> nat option \<Rightarrow> client" where
  "fresh_client sock n raw1 raw2 cur =
     \<lparr>client_sock = sock, origin_sock = -1, client_addr = no_addr, atyp = 0,
      client_buf = buffer_init n raw1, origin_buf = buffer_init n raw2,
      socks_user = [63, 0] @ replicate (MAX_CREDENTIALS - 2) 0, active_ends = CLIENT,
      dest_fqdn = None, dest_port = [0, 0], resolution = [], curr_addr = [], curr_freed = False,
      stm_current = cur, pop3_parser = None\<rparr>"

section \<open>Name resolution\<close>

definition start_name_resolution :: "nat \<Rightarrow> key \<Rightarrow> world \<Rightarrow> world run" where
  "start_name_resolution st k w =
     bindE (ATTACHMENT k) (\<lambda>cid.
     Inr (if env_thread (w_env w)
          then emit (Spawn_resolver cid) (w\<lparr>w_threads := w_threads w @ [cid]\<rparr>)
          else w))"

text \<open>
  The body of the thread, at the moment it stores its result. \<open>gai\<close> is \<open>getaddrinfo\<close> with the
  hints of the code (any family, stream sockets); it takes the name and the port in decimal and
  answers with the list of addresses, or \<open>None\<close> for an error, which leaves \<open>resolution\<close> alone.
\<close>

definition thread_name_resolution ::
  "(byte list option \<Rightarrow> nat \<Rightarrow> addrinfo list option) \<Rightarrow> nat \<Rightarrow> world \<Rightarrow> world run" where
  "thread_name_resolution gai cid w =
     bindE (get_client cid w) (\<lambda>c.
     let w1 = (case gai (map_option cstr (dest_fqdn c)) (ntohs (dest_port c)) of
                 None \<Rightarrow> w
               | Some res \<Rightarrow> put_client cid (c\<lparr>resolution := res\<rparr>) w);
         w2 = snd (selector_notify_block (env_malloc (w_env w1) 0) (client_sock c) w1)
     in Inr (w2\<lparr>w_threads := remove1 cid (w_threads w2)\<rparr>))"

definition handle_finished_resolution :: "key \<Rightarrow> world \<Rightarrow> (nat \<times> world) run" where
  "handle_finished_resolution k w =
     bindE (ATTACHMENT k) (\<lambda>cid.
     bindE (get_client cid w) (\<lambda>c.
     Inr (CONNECTING, put_client cid (c\<lparr>curr_addr := resolution c\<rparr>) w)))"

section \<open>Connecting\<close>

definition create_connection :: "nat \<Rightarrow> key \<Rightarrow> world \<Rightarrow> world run" where
  "create_connection st k w =
     bindE (ATTACHMENT k) (\<lambda>cid.
     bindE (get_client cid w) (\<lambda>c.
     bindE (selector_add_interest (client_sock c) OP_WRITE w) (\<lambda>(_, w1). Inr w1)))"

definition EADDRNOTAVAIL :: int where "EADDRNOTAVAIL = 99"
definition ENETUNREACH :: int where "ENETUNREACH = 101"
definition ECONNRESET :: int where "ECONNRESET = 104"
definition ETIMEDOUT :: int where "ETIMEDOUT = 110"
definition ECONNREFUSED :: int where "ECONNREFUSED = 111"
definition EHOSTUNREACH :: int where "EHOSTUNREACH = 113"
definition EINPROGRESS :: int where "EINPROGRESS = 115"

lemmas errno_codes = EADDRNOTAVAIL_def ENETUNREACH_def ECONNRESET_def ETIMEDOUT_def ECONNREFUSED_def
  EHOSTUNREACH_def EINPROGRESS_def

definition check_connection_error :: "int \<Rightarrow> nat" where
  "check_connection_error err =
     (if err = EADDRNOTAVAIL then REPLY_ADDRESS_NOT_SUPPORTED
      else if err = ECONNRESET then REPLY_NOT_ALLOWED
      else if err = ECONNREFUSED then REPLY_CONNECTION_REFUSED
      else if err = ENETUNREACH then REPLY_NETWORK_UNREACHABLE
      else if err = EHOSTUNREACH then REPLY_HOST_UNREACHABLE
      else if err = ETIMEDOUT then REPLY_TTL_EXPIRED
      else REPLY_SERVER_FAILURE)"

text \<open>
  \<open>selector_register\<close> as the proxy calls it. The table never has to grow for a valid descriptor,
  so what \<open>realloc\<close> answers does not matter.
\<close>

definition register_client :: "int \<Rightarrow> flags \<Rightarrow> nat \<Rightarrow> world \<Rightarrow> (selector_status \<times> world) run" where
  "register_client fd interest cid w =
     selector_register (\<lambda>_. True) zero_item fd (Some socks5_handler) interest (Some (A_client cid)) w"

text \<open>\<open>curr_addr\<close> as a pointer that is about to be dereferenced.\<close>

definition deref_addr :: "client \<Rightarrow> addrinfo run" where
  "deref_addr c =
     (if curr_freed c then Inl Use_after_free
      else case curr_addr c of [] \<Rightarrow> Inl Null_deref | a # _ \<Rightarrow> Inr a)"

definition try_connect :: "nat \<Rightarrow> world \<Rightarrow> (nat \<times> world) run" where
  "try_connect cid w =
     bindE (get_client cid w) (\<lambda>c.
     assertE (curr_addr c \<noteq> [])
       (bindE (deref_addr c) (\<lambda>a.
        let sock = env_socket (w_env w);
            c1 = c\<lparr>origin_sock := sock\<rparr>;
            w1 = put_client cid c1 w in
        if sock \<ge> 0
        then let err = env_connect (w_env w) in
             if err = 0 \<or> err = EINPROGRESS
             then bindE (register_client sock OP_WRITE cid w1) (\<lambda>(st, w2).
                  if st \<noteq> SELECTOR_SUCCESS
                  then fail_reply cid REPLY_SERVER_FAILURE (emit (Close sock) w2)
                  else Inr (CONNECTING, w2))
             else fail_reply cid (check_connection_error err) w1
        else fail_reply cid REPLY_SERVER_FAILURE w1)))"

definition POP3_PORT :: nat where "POP3_PORT = 110"

text \<open>\<open>malloc(sizeof(pop3_parser))\<close> and \<open>init_parser\<close>: the arrays hold whatever was there.\<close>

definition new_parser :: "sysenv \<Rightarrow> nat \<Rightarrow> pop3_parser option" where
  "new_parser e i =
     (if env_malloc e i
      then Some (init_parser \<lparr>pop_state = POP3_USER_CMD, password_complete = False, user_complete = False,
                   pop_user = env_junk e MAX_CREDENTIALS_LEN, pop_pass = env_junk e MAX_CREDENTIALS_LEN,
                   pop_buf = buffer_init 0 [], read_ptr = 0, write_ptr = 0\<rparr>)
      else None)"

text \<open>The second test of the family repeats the first, so an IPv6 port is never looked at.\<close>

definition connected_port :: "addrinfo \<Rightarrow> nat" where
  "connected_port a =
     (if ai_family a = AF_INET then ntohs (sa_port (ai_addr a))
      else if ai_family a = AF_INET then ntohs (sa_port (ai_addr a))
      else 0)"

definition origin_check_connection :: "key \<Rightarrow> world \<Rightarrow> (nat \<times> world) run" where
  "origin_check_connection k w =
     bindE (ATTACHMENT k) (\<lambda>cid.
     bindE (get_client cid w) (\<lambda>c.
     if key_fd k = client_sock c
     then bindE (selector_remove_interest (client_sock c) OP_WRITE w) (\<lambda>(_, w1).
          if curr_addr c = [] then fail_reply cid REPLY_HOST_UNREACHABLE w1
          else try_connect cid w1)
     else let err = env_so_error (w_env w) in
     if err = 0
     then bindE (deref_addr c) (\<lambda>a.
          let c1 = c\<lparr>active_ends := active_ends c OR ORIGIN\<rparr>;
              w1 = put_client cid c1 w in
          bindE (selector_set_interest (origin_sock c) (OP_READ OR OP_WRITE) w1) (\<lambda>(_, w2).
          bindE (selector_set_interest (client_sock c) (OP_READ OR OP_WRITE) w2) (\<lambda>(_, w3).
          let sn = env_sockname (w_env w) in
          bindE (server_reply cid REPLY_SUCCEEDED (if ai_family a = AF_INET then ATYP_IPV4 else ATYP_IPV6)
                   (sa_addr sn) (sa_port sn) w3) (\<lambda>w4.
          bindE (get_client cid w4) (\<lambda>c4.
          Inr (PROXY, put_client cid (if connected_port a = POP3_PORT
                                      then c4\<lparr>pop3_parser := new_parser (w_env w) 0\<rparr> else c4) w4)))))
          )
     else bindE (unregister (origin_sock c) w) (\<lambda>(_, w1).
          bindE (deref_addr c) (\<lambda>a.
          if tl (curr_addr c) \<noteq> []
          then try_connect cid (put_client cid (c\<lparr>curr_addr := tl (curr_addr c)\<rparr>) w1)
          else fail_reply cid (check_connection_error err) w1))))"

section \<open>Relaying\<close>

text \<open>
  The sniffer looks at the request buffer after every read from the client. \<open>pop3_parse\<close> resets
  the parser when it has both credentials; the strings stay in its arrays.
\<close>

definition sniff :: "nat \<Rightarrow> world \<Rightarrow> world run" where
  "sniff cid w =
     bindE (get_client cid w) (\<lambda>c.
     case pop3_parser c of
       None \<Rightarrow> Inr w
     | Some p \<Rightarrow>
         if get_dissector_state (w_state w)
         then bindE (pop3_parse p (origin_buf c)) (\<lambda>(found, p1).
              let c1 = c\<lparr>pop3_parser := Some p1\<rparr>;
                  w1 = put_client cid c1 w in
              if found then log_sniffer_info c1 (pop_user p1) (pop_pass p1) w1 else Inr w1)
         else Inr w)"

definition handle_proxy_read :: "key \<Rightarrow> world \<Rightarrow> (nat \<times> world) run" where
  "handle_proxy_read k w =
     bindE (ATTACHMENT k) (\<lambda>cid.
     bindE (get_client cid w) (\<lambda>c.
     if client_sock c = key_fd k
     then if \<not> buffer_can_write (origin_buf c)
          then bindE (selector_mask_interest (client_sock c) OP_READ w) (\<lambda>(_, w1). Inr (client_state c, w1))
          else bindE (read_from_sock (env_read (w_env w)) (origin_buf c)) (\<lambda>(n, err, b).
               let w1 = put_client cid (c\<lparr>origin_buf := b\<rparr>) w in
               if checkEOF n err then closeClient cid CLIENT_READ w1
               else bindE (selector_unmask_interest (origin_sock c) OP_WRITE w1) (\<lambda>(_, w2).
                    bindE (sniff cid w2) (\<lambda>w3. Inr (client_state c, w3))))
     else if origin_sock c = key_fd k
     then if \<not> buffer_can_write (client_buf c)
          then bindE (selector_mask_interest (origin_sock c) OP_READ w) (\<lambda>(_, w1). Inr (client_state c, w1))
          else bindE (read_from_sock (env_read (w_env w)) (client_buf c)) (\<lambda>(n, err, b).
               let c1 = c\<lparr>client_buf := b\<rparr>;
                   w1 = put_client cid c1 w in
               if checkEOF n err then closeClient cid ORIGIN_READ w1
               else bindE (selector_unmask_interest (client_sock c) OP_WRITE w1) (\<lambda>(_, w2).
                    bindE (arr_get (buf_data b) (buf_read b)) (\<lambda>first.
                    Inr (client_state c,
                         if pop3_parser c1 = None \<and> (first = 43 \<or> first = 45)
                         then put_client cid (c1\<lparr>pop3_parser := new_parser (w_env w) 0\<rparr>) w2
                         else w2))))
     else Inl Abort_called))"

text \<open>
  \<open>add_bytes(bytes_to_write - bytes_left)\<close> in the arithmetic of \<open>size_t\<close>. After an \<open>EAGAIN\<close> the
  number of bytes left is \<open>-1\<close>.
\<close>

definition account :: "client \<Rightarrow> nat \<Rightarrow> int \<Rightarrow> world \<Rightarrow> world" where
  "account c bytes_to_write bytes_left w =
     (if client_state c = PROXY
      then w\<lparr>w_state := add_bytes (of_nat bytes_to_write - of_int bytes_left) (w_state w)\<rparr>
      else w)"

definition handle_proxy_write :: "key \<Rightarrow> world \<Rightarrow> (nat \<times> world) run" where
  "handle_proxy_write k w =
     bindE (ATTACHMENT k) (\<lambda>cid.
     bindE (get_client cid w) (\<lambda>c.
     if client_sock c = key_fd k
     then if \<not> buffer_can_read (client_buf c)
          then if \<not> hasFlag (active_ends c) ORIGIN_READ \<and> client_state c \<ge> PROXY
               then closeClient cid CLIENT_WRITE w
               else bindE (selector_mask_interest (key_fd k) OP_WRITE w) (\<lambda>(_, w1). Inr (client_state c, w1))
          else bindE (buffer_read_ptr (client_buf c)) (\<lambda>(_, to_write).
               bindE (write_to_sock (env_send (w_env w)) (client_buf c)) (\<lambda>(left, err, b).
               let w1 = put_client cid (c\<lparr>client_buf := b\<rparr>) w in
               if left \<noteq> 0 \<and> checkEOF left err then closeClient cid CLIENT_WRITE w1
               else bindE (selector_unmask_interest (origin_sock c) OP_READ w1) (\<lambda>(_, w2).
                    Inr (client_state c, account c to_write left w2))))
     else if origin_sock c = key_fd k
     then if \<not> buffer_can_read (origin_buf c)
          then if \<not> hasFlag (active_ends c) CLIENT_READ
               then closeClient cid ORIGIN_WRITE w
               else bindE (selector_mask_interest (key_fd k) OP_WRITE w) (\<lambda>(_, w1). Inr (client_state c, w1))
          else bindE (buffer_read_ptr (origin_buf c)) (\<lambda>(_, to_write).
               bindE (write_to_sock (env_send (w_env w)) (origin_buf c)) (\<lambda>(left, err, b).
               let w1 = put_client cid (c\<lparr>origin_buf := b\<rparr>) w in
               if left \<noteq> 0 \<and> checkEOF left err then closeClient cid ORIGIN_WRITE w1
               else bindE (selector_unmask_interest (client_sock c) OP_READ w1) (\<lambda>(_, w2).
                    Inr (client_state c, account c to_write left w2))))
     else Inl Abort_called))"

section \<open>Destruction\<close>

text \<open>
  The list of addresses is freed by whoever owns it: \<open>resolution\<close> if there is one, otherwise the
  single node of a numeric request. Freeing a block that was already freed is a fault.
\<close>

definition client_destroy :: "nat \<Rightarrow> key \<Rightarrow> world \<Rightarrow> world run" where
  "client_destroy st k w =
     bindE (ATTACHMENT k) (\<lambda>cid.
     bindE (get_client cid w) (\<lambda>c.
     let w1 = w\<lparr>w_state := rm_proxy_client (w_state w)\<rparr> in
     if resolution c = [] \<and> curr_addr c \<noteq> [] \<and> curr_freed c then Inl Use_after_free
     else Inr (emit (Free_client cid) (w1\<lparr>w_clients := (w_clients w1)(cid := None)\<rparr>))))"

section \<open>The state machine\<close>

definition arrive_enable_write :: "nat \<Rightarrow> key \<Rightarrow> world \<Rightarrow> world run" where
  "arrive_enable_write st k w = bindE (ATTACHMENT k) (\<lambda>cid. enable_write cid w)"

definition no_action :: "nat \<Rightarrow> (key, world) state_definition" where
  "no_action st = \<lparr>sd_state = st, on_arrival = None, on_departure = None, on_read_ready = None,
     on_write_ready = None, on_block_ready = None\<rparr>"

definition state_actions :: "(key, world) state_definition list" where
  "state_actions =
    [(no_action AUTH_METHOD)\<lparr>on_read_ready := Some read_auth_method\<rparr>,
     (no_action PLAIN_AUTH)\<lparr>on_read_ready := Some read_plain_auth, on_write_ready := Some handle_proxy_write\<rparr>,
     (no_action REQUEST)\<lparr>on_read_ready := Some read_proxy_request, on_write_ready := Some handle_proxy_write\<rparr>,
     (no_action RESOLVING)\<lparr>on_arrival := Some start_name_resolution, on_write_ready := Some handle_proxy_write,
        on_block_ready := Some handle_finished_resolution\<rparr>,
     (no_action CONNECTING)\<lparr>on_arrival := Some create_connection, on_write_ready := Some origin_check_connection\<rparr>,
     (no_action PROXY)\<lparr>on_read_ready := Some handle_proxy_read, on_write_ready := Some handle_proxy_write\<rparr>,
     (no_action DONE)\<lparr>on_arrival := Some client_destroy\<rparr>,
     (no_action WRITE_REMAINING)\<lparr>on_arrival := Some arrive_enable_write, on_write_ready := Some handle_proxy_write\<rparr>]"

definition proxy_machine :: "(key, world) state_machine" where
  "proxy_machine = \<lparr>initial = AUTH_METHOD, states = state_actions, max_state = WRITE_REMAINING\<rparr>"

text \<open>\<open>ATTACHMENT(key)->stm->current\<close>.\<close>

definition client_stm :: "(key, world) stm_ref" where
  "client_stm =
     \<lparr>get_current = (\<lambda>k w. bindE (ATTACHMENT k) (\<lambda>cid. bindE (get_client cid w) (\<lambda>c. Inr (stm_current c)))),
      set_current = (\<lambda>k cur w. bindE (ATTACHMENT k) (\<lambda>cid. bindE (get_client cid w) (\<lambda>c.
         Inr (put_client cid (c\<lparr>stm_current := cur\<rparr>) w))))\<rparr>"

definition socksv5_read :: "key \<Rightarrow> world \<Rightarrow> world run" where
  "socksv5_read k w = bindE (stm_handler_read proxy_machine client_stm k w) (\<lambda>(_, w1). Inr w1)"

definition socksv5_write :: "key \<Rightarrow> world \<Rightarrow> world run" where
  "socksv5_write k w = bindE (stm_handler_write proxy_machine client_stm k w) (\<lambda>(_, w1). Inr w1)"

definition socksv5_block :: "key \<Rightarrow> world \<Rightarrow> world run" where
  "socksv5_block k w = bindE (stm_handler_block proxy_machine client_stm k w) (\<lambda>(_, w1). Inr w1)"

section \<open>Accepting connections\<close>

text \<open>The null pointer is \<open>None\<close>. The four allocations are numbered in the order of the code.\<close>

definition create_client :: "int \<Rightarrow> world \<Rightarrow> client option run" where
  "create_client sock w =
     (let e = w_env w; n = unat (get_buffsize (w_state w)) in
      if \<not> env_malloc e 0 then Inr None
      else if \<not> env_malloc e 1 then Inr None
      else if \<not> env_malloc e 2 \<or> \<not> env_malloc e 3 then Inr None
      else bindE (stm_init proxy_machine) (\<lambda>cur.
           Inr (Some (fresh_client sock n (env_junk e n) (env_junk e n) cur))))"

text \<open>
  \<open>memcpy(&new_client->client_addr, &clntAddr, clntAddrLen)\<close>: the field is a plain
  \<open>struct sockaddr\<close> of 16 bytes, an IPv6 address takes 28.
\<close>

definition master_read_handler :: "key \<Rightarrow> world \<Rightarrow> world run" where
  "master_read_handler k w =
     (let (ok, st) = add_proxy_client (w_state w);
          w1 = w\<lparr>w_state := st\<rparr> in
      if \<not> ok then Inr w1
      else case env_accept (w_env w1) of
        Accept_err \<Rightarrow> Inr (w1\<lparr>w_state := rm_proxy_client (w_state w1)\<rparr>)
      | Accept_ok sock addr len \<Rightarrow>
          bindE (create_client sock w1) (\<lambda>nc.
          case nc of
            None \<Rightarrow> Inr ((emit (Close sock) w1)\<lparr>w_state := rm_proxy_client (w_state w1)\<rparr>)
          | Some c \<Rightarrow>
              if len > SOCKADDR_SIZE then Inl Out_of_bounds
              else let cid = w_next w1;
                       w2 = put_client cid (c\<lparr>client_addr := addr\<rparr>) (w1\<lparr>w_next := cid + 1\<rparr>)
                   in bindE (register_client sock OP_READ cid w2) (\<lambda>(_, w3). Inr w3)))"

section \<open>The machine of a client is sound\<close>

lemma length_state_actions [simp]: "length state_actions = 8"
  by (simp add: state_actions_def)

lemma state_cases:
  assumes "i \<le> WRITE_REMAINING"
  obtains "i = AUTH_METHOD" | "i = PLAIN_AUTH" | "i = REQUEST" | "i = RESOLVING" | "i = CONNECTING"
    | "i = PROXY" | "i = DONE" | "i = WRITE_REMAINING"
  using assms unfolding socks5_states by linarith

lemma state_actions_nth [simp]:
  "state_actions ! AUTH_METHOD = (no_action AUTH_METHOD)\<lparr>on_read_ready := Some read_auth_method\<rparr>"
  "state_actions ! PLAIN_AUTH = (no_action PLAIN_AUTH)\<lparr>on_read_ready := Some read_plain_auth,
     on_write_ready := Some handle_proxy_write\<rparr>"
  "state_actions ! REQUEST = (no_action REQUEST)\<lparr>on_read_ready := Some read_proxy_request,
     on_write_ready := Some handle_proxy_write\<rparr>"
  "state_actions ! RESOLVING = (no_action RESOLVING)\<lparr>on_arrival := Some start_name_resolution,
     on_write_ready := Some handle_proxy_write, on_block_ready := Some handle_finished_resolution\<rparr>"
  "state_actions ! CONNECTING = (no_action CONNECTING)\<lparr>on_arrival := Some create_connection,
     on_write_ready := Some origin_check_connection\<rparr>"
  "state_actions ! PROXY = (no_action PROXY)\<lparr>on_read_ready := Some handle_proxy_read,
     on_write_ready := Some handle_proxy_write\<rparr>"
  "state_actions ! DONE = (no_action DONE)\<lparr>on_arrival := Some client_destroy\<rparr>"
  "state_actions ! WRITE_REMAINING = (no_action WRITE_REMAINING)\<lparr>on_arrival := Some arrive_enable_write,
     on_write_ready := Some handle_proxy_write\<rparr>"
  by (simp_all add: state_actions_def socks5_states)

lemma proxy_table_ok: "table_ok proxy_machine"
proof -
  have "sd_state (state_actions ! i) = i" if "i \<le> WRITE_REMAINING" for i
    using that by (cases rule: state_cases) (simp_all add: no_action_def)
  then show ?thesis
    by (simp add: table_ok_def proxy_machine_def) (simp add: socks5_states)
qed

text \<open>\<open>stm_init\<close> lets this table through, so that creating a client never aborts.\<close>

lemma proxy_machine_starts: "stm_init proxy_machine = Inr None"
  using stm_init_iff [of proxy_machine] proxy_table_ok by simp

lemma change_clients:
  assumes "change_item f fd (w :: world) = Inr (st, w')"
  shows "w_clients w' = w_clients w"
  using more_eq_fields(4) [OF change_item_frame(1) [OF assms]] .

lemma get_current_eq:
  "get_current client_stm k w = bindE (ATTACHMENT k) (\<lambda>cid. bindE (get_client cid w) (\<lambda>c. Inr (stm_current c)))"
  by (simp add: client_stm_def)

lemma get_current_clients:
  "w_clients w' = w_clients w \<Longrightarrow> get_current client_stm k w' = get_current client_stm k w"
  by (simp add: get_current_eq get_client_def)

text \<open>What the callbacks on arrival do to the machine: nothing, or destroy it.\<close>

lemma start_name_resolution_clients: "start_name_resolution st k w = Inr w' \<Longrightarrow> w_clients w' = w_clients w"
  by (auto simp: start_name_resolution_def fault_simps emit_def)

lemma create_connection_clients:
  assumes "create_connection st k w = Inr w'"
  shows "w_clients w' = w_clients w"
proof -
  obtain fd r where r: "selector_add_interest fd OP_WRITE w = Inr r" "(case r of (_, w1) \<Rightarrow> Inr w1) = (Inr w' :: world run)"
    using assms unfolding create_connection_def by (elim bindE_InrE) (rule that; assumption)
  obtain s w1 where "r = (s, w1)" by (cases r)
  with r show ?thesis
    unfolding selector_add_interest_def using change_clients by simp
qed

lemma want_write_clients:
  assumes "bindE (selector_add_interest fd OP_WRITE (w :: world)) (\<lambda>(_, w1).
    bindE (selector_unmask_interest fd' OP_WRITE w1) (\<lambda>(_, w2). Inr w2)) = Inr w'"
  shows "w_clients w' = w_clients w"
proof -
  obtain r where r: "selector_add_interest fd OP_WRITE w = Inr r"
    "(case r of (_, w1) \<Rightarrow> bindE (selector_unmask_interest fd' OP_WRITE w1) (\<lambda>(_, w2). Inr w2)) = (Inr w' :: world run)"
    using assms by (rule bindE_InrE)
  obtain st w1 where w1: "r = (st, w1)" by (cases r)
  with r(2) obtain r' where r': "selector_unmask_interest fd' OP_WRITE w1 = Inr r'" "(case r' of (_, w2) \<Rightarrow> Inr w2) = (Inr w' :: world run)"
    by (auto elim: bindE_InrE)
  obtain st' where "r' = (st', w')" using r'(2) by (cases r') simp
  with r'(1) have "w_clients w' = w_clients w1"
    unfolding selector_unmask_interest_def by (intro change_clients) simp
  also have "\<dots> = w_clients w"
    using r(1) w1 unfolding selector_add_interest_def by (intro change_clients) simp
  finally show ?thesis .
qed

lemma enable_write_clients:
  assumes "enable_write cid w = Inr w'"
  shows "w_clients w' = w_clients w"
proof -
  obtain c :: client and w1 where c: "(if hasFlag (active_ends c) CLIENT_WRITE
      then bindE (selector_add_interest (client_sock c) OP_WRITE w) (\<lambda>(_, w1).
           bindE (selector_unmask_interest (client_sock c) OP_WRITE w1) (\<lambda>(_, w2). Inr w2))
      else Inr w) = (Inr w1 :: world run)"
    "(if hasFlag (active_ends c) ORIGIN_WRITE
      then bindE (selector_add_interest (origin_sock c) OP_WRITE w1) (\<lambda>(_, w2).
           bindE (selector_unmask_interest (client_sock c) OP_WRITE w2) (\<lambda>(_, w3). Inr w3))
      else Inr w1) = (Inr w' :: world run)"
    using assms unfolding enable_write_def by (elim bindE_InrE) (rule that; assumption)
  have "w_clients w1 = w_clients w"
    using c(1) want_write_clients by (auto split: if_splits)
  moreover have "w_clients w' = w_clients w1"
    using c(2) want_write_clients by (auto split: if_splits)
  ultimately show ?thesis by simp
qed

lemma client_destroy_clients:
  assumes "client_destroy st k w = Inr w'"
  obtains cid where "ATTACHMENT k = Inr cid" "w_clients w' = (w_clients w)(cid := None)"
proof -
  obtain cid and c :: client where "ATTACHMENT k = Inr cid" and w': "(let w1 = w\<lparr>w_state := rm_proxy_client (w_state w)\<rparr> in
     if resolution c = [] \<and> curr_addr c \<noteq> [] \<and> curr_freed c then Inl Use_after_free
     else Inr (emit (Free_client cid) (w1\<lparr>w_clients := (w_clients w1)(cid := None)\<rparr>))) = (Inr w' :: world run)"
    using assms unfolding client_destroy_def by (elim bindE_InrE) (rule that; assumption)
  moreover from w' have "w_clients w' = (w_clients w)(cid := None)"
    by (auto simp: emit_def Let_def split: if_splits)
  ultimately show thesis using that by blast
qed

interpretation pm: stm_world proxy_machine client_stm DONE
proof
  show "table_ok proxy_machine" by (rule proxy_table_ok)
  show "get_current client_stm k w' = Inr c" if "set_current client_stm k c w = Inr w'" for k c w w'
    using that by (auto simp: client_stm_def fault_simps)
  fix i f k w w' c
  assume i: "i \<le> max_state proxy_machine" and f: "on_arrival (states proxy_machine ! i) = Some f"
    and run: "f i k w = Inr w'" and cur: "get_current client_stm k w = Inr c"
  from i have "i \<le> WRITE_REMAINING" by (simp add: proxy_machine_def)
  then show "get_current client_stm k w' = Inr c \<or> i = DONE \<and> get_current client_stm k w' = Inl Use_after_free"
  proof (cases rule: state_cases)
    case 4
    with f run have "start_name_resolution i k w = Inr w'"
      by (simp add: proxy_machine_def)
    from get_current_clients [OF start_name_resolution_clients [OF this]] show ?thesis
      using cur by simp
  next
    case 5
    with f run have "create_connection i k w = Inr w'"
      by (simp add: proxy_machine_def)
    from get_current_clients [OF create_connection_clients [OF this]] show ?thesis
      using cur by simp
  next
    case 7
    with f run have "client_destroy i k w = Inr w'"
      by (simp add: proxy_machine_def)
    then have "get_current client_stm k w' = Inl Use_after_free"
      by (rule client_destroy_clients) (simp add: get_current_eq get_client_def)
    with 7 show ?thesis by simp
  next
    case 8
    with f run have "arrive_enable_write i k w = Inr w'"
      by (simp add: proxy_machine_def)
    then obtain cid where "enable_write cid w = Inr w'"
      by (auto simp: arrive_enable_write_def fault_simps)
    from get_current_clients [OF enable_write_clients [OF this]] show ?thesis
      using cur by simp
  qed (use f in \<open>simp_all add: proxy_machine_def no_action_def\<close>)
qed

section \<open>The way in\<close>

text \<open>An event for a client whose machine is running goes to the callback of its state.\<close>

lemma running_dispatch:
  assumes run: "stm_dispatch cb proxy_machine client_stm k w = Inr (ret, w')"
    and k: "key_data k = Some (A_client cid)" and c: "w_clients w cid = Some c" "stm_current c = Some st"
  obtains f w2 where "cb (state_actions ! st) = Some f" "f k w = Inr (ret, w2)"
    "jump proxy_machine client_stm ret k w2 = Inr w'"
proof -
  have cur: "get_current client_stm k w = Inr (Some st)"
    using k c by (simp add: get_current_eq ATTACHMENT_def get_client_def)
  then have "handle_first proxy_machine client_stm k w = Inr w"
    by (simp add: handle_first_def)
  with run cur show thesis
    using that by (rule_tac stm_dispatchE [OF run]) (simp add: proxy_machine_def)
qed

text \<open>And the other way round: what a callback that succeeds leads to.\<close>

definition arrival :: "nat \<Rightarrow> key \<Rightarrow> world \<Rightarrow> world run" where
  "arrival st k w = (case on_arrival (state_actions ! st) of None \<Rightarrow> Inr w | Some f \<Rightarrow> f st k w)"

lemma dispatch_run:
  assumes k: "key_data k = Some (A_client cid)" and c: "w_clients w cid = Some c" "stm_current c = Some st"
    and f: "cb (state_actions ! st) = Some f" "f k w = Inr (ret, w2)"
    and c2: "w_clients w2 cid = Some c2" "stm_current c2 = Some st"
    and st: "st \<le> WRITE_REMAINING" "ret \<le> WRITE_REMAINING"
  shows "stm_dispatch cb proxy_machine client_stm k w =
    (if ret = st then Inr (ret, w2)
     else bindE (arrival ret k (put_client cid (c2\<lparr>stm_current := Some ret\<rparr>) w2)) (\<lambda>w3. Inr (ret, w3)))"
proof -
  have cur: "get_current client_stm k w = Inr (Some st)" "get_current client_stm k w2 = Inr (Some st)"
    using k c c2 by (simp_all add: get_current_eq ATTACHMENT_def get_client_def)
  have first: "handle_first proxy_machine client_stm k w = Inr w"
    using cur(1) by (simp add: handle_first_def)
  have lt: "st < 8" "ret < 8"
    using st by (simp_all add: WRITE_REMAINING_def)
  have sd: "sd_state (state_actions ! ret) = ret" and dep: "on_departure (state_actions ! st) = None"
    using st by (cases rule: state_cases [OF st(2)]; simp add: no_action_def)
      (cases rule: state_cases [OF st(1)]; simp add: no_action_def)
  have set: "set_current client_stm k (Some ret) w2 = Inr (put_client cid (c2\<lparr>stm_current := Some ret\<rparr>) w2)"
    using k c2 by (simp add: client_stm_def ATTACHMENT_def get_client_def)
  have "jump proxy_machine client_stm ret k w2 =
    (if ret = st then Inr w2 else arrival ret k (put_client cid (c2\<lparr>stm_current := Some ret\<rparr>) w2))"
    using lt st cur(2) dep set sd
    by (simp add: jump_def depart_def arrive_def arrival_def proxy_machine_def split: option.splits)
  then show ?thesis
    using first cur(1) f lt by (simp add: stm_dispatch_def proxy_machine_def)
qed

lemma closing_state: "fst (closing c) \<in> {DONE, WRITE_REMAINING, client_state c}"
  by (simp add: closing_def close_state_def Let_def)

text \<open>What makes the handshake move on to the request.\<close>

definition admitted :: "client \<Rightarrow> world \<Rightarrow> bool" where
  "admitted c w \<longleftrightarrow>
     (if client_state c = AUTH_METHOD
      then user_count (w_users w) = 0
        \<and> (case parse_hello 0 (received c w) of Some (m, _) \<Rightarrow> m = Some 0 | None \<Rightarrow> False)
      else case parse_auth (received c w) of
             Some (v, user, pass, _) \<Rightarrow> authentic v user pass (w_users w) | None \<Rightarrow> False)"

lemma read_auth_method_result:
  assumes "serving k cid c w" and "key_fd k = client_sock c" and "read_auth_method k w = Inr (ret, w')"
    and "client_state c = AUTH_METHOD"
  shows "ret \<in> {DONE, WRITE_REMAINING, AUTH_METHOD, PLAIN_AUTH} \<or> ret = REQUEST \<and> admitted c w"
  using read_auth_method_ok [OF assms(1,2)] closing_state [of c] assms(3,4)
  by (auto simp: served_def hello_state_def admitted_def choose_method_iff parse_hello_def
      split: if_splits option.splits list.splits)

lemma read_plain_auth_result:
  assumes "serving k cid c w" and "key_fd k = client_sock c" and "read_plain_auth k w = Inr (ret, w')"
    and "client_state c = PLAIN_AUTH"
  shows "ret \<in> {DONE, WRITE_REMAINING, PLAIN_AUTH} \<or> ret = REQUEST \<and> admitted c w"
proof -
  have "\<not> (filled_up c w \<and> \<not> hung_up c w \<and> cut_after_name (received c w))"
    using read_plain_auth_overread [OF assms(1,2)] assms(3) by auto
  with assms(4) show ?thesis
    using read_plain_auth_ok [OF assms(1,2)] closing_state [of c] assms(3)
    by (auto simp: served_def auth_state_def admitted_def socks5_states split: if_splits option.splits)
qed

end
