(* ===== verification/Relay.thy ===== *)
theory Relay
  imports Clients
begin

text \<open>
  The relay of \<open>src/clients.c\<close> as a whole: \<open>handle_proxy_read\<close> and \<open>handle_proxy_write\<close> under the state
  machine and the interests of the selector. A connection that relays is a pair of queues; any
  sequence of events on its two sockets moves bytes through them in order, without a fault, until
  the connection is destroyed.
\<close>

section \<open>One event\<close>

text \<open>What may have changed of a client: its buffers, its parser and its ends.\<close>

definition relayed_client :: "client \<Rightarrow> buffer \<Rightarrow> buffer \<Rightarrow> pop3_parser option \<Rightarrow> flags \<Rightarrow> client" where
  "relayed_client c ob cb pp e = c\<lparr>origin_buf := ob, client_buf := cb, pop3_parser := pp, active_ends := e\<rparr>"

lemma relayed_client_fields [simp]:
  "client_sock (relayed_client c ob cb pp e) = client_sock c" "origin_sock (relayed_client c ob cb pp e) = origin_sock c"
  "stm_current (relayed_client c ob cb pp e) = stm_current c" "active_ends (relayed_client c ob cb pp e) = e"
  "origin_buf (relayed_client c ob cb pp e) = ob" "client_buf (relayed_client c ob cb pp e) = cb"
  "client_state (relayed_client c ob cb pp e) = client_state c" "pop3_parser (relayed_client c ob cb pp e) = pp"
  "log_dest nc (relayed_client c ob cb pp e) = log_dest nc c"
  "(relayed_client c ob cb pp e)\<lparr>active_ends := e'\<rparr> = relayed_client c ob cb pp e'"
  by (simp_all add: relayed_client_def client_state_def log_dest_def split: option.split)

text \<open>
  The handler returned; \<open>up\<close> and \<open>down\<close> are what waits for the origin and for the client. Either nothing was
  closed, or it was the ends \<open>level\<close> and what depends on them.
\<close>

definition relayed :: "nat \<Rightarrow> client \<Rightarrow> world \<Rightarrow> flags \<Rightarrow> (nat \<times> world) run \<Rightarrow> byte list \<Rightarrow> byte list \<Rightarrow> bool" where
  "relayed cid c w level r up down \<longleftrightarrow> (\<exists>w' ob cb pp e s l. r = Inr (close_state (client_state c) e, w')
     \<and> w_clients w' = (w_clients w)(cid \<mapsto> relayed_client c ob cb pp e)
     \<and> touches {client_sock c, origin_sock c} (w\<lparr>w_state := s, w_log := l\<rparr>) w'
     \<and> client_wf (relayed_client c ob cb pp e) \<and> contents ob = up \<and> contents cb = down
     \<and> ends_quiet (relayed_client c ob cb pp e) w' \<and> (\<forall>n. bit e n \<longrightarrow> bit (active_ends c) n)
     \<and> (e = active_ends c \<and> calm w w' \<or> e = ends_after level (active_ends c))
     \<and> (gone CLIENT (active_ends c) e \<longrightarrow> registered w' (client_sock c) = None)
     \<and> (gone ORIGIN (active_ends c) e \<longrightarrow> registered w' (origin_sock c) = None))"

text \<open>
  What holds of a connection in every state. \<open>linked\<close>: its sockets are registered, if at all, for the
  proxy and under its own number. \<open>settled\<close>: an end that is down is not polled, a socket without ends is
  not registered. \<open>upright\<close>: the state of its machine is the one that its ends call for.
\<close>

definition linked :: "nat \<Rightarrow> client \<Rightarrow> world \<Rightarrow> bool" where
  "linked cid c w \<longleftrightarrow> sel_wf w \<and> w_clients w cid = Some c \<and> client_wf c
     \<and> proxy_fd w (client_sock c) \<and> proxy_fd w (origin_sock c) \<and> client_sock c \<noteq> origin_sock c
     \<and> (\<forall>fd it. fd \<in> {client_sock c, origin_sock c} \<and> registered w fd = Some it \<longrightarrow> it_data it = Some (A_client cid))
     \<and> \<not> curr_freed c \<and> 0 \<le> client_sock c"

definition settled :: "client \<Rightarrow> world \<Rightarrow> bool" where
  "settled c w \<longleftrightarrow> ends_quiet c w
     \<and> (\<not> hasFlag (active_ends c) CLIENT \<longrightarrow> registered w (client_sock c) = None)
     \<and> (\<not> hasFlag (active_ends c) ORIGIN \<longrightarrow> registered w (origin_sock c) = None)"

definition upright :: "nat \<Rightarrow> client \<Rightarrow> world \<Rightarrow> bool" where
  "upright cid c w \<longleftrightarrow> linked cid c w \<and> settled c w \<and> close_state (client_state c) (active_ends c) = client_state c"

text \<open>
  Nobody else is concerned: the descriptors that are not this client's, the other clients and the management side
  are as they were. \<open>confined\<close>: nor is there any new work for the resolver, a thread that runs or a notification that waits.
\<close>

definition others :: "nat \<Rightarrow> world \<Rightarrow> int \<Rightarrow> (handler_id, attachment) item option" where
  "others cid w fd = (case registered w fd of
     None \<Rightarrow> None | Some it \<Rightarrow> if it_data it = Some (A_client cid) then None else Some it)"

definition bystanders :: "nat \<Rightarrow> world \<Rightarrow> world \<Rightarrow> bool" where
  "bystanders cid w w' \<longleftrightarrow> others cid w' = others cid w \<and> (\<forall>i. i \<noteq> cid \<longrightarrow> w_clients w' i = w_clients w i)
     \<and> w_mgmt w' = w_mgmt w \<and> w_users w' = w_users w \<and> w_tokens w' = w_tokens w \<and> w_next w' = w_next w"

definition confined :: "nat \<Rightarrow> world \<Rightarrow> world \<Rightarrow> bool" where
  "confined cid w w' \<longleftrightarrow> bystanders cid w w' \<and> w_threads w' = w_threads w \<and> resolution_jobs w' = resolution_jobs w"

lemma confined_touches:
  assumes "linked cid c w" and "touches S (w\<lparr>w_state := s, w_log := l\<rparr>) w'" and "S \<subseteq> {client_sock c, origin_sock c}"
    and "\<And>i. i \<noteq> cid \<Longrightarrow> w_clients w' i = w_clients w i"
  shows "confined cid w w'"
proof -
  have own: "it_data it = Some (A_client cid)" if "fd \<in> {client_sock c, origin_sock c}" "registered w fd = Some it" for fd it
    using assms(1) that by (auto simp: linked_def)
  have "others cid w' fd = others cid w fd" for fd
  proof (cases "fd \<in> S")
    case True
    then have "others cid w fd = None" using own [of fd] assms(3) by (auto simp: others_def split: option.split)
    moreover have "others cid w' fd = None"
    proof (cases "registered w' fd")
      case (Some it')
      then obtain it where "registered w fd = Some it" "it_data it' = it_data it" using assms(2) unfolding touches_def by fastforce
      then show ?thesis using own [of fd it] True assms(3) Some by (auto simp: others_def)
    qed (simp add: others_def)
    ultimately show ?thesis by simp
  next
    case False
    then have "registered w' fd = registered w fd" using assms(2) by (auto simp: touches_def)
    then show ?thesis by (simp add: others_def)
  qed
  then show ?thesis using assms(2,4) by (auto simp: confined_def bystanders_def touches_def)
qed

lemma others_fields [simp]:
  "others cid (put_client cid' c w) = others cid w" "others cid (w\<lparr>w_log := l\<rparr>) = others cid w" "others cid (emit ev w) = others cid w"
  "others cid (w\<lparr>w_state := s\<rparr>) = others cid w" "others cid (w\<lparr>w_clients := cs\<rparr>) = others cid w" "others cid (w\<lparr>w_env := e\<rparr>) = others cid w"
  "others cid (w\<lparr>w_threads := ts\<rparr>) = others cid w" "others cid (w\<lparr>resolution_jobs := js\<rparr>) = others cid w"
  by (simp_all add: others_def fun_eq_iff)

lemma bystanders_trans: "bystanders cid w w1 \<Longrightarrow> bystanders cid w1 w2 \<Longrightarrow> bystanders cid w w2"
  and bystanders_refl [simp]: "bystanders cid w w"
  by (simp_all add: bystanders_def)

lemma confined_trans: "confined cid w w1 \<Longrightarrow> confined cid w1 w2 \<Longrightarrow> confined cid w w2"
  and confined_refl [simp]: "confined cid w w"
  by (auto simp: confined_def intro: bystanders_trans)

lemma confined_fields [simp]:
  "confined cid w (put_client cid c w') = confined cid w w'" "confined cid (put_client cid c w) w' = confined cid w w'"
  "confined cid w (w'\<lparr>w_log := l\<rparr>) = confined cid w w'" "confined cid w (emit ev w') = confined cid w w'" "confined cid (emit ev w) w' = confined cid w w'"
  by (auto simp: confined_def bystanders_def) (auto simp: put_client_def emit_def)

text \<open>A connection that relays, and so can log its destination, or only drains what it holds.\<close>

definition relaying :: "nat \<Rightarrow> client \<Rightarrow> world \<Rightarrow> bool" where
  "relaying cid c w \<longleftrightarrow> upright cid c w
     \<and> (stm_current c = Some PROXY \<and> (\<exists>d. log_dest False c = Inr d)
        \<or> stm_current c = Some WRITE_REMAINING \<and> \<not> hasFlag (active_ends c) (CLIENT_READ OR ORIGIN_READ))"

lemma linkedD:
  assumes "linked cid c w"
  shows "sel_wf w" "w_clients w cid = Some c" "client_wf c" "proxy_fd w (client_sock c)" "proxy_fd w (origin_sock c)"
    "client_sock c \<noteq> origin_sock c" "buffer_wf (origin_buf c)" "buffer_wf (client_buf c)" "get_client cid w = Inr c" "\<not> curr_freed c"
    and "fd \<in> {client_sock c, origin_sock c} \<Longrightarrow> registered w fd = Some it \<Longrightarrow> it_data it = Some (A_client cid)"
    and "0 \<le> client_sock c"
  using assms by (auto simp: linked_def client_wf_def get_client_def)

lemma uprightD:
  assumes "upright cid c w"
  shows "sel_wf w" "w_clients w cid = Some c" "client_wf c" "proxy_fd w (client_sock c)" "proxy_fd w (origin_sock c)"
    "client_sock c \<noteq> origin_sock c" "close_state (client_state c) (active_ends c) = client_state c" "ends_quiet c w"
    "buffer_wf (origin_buf c)" "buffer_wf (client_buf c)" "get_client cid w = Inr c" "\<not> curr_freed c" "linked cid c w" "settled c w"
  using assms linkedD [of cid c w] by (simp_all add: upright_def settled_def)

lemma relaying_upright: "relaying cid c w \<Longrightarrow> upright cid c w"
  by (simp add: relaying_def)

text \<open>Masking and unmasking touch one descriptor and no interest.\<close>

lemma nudge:
  assumes "sel_wf (w :: world)" and "fd \<in> S"
  shows "\<exists>st w'. selector_unmask_interest fd op w = Inr (st, w') \<and> touches S w w' \<and> w_clients w' = w_clients w \<and> calm w w'"
    and "\<exists>st w'. selector_mask_interest fd op w = Inr (st, w') \<and> touches S w w' \<and> w_clients w' = w_clients w \<and> calm w w'"
proof -
  have calm: "calm w w'" if "registered w' = (registered w)(fd := map_option (\<lambda>it. it\<lparr>it_mask := f it\<rparr>) (registered w fd))" for w' f
    using that by (auto simp: calm_def quiet_def split: if_splits)
  obtain st w' where "selector_unmask_interest fd op w = Inr (st, w')" "touches {fd} w w'" "w_clients w' = w_clients w"
    "registered w' = (registered w)(fd := map_option (\<lambda>it. it\<lparr>it_mask := it_mask it OR op\<rparr>) (registered w fd))"
    by (rule unmask_touches [OF assms(1), of fd op])
  then show "\<exists>st w'. selector_unmask_interest fd op w = Inr (st, w') \<and> touches S w w' \<and> w_clients w' = w_clients w \<and> calm w w'"
    using touches_mono [of "{fd}" w w' S] assms(2) calm [of w' "\<lambda>it. it_mask it OR op"] by blast
  obtain st w' where "selector_mask_interest fd op w = Inr (st, w')" "touches {fd} w w'" "w_clients w' = w_clients w"
    "registered w' = (registered w)(fd := map_option (\<lambda>it. it\<lparr>it_mask := it_mask it AND NOT op\<rparr>) (registered w fd))"
    by (rule mask_touches [OF assms(1), of fd op])
  then show "\<exists>st w'. selector_mask_interest fd op w = Inr (st, w') \<and> touches S w w' \<and> w_clients w' = w_clients w \<and> calm w w'"
    using touches_mono [of "{fd}" w w' S] assms(2) calm [of w' "\<lambda>it. it_mask it AND NOT op"] by blast
qed

lemma ends_quiet_calm:
  assumes "ends_quiet c w" and "calm w w'" and "client_sock c' = client_sock c" "origin_sock c' = origin_sock c" "active_ends c' = active_ends c"
  shows "ends_quiet c' w'"
  using assms by (simp add: ends_quiet_def calm_def)

lemma quiet_settings [simp]: "quiet (w\<lparr>w_log := l\<rparr>) = quiet w" "quiet (w\<lparr>w_state := s\<rparr>) = quiet w"
  by (simp_all add: quiet_def fun_eq_iff)

lemma relayed_intro:
  assumes "r = Inr (close_state (client_state c) e, w')" and "w_clients w' = (w_clients w)(cid \<mapsto> relayed_client c ob cb pp e)"
    and "touches {client_sock c, origin_sock c} (w\<lparr>w_state := s, w_log := l\<rparr>) w'"
    and "client_wf (relayed_client c ob cb pp e)" and "contents ob = up" and "contents cb = down"
    and "ends_quiet (relayed_client c ob cb pp e) w'" and "\<And>n. bit e n \<Longrightarrow> bit (active_ends c) n"
    and "gone CLIENT (active_ends c) e \<Longrightarrow> registered w' (client_sock c) = None"
    and "gone ORIGIN (active_ends c) e \<Longrightarrow> registered w' (origin_sock c) = None"
    and "e = active_ends c \<and> calm w w' \<or> e = ends_after level (active_ends c)"
  shows "relayed cid c w level r up down"
  unfolding relayed_def using assms by blast

text \<open>The three ways in which a handler ends: nothing moved, something moved, an end is closed.\<close>

lemma relayedI:
  assumes r: "upright cid c w" and w': "w_clients w' = (w_clients w)(cid \<mapsto> relayed_client c ob cb pp (active_ends c))"
    "touches {client_sock c, origin_sock c} (w\<lparr>w_state := s, w_log := l\<rparr>) w'" "calm w w'"
    and wf: "client_wf (relayed_client c ob cb pp (active_ends c))"
  shows "relayed cid c w level (Inr (client_state c, w')) (contents ob) (contents cb)"
proof -
  note d = uprightD [OF r]
  have "ends_quiet (relayed_client c ob cb pp (active_ends c)) w'" by (rule ends_quiet_calm [OF d(8) w'(3)]) simp_all
  with d(7) w'(3) show ?thesis by (intro relayed_intro [OF _ w'(1,2) wf]) (simp_all add: gone_def)
qed

lemma relayed_masked:
  assumes r: "upright cid c w" and fd: "fd \<in> {client_sock c, origin_sock c}"
  shows "relayed cid c w level (bindE (selector_mask_interest fd op w) (\<lambda>(_, w1). Inr (client_state c, w1))) (contents (origin_buf c)) (contents (client_buf c))"
proof -
  note d = uprightD [OF r]
  obtain st w' where w': "selector_mask_interest fd op w = Inr (st, w')" "touches {client_sock c, origin_sock c} w w'" "w_clients w' = w_clients w" "calm w w'"
    using nudge(2) [OF d(1) fd] by blast
  have c: "relayed_client c (origin_buf c) (client_buf c) (pop3_parser c) (active_ends c) = c" by (simp add: relayed_client_def)
  have "relayed cid c w level (Inr (client_state c, w')) (contents (origin_buf c)) (contents (client_buf c))"
    using w' d by (intro relayedI [OF r, where s = "w_state w" and l = "w_log w" and pp = "pop3_parser c"]) (simp_all add: c fun_upd_idem)
  then show ?thesis using w'(1) by simp
qed

lemma touches_changed:
  "touches S (put_client cid c w) w' \<Longrightarrow> touches S (w\<lparr>w_state := w_state w, w_log := l\<rparr>) ((put_client cid c' w')\<lparr>w_log := l\<rparr>)"
  by (simp add: touches_def) (simp add: put_client_def)

lemma relayed_closed:
  assumes r: "upright cid c w" and wf: "client_wf (relayed_client c ob cb pp (active_ends c))"
  shows "relayed cid c w level (closeClient cid level (put_client cid (relayed_client c ob cb pp (active_ends c)) w)) (contents ob) (contents cb)"
proof -
  note d = uprightD [OF r]
  let ?c = "relayed_client c ob cb pp (active_ends c)" and ?e = "ends_after level (active_ends c)"
  let ?w = "put_client cid ?c w"
  have pre: "sel_wf ?w" "w_clients ?w cid = Some ?c" "proxy_fd ?w (client_sock ?c)" "proxy_fd ?w (origin_sock ?c)"
    using d by (simp_all add: proxy_fd_def) (simp add: put_client_def)
  obtain w' where w': "closeClient cid level ?w = Inr (close_state (client_state c) ?e, w')" "close_spec cid ?c ?e ?w w'"
    using closeClient_ok [OF pre, of level] by auto
  have q: "ends_quiet ?c ?w" using d(8) by (simp add: ends_quiet_def)
  have t: "touches {client_sock c, origin_sock c} (w\<lparr>w_state := w_state w, w_log := w_log w\<rparr>) w'"
    using w'(2) touches_trans [of "{client_sock c, origin_sock c}" w ?w w'] touches_refl [OF d(1)] by (simp add: close_spec_def)
  have sp: "w_clients w' = (w_clients w)(cid \<mapsto> relayed_client c ob cb pp ?e)" "ends_quiet (relayed_client c ob cb pp ?e) w'"
    "gone CLIENT (active_ends c) ?e \<Longrightarrow> registered w' (client_sock c) = None"
    "gone ORIGIN (active_ends c) ?e \<Longrightarrow> registered w' (origin_sock c) = None"
    using w'(2) q d(6) unfolding close_spec_def by (simp_all add: put_client_def)
  have "client_wf (relayed_client c ob cb pp ?e)" using wf by (simp add: client_wf_def relayed_client_def)
  then show ?thesis using sp w'(1) ends_after_sub by (intro relayed_intro [OF _ sp(1) t]) simp_all
qed

section \<open>Reading\<close>

lemma client_wf_relayed:
  "client_wf (relayed_client c ob cb pp e) \<longleftrightarrow> buffer_wf ob \<and> buffer_wf cb \<and> length (socks_user c) = MAX_CREDENTIALS
     \<and> (\<forall>p. pp = Some p \<longrightarrow> pop3_wf p)"
  by (auto simp: client_wf_def relayed_client_def)

lemma client_wf_kept:
  assumes "client_wf c" and "buffer_wf ob" "buffer_wf cb" "\<forall>p. pp = Some p \<longrightarrow> pop3_wf p"
  shows "client_wf (relayed_client c ob cb pp e)"
  using assms by (simp add: client_wf_relayed) (simp add: client_wf_def)

lemma client_wf_parser: "client_wf c \<Longrightarrow> \<forall>p. pop3_parser c = Some p \<longrightarrow> pop3_wf p"
  by (simp add: client_wf_def)

lemma log_dest_parser [simp]: "log_dest nc (c\<lparr>pop3_parser := pp\<rparr>) = log_dest nc c"
  by (simp add: log_dest_def split: option.split)

lemma new_parser_wf: "env_ok e \<Longrightarrow> new_parser e i = Some p \<Longrightarrow> pop3_wf p"
  by (auto simp: new_parser_def env_ok_def pop3_wf_def init_parser_def MAX_CREDENTIALS_LEN_def split: if_splits)

text \<open>The sniffer changes the parser and the log.\<close>

lemma sniff_ok:
  assumes c: "w_clients w cid = Some c" and wf: "client_wf c" and d: "log_dest False c = Inr d"
  shows "\<exists>pp l. sniff cid w = Inr ((put_client cid (c\<lparr>pop3_parser := pp\<rparr>) w)\<lparr>w_log := l\<rparr>) \<and> (\<forall>p. pp = Some p \<longrightarrow> pop3_wf p)"
proof (cases "pop3_parser c")
  case None
  have "put_client cid (c\<lparr>pop3_parser := None\<rparr>) w = w" using c None by (simp add: put_client_def fun_upd_idem)
  then show ?thesis
    using c None by (intro exI [of _ None] exI [of _ "w_log w"]) (simp add: sniff_def get_client_def)
next
  case (Some p)
  have same: "put_client cid (c\<lparr>pop3_parser := Some p\<rparr>) w = w" using c Some by (simp add: put_client_def fun_upd_idem)
  have p: "pop3_wf p" "buffer_wf (origin_buf c)" using wf Some by (simp_all add: client_wf_def)
  obtain found p' where p': "pop3_parse p (origin_buf c) = Inr (found, p')" "pop3_wf p'" using pop3_parse_ok [OF p] by blast
  show ?thesis
  proof (cases "get_dissector_state (w_state w)")
    case True
    have "sniff cid w = (if found then log_sniffer_info (c\<lparr>pop3_parser := Some p'\<rparr>) (pop_user p') (pop_pass p')
        (put_client cid (c\<lparr>pop3_parser := Some p'\<rparr>) w) else Inr ((put_client cid (c\<lparr>pop3_parser := Some p'\<rparr>) w)\<lparr>w_log := w_log w\<rparr>))"
      using c Some p' True by (simp add: sniff_def get_client_def Let_def put_client_def)
    then show ?thesis
      using d p'(2) by (intro exI [of _ "Some p'"]) (auto simp: log_sniffer_info_def)
  next
    case False
    then show ?thesis
      using c Some p same by (intro exI [of _ "Some p"] exI [of _ "w_log w"]) (simp add: sniff_def get_client_def)
  qed
qed

text \<open>A login that is complete is logged with the client it belongs to.\<close>

lemma sniff_logs:
  assumes "w_clients w cid = Some c" and "log_dest False c = Inr d" and "get_dissector_state (w_state w)"
    and "pop3_parser c = Some p" "pop3_parse p (origin_buf c) = Inr (True, p')"
  shows "\<exists>w'. sniff cid w = Inr w' \<and> w_log w' = w_log w @ [Sniffer_log (cstr (socks_user c)) (client_addr c) d (cstr (pop_user p')) (cstr (pop_pass p'))]"
  using assms by (simp add: sniff_def get_client_def Let_def log_sniffer_info_def) (simp add: put_client_def)

text \<open>What a read event brings: nothing when there is no room.\<close>

definition brought :: "sysenv \<Rightarrow> buffer \<Rightarrow> byte list" where
  "brought e b = (if 0 < Buffer.space b then rd_bytes (env_read e) (Buffer.space b) else [])"

lemma relay_read_client:
  assumes r: "upright cid c w" and k: "key_data k = Some (A_client cid)" "key_fd k = client_sock c" and env: "env_ok (w_env w)"
    and log: "log_dest False c = Inr d0"
  shows "relayed cid c w CLIENT_READ (handle_proxy_read k w) (contents (origin_buf c) @ brought (w_env w) (origin_buf c)) (contents (client_buf c))"
proof (cases "buffer_can_write (origin_buf c)")
  case False
  then have "brought (w_env w) (origin_buf c) = []" by (simp add: brought_def buffer_can_write_iff)
  then show ?thesis
    using relayed_masked [OF r, where fd = "client_sock c" and op = OP_READ] k False uprightD(11) [OF r] by (simp add: handle_proxy_read_def ATTACHMENT_def)
next
  case True
  note d = uprightD [OF r]
  have rd: "read_ok (env_read (w_env w))" using env by (simp add: env_ok_def)
  have got: "brought (w_env w) (origin_buf c) = rd_bytes (env_read (w_env w)) (Buffer.space (origin_buf c))"
    using True by (simp add: brought_def buffer_can_write_iff)
  obtain n e b where b: "read_from_sock (env_read (w_env w)) (origin_buf c) = Inr (n, e, b)" "buffer_wf b"
    "contents b = contents (origin_buf c) @ brought (w_env w) (origin_buf c)"
    unfolding got by (rule read_from_sock_ok [OF d(9) rd])
  have c1: "c\<lparr>origin_buf := b\<rparr> = relayed_client c b (client_buf c) (pop3_parser c) (active_ends c)" by (simp add: relayed_client_def)
  have wf: "client_wf (relayed_client c b (client_buf c) (pop3_parser c) (active_ends c))"
    by (rule client_wf_kept [OF d(3) b(2) d(10) client_wf_parser [OF d(3)]])
  let ?w1 = "put_client cid (c\<lparr>origin_buf := b\<rparr>) w"
  show ?thesis
  proof (cases "checkEOF n e")
    case eof: True
    then have "handle_proxy_read k w = closeClient cid CLIENT_READ ?w1"
      using k True b(1) d(11) by (simp add: handle_proxy_read_def ATTACHMENT_def Let_def)
    then show ?thesis using relayed_closed [OF r wf, of CLIENT_READ] b(3) by (simp add: c1)
  next
    case more: False
    have "sel_wf ?w1" using d(1) by simp
    then obtain st w2 where w2: "selector_unmask_interest (origin_sock c) OP_WRITE ?w1 = Inr (st, w2)"
      "touches {client_sock c, origin_sock c} ?w1 w2" "w_clients w2 = w_clients ?w1" "calm ?w1 w2"
      using nudge(1) [of ?w1 "origin_sock c" "{client_sock c, origin_sock c}" OP_WRITE] by blast
    have at2: "w_clients w2 cid = Some (c\<lparr>origin_buf := b\<rparr>)" using w2(3) by (simp add: put_client_def)
    obtain dd where "log_dest False (c\<lparr>origin_buf := b\<rparr>) = Inr dd" using log by (auto simp: c1)
    then obtain pp l where s: "sniff cid w2 = Inr ((put_client cid (c\<lparr>origin_buf := b, pop3_parser := pp\<rparr>) w2)\<lparr>w_log := l\<rparr>)"
      "\<forall>p. pp = Some p \<longrightarrow> pop3_wf p"
      using sniff_ok [OF at2] wf by (auto simp: c1)
    let ?w3 = "(put_client cid (c\<lparr>origin_buf := b, pop3_parser := pp\<rparr>) w2)\<lparr>w_log := l\<rparr>"
    have run: "handle_proxy_read k w = Inr (client_state c, ?w3)"
      using k True b(1) d(11) more w2(1) s(1) by (simp add: handle_proxy_read_def ATTACHMENT_def Let_def)
    have t: "touches {client_sock c, origin_sock c} (w\<lparr>w_state := w_state w, w_log := l\<rparr>) ?w3"
      by (rule touches_changed [OF w2(2)])
    show ?thesis
      unfolding run b(3) [symmetric]
    proof (rule relayedI [OF r _ t])
      show "w_clients ?w3 = (w_clients w)(cid \<mapsto> relayed_client c b (client_buf c) pp (active_ends c))"
        using w2(3) by (simp add: put_client_def relayed_client_def)
      show "calm w ?w3" using w2(4) by (simp add: calm_def)
      show "client_wf (relayed_client c b (client_buf c) pp (active_ends c))"
        using wf s(2) by (simp add: client_wf_relayed)
    qed
  qed
qed

text \<open>The first byte that waits is looked at, even if there is none: it is still in the array.\<close>

lemma first_byte:
  assumes "buffer_wf b" and "read_ok rd" and "0 < Buffer.space b" and "read_from_sock rd b = Inr (n, e, b')" and "\<not> checkEOF n e"
  shows "\<exists>x. arr_get (buf_data b') (buf_read b') = Inr x"
proof -
  obtain n1 e1 b1 where b1: "read_from_sock rd b = Inr (n1, e1, b1)" "buffer_wf b1" "contents b1 = contents b @ rd_bytes rd (Buffer.space b)"
    "n1 \<ge> 0 \<Longrightarrow> n1 = int (length (rd_bytes rd (Buffer.space b)))" "n1 < 0 \<Longrightarrow> b1 = b"
    using read_from_sock_ok [OF assms(1,2)] by metis
  then have same: "n1 = n" "e1 = e" "b1 = b'" using assms(4) by simp_all
  have "buf_read b' < length (buf_data b')"
  proof (cases "n < 0")
    case True
    then show ?thesis using b1(5) same assms(1,3) by (auto simp: buffer_wf_def Buffer.space_def)
  next
    case False
    then have "contents b' \<noteq> []" using b1(3,4) same assms(5) by (auto simp: checkEOF_def)
    then show ?thesis using b1(2) same length_contents [OF b1(2)] by (auto simp: buffer_wf_def)
  qed
  then show ?thesis by (simp add: arr_get_def)
qed

lemma relay_read_origin:
  assumes r: "upright cid c w" and k: "key_data k = Some (A_client cid)" "key_fd k = origin_sock c" and env: "env_ok (w_env w)"
  shows "relayed cid c w ORIGIN_READ (handle_proxy_read k w) (contents (origin_buf c)) (contents (client_buf c) @ brought (w_env w) (client_buf c))"
proof (cases "buffer_can_write (client_buf c)")
  case False
  then have "brought (w_env w) (client_buf c) = []" by (simp add: brought_def buffer_can_write_iff)
  then show ?thesis
    using relayed_masked [OF r, where fd = "origin_sock c" and op = OP_READ] k False uprightD(6,11) [OF r] by (simp add: handle_proxy_read_def ATTACHMENT_def)
next
  case True
  note d = uprightD [OF r]
  have rd: "read_ok (env_read (w_env w))" using env by (simp add: env_ok_def)
  have room: "0 < Buffer.space (client_buf c)" using True by (simp add: buffer_can_write_iff)
  then have got: "brought (w_env w) (client_buf c) = rd_bytes (env_read (w_env w)) (Buffer.space (client_buf c))"
    by (simp add: brought_def)
  obtain n e b where b: "read_from_sock (env_read (w_env w)) (client_buf c) = Inr (n, e, b)" "buffer_wf b"
    "contents b = contents (client_buf c) @ brought (w_env w) (client_buf c)"
    unfolding got by (rule read_from_sock_ok [OF d(10) rd])
  have c1: "c\<lparr>client_buf := b\<rparr> = relayed_client c (origin_buf c) b (pop3_parser c) (active_ends c)" by (simp add: relayed_client_def)
  have wf: "client_wf (relayed_client c (origin_buf c) b (pop3_parser c) (active_ends c))"
    by (rule client_wf_kept [OF d(3) d(9) b(2) client_wf_parser [OF d(3)]])
  let ?w1 = "put_client cid (c\<lparr>client_buf := b\<rparr>) w"
  show ?thesis
  proof (cases "checkEOF n e")
    case eof: True
    then have "handle_proxy_read k w = closeClient cid ORIGIN_READ ?w1"
      using k True b(1) d(6,11) by (simp add: handle_proxy_read_def ATTACHMENT_def Let_def)
    then show ?thesis using relayed_closed [OF r wf, of ORIGIN_READ] b(3) by (simp add: c1)
  next
    case more: False
    have "sel_wf ?w1" using d(1) by simp
    then obtain st w2 where w2: "selector_unmask_interest (client_sock c) OP_WRITE ?w1 = Inr (st, w2)"
      "touches {client_sock c, origin_sock c} ?w1 w2" "w_clients w2 = w_clients ?w1" "calm ?w1 w2"
      using nudge(1) [of ?w1 "client_sock c" "{client_sock c, origin_sock c}" OP_WRITE] by blast
    obtain x where x: "arr_get (buf_data b) (buf_read b) = Inr x" using first_byte [OF d(10) rd room b(1) more] by blast
    define pp where "pp = (if pop3_parser c = None \<and> (x = 43 \<or> x = 45) then new_parser (w_env w) 0 else pop3_parser c)"
    let ?w3 = "(put_client cid (c\<lparr>client_buf := b, pop3_parser := pp\<rparr>) w2)\<lparr>w_log := w_log w\<rparr>"
    have "w_log w2 = w_log w" using w2(2) by (simp add: touches_def) (simp add: put_client_def)
    moreover have "(w_clients w2)(cid \<mapsto> c\<lparr>client_buf := b, pop3_parser := pop3_parser c\<rparr>) = w_clients w2"
      using w2(3) by (simp add: put_client_def fun_upd_idem)
    ultimately have run: "handle_proxy_read k w = Inr (client_state c, ?w3)"
      using k True b(1) d(6,11) more w2(1) x by (simp add: handle_proxy_read_def ATTACHMENT_def Let_def pp_def put_client_def)
    have ppwf: "\<forall>p. pp = Some p \<longrightarrow> pop3_wf p"
      using new_parser_wf [OF env] client_wf_parser [OF d(3)] by (auto simp: pp_def)
    show ?thesis
      unfolding run b(3) [symmetric]
    proof (rule relayedI [OF r _ touches_changed [OF w2(2)]])
      show "w_clients ?w3 = (w_clients w)(cid \<mapsto> relayed_client c (origin_buf c) b pp (active_ends c))"
        using w2(3) by (simp add: put_client_def relayed_client_def)
      show "calm w ?w3" using w2(4) by (simp add: calm_def)
      show "client_wf (relayed_client c (origin_buf c) b pp (active_ends c))"
        by (rule client_wf_kept [OF d(3) d(9) b(2) ppwf])
    qed
  qed
qed

section \<open>Writing\<close>

definition kept :: "sysenv \<Rightarrow> buffer \<Rightarrow> byte list" where
  "kept e b = drop (sd_count (env_send e) (contents b)) (contents b)"

definition passed :: "sysenv \<Rightarrow> buffer \<Rightarrow> byte list" where
  "passed e b = take (sd_count (env_send e) (contents b)) (contents b)"

lemma touches_accounted:
  "touches S (put_client cid c1 w) w' \<Longrightarrow>
     touches S (w\<lparr>w_state := w_state (account c n left w'), w_log := w_log w\<rparr>) (account c n left w')"
  by (simp add: touches_def account_def) (simp add: put_client_def)

lemma account_frame [simp]: "w_clients (account c n left w) = w_clients w" "quiet (account c n left w) = quiet w"
  by (simp_all add: account_def)

text \<open>The common end of the two directions.\<close>

lemma relayed_sent:
  assumes r: "upright cid c w" and wf: "client_wf (relayed_client c ob cb (pop3_parser c) (active_ends c))" and fd: "fd \<in> {client_sock c, origin_sock c}"
  shows "relayed cid c w level (bindE (selector_unmask_interest fd OP_READ (put_client cid (relayed_client c ob cb (pop3_parser c) (active_ends c)) w))
    (\<lambda>(_, w2). Inr (client_state c, account c n left w2))) (contents ob) (contents cb)"
proof -
  let ?w1 = "put_client cid (relayed_client c ob cb (pop3_parser c) (active_ends c)) w"
  have "sel_wf ?w1" using uprightD(1) [OF r] by simp
  then obtain st w2 where w2: "selector_unmask_interest fd OP_READ ?w1 = Inr (st, w2)"
    "touches {client_sock c, origin_sock c} ?w1 w2" "w_clients w2 = w_clients ?w1" "calm ?w1 w2"
    using nudge(1) [of ?w1 fd "{client_sock c, origin_sock c}" OP_READ] fd by blast
  have "calm w (account c n left w2)" using w2(4) by (simp add: calm_def)
  moreover have "w_clients (account c n left w2) = (w_clients w)(cid \<mapsto> relayed_client c ob cb (pop3_parser c) (active_ends c))"
    using w2(3) by (simp add: put_client_def)
  ultimately have "relayed cid c w level (Inr (client_state c, account c n left w2)) (contents ob) (contents cb)"
    by (intro relayedI [OF r _ touches_accounted [OF w2(2)] _ wf])
  then show ?thesis using w2(1) by simp
qed

text \<open>An empty buffer: the other side is finished and this end is closed, or there is nothing to do.\<close>

lemma relayed_idle:
  assumes r: "upright cid c w"
  shows "relayed cid c w level (closeClient cid level w) (contents (origin_buf c)) (contents (client_buf c))"
proof -
  note d = uprightD [OF r]
  have c: "relayed_client c (origin_buf c) (client_buf c) (pop3_parser c) (active_ends c) = c" by (simp add: relayed_client_def)
  have "put_client cid c w = w" using d(2) by (simp add: put_client_def fun_upd_idem)
  then show ?thesis
    using relayed_closed [OF r, of "origin_buf c" "client_buf c" "pop3_parser c" level] d(3) by (simp add: c)
qed

lemma kept_empty: "send_ok (env_send e) \<Longrightarrow> contents b = [] \<Longrightarrow> kept e b = []"
  by (simp add: kept_def)

lemma relay_write_client:
  assumes r: "upright cid c w" and k: "key_data k = Some (A_client cid)" "key_fd k = client_sock c" and env: "env_ok (w_env w)"
  shows "relayed cid c w CLIENT_WRITE (handle_proxy_write k w) (contents (origin_buf c)) (kept (w_env w) (client_buf c))"
proof -
  note d = uprightD [OF r]
  have sd: "send_ok (env_send (w_env w))" using env by (simp add: env_ok_def)
  have at: "ATTACHMENT k = Inr cid" using k by (simp add: ATTACHMENT_def)
  show ?thesis
  proof (cases "buffer_can_read (client_buf c)")
    case False
    then have "contents (client_buf c) = []" using buffer_can_read_iff [OF d(10)] by simp
    with False show ?thesis
      using relayed_idle [OF r] relayed_masked [OF r, where fd = "client_sock c" and op = OP_WRITE] kept_empty [OF sd] k(2) d(11) at by (simp add: handle_proxy_write_def)
  next
    case True
    obtain left e b where b: "write_to_sock (env_send (w_env w)) (client_buf c) = Inr (left, e, b)" "buffer_wf b"
      "contents b = kept (w_env w) (client_buf c)"
      unfolding kept_def by (rule write_to_sock_ok [OF d(10) sd])
    let ?c = "relayed_client c (origin_buf c) b (pop3_parser c) (active_ends c)"
    have c1: "c\<lparr>client_buf := b\<rparr> = ?c" by (simp add: relayed_client_def)
    have wf: "client_wf ?c" by (rule client_wf_kept [OF d(3) d(9) b(2) client_wf_parser [OF d(3)]])
    have "handle_proxy_write k w = (if left \<noteq> 0 \<and> checkEOF left e then closeClient cid CLIENT_WRITE (put_client cid ?c w)
        else bindE (selector_unmask_interest (origin_sock c) OP_READ (put_client cid ?c w)) (\<lambda>(_, w2).
          Inr (client_state c, account c (length (contents (client_buf c))) left w2)))"
      using True b(1) k(2) d(10,11) at by (simp add: handle_proxy_write_def Let_def c1)
    then show ?thesis
      using relayed_closed [OF r wf, of CLIENT_WRITE] relayed_sent [OF r wf, where fd = "origin_sock c"] b(3) by simp
  qed
qed

lemma relay_write_origin:
  assumes r: "upright cid c w" and k: "key_data k = Some (A_client cid)" "key_fd k = origin_sock c" and env: "env_ok (w_env w)"
  shows "relayed cid c w ORIGIN_WRITE (handle_proxy_write k w) (kept (w_env w) (origin_buf c)) (contents (client_buf c))"
proof -
  note d = uprightD [OF r]
  have sd: "send_ok (env_send (w_env w))" using env by (simp add: env_ok_def)
  have at: "ATTACHMENT k = Inr cid" using k by (simp add: ATTACHMENT_def)
  show ?thesis
  proof (cases "buffer_can_read (origin_buf c)")
    case False
    then have "contents (origin_buf c) = []" using buffer_can_read_iff [OF d(9)] by simp
    with False show ?thesis
      using relayed_idle [OF r] relayed_masked [OF r, where fd = "origin_sock c" and op = OP_WRITE] kept_empty [OF sd] k(2) d(6,11) at by (simp add: handle_proxy_write_def)
  next
    case True
    obtain left e b where b: "write_to_sock (env_send (w_env w)) (origin_buf c) = Inr (left, e, b)" "buffer_wf b"
      "contents b = kept (w_env w) (origin_buf c)"
      unfolding kept_def by (rule write_to_sock_ok [OF d(9) sd])
    let ?c = "relayed_client c b (client_buf c) (pop3_parser c) (active_ends c)"
    have c1: "c\<lparr>origin_buf := b\<rparr> = ?c" by (simp add: relayed_client_def)
    have wf: "client_wf ?c" by (rule client_wf_kept [OF d(3) b(2) d(10) client_wf_parser [OF d(3)]])
    have "handle_proxy_write k w = (if left \<noteq> 0 \<and> checkEOF left e then closeClient cid ORIGIN_WRITE (put_client cid ?c w)
        else bindE (selector_unmask_interest (client_sock c) OP_READ (put_client cid ?c w)) (\<lambda>(_, w2).
          Inr (client_state c, account c (length (contents (origin_buf c))) left w2)))"
      using True b(1) k(2) d(6,9,11) at by (simp add: handle_proxy_write_def Let_def c1)
    then show ?thesis
      using relayed_closed [OF r wf, of ORIGIN_WRITE] relayed_sent [OF r wf, where fd = "client_sock c"] b(3) by simp
  qed
qed

section \<open>Under the state machine\<close>

text \<open>Changing the state of the machine leaves everything else.\<close>

definition at_state :: "client \<Rightarrow> nat \<Rightarrow> client" where
  "at_state c st = c\<lparr>stm_current := Some st\<rparr>"

lemma at_state_fields [simp]:
  "client_sock (at_state c st) = client_sock c" "origin_sock (at_state c st) = origin_sock c"
  "stm_current (at_state c st) = Some st" "active_ends (at_state c st) = active_ends c"
  "origin_buf (at_state c st) = origin_buf c" "client_buf (at_state c st) = client_buf c"
  "client_state (at_state c st) = st" "curr_freed (at_state c st) = curr_freed c" "curr_addr (at_state c st) = curr_addr c"
  "client_wf (at_state c st) = client_wf c" "ends_quiet (at_state c st) w = ends_quiet c w" "settled (at_state c st) w = settled c w"
  "log_dest nc (at_state c st) = log_dest nc c"
  by (simp_all add: at_state_def client_state_def client_wf_def ends_quiet_def settled_def log_dest_def split: option.split)

lemma at_state_same: "stm_current c = Some st \<Longrightarrow> at_state c st = c"
  by (cases c) (simp add: at_state_def)

lemma linked_put:
  assumes "linked cid c w" and "client_wf c'" "client_sock c' = client_sock c" "origin_sock c' = origin_sock c" "\<not> curr_freed c'"
  shows "linked cid c' (put_client cid c' w)"
  using assms by (simp add: linked_def proxy_fd_def) (simp add: put_client_def)

lemma settled_put [simp]: "settled c (put_client cid c' w) = settled c w"
  by (simp add: settled_def ends_quiet_def)

lemma linked_touches:
  assumes "linked cid c w" and "touches S (w\<lparr>w_state := s, w_log := l\<rparr>) w'" and "w_clients w' cid = Some c'" "client_wf c'"
    "client_sock c' = client_sock c" "origin_sock c' = origin_sock c" "\<not> curr_freed c'"
  shows "linked cid c' w'"
proof -
  note d = linkedD [OF assms(1)]
  have "proxy_fd w' (client_sock c)" "proxy_fd w' (origin_sock c)"
    using touches_proxy_fd [OF assms(2)] d(4,5) by (simp_all add: proxy_fd_def)
  moreover have "it_data it = Some (A_client cid)" if "fd \<in> {client_sock c, origin_sock c}" "registered w' fd = Some it" for fd it
    using assms(2) that d(11) unfolding touches_def by fastforce
  ultimately show ?thesis
    using assms touches_wf [OF assms(2)] d(6) by (auto simp: linked_def)
qed

lemma touches_again: "touches S w w1 \<Longrightarrow> touches S (w\<lparr>w_state := w_state w, w_log := w_log w\<rparr>) w1"
  by simp

lemma settled_next:
  assumes "settled c w" and "ends_quiet c' w'" and "client_sock c' = client_sock c" "origin_sock c' = origin_sock c"
    and t: "touches S (w\<lparr>w_state := s, w_log := l\<rparr>) w'"
    and g: "gone CLIENT (active_ends c) (active_ends c') \<Longrightarrow> registered w' (client_sock c) = None"
      "gone ORIGIN (active_ends c) (active_ends c') \<Longrightarrow> registered w' (origin_sock c) = None"
  shows "settled c' w'"
  using assms(1-4) g touches_None [OF t] by (auto simp: settled_def gone_def)

text \<open>The last state destroys the client; the one before it asks for writability.\<close>

lemma arrive_done:
  assumes l: "linked cid c w" and q: "settled c w" and e: "active_ends c = 0" and k: "key_data k = Some (A_client cid)"
  shows "\<exists>w'. arrival DONE k w = Inr w' \<and> w_clients w' cid = None \<and> confined cid w w'
    \<and> registered w' (client_sock c) = None \<and> registered w' (origin_sock c) = None"
proof -
  note d = linkedD [OF l]
  have "arrival DONE k w = Inr (emit (Free_client cid) (w\<lparr>w_state := rm_proxy_client (w_state w), w_clients := (w_clients w)(cid := None)\<rparr>))"
    using d(9,10) k by (simp add: arrival_def client_destroy_def ATTACHMENT_def Let_def)
  then show ?thesis using q e by (simp add: settled_def hasFlag_def) (simp add: emit_def confined_def bystanders_def)
qed

lemma arrive_remaining:
  assumes l: "linked cid c w" and q: "settled c w" and k: "key_data k = Some (A_client cid)"
  shows "\<exists>w'. arrival WRITE_REMAINING k w = Inr w' \<and> w_clients w' = w_clients w \<and> linked cid c w' \<and> settled c w' \<and> w_log w' = w_log w
    \<and> confined cid w w'"
proof -
  note d = linkedD [OF l]
  obtain w' where w': "enable_write cid w = Inr w'" "touches {client_sock c, origin_sock c} w w'" "w_clients w' = w_clients w"
    "client_sock c \<noteq> origin_sock c \<and> ends_quiet c w \<longrightarrow> ends_quiet c w'"
    by (rule enable_write_ok [OF d(1,9)])
  have "linked cid c w'"
    using w'(3) d by (intro linked_touches [OF l touches_again [OF w'(2)]]) simp_all
  moreover have "settled c w'"
    using w'(4) q d(6) by (intro settled_next [OF q _ _ _ touches_again [OF w'(2)]]) (simp_all add: settled_def gone_def)
  moreover have "w_log w' = w_log w" using w'(2) by (simp add: touches_def)
  moreover have "confined cid w w'" using w'(3) by (intro confined_touches [OF l touches_again [OF w'(2)]]) simp_all
  ultimately show ?thesis
    using w'(1,3) k by (simp add: arrival_def arrive_enable_write_def ATTACHMENT_def)
qed

text \<open>A callback has left the client with the ends of \<open>c2\<close>, and returns the state that goes with them.\<close>

lemma dispatched:
  assumes k: "key_data k = Some (A_client cid)" and c: "w_clients w cid = Some c" "stm_current c = Some st" "st \<le> WRITE_REMAINING"
    and f: "cb (state_actions ! st) = Some f" "f k w = Inr (close_state st (active_ends c2), w2)"
    and c2: "linked cid c2 w2" "settled c2 w2" "stm_current c2 = Some st"
  defines "ret \<equiv> close_state st (active_ends c2)"
  shows "\<exists>w'. stm_dispatch cb proxy_machine client_stm k w = Inr (ret, w') \<and> confined cid w2 w'
    \<and> (ret = DONE \<and> st \<noteq> DONE \<longrightarrow> w_clients w' cid = None \<and> registered w' (client_sock c2) = None \<and> registered w' (origin_sock c2) = None)
    \<and> (ret \<noteq> DONE \<longrightarrow> w_clients w' cid = Some (at_state c2 ret) \<and> upright cid (at_state c2 ret) w' \<and> (ret = st \<longrightarrow> w' = w2)
         \<and> w_log w' = w_log w2)"
proof -
  note d = linkedD [OF c2(1)]
  have le: "ret \<le> WRITE_REMAINING" using c(3) by (simp add: ret_def close_state_def)
  note run = dispatch_run [where cb = cb, OF k c(1,2) f d(2) c2(3) c(3) le [unfolded ret_def], folded ret_def at_state_def]
  have cl: "close_state ret (active_ends c2) = ret" by (simp add: ret_def close_state_def)
  show ?thesis
  proof (cases "ret = st")
    case True
    then have "upright cid (at_state c2 ret) w2" "w_clients w2 cid = Some (at_state c2 ret)"
      using c2 cl d(2) by (simp_all add: at_state_same upright_def client_state_def)
    then show ?thesis using run True by auto
  next
    case False
    let ?c = "at_state c2 ret" and ?w = "put_client cid (at_state c2 ret) w2"
    have l: "linked cid ?c ?w" using d by (intro linked_put [OF c2(1)]) simp_all
    have q: "settled ?c ?w" using c2(2) by simp
    show ?thesis
    proof (cases "ret = DONE")
      case True
      then have "active_ends ?c = 0" using False by (auto simp: ret_def close_state_def split: if_splits)
      from arrive_done [OF l q this k] show ?thesis using run False True by auto
    next
      case go: False
      with False have "ret = WRITE_REMAINING" by (auto simp: ret_def close_state_def split: if_splits)
      with arrive_remaining [OF l q k] obtain w' where "arrival ret k ?w = Inr w'" "w_clients w' = w_clients ?w" "linked cid ?c w'" "settled ?c w'"
          "w_log w' = w_log ?w" "confined cid ?w w'"
        by auto
      then show ?thesis using run False go cl by (auto simp: upright_def) (simp_all add: put_client_def)
    qed
  qed
qed

text \<open>The connection after a transfer: it goes on, or it is destroyed and its sockets are not watched any more.\<close>

definition moved :: "nat \<Rightarrow> client \<Rightarrow> world \<Rightarrow> flags \<Rightarrow> byte list \<Rightarrow> byte list \<Rightarrow> world \<Rightarrow> bool" where
  "moved cid c w level up down w' \<longleftrightarrow> confined cid w w' \<and>
     (case w_clients w' cid of
        Some c' \<Rightarrow> upright cid c' w' \<and> (\<exists>ob cb pp e. c' = at_state (relayed_client c ob cb pp e) (close_state (client_state c) e)
          \<and> contents ob = up \<and> contents cb = down \<and> e \<noteq> 0 \<and> (\<forall>n. bit e n \<longrightarrow> bit (active_ends c) n)
          \<and> (e = active_ends c \<and> calm w w' \<or> e = ends_after level (active_ends c)))
      | None \<Rightarrow> registered w' (client_sock c) = None \<and> registered w' (origin_sock c) = None)"

lemma relayed_dispatch:
  assumes r: "upright cid c w" and k: "key_data k = Some (A_client cid)" and cur: "stm_current c = Some (client_state c)"
    and st: "client_state c \<le> WRITE_REMAINING" "client_state c \<noteq> DONE" and f: "cb (state_actions ! client_state c) = Some f"
    and h: "relayed cid c w level (f k w) up down"
  shows "\<exists>ret w'. stm_dispatch cb proxy_machine client_stm k w = Inr (ret, w') \<and> moved cid c w level up down w'"
proof -
  note d = uprightD [OF r]
  obtain w2 ob cb' pp e s l where w2: "f k w = Inr (close_state (client_state c) e, w2)"
    "w_clients w2 = (w_clients w)(cid \<mapsto> relayed_client c ob cb' pp e)"
    "touches {client_sock c, origin_sock c} (w\<lparr>w_state := s, w_log := l\<rparr>) w2" "client_wf (relayed_client c ob cb' pp e)"
    "contents ob = up" "contents cb' = down" "ends_quiet (relayed_client c ob cb' pp e) w2" "\<forall>n. bit e n \<longrightarrow> bit (active_ends c) n"
    "e = active_ends c \<and> calm w w2 \<or> e = ends_after level (active_ends c)"
    "gone CLIENT (active_ends c) e \<longrightarrow> registered w2 (client_sock c) = None" "gone ORIGIN (active_ends c) e \<longrightarrow> registered w2 (origin_sock c) = None"
    using h unfolding relayed_def by blast
  let ?c2 = "relayed_client c ob cb' pp e" and ?ret = "close_state (client_state c) e"
  have l2: "linked cid ?c2 w2" using w2 d(12) by (intro linked_touches [OF d(13) w2(3)]) (simp_all add: relayed_client_def)
  have s2: "settled ?c2 w2" using w2 by (intro settled_next [OF d(14) w2(7) _ _ w2(3)]) simp_all
  have f2: "f k w = Inr (close_state (client_state c) (active_ends ?c2), w2)" using w2(1) by simp
  obtain w' where w': "stm_dispatch cb proxy_machine client_stm k w = Inr (?ret, w')" "confined cid w2 w'"
    "?ret = DONE \<longrightarrow> w_clients w' cid = None \<and> registered w' (client_sock c) = None \<and> registered w' (origin_sock c) = None"
    "?ret \<noteq> DONE \<longrightarrow> w_clients w' cid = Some (at_state ?c2 ?ret) \<and> upright cid (at_state ?c2 ?ret) w' \<and> (?ret = client_state c \<longrightarrow> w' = w2)"
    using dispatched [OF k d(2) cur st(1), where cb = cb, OF f f2 l2 s2] cur st(2) by auto
  have "confined cid w w2" using w2(2) by (intro confined_touches [OF d(13) w2(3)]) simp_all
  then have jobs: "confined cid w w'" using w'(2) by (rule confined_trans)
  have "moved cid c w level up down w'"
  proof (cases "?ret = DONE")
    case True
    then show ?thesis using w'(3) jobs by (simp add: moved_def)
  next
    case False
    then have "e \<noteq> 0" by (auto simp: close_state_def)
    moreover have "e = active_ends c \<Longrightarrow> ?ret = client_state c" using d(7) by simp
    ultimately show ?thesis using w'(4) w2(5,6,8,9) False jobs unfolding moved_def by auto
  qed
  with w'(1) show ?thesis by blast
qed

text \<open>A connection that relays or drains goes on relaying or draining.\<close>

lemma hasFlag_sub: "(\<And>n. bit e n \<Longrightarrow> bit e' n) \<Longrightarrow> hasFlag e f \<Longrightarrow> hasFlag e' f"
  by (auto simp: hasFlag_bit)

lemma relaying_next:
  assumes r: "relaying cid c w" and m: "moved cid c w level up down w'" and c': "w_clients w' cid = Some c'"
  shows "relaying cid c' w'" and "client_sock c' = client_sock c" "origin_sock c' = origin_sock c"
    "contents (origin_buf c') = up" "contents (client_buf c') = down"
proof -
  obtain ob cb pp e where e: "c' = at_state (relayed_client c ob cb pp e) (close_state (client_state c) e)"
    "contents ob = up" "contents cb = down" "e \<noteq> 0" "\<And>n. bit e n \<Longrightarrow> bit (active_ends c) n" and u: "upright cid c' w'"
    using m c' by (auto simp: moved_def)
  have "client_state c = PROXY \<and> (\<exists>d. log_dest False c = Inr d)
      \<or> client_state c = WRITE_REMAINING \<and> \<not> hasFlag (active_ends c) (CLIENT_READ OR ORIGIN_READ)"
    using r by (auto simp: relaying_def client_state_def)
  then show "relaying cid c' w'"
    using u e(1,4) hasFlag_sub [OF e(5)] unfolding relaying_def by (auto simp: close_state_def)
  show "client_sock c' = client_sock c" "origin_sock c' = origin_sock c" "contents (origin_buf c') = up" "contents (client_buf c') = down"
    using e(1-3) by simp_all
qed

definition aftermath :: "nat \<Rightarrow> client \<Rightarrow> byte list \<Rightarrow> byte list \<Rightarrow> world \<Rightarrow> bool" where
  "aftermath cid c up down w' \<longleftrightarrow>
     (case w_clients w' cid of
        Some c' \<Rightarrow> relaying cid c' w' \<and> client_sock c' = client_sock c \<and> origin_sock c' = origin_sock c
          \<and> contents (origin_buf c') = up \<and> contents (client_buf c') = down
      | None \<Rightarrow> registered w' (client_sock c) = None \<and> registered w' (origin_sock c) = None)"

lemma moved_aftermath:
  assumes "relaying cid c w" and "moved cid c w level up down w'"
  shows "aftermath cid c up down w'"
proof (cases "w_clients w' cid")
  case None
  then show ?thesis using assms(2) by (simp add: aftermath_def moved_def)
next
  case (Some c')
  then show ?thesis using relaying_next [OF assms Some] by (simp add: aftermath_def)
qed

section \<open>Runs\<close>

text \<open>
  What \<open>handle_iteration\<close> does with a ready descriptor: it calls the handler with the key of the
  item, if the item is (still) interested in the event.
\<close>

definition relay_event :: "bool \<Rightarrow> int \<Rightarrow> world \<Rightarrow> world run" where
  "relay_event rd fd w =
     (case registered w fd of
        None \<Rightarrow> Inr w
      | Some it \<Rightarrow>
          if hasFlag (it_interest it) (if rd then OP_READ else OP_WRITE)
          then (if rd then socksv5_read else socksv5_write) \<lparr>key_fd = fd, key_data = it_data it\<rparr> w
          else Inr w)"

text \<open>The bytes that cross the proxy's sockets.\<close>

record traffic =
  from_client :: "byte list"
  to_origin :: "byte list"
  from_origin :: "byte list"
  to_client :: "byte list"

definition no_traffic :: traffic where
  "no_traffic = \<lparr>from_client = [], to_origin = [], from_origin = [], to_client = []\<rparr>"

definition more_traffic :: "traffic \<Rightarrow> traffic \<Rightarrow> traffic" where
  "more_traffic t u = \<lparr>from_client = from_client t @ from_client u, to_origin = to_origin t @ to_origin u,
     from_origin = from_origin t @ from_origin u, to_client = to_client t @ to_client u\<rparr>"

definition event_traffic :: "nat \<Rightarrow> bool \<Rightarrow> int \<Rightarrow> world \<Rightarrow> traffic" where
  "event_traffic cid rd fd w =
     (case (w_clients w cid, registered w fd) of
        (Some c, Some it) \<Rightarrow>
          if \<not> hasFlag (it_interest it) (if rd then OP_READ else OP_WRITE) then no_traffic
          else if rd \<and> fd = client_sock c then no_traffic\<lparr>from_client := brought (w_env w) (origin_buf c)\<rparr>
          else if rd then no_traffic\<lparr>from_origin := brought (w_env w) (client_buf c)\<rparr>
          else if fd = client_sock c then no_traffic\<lparr>to_client := passed (w_env w) (client_buf c)\<rparr>
          else no_traffic\<lparr>to_origin := passed (w_env w) (origin_buf c)\<rparr>
      | _ \<Rightarrow> no_traffic)"

text \<open>A sequence of events, each with what the system answers then.\<close>

fun relay_run :: "nat \<Rightarrow> (bool \<times> int \<times> sysenv) list \<Rightarrow> world \<Rightarrow> (traffic \<times> world) run" where
  "relay_run cid [] w = Inr (no_traffic, w)"
| "relay_run cid ((rd, fd, e) # evs) w =
     (let w0 = w\<lparr>w_env := e\<rparr> in
      bindE (relay_event rd fd w0) (\<lambda>w1.
      bindE (relay_run cid evs w1) (\<lambda>(t, w2). Inr (more_traffic (event_traffic cid rd fd w0) t, w2))))"

text \<open>Each direction is a queue: what came in is what went out, followed by what still waits.\<close>

definition conserved :: "client \<Rightarrow> traffic \<Rightarrow> byte list \<Rightarrow> byte list \<Rightarrow> bool" where
  "conserved c t up down \<longleftrightarrow> contents (origin_buf c) @ from_client t = to_origin t @ up
     \<and> contents (client_buf c) @ from_origin t = to_client t @ down"

lemma relaying_env [simp]: "relaying cid c (w\<lparr>w_env := e\<rparr>) = relaying cid c w"
  by (simp add: relaying_def upright_def linked_def settled_def proxy_fd_def ends_quiet_def quiet_def)

lemma kept_passed: "passed e b @ kept e b = contents b"
  by (simp add: passed_def kept_def)

text \<open>The event reaches its handler.\<close>

definition conserving :: "nat \<Rightarrow> client \<Rightarrow> bool \<Rightarrow> int \<Rightarrow> world \<Rightarrow> bool" where
  "conserving cid c rd fd w \<longleftrightarrow> (\<exists>w' up down. relay_event rd fd w = Inr w' \<and> confined cid w w' \<and> aftermath cid c up down w'
     \<and> conserved c (event_traffic cid rd fd w) up down)"

lemma fired:
  assumes "relaying cid c w" and "key_data k = Some (A_client cid)" and "cb (state_actions ! client_state c) = Some f"
    and "relay_event rd fd w = bindE (stm_dispatch cb proxy_machine client_stm k w) (\<lambda>(_, w1). Inr w1)"
    and "relayed cid c w level (f k w) up down" and "conserved c (event_traffic cid rd fd w) up down"
  shows "conserving cid c rd fd w"
proof -
  have st: "stm_current c = Some (client_state c)" "client_state c \<le> WRITE_REMAINING" "client_state c \<noteq> DONE"
    using assms(1) by (auto simp: relaying_def client_state_def)
  obtain ret w' where "stm_dispatch cb proxy_machine client_stm k w = Inr (ret, w')" "confined cid w w'" "aftermath cid c up down w'"
    using relayed_dispatch [OF relaying_upright [OF assms(1)] assms(2) st, of cb f level up down] assms(3,5) moved_aftermath [OF assms(1)] by (auto simp: moved_def)
  then have "relay_event rd fd w = Inr w'" "confined cid w w'" "aftermath cid c up down w'" using assms(4) by simp_all
  with assms(6) show ?thesis unfolding conserving_def by blast
qed

lemma relaying_state:
  assumes "relaying cid c w"
  shows "client_state c = PROXY \<or> client_state c = WRITE_REMAINING"
    and "client_state c = WRITE_REMAINING \<Longrightarrow> fd \<in> {client_sock c, origin_sock c} \<Longrightarrow> quiet w fd OP_READ"
    and "fd \<in> {client_sock c, origin_sock c} \<Longrightarrow> registered w fd = Some it \<Longrightarrow> it_data it = Some (A_client cid)"
  using assms by (auto simp: relaying_def upright_def linked_def settled_def client_state_def ends_quiet_def hasFlag_or)

lemma read_conserving:
  assumes r: "relaying cid c w" and fd: "fd \<in> {client_sock c, origin_sock c}" and env: "env_ok (w_env w)"
    and it: "registered w fd = Some it" "hasFlag (it_interest it) OP_READ"
  shows "conserving cid c True fd w"
proof -
  let ?k = "\<lparr>key_fd = fd, key_data = it_data it\<rparr>"
  have data: "key_data ?k = Some (A_client cid)" using relaying_state(3) [OF r fd it(1)] by simp
  have st: "client_state c = PROXY" using relaying_state(1,2) [OF r] it fd by (auto simp: quiet_def)
  then obtain d0 where log: "log_dest False c = Inr d0" using r by (auto simp: relaying_def client_state_def)
  from st have f: "on_read_ready (state_actions ! client_state c) = Some handle_proxy_read" by (simp add: no_action_def)
  have ev: "relay_event True fd w = bindE (stm_dispatch on_read_ready proxy_machine client_stm ?k w) (\<lambda>(_, w1). Inr w1)"
    using it by (simp add: relay_event_def socksv5_read_def stm_handler_read_def)
  show ?thesis
  proof (cases "fd = client_sock c")
    case True
    then have "relayed cid c w CLIENT_READ (handle_proxy_read ?k w) (contents (origin_buf c) @ brought (w_env w) (origin_buf c)) (contents (client_buf c))"
      by (intro relay_read_client [OF relaying_upright [OF r] data _ env log]) simp
    then show ?thesis
      by (rule fired [where cb = on_read_ready, OF r data f ev])
        (use it True uprightD(2) [OF relaying_upright [OF r]] in \<open>simp add: event_traffic_def conserved_def no_traffic_def\<close>)
  next
    case False
    with fd have "relayed cid c w ORIGIN_READ (handle_proxy_read ?k w) (contents (origin_buf c)) (contents (client_buf c) @ brought (w_env w) (client_buf c))"
      by (intro relay_read_origin [OF relaying_upright [OF r] data _ env]) simp
    then show ?thesis
      by (rule fired [where cb = on_read_ready, OF r data f ev])
        (use it False uprightD(2) [OF relaying_upright [OF r]] in \<open>simp add: event_traffic_def conserved_def no_traffic_def\<close>)
  qed
qed

lemma write_conserving:
  assumes r: "relaying cid c w" and fd: "fd \<in> {client_sock c, origin_sock c}" and env: "env_ok (w_env w)"
    and it: "registered w fd = Some it" "hasFlag (it_interest it) OP_WRITE"
  shows "conserving cid c False fd w"
proof -
  let ?k = "\<lparr>key_fd = fd, key_data = it_data it\<rparr>"
  have data: "key_data ?k = Some (A_client cid)" using relaying_state(3) [OF r fd it(1)] by simp
  have f: "on_write_ready (state_actions ! client_state c) = Some handle_proxy_write"
    using relaying_state(1) [OF r] by (auto simp: no_action_def)
  have ev: "relay_event False fd w = bindE (stm_dispatch on_write_ready proxy_machine client_stm ?k w) (\<lambda>(_, w1). Inr w1)"
    using it by (simp add: relay_event_def socksv5_write_def stm_handler_write_def)
  show ?thesis
  proof (cases "fd = client_sock c")
    case True
    then have "relayed cid c w CLIENT_WRITE (handle_proxy_write ?k w) (contents (origin_buf c)) (kept (w_env w) (client_buf c))"
      by (intro relay_write_client [OF relaying_upright [OF r] data _ env]) simp
    then show ?thesis
      by (rule fired [where cb = on_write_ready, OF r data f ev])
        (use it True uprightD(2) [OF relaying_upright [OF r]] in \<open>simp add: event_traffic_def conserved_def no_traffic_def kept_passed\<close>)
  next
    case False
    with fd have "relayed cid c w ORIGIN_WRITE (handle_proxy_write ?k w) (kept (w_env w) (origin_buf c)) (contents (client_buf c))"
      by (intro relay_write_origin [OF relaying_upright [OF r] data _ env]) simp
    then show ?thesis
      by (rule fired [where cb = on_write_ready, OF r data f ev])
        (use it False uprightD(2) [OF relaying_upright [OF r]] in \<open>simp add: event_traffic_def conserved_def no_traffic_def kept_passed\<close>)
  qed
qed

lemma relay_event_ok:
  assumes r: "relaying cid c w" and fd: "fd \<in> {client_sock c, origin_sock c}" and env: "env_ok (w_env w)"
  shows "conserving cid c rd fd w"
proof (cases "\<exists>it. registered w fd = Some it \<and> hasFlag (it_interest it) (if rd then OP_READ else OP_WRITE)")
  case False
  then have "relay_event rd fd w = Inr w" "event_traffic cid rd fd w = no_traffic"
    by (auto simp: relay_event_def event_traffic_def split: option.splits)
  then show ?thesis using r uprightD(2) [OF relaying_upright [OF r]] by (auto simp: conserving_def aftermath_def conserved_def no_traffic_def)
next
  case True
  then show ?thesis using read_conserving [OF assms] write_conserving [OF assms] by (cases rd) auto
qed

text \<open>Once the connection is destroyed its descriptors are not watched and nothing happens.\<close>

lemma relay_run_gone:
  assumes "\<forall>ev\<in>set evs. registered w (fst (snd ev)) = None" and "w_clients w cid = None"
  shows "\<exists>w'. relay_run cid evs w = Inr (no_traffic, w') \<and> w_clients w' cid = None"
  using assms
proof (induction evs arbitrary: w)
  case (Cons ev evs)
  obtain rd fd e where ev: "ev = (rd, fd, e)" by (cases ev)
  obtain w' where "relay_run cid evs (w\<lparr>w_env := e\<rparr>) = Inr (no_traffic, w')" "w_clients w' cid = None"
    using Cons.IH [of "w\<lparr>w_env := e\<rparr>"] Cons.prems by auto
  then show ?case
    using Cons.prems ev by (auto simp: relay_event_def event_traffic_def more_traffic_def no_traffic_def)
qed simp

lemma conserved_trans:
  assumes "conserved c t (contents (origin_buf c')) (contents (client_buf c'))" and "conserved c' u up down"
  shows "conserved c (more_traffic t u) up down"
  using assms unfolding conserved_def more_traffic_def by (metis (no_types, lifting) append_assoc traffic.select_convs)

lemma conserved_nothing: "conserved c no_traffic (contents (origin_buf c)) (contents (client_buf c))"
  and more_nothing [simp]: "more_traffic t no_traffic = t"
  by (simp_all add: conserved_def no_traffic_def more_traffic_def)

lemma relay_run_ok:
  assumes "relaying cid c w" and "\<forall>(rd, fd, e)\<in>set evs. env_ok e \<and> fd \<in> {client_sock c, origin_sock c}"
  shows "\<exists>t w'. relay_run cid evs w = Inr (t, w') \<and> (case w_clients w' cid of
      Some c' \<Rightarrow> relaying cid c' w' \<and> conserved c t (contents (origin_buf c')) (contents (client_buf c'))
    | None \<Rightarrow> \<exists>up down. conserved c t up down)"
  using assms
proof (induction evs arbitrary: c w)
  case Nil
  then show ?case using conserved_nothing uprightD(2) [OF relaying_upright] by fastforce
next
  case (Cons ev evs)
  obtain rd fd e where ev: "ev = (rd, fd, e)" by (cases ev)
  let ?w0 = "w\<lparr>w_env := e\<rparr>"
  have r0: "relaying cid c ?w0" and fd: "fd \<in> {client_sock c, origin_sock c}" and env: "env_ok (w_env ?w0)"
    using Cons.prems ev by auto
  obtain w1 up down where w1: "relay_event rd fd ?w0 = Inr w1" "aftermath cid c up down w1" "conserved c (event_traffic cid rd fd ?w0) up down"
    using relay_event_ok [OF r0 fd env] unfolding conserving_def by blast
  show ?case
  proof (cases "w_clients w1 cid")
    case None
    then have "\<forall>ev\<in>set evs. registered w1 (fst (snd ev)) = None" using w1(2) Cons.prems(2) by (fastforce simp: aftermath_def)
    then obtain w' where "relay_run cid evs w1 = Inr (no_traffic, w')" "w_clients w' cid = None"
      using relay_run_gone None by blast
    then show ?thesis using w1 ev by auto
  next
    case (Some c1)
    then have c1: "relaying cid c1 w1" "client_sock c1 = client_sock c" "origin_sock c1 = origin_sock c"
      "contents (origin_buf c1) = up" "contents (client_buf c1) = down"
      using w1(2) by (simp_all add: aftermath_def)
    obtain t w' where t: "relay_run cid evs w1 = Inr (t, w')" "(case w_clients w' cid of
        Some c' \<Rightarrow> relaying cid c' w' \<and> conserved c1 t (contents (origin_buf c')) (contents (client_buf c'))
      | None \<Rightarrow> \<exists>up down. conserved c1 t up down)"
      using Cons.IH [OF c1(1)] Cons.prems(2) c1(2,3) by auto
    have "conserved c (event_traffic cid rd fd ?w0) (contents (origin_buf c1)) (contents (client_buf c1))"
      using w1(3) c1(4,5) by simp
    note join = conserved_trans [OF this]
    show ?thesis
    proof (cases "w_clients w' cid")
      case None
      then obtain up' down' where "conserved c1 t up' down'" using t(2) by auto
      from join [OF this] have "\<exists>up down. conserved c (more_traffic (event_traffic cid rd fd ?w0) t) up down" by blast
      then show ?thesis using None t(1) ev w1(1) by simp
    next
      case (Some c')
      then show ?thesis using t ev w1(1) join by simp
    qed
  qed
qed

end
