(* ===== verification/Connection.thy ===== *)
theory Connection
  imports Relay
begin

text \<open>
  The life of a proxied connection (\<open>src/clients.c\<close>) from the socket that was accepted to the client that is
  destroyed: the handshake under its state machine, the resolver's result, the attempts to reach the
  origin, the relay. Each phase has its invariant; every event leads from one of them to one of them
  or to the end of the connection.
\<close>

section \<open>Refusals\<close>

text \<open>The key with which the selector calls for a descriptor of the connection.\<close>

definition conn_key :: "nat \<Rightarrow> int \<Rightarrow> key" where
  "conn_key cid fd = \<lparr>key_fd = fd, key_data = Some (A_client cid)\<rparr>"

lemma conn_key_simps [simp]:
  "key_fd (conn_key cid fd) = fd" "key_data (conn_key cid fd) = Some (A_client cid)" "ATTACHMENT (conn_key cid fd) = Inr cid"
  by (simp_all add: conn_key_def ATTACHMENT_def)

lemma registered_negative: "fd < 0 \<Longrightarrow> registered w fd = None"
  by (simp add: registered_def split: option.split)

lemma linked_serving: "linked cid c w \<Longrightarrow> env_ok (w_env w) \<Longrightarrow> serving (conn_key cid fd) cid c w"
  by (simp add: serving_def linked_def)

lemma put_same: "w_clients w cid = Some c \<Longrightarrow> put_client cid c w = w"
  by (simp add: put_client_def fun_upd_idem)

text \<open>The handshake closes the client's read end: the write end is left to drain the reply.\<close>

lemma closing_handshake:
  assumes "active_ends c = CLIENT"
  shows "closing c = (WRITE_REMAINING, CLIENT_WRITE)"
proof -
  have "ends_after CLIENT_READ CLIENT = CLIENT_WRITE" "CLIENT_WRITE \<noteq> 0" "\<not> hasFlag CLIENT_WRITE (CLIENT_READ OR ORIGIN_READ)"
    by code_simp+
  then show ?thesis using assms by (simp add: closing_def close_state_def Let_def)
qed

lemma client_ends: "hasFlag CLIENT CLIENT_WRITE" "hasFlag CLIENT CLIENT" "\<not> hasFlag CLIENT ORIGIN" "hasFlag CLIENT_WRITE CLIENT"
  "\<not> hasFlag CLIENT_WRITE ORIGIN" "\<not> hasFlag CLIENT_WRITE (CLIENT_READ OR ORIGIN_READ)" "hasFlag CLIENT CLIENT_READ"
  "\<not> hasFlag CLIENT ORIGIN_READ" "\<not> hasFlag CLIENT ORIGIN_WRITE" "CLIENT_WRITE \<noteq> 0"
  by code_simp+

text \<open>
  A connection that is served stays linked and settled; \<open>c'\<close> and the world are those of \<open>served\<close>.
\<close>

lemma served_linked:
  assumes l: "linked cid c w" and q: "settled c w" and e: "hasFlag (active_ends c) CLIENT_WRITE"
    and sv: "served cid c w r st ends rest out logs c'"
  obtains w' where "r = Inr (st, w')" "linked cid c' w'" "settled c' w'" "stm_current c' = stm_current c" "active_ends c' = ends"
    "client_sock c' = client_sock c" "origin_sock c' = origin_sock c" "contents (origin_buf c') = rest"
    "contents (client_buf c') = contents (client_buf c) @ out" "w_log w' = w_log w @ logs" "curr_freed c' = curr_freed c" "confined cid w w'"
proof -
  note d = linkedD [OF l]
  obtain w' where w': "r = Inr (st, w')" "w_clients w' = (w_clients w)(cid \<mapsto> c')"
    "touches {client_sock c, origin_sock c} (w\<lparr>w_log := w_log w @ logs\<rparr>) w'" "client_wf c'" "client_sock c' = client_sock c"
    "origin_sock c' = origin_sock c" "stm_current c' = stm_current c" "active_ends c' = ends" "contents (origin_buf c') = rest"
    "contents (client_buf c') = contents (client_buf c) @ out" "tidy c w c' w'"
    using sv unfolding served_def by blast
  have t: "touches {client_sock c, origin_sock c} (w\<lparr>w_state := w_state w, w_log := w_log w @ logs\<rparr>) w'"
    using w'(3) by simp
  have "linked cid c' w'"
    using w' d(10) by (intro linked_touches [OF l t]) (simp_all add: tidy_def)
  moreover have "settled c' w'"
    using w' q e d(6) by (intro settled_next [OF q _ _ _ t]) (auto simp: tidy_def settled_def)
  moreover have "w_log w' = w_log w @ logs" using w'(3) by (simp add: touches_def)
  moreover have "confined cid w w'" using w'(2) by (intro confined_touches [OF l t]) simp_all
  ultimately show thesis using that [OF w'(1)] w' by (simp add: tidy_def)
qed

text \<open>A reply that refuses the request: it is queued and logged, and only the write end is left.\<close>

definition rejected :: "nat \<Rightarrow> client \<Rightarrow> world \<Rightarrow> nat \<Rightarrow> client \<Rightarrow> world \<Rightarrow> bool" where
  "rejected cid c w code c' w' \<longleftrightarrow> confined cid w w' \<and> active_ends c' = CLIENT_WRITE \<and> client_sock c' = client_sock c
     \<and> contents (origin_buf c') = contents (origin_buf c)
     \<and> contents (client_buf c') = contents (client_buf c) @ reply_bytes (Buffer.space (client_buf c)) code ATYP_IPV4 EMPTY_IP [0, 0]
     \<and> (\<exists>d. log_dest True c = Inr d \<and> w_log w' = w_log w @ [Access_log (cstr (socks_user c)) (client_addr c) d code])"

lemma fail_reply_linked:
  assumes l: "linked cid c w" and q: "settled c w" and e: "active_ends c = CLIENT" and env: "env_ok (w_env w)"
    and d: "log_dest True c = Inr d"
  obtains c' w' where "fail_reply cid code w = Inr (WRITE_REMAINING, w')" "linked cid c' w'" "settled c' w'"
    "stm_current c' = stm_current c" "rejected cid c w code c' w'"
proof -
  note ld = linkedD [OF l]
  obtain c' where sv: "served cid c w (fail_reply cid code w) WRITE_REMAINING CLIENT_WRITE (contents (origin_buf c))
    (reply_bytes (Buffer.space (client_buf c)) code ATYP_IPV4 EMPTY_IP [0, 0]) [Access_log (cstr (socks_user c)) (client_addr c) d code] c'"
    using fail_reply_served [OF linked_serving [OF l env] ld(3) refl refl refl refl refl refl d, of code]
    by (auto simp: put_same [OF ld(2)] closing_handshake [OF e])
  show thesis
    by (rule served_linked [OF l q _ sv]) (use that d e client_ends(1) in \<open>auto simp: rejected_def\<close>)
qed

section \<open>Reaching the origin\<close>

text \<open>
  In the state \<open>CONNECTING\<close> nothing is read from the client. Before the first attempt the client's socket is
  polled for writing, which is a trick to be called back; afterwards only the origin's socket is.
\<close>

definition dialing :: "nat \<Rightarrow> client \<Rightarrow> world \<Rightarrow> bool" where
  "dialing cid c w \<longleftrightarrow> linked cid c w \<and> active_ends c = CLIENT \<and> stm_current c = Some CONNECTING \<and> quiet w (client_sock c) OP_READ
     \<and> (origin_sock c = -1 \<or> curr_addr c \<noteq> [] \<and> quiet w (client_sock c) OP_WRITE \<and> quiet w (origin_sock c) OP_READ)"

text \<open>What an attempt leads to: the code of the reply if it fails at once.\<close>

definition attempt :: "sysenv \<Rightarrow> nat option" where
  "attempt e =
     (if env_socket e < 0 then Some REPLY_SERVER_FAILURE
      else if env_connect e = 0 \<or> env_connect e = EINPROGRESS
      then if INVALID_FD (env_socket e) then Some REPLY_SERVER_FAILURE else None
      else Some (check_connection_error (env_connect e)))"

text \<open>\<open>socket\<close> gives a descriptor that is not open, so it is not registered either.\<close>

definition fresh_socket :: "client \<Rightarrow> world \<Rightarrow> bool" where
  "fresh_socket c w \<longleftrightarrow> (0 \<le> env_socket (w_env w) \<longrightarrow>
     registered w (env_socket (w_env w)) = None \<and> env_socket (w_env w) \<noteq> client_sock c)"

lemma new_origin:
  assumes l: "linked cid c w" and f: "registered w sock = None" "sock \<noteq> client_sock c" and e: "active_ends c = CLIENT"
    and q: "settled c w"
  shows "linked cid (c\<lparr>origin_sock := sock\<rparr>) (put_client cid (c\<lparr>origin_sock := sock\<rparr>) w)"
    and "settled (c\<lparr>origin_sock := sock\<rparr>) (put_client cid (c\<lparr>origin_sock := sock\<rparr>) w)"
proof -
  show "linked cid (c\<lparr>origin_sock := sock\<rparr>) (put_client cid (c\<lparr>origin_sock := sock\<rparr>) w)"
    using l f by (auto simp: linked_def proxy_fd_def client_wf_def) (simp add: put_client_def)
  show "settled (c\<lparr>origin_sock := sock\<rparr>) (put_client cid (c\<lparr>origin_sock := sock\<rparr>) w)"
    using q f e client_ends by (simp add: settled_def ends_quiet_def quiet_def)
qed

lemma register_origin:
  assumes l: "linked cid c w" and f: "registered w (origin_sock c) = None" "\<not> INVALID_FD (origin_sock c)"
  obtains w' where "register_client (origin_sock c) OP_WRITE cid w = Inr (SELECTOR_SUCCESS, w')" "linked cid c w'"
    "registered w' = (registered w)(origin_sock c \<mapsto> new_item (origin_sock c) OP_WRITE socks5_handler (Some (A_client cid)))"
    "confined cid w w'"
proof -
  note d = linkedD [OF l]
  obtain w' where w': "register_client (origin_sock c) OP_WRITE cid w = Inr (SELECTOR_SUCCESS, w')" "sel_wf w'"
    "registered w' = (registered w)(origin_sock c \<mapsto> new_item (origin_sock c) OP_WRITE socks5_handler (Some (A_client cid)))"
    and m: "fdselector.more w' = fdselector.more w" "resolution_jobs w' = resolution_jobs w"
    using selector_register_fresh [OF d(1) f(2,1)] unfolding register_client_def by blast
  have "linked cid c w'"
    using l w'(2,3) more_eq_fields(4) [OF m(1)] by (auto simp: linked_def proxy_fd_def new_item_def)
  moreover have "others cid w' = others cid w"
    using f(1) by (auto simp: others_def w'(3) new_item_def)
  then have "confined cid w w'" using m(2) more_eq_fields [OF m(1)] by (simp add: confined_def bystanders_def)
  ultimately show thesis using that w' by blast
qed

lemma linked_emit [simp]: "linked cid c (emit ev w) = linked cid c w" "settled c (emit ev w) = settled c w"
  by (simp_all add: linked_def settled_def ends_quiet_def proxy_fd_def) (simp add: emit_def)

lemma log_dest_sock [simp]: "log_dest z (c\<lparr>origin_sock := s\<rparr>) = log_dest z c" "log_dest z (c\<lparr>active_ends := e\<rparr>) = log_dest z c"
  "log_dest z (c\<lparr>client_buf := b\<rparr>) = log_dest z c"
  by (simp_all add: log_dest_def split: option.split)

lemma rejected_origin:
  assumes "rejected cid (c\<lparr>origin_sock := sock\<rparr>) w1 code c' w'" and "w_log w1 = w_log w" "confined cid w w1"
  shows "rejected cid c w code c' w'"
  using assms confined_trans [of cid w w1 w'] by (simp add: rejected_def)

text \<open>The outcome of \<open>try_connect\<close>: the connection is under way, or a failure is reported to the client.\<close>

definition tried :: "nat \<Rightarrow> client \<Rightarrow> world \<Rightarrow> (nat \<times> world) run \<Rightarrow> bool" where
  "tried cid c w r \<longleftrightarrow>
     (case attempt (w_env w) of
        None \<Rightarrow> \<exists>w'. r = Inr (CONNECTING, w') \<and> confined cid w w' \<and> dialing cid (c\<lparr>origin_sock := env_socket (w_env w)\<rparr>) w'
          \<and> registered w' (env_socket (w_env w)) = Some (new_item (env_socket (w_env w)) OP_WRITE socks5_handler (Some (A_client cid)))
      | Some code \<Rightarrow> \<exists>c' w'. r = Inr (WRITE_REMAINING, w') \<and> linked cid c' w' \<and> settled c' w' \<and> stm_current c' = stm_current c
          \<and> rejected cid c w code c' w')"

lemma put_log [simp]: "w_log (put_client cid c w) = w_log w" "w_log (emit ev w) = w_log w" "w_env (emit ev w) = w_env w"
  by (simp_all add: put_client_def emit_def)

lemma try_connect_ok:
  assumes l: "linked cid c w" and q: "settled c w" and e: "active_ends c = CLIENT" and env: "env_ok (w_env w)"
    and st: "stm_current c = Some CONNECTING" and a: "curr_addr c \<noteq> []" and log: "log_dest True c = Inr d"
    and calm: "quiet w (client_sock c) OP_READ" "quiet w (client_sock c) OP_WRITE" and f: "fresh_socket c w"
  shows "tried cid c w (try_connect cid w)"
proof -
  note ld = linkedD [OF l]
  define sock where "sock = env_socket (w_env w)"
  let ?c = "c\<lparr>origin_sock := sock\<rparr>"
  let ?w = "put_client cid ?c w"
  obtain a0 where a0: "deref_addr c = Inr a0" using a ld(10) by (cases "curr_addr c") (simp_all add: deref_addr_def)
  have free: "registered w sock = None" "sock \<noteq> client_sock c"
    using f registered_negative [of sock w] ld(12) by (auto simp: fresh_socket_def sock_def)
  note new = new_origin [OF l free e q]
  have log': "log_dest True ?c = Inr d" using log by simp
  have failing: "\<exists>c' w'. fail_reply cid code w1 = Inr (WRITE_REMAINING, w') \<and> linked cid c' w' \<and> settled c' w'
      \<and> stm_current c' = stm_current c \<and> rejected cid c w code c' w'" if "w1 = ?w \<or> w1 = emit (Close sock) ?w" for code w1
  proof -
    have w1: "linked cid ?c w1" "settled ?c w1" "env_ok (w_env w1)" "w_log w1 = w_log w" "confined cid w w1" using that new env by auto
    have e1: "active_ends ?c = CLIENT" using e by simp
    obtain c' w' where r: "fail_reply cid code w1 = Inr (WRITE_REMAINING, w')" "linked cid c' w'" "settled c' w'"
      "stm_current c' = stm_current ?c" "rejected cid ?c w1 code c' w'"
      by (rule fail_reply_linked [OF w1(1,2) e1 w1(3) log'])
    from rejected_origin [OF r(5) w1(4,5)] r(1-4) show ?thesis
      by (intro exI [of _ c'] exI [of _ w']) simp
  qed
  have run: "try_connect cid w = (if 0 \<le> sock
      then if env_connect (w_env w) = 0 \<or> env_connect (w_env w) = EINPROGRESS
        then bindE (register_client sock OP_WRITE cid ?w) (\<lambda>(st, w2).
          if st \<noteq> SELECTOR_SUCCESS then fail_reply cid REPLY_SERVER_FAILURE (emit (Close sock) w2) else Inr (CONNECTING, w2))
        else fail_reply cid (check_connection_error (env_connect (w_env w))) ?w
      else fail_reply cid REPLY_SERVER_FAILURE ?w)"
    using ld(9) a a0 by (simp add: try_connect_def Let_def flip: sock_def)
  show ?thesis
  proof (cases "attempt (w_env w)")
    case None
    then have ok: "0 \<le> sock" "env_connect (w_env w) = 0 \<or> env_connect (w_env w) = EINPROGRESS" "\<not> INVALID_FD sock"
      by (auto simp: attempt_def sock_def split: if_splits)
    obtain w' where w': "register_client sock OP_WRITE cid ?w = Inr (SELECTOR_SUCCESS, w')" "linked cid ?c w'"
      "registered w' = (registered w)(sock \<mapsto> new_item sock OP_WRITE socks5_handler (Some (A_client cid)))" "confined cid w w'"
      using register_origin [OF new(1)] free(1) ok(3) by auto
    have "hasFlag OP_WRITE OP_READ = False" by code_simp
    then have "dialing cid ?c w'"
      using w'(2,3) calm e st a free(2) by (simp add: dialing_def quiet_def new_item_def)
    then show ?thesis
      using None run ok w'(1,3,4) by (simp add: tried_def sock_def)
  next
    case (Some code)
    consider "sock < 0" "code = REPLY_SERVER_FAILURE"
      | "0 \<le> sock" "env_connect (w_env w) = 0 \<or> env_connect (w_env w) = EINPROGRESS" "INVALID_FD sock" "code = REPLY_SERVER_FAILURE"
      | "0 \<le> sock" "\<not> (env_connect (w_env w) = 0 \<or> env_connect (w_env w) = EINPROGRESS)" "code = check_connection_error (env_connect (w_env w))"
      using Some by (auto simp: attempt_def sock_def split: if_splits)
    then show ?thesis
    proof cases
      case 2
      obtain st where "st \<noteq> SELECTOR_SUCCESS" "register_client sock OP_WRITE cid ?w = Inr (st, ?w)"
        using selector_register_refused [of ?w sock] 2(3) linkedD(1) [OF new(1)] unfolding register_client_def by blast
      then show ?thesis using Some run 2 failing [of "emit (Close sock) ?w"] by (simp add: tried_def)
    qed (use Some run failing [of ?w] in \<open>simp_all add: tried_def\<close>)
  qed
qed

text \<open>
  What a callback in this state decides. \<open>Underway as\<close>: the first of \<open>as\<close> is being dialled. \<open>Reject as code\<close>: the
  client is told; \<open>as\<close> is what the log shows.
\<close>

datatype verdict = Underway "addrinfo list" | Established | Reject "addrinfo list" nat

definition dial_verdict :: "int \<Rightarrow> client \<Rightarrow> sysenv \<Rightarrow> verdict" where
  "dial_verdict fd c e =
     (let try = (\<lambda>as. case attempt e of None \<Rightarrow> Underway as | Some code \<Rightarrow> Reject as code) in
      if fd = client_sock c
      then if curr_addr c = [] then Reject [] REPLY_HOST_UNREACHABLE else try (curr_addr c)
      else if env_so_error e = 0 then Established
      else if tl (curr_addr c) \<noteq> [] then try (tl (curr_addr c))
      else Reject (curr_addr c) (check_connection_error (env_so_error e)))"

text \<open>The reply to a request that succeeded names the address of the proxy's own end.\<close>

definition success_reply :: "client \<Rightarrow> sysenv \<Rightarrow> byte list" where
  "success_reply c e = reply_bytes (Buffer.space (client_buf c)) REPLY_SUCCEEDED
     (if ai_family (hd (curr_addr c)) = AF_INET then ATYP_IPV4 else ATYP_IPV6)
     (sa_addr (env_sockname e)) (sa_port (env_sockname e))"

text \<open>The registered sockets afterwards: both ends want to read and to write, with the masks they had.\<close>

definition both_ways :: "int \<Rightarrow> (int \<Rightarrow> (handler_id, attachment) item option) \<Rightarrow> int \<Rightarrow> (handler_id, attachment) item option" where
  "both_ways fd reg = reg(fd := map_option (\<lambda>it. it\<lparr>it_interest := OP_READ OR OP_WRITE\<rparr>) (reg fd))"

definition connected :: "nat \<Rightarrow> client \<Rightarrow> world \<Rightarrow> client \<Rightarrow> world \<Rightarrow> bool" where
  "connected cid c w c' w' \<longleftrightarrow> confined cid w w' \<and> active_ends c' = CLIENT OR ORIGIN \<and> client_sock c' = client_sock c \<and> origin_sock c' = origin_sock c
     \<and> contents (origin_buf c') = contents (origin_buf c) \<and> contents (client_buf c') = contents (client_buf c) @ success_reply c (w_env w)
     \<and> registered w' = both_ways (client_sock c) (both_ways (origin_sock c) (registered w))
     \<and> (\<exists>d. log_dest True c = Inr d \<and> w_log w' = w_log w @ [Access_log (cstr (socks_user c)) (client_addr c) d REPLY_SUCCEEDED])"

text \<open>The local address of a socket is of the family it was made for.\<close>

definition same_family :: "client \<Rightarrow> sysenv \<Rightarrow> bool" where
  "same_family c e \<longleftrightarrow> (sa_family (env_sockname e) = AF_INET \<longleftrightarrow> ai_family (hd (curr_addr c)) = AF_INET)"

lemma linked_set_interest:
  assumes l: "linked cid c w" and fd: "fd \<in> {client_sock c, origin_sock c}"
  obtains st w' where "selector_set_interest fd i w = Inr (st, w')" "linked cid c w'" "w_env w' = w_env w" "w_log w' = w_log w" "confined cid w w'"
    "registered w' = (registered w)(fd := map_option (\<lambda>it. it\<lparr>it_interest := i\<rparr>) (registered w fd))"
proof -
  note d = linkedD [OF l]
  obtain st w' where w': "selector_set_interest fd i w = Inr (st, w')" "touches {fd} w w'" "w_clients w' = w_clients w"
    "registered w' = (registered w)(fd := map_option (\<lambda>it. it\<lparr>it_interest := i\<rparr>) (registered w fd))"
    by (rule set_touches [OF d(1)])
  have "linked cid c w'"
    using w'(3) d by (intro linked_touches [OF l touches_again [OF w'(2)]]) simp_all
  moreover have "w_env w' = w_env w" "w_log w' = w_log w" using w'(2) by (simp_all add: touches_def)
  moreover have "confined cid w w'" using w'(3) fd by (intro confined_touches [OF l touches_again [OF w'(2)]]) simp_all
  ultimately show thesis using that w' by blast
qed

lemma linked_log [simp]: "linked cid c (w\<lparr>w_log := l\<rparr>) = linked cid c w"
  by (simp add: linked_def proxy_fd_def)

lemma established_ok:
  assumes l: "linked cid c w" and e: "active_ends c = CLIENT" and env: "env_ok (w_env w)" "same_family c (w_env w)"
    and a: "curr_addr c \<noteq> []" and log: "log_dest True c = Inr d" and fd: "fd \<noteq> client_sock c" and ok: "env_so_error (w_env w) = 0"
  shows "\<exists>c' w'. origin_check_connection (conn_key cid fd) w = Inr (PROXY, w') \<and> linked cid c' w' \<and> stm_current c' = stm_current c
    \<and> connected cid c w c' w' \<and> log_dest True c' = Inr d \<and> curr_addr c' = curr_addr c"
proof -
  note ld = linkedD [OF l]
  obtain a0 as where a0: "curr_addr c = a0 # as" using a by (cases "curr_addr c") auto
  then have deref: "deref_addr c = Inr a0" using ld(10) by (simp add: deref_addr_def)
  let ?c = "c\<lparr>active_ends := active_ends c OR ORIGIN\<rparr>"
  have l1: "linked cid ?c (put_client cid ?c w)" using ld by (intro linked_put [OF l]) simp_all
  obtain s2 w2 where w2: "selector_set_interest (origin_sock c) (OP_READ OR OP_WRITE) (put_client cid ?c w) = Inr (s2, w2)"
    "linked cid ?c w2" "w_env w2 = w_env w" "w_log w2 = w_log w" "confined cid w w2"
    "registered w2 = (registered w)(origin_sock c := map_option (\<lambda>it. it\<lparr>it_interest := OP_READ OR OP_WRITE\<rparr>) (registered w (origin_sock c)))"
    by (rule linked_set_interest [OF l1, of "origin_sock c" "OP_READ OR OP_WRITE"]) simp_all
  obtain s3 w3 where w3: "selector_set_interest (client_sock c) (OP_READ OR OP_WRITE) w2 = Inr (s3, w3)"
    "linked cid ?c w3" "w_env w3 = w_env w2" "w_log w3 = w_log w2" "confined cid w2 w3"
    "registered w3 = (registered w2)(client_sock c := map_option (\<lambda>it. it\<lparr>it_interest := OP_READ OR OP_WRITE\<rparr>) (registered w2 (client_sock c)))"
    by (rule linked_set_interest [OF w2(2), of "client_sock c" "OP_READ OR OP_WRITE"]) simp_all
  let ?sn = "env_sockname (w_env w)" and ?at = "if ai_family a0 = AF_INET then ATYP_IPV4 else ATYP_IPV6"
  have len: "?at = ATYP_IPV4 \<and> length (sa_addr ?sn) = 4 \<or> ?at = ATYP_IPV6 \<and> length (sa_addr ?sn) = 16" "length (sa_port ?sn) = 2"
    using env a0 by (auto simp: env_ok_def same_family_def)
  have at3: "w_clients w3 cid = Some ?c" "buffer_wf (client_buf ?c)" "log_dest True ?c = Inr d"
    using linkedD(2) [OF w3(2)] ld(8) log by simp_all
  let ?w3 = "w3\<lparr>w_log := w_log w3 @ [Access_log (cstr (socks_user ?c)) (client_addr ?c) d REPLY_SUCCEEDED]\<rparr>"
  obtain b where b: "server_reply cid REPLY_SUCCEEDED ?at (sa_addr ?sn) (sa_port ?sn) w3 = Inr (put_client cid (?c\<lparr>client_buf := b\<rparr>) ?w3)"
    "buffer_wf b" "contents b = contents (client_buf c) @ success_reply c (w_env w)"
    using server_reply_ok [OF at3 len, of REPLY_SUCCEEDED] a0 by (auto simp: success_reply_def)
  define pp where "pp = (if connected_port a0 = POP3_PORT then new_parser (w_env w) 0 else pop3_parser c)"
  let ?c4 = "?c\<lparr>client_buf := b, pop3_parser := pp\<rparr>"
  have wf: "client_wf ?c4"
    using ld(3) b(2) new_parser_wf [OF env(1)] by (auto simp: client_wf_def pp_def)
  have l4: "linked cid ?c4 (put_client cid ?c4 ?w3)"
    using wf ld(10) w3(2) by (intro linked_put [of cid ?c]) simp_all
  have same: "?c\<lparr>client_buf := b, pop3_parser := pop3_parser c\<rparr> = ?c\<lparr>client_buf := b\<rparr>" by (cases c) simp
  have "origin_check_connection (conn_key cid fd) w = Inr (PROXY, put_client cid ?c4 ?w3)"
    using ld(9) fd ok deref w2(1) w3(1) b(1) same by (simp add: origin_check_connection_def Let_def pp_def)
  moreover have "connected cid c w ?c4 (put_client cid ?c4 ?w3)"
    using e b(3) log w2(4,6) w3(4,6) ld(6) confined_trans [OF w2(5) w3(5)] by (auto simp: connected_def both_ways_def)
  moreover have "log_dest True ?c4 = Inr d" using log by simp
  ultimately show ?thesis using l4 by (intro exI [of _ ?c4] exI [of _ "put_client cid ?c4 ?w3"]) simp
qed

text \<open>The callback as a whole.\<close>

definition dialed :: "nat \<Rightarrow> client \<Rightarrow> world \<Rightarrow> verdict \<Rightarrow> (nat \<times> world) run \<Rightarrow> bool" where
  "dialed cid c w v r \<longleftrightarrow>
     (case v of
        Underway as \<Rightarrow> \<exists>w'. r = Inr (CONNECTING, w') \<and> confined cid w w' \<and> dialing cid (c\<lparr>curr_addr := as, origin_sock := env_socket (w_env w)\<rparr>) w'
          \<and> registered w' (env_socket (w_env w)) = Some (new_item (env_socket (w_env w)) OP_WRITE socks5_handler (Some (A_client cid)))
      | Established \<Rightarrow> \<exists>c' w'. r = Inr (PROXY, w') \<and> linked cid c' w' \<and> stm_current c' = stm_current c \<and> connected cid c w c' w'
          \<and> (\<exists>d. log_dest False c' = Inr d)
      | Reject as code \<Rightarrow> \<exists>c' w'. r = Inr (WRITE_REMAINING, w') \<and> linked cid c' w' \<and> settled c' w' \<and> stm_current c' = stm_current c
          \<and> rejected cid (c\<lparr>curr_addr := as\<rparr>) w code c' w')"

lemma tried_dialed:
  assumes "tried cid (c\<lparr>curr_addr := as\<rparr>) w1 r" and "w_env w1 = w_env w" "w_log w1 = w_log w" "confined cid w w1"
  shows "dialed cid c w (case attempt (w_env w) of None \<Rightarrow> Underway as | Some code \<Rightarrow> Reject as code) r"
  using assms confined_trans [OF assms(4)] by (auto simp: tried_def dialed_def rejected_def split: option.splits)

lemma log_next:
  assumes "log_dest True c = Inr d" and "\<not> curr_freed c" and "as \<noteq> []"
  shows "\<exists>d'. log_dest z (c\<lparr>curr_addr := as\<rparr>) = Inr d'"
  using assms by (cases as) (auto simp: log_dest_def split: if_splits option.splits)

lemma same_addr: "c\<lparr>curr_addr := curr_addr c\<rparr> = c"
  by (cases c) simp

lemma rejected_dialed:
  assumes "r = Inr (WRITE_REMAINING, w')" "linked cid c' w'" "settled c' w'" "stm_current c' = stm_current c"
    "rejected cid c w1 code c' w'" and "w_log w1 = w_log w" "confined cid w w1"
  shows "dialed cid c w (Reject (curr_addr c) code) r"
proof -
  have "rejected cid c w code c' w'" using assms(5,6) confined_trans [OF assms(7)] by (simp add: rejected_def)
  with assms(1-4) show ?thesis by (auto simp: dialed_def same_addr)
qed

lemma first_attempt:
  assumes dl: "dialing cid c w" and o: "origin_sock c = -1" and env: "env_ok (w_env w)" and f: "fresh_socket c w" and log: "log_dest True c = Inr d"
  shows "dialed cid c w (dial_verdict (client_sock c) c (w_env w)) (origin_check_connection (conn_key cid (client_sock c)) w)"
proof -
  have l: "linked cid c w" and e: "active_ends c = CLIENT" and st: "stm_current c = Some CONNECTING" and q: "quiet w (client_sock c) OP_READ"
    using dl by (simp_all add: dialing_def)
  note ld = linkedD [OF l]
  obtain s1 w1 where w1: "selector_remove_interest (client_sock c) OP_WRITE w = Inr (s1, w1)" "touches {client_sock c} w w1"
    "w_clients w1 = w_clients w"
    "registered w1 = (registered w)(client_sock c := map_option (\<lambda>it. it\<lparr>it_interest := it_interest it AND NOT OP_WRITE\<rparr>) (registered w (client_sock c)))"
    by (rule remove_touches [OF ld(1)])
  have l1: "linked cid c w1"
    using w1(3) ld by (intro linked_touches [OF l touches_again [OF w1(2)]]) simp_all
  have same: "w_env w1 = w_env w" "w_log w1 = w_log w" "confined cid w w1"
      using w1(2,3) confined_touches [OF l touches_again [OF w1(2)]] by (simp_all add: touches_def)
  have q1: "quiet w1 (client_sock c) OP_READ" "quiet w1 (client_sock c) OP_WRITE"
    using q by (auto simp: quiet_def w1(4) hasFlag_bit bit_and_iff bit_not_iff_eq)
  have s1: "settled c w1"
    using o e client_ends registered_negative [of "-1" w1] by (simp add: settled_def ends_quiet_def quiet_def)
  have f1: "fresh_socket c w1" using f by (auto simp: fresh_socket_def w1(4) same)
  show ?thesis
  proof (cases "curr_addr c = []")
    case True
    have env1: "env_ok (w_env w1)" using env same by simp
    obtain c' w' where "fail_reply cid REPLY_HOST_UNREACHABLE w1 = Inr (WRITE_REMAINING, w')" "linked cid c' w'" "settled c' w'"
      "stm_current c' = stm_current c" "rejected cid c w1 REPLY_HOST_UNREACHABLE c' w'"
      by (rule fail_reply_linked [OF l1 s1 e env1 log])
    then have "dialed cid c w (Reject (curr_addr c) REPLY_HOST_UNREACHABLE) (fail_reply cid REPLY_HOST_UNREACHABLE w1)"
      using same(2,3) by (rule rejected_dialed)
    then show ?thesis
      using True ld(9) w1(1) by (simp add: dial_verdict_def origin_check_connection_def)
  next
    case False
    have "tried cid c w1 (try_connect cid w1)"
      by (rule try_connect_ok [OF l1 s1 e _ st False log q1 f1]) (use env same in simp)
    then have "dialed cid c w (case attempt (w_env w) of None \<Rightarrow> Underway (curr_addr c) | Some code \<Rightarrow> Reject (curr_addr c) code) (try_connect cid w1)"
      using tried_dialed [where as = "curr_addr c" and c = c and w = w] same by (simp add: same_addr)
    then show ?thesis
      using False ld(9) w1(1) by (simp add: dial_verdict_def origin_check_connection_def)
  qed
qed

lemma next_attempt:
  assumes dl: "dialing cid c w" and o: "registered w (origin_sock c) \<noteq> None" and env: "env_ok (w_env w)" "same_family c (w_env w)"
    and f: "fresh_socket c w" and log: "log_dest True c = Inr d"
  shows "dialed cid c w (dial_verdict (origin_sock c) c (w_env w)) (origin_check_connection (conn_key cid (origin_sock c)) w)"
proof -
  have "origin_sock c \<noteq> -1" using o registered_negative [of "-1" w] by auto
  then have l: "linked cid c w" and e: "active_ends c = CLIENT" and st: "stm_current c = Some CONNECTING" and a: "curr_addr c \<noteq> []"
    and q: "quiet w (client_sock c) OP_READ" "quiet w (client_sock c) OP_WRITE"
    using dl by (auto simp: dialing_def)
  note ld = linkedD [OF l]
  have fd: "origin_sock c \<noteq> client_sock c" using ld(6) by simp
  show ?thesis
  proof (cases "env_so_error (w_env w) = 0")
    case True
    obtain c' w' where r: "origin_check_connection (conn_key cid (origin_sock c)) w = Inr (PROXY, w')" "linked cid c' w'"
      "stm_current c' = stm_current c" "connected cid c w c' w'" "log_dest True c' = Inr d" "curr_addr c' = curr_addr c"
      using established_ok [OF l e env a log fd True] by blast
    have "curr_addr c' \<noteq> []" using r(6) a by simp
    from log_next [OF r(5) linkedD(10) [OF r(2)] this, of False] have "\<exists>d. log_dest False c' = Inr d"
      by (simp only: same_addr)
    with r(1-4) True fd show ?thesis by (simp add: dialed_def dial_verdict_def) blast
  next
    case False
    obtain s1 w1 where w1: "unregister (origin_sock c) w = Inr (s1, w1)" "touches {origin_sock c} w w1" "w_clients w1 = w_clients w"
      "registered w1 = (registered w)(origin_sock c := None)"
      by (rule unregister_touches [OF ld(1,5)])
    have l1: "linked cid c w1"
      using w1(3) ld by (intro linked_touches [OF l touches_again [OF w1(2)]]) simp_all
    have same: "w_env w1 = w_env w" "w_log w1 = w_log w" "confined cid w w1"
      using w1(2,3) confined_touches [OF l touches_again [OF w1(2)]] by (simp_all add: touches_def)
    have q1: "quiet w1 (client_sock c) OP_READ" "quiet w1 (client_sock c) OP_WRITE" and none: "registered w1 (origin_sock c) = None"
      using q fd by (auto simp: quiet_def w1(4))
    have s1: "settled c w1" using none e client_ends by (simp add: settled_def ends_quiet_def quiet_def)
    have f1: "fresh_socket c w1" using f by (auto simp: fresh_socket_def w1(4) same)
    have env1: "env_ok (w_env w1)" using env same by simp
    obtain a0 where deref: "deref_addr c = Inr a0" using a ld(10) by (cases "curr_addr c") (simp_all add: deref_addr_def)
    let ?as = "tl (curr_addr c)"
    show ?thesis
    proof (cases "?as = []")
      case True
      obtain c' w' where "fail_reply cid (check_connection_error (env_so_error (w_env w))) w1 = Inr (WRITE_REMAINING, w')" "linked cid c' w'" "settled c' w'"
        "stm_current c' = stm_current c" "rejected cid c w1 (check_connection_error (env_so_error (w_env w))) c' w'"
        by (rule fail_reply_linked [OF l1 s1 e env1 log])
      then have "dialed cid c w (Reject (curr_addr c) (check_connection_error (env_so_error (w_env w))))
          (fail_reply cid (check_connection_error (env_so_error (w_env w))) w1)"
        using same(2,3) by (rule rejected_dialed)
      then show ?thesis
        using True False fd ld(9) w1(1) deref by (simp add: dial_verdict_def origin_check_connection_def)
    next
      case more: False
      let ?c = "c\<lparr>curr_addr := ?as\<rparr>"
      let ?w = "put_client cid ?c w1"
      have "client_wf ?c" using ld(3) by (simp add: client_wf_def)
      then have l2: "linked cid ?c ?w" using ld(10) by (intro linked_put [OF l1]) simp_all
      have s2: "settled ?c ?w" using s1 by (simp add: settled_def ends_quiet_def)
      obtain d' where d': "log_dest True ?c = Inr d'" using log_next [OF log ld(10) more] by blast
      have "tried cid ?c ?w (try_connect cid ?w)"
        by (rule try_connect_ok [OF l2 s2 _ _ _ _ d']) (use e env1 st more q1 f1 in \<open>simp_all add: fresh_socket_def\<close>)
      then have "dialed cid c w (case attempt (w_env w) of None \<Rightarrow> Underway ?as | Some code \<Rightarrow> Reject ?as code) (try_connect cid ?w)"
        by (rule tried_dialed) (use same in simp_all)
      then show ?thesis
        using False more fd ld(9) w1(1) deref by (simp add: dial_verdict_def origin_check_connection_def)
    qed
  qed
qed

section \<open>Under the state machine\<close>

text \<open>
  The verdict as the state of the connection: it goes on dialling, it relays, or it drains the reply that refuses
  the request.
\<close>

definition dial_step :: "nat \<Rightarrow> client \<Rightarrow> world \<Rightarrow> verdict \<Rightarrow> world \<Rightarrow> bool" where
  "dial_step cid c w v w' \<longleftrightarrow>
     (case v of
        Underway as \<Rightarrow> confined cid w w' \<and> dialing cid (c\<lparr>curr_addr := as, origin_sock := env_socket (w_env w)\<rparr>) w'
          \<and> registered w' (env_socket (w_env w)) = Some (new_item (env_socket (w_env w)) OP_WRITE socks5_handler (Some (A_client cid)))
      | Established \<Rightarrow> \<exists>c'. relaying cid c' w' \<and> stm_current c' = Some PROXY \<and> connected cid c w c' w'
      | Reject as code \<Rightarrow> \<exists>c'. relaying cid c' w' \<and> stm_current c' = Some WRITE_REMAINING
          \<and> rejected cid (c\<lparr>curr_addr := as\<rparr>) w code c' w')"

lemma both_ends: "hasFlag (CLIENT OR ORIGIN) CLIENT" "hasFlag (CLIENT OR ORIGIN) ORIGIN" "hasFlag (CLIENT OR ORIGIN) (CLIENT_READ OR ORIGIN_READ)"
  "hasFlag (CLIENT OR ORIGIN) CLIENT_READ" "hasFlag (CLIENT OR ORIGIN) ORIGIN_READ" "hasFlag (CLIENT OR ORIGIN) CLIENT_WRITE"
  "hasFlag (CLIENT OR ORIGIN) ORIGIN_WRITE" "CLIENT OR ORIGIN \<noteq> 0"
  by code_simp+

lemma dial_dispatch:
  assumes dl: "dialing cid c w" and v: "dialed cid c w v (origin_check_connection (conn_key cid fd) w)"
  shows "\<exists>ret w'. stm_dispatch on_write_ready proxy_machine client_stm (conn_key cid fd) w = Inr (ret, w') \<and> dial_step cid c w v w'"
proof -
  have l: "linked cid c w" and st: "stm_current c = Some CONNECTING" using dl by (simp_all add: dialing_def)
  note ld = linkedD [OF l]
  have le: "CONNECTING \<le> WRITE_REMAINING" "PROXY \<le> WRITE_REMAINING" "CONNECTING \<noteq> PROXY" by (simp_all add: socks5_states)
  have f: "on_write_ready (state_actions ! CONNECTING) = Some origin_check_connection" by (simp add: no_action_def)
  note run = dispatch_run [where cb = on_write_ready and k = "conn_key cid fd", OF _ ld(2) st f _ _ _ le(1)]
  show ?thesis
  proof (cases v)
    case (Underway as)
    let ?c = "c\<lparr>curr_addr := as, origin_sock := env_socket (w_env w)\<rparr>"
    obtain w' where w': "origin_check_connection (conn_key cid fd) w = Inr (CONNECTING, w')" "confined cid w w'" "dialing cid ?c w'"
      "registered w' (env_socket (w_env w)) = Some (new_item (env_socket (w_env w)) OP_WRITE socks5_handler (Some (A_client cid)))"
      using v Underway by (auto simp: dialed_def)
    have "w_clients w' cid = Some ?c" "stm_current ?c = Some CONNECTING" using w'(3) by (simp_all add: dialing_def linked_def)
    from run [OF _ w'(1) this le(1)] show ?thesis using w'(2-4) Underway by (simp add: dial_step_def)
  next
    case Established
    obtain c2 w2 where w2: "origin_check_connection (conn_key cid fd) w = Inr (PROXY, w2)" "linked cid c2 w2" "stm_current c2 = stm_current c"
      "connected cid c w c2 w2" "\<exists>d. log_dest False c2 = Inr d"
      using v Established by (auto simp: dialed_def)
    let ?c = "at_state c2 PROXY"
    let ?w = "put_client cid ?c w2"
    have "arrival PROXY (conn_key cid fd) ?w = Inr ?w" by (simp add: arrival_def no_action_def)
    then have ev: "stm_dispatch on_write_ready proxy_machine client_stm (conn_key cid fd) w = Inr (PROXY, ?w)"
      using run [OF _ w2(1) linkedD(2) [OF w2(2)] _ le(2)] w2(3) st le(3) by (simp add: at_state_def)
    have e: "active_ends c2 = CLIENT OR ORIGIN" using w2(4) by (simp add: connected_def)
    have "linked cid ?c ?w" using linkedD [OF w2(2)] by (intro linked_put [OF w2(2)]) simp_all
    moreover have "settled ?c ?w" using e both_ends by (simp add: settled_def ends_quiet_def)
    ultimately have "relaying cid ?c ?w"
      using w2(5) e both_ends by (simp add: relaying_def upright_def close_state_def)
    moreover have "connected cid c w ?c ?w" using w2(4) by (simp add: connected_def)
    ultimately show ?thesis using ev Established by (auto simp: dial_step_def)
  next
    case (Reject as code)
    obtain c2 w2 where w2: "origin_check_connection (conn_key cid fd) w = Inr (WRITE_REMAINING, w2)" "linked cid c2 w2" "settled c2 w2"
      "stm_current c2 = stm_current c" "rejected cid (c\<lparr>curr_addr := as\<rparr>) w code c2 w2"
      using v Reject by (auto simp: dialed_def)
    have e: "active_ends c2 = CLIENT_WRITE" using w2(5) by (simp add: rejected_def)
    have cl: "close_state CONNECTING (active_ends c2) = WRITE_REMAINING" using e client_ends by (simp add: close_state_def)
    have w2': "origin_check_connection (conn_key cid fd) w = Inr (close_state CONNECTING (active_ends c2), w2)"
      using w2(1) cl by simp
    obtain w' where w': "stm_dispatch on_write_ready proxy_machine client_stm (conn_key cid fd) w = Inr (WRITE_REMAINING, w')"
      "upright cid (at_state c2 WRITE_REMAINING) w'" "w_log w' = w_log w2" "confined cid w2 w'"
      using dispatched [where cb = on_write_ready, OF _ ld(2) st le(1) f w2' w2(2,3)] w2(4) st cl by (auto simp: socks5_states)
    have "relaying cid (at_state c2 WRITE_REMAINING) w'" using w'(2) e client_ends by (simp add: relaying_def)
    moreover have "rejected cid (c\<lparr>curr_addr := as\<rparr>) w code (at_state c2 WRITE_REMAINING) w'"
      using w2(5) w'(3) confined_trans [OF _ w'(4)] by (simp add: rejected_def)
    ultimately show ?thesis using w'(1) Reject by (auto simp: dial_step_def)
  qed
qed

text \<open>An event on a socket of a connection that dials: a read event finds no interest; a write event is a verdict.\<close>

lemma dial_event:
  assumes dl: "dialing cid c w" and fd: "fd \<in> {client_sock c, origin_sock c}" and env: "env_ok (w_env w)" "same_family c (w_env w)"
    and f: "fresh_socket c w" and log: "log_dest True c = Inr d"
  shows "\<exists>w'. relay_event rd fd w = Inr w'
    \<and> (if rd \<or> quiet w fd OP_WRITE then w' = w else dial_step cid c w (dial_verdict fd c (w_env w)) w')"
proof (cases "\<exists>it. registered w fd = Some it \<and> hasFlag (it_interest it) (if rd then OP_READ else OP_WRITE)")
  case False
  then show ?thesis by (auto simp: relay_event_def quiet_def split: option.splits)
next
  case True
  then obtain it where it: "registered w fd = Some it" "hasFlag (it_interest it) (if rd then OP_READ else OP_WRITE)" by blast
  have l: "linked cid c w" and st: "stm_current c = Some CONNECTING" using dl by (simp_all add: dialing_def)
  note ld = linkedD [OF l]
  have "fd \<noteq> -1" using it(1) registered_negative [of "-1" w] by auto
  then have wr: "\<not> rd" using it dl fd by (cases rd) (auto simp: dialing_def quiet_def)
  have o: "fd = client_sock c \<Longrightarrow> origin_sock c = -1" using it wr dl by (auto simp: dialing_def quiet_def)
  have "dialed cid c w (dial_verdict fd c (w_env w)) (origin_check_connection (conn_key cid fd) w)"
    using fd it(1) first_attempt [OF dl o env(1) f log] next_attempt [OF dl _ env f log] by auto
  from dial_dispatch [OF dl this] obtain ret w' where
    w': "stm_dispatch on_write_ready proxy_machine client_stm (conn_key cid fd) w = Inr (ret, w')" "dial_step cid c w (dial_verdict fd c (w_env w)) w'"
    by blast
  have "relay_event rd fd w = Inr w'"
    using it wr ld(11) [OF fd it(1)] w'(1) by (simp add: relay_event_def socksv5_write_def stm_handler_write_def conn_key_def)
  moreover have "\<not> quiet w fd OP_WRITE" using it wr by (auto simp: quiet_def)
  ultimately show ?thesis using w'(2) wr by auto
qed

end
