(* ===== verification/Lifetime.thy ===== *)
theory Lifetime
  imports Connection
begin

text \<open>
  A connection of \<open>src/clients.c\<close> from the moment it is accepted to its destruction: the phases of the
  handshake under the state machine, the resolver's thread and its notification, the attempts to
  connect, the relay. Every event leads from one phase to another or to the end of the connection,
  unless it is one of the hazards that are listed here, each a defect of the code.
\<close>

section \<open>The handshake\<close>

text \<open>
  Before the first event the machine has no state. Nobody asks whether the client can be written to
  until there is a reply; while a name is resolved the client is not read.
\<close>

definition handshaking :: "nat \<Rightarrow> client \<Rightarrow> world \<Rightarrow> bool" where
  "handshaking cid c w \<longleftrightarrow> linked cid c w \<and> settled c w \<and> active_ends c = CLIENT \<and> origin_sock c = -1
     \<and> (case stm_current c of
          None \<Rightarrow> quiet w (client_sock c) OP_WRITE
        | Some st \<Rightarrow> st = AUTH_METHOD \<and> quiet w (client_sock c) OP_WRITE \<or> st = PLAIN_AUTH \<or> st = REQUEST
            \<or> st = RESOLVING \<and> quiet w (client_sock c) OP_READ \<and> \<not> isl (log_dest True c))"

text \<open>At most one piece of the resolver's work is under way for a connection, and only while it waits for it.\<close>

definition awaited :: "nat \<Rightarrow> client \<Rightarrow> world \<Rightarrow> nat" where
  "awaited cid c w = count_list (w_threads w) cid + count_list (resolution_jobs w) (client_sock c)"

definition living :: "nat \<Rightarrow> client \<Rightarrow> world \<Rightarrow> bool" where
  "living cid c w \<longleftrightarrow> (handshaking cid c w \<or> dialing cid c w \<and> \<not> isl (log_dest True c) \<or> relaying cid c w)
     \<and> awaited cid c w \<le> (if stm_current c = Some RESOLVING then 1 else 0)"

text \<open>
  Others are left alone; of the resolver's work nothing changes but the connection's own, its thread and the notifications for
  its socket \<open>fd\<close>.
\<close>

definition apart :: "nat \<Rightarrow> int \<Rightarrow> world \<Rightarrow> world \<Rightarrow> bool" where
  "apart cid fd w w' \<longleftrightarrow> bystanders cid w w'
     \<and> (\<forall>i. i \<noteq> cid \<longrightarrow> count_list (w_threads w') i = count_list (w_threads w) i)
     \<and> (\<forall>s. s \<noteq> fd \<longrightarrow> count_list (resolution_jobs w') s = count_list (resolution_jobs w) s)"

text \<open>A connection that is destroyed leaves no descriptor in the selector.\<close>

definition carried_on :: "nat \<Rightarrow> client \<Rightarrow> world \<Rightarrow> world \<Rightarrow> bool" where
  "carried_on cid c w w' \<longleftrightarrow> apart cid (client_sock c) w w' \<and>
     (case w_clients w' cid of
        Some c' \<Rightarrow> living cid c' w' \<and> client_sock c' = client_sock c
      | None \<Rightarrow> registered w' (client_sock c) = None \<and> registered w' (origin_sock c) = None)"

lemma confined_apart: "confined cid w w' \<Longrightarrow> apart cid fd w w'"
  by (simp add: confined_def apart_def)

lemma apart_trans: "apart cid fd w w1 \<Longrightarrow> apart cid fd w1 w2 \<Longrightarrow> apart cid fd w w2"
  by (auto simp: apart_def intro: bystanders_trans)

lemma apart_fields [simp]:
  "apart cid fd (put_client cid c w) w' = apart cid fd w w'" "apart cid fd w (put_client cid c w') = apart cid fd w w'"
  "apart cid fd (w\<lparr>w_env := e\<rparr>) w' = apart cid fd w w'" "apart cid fd w w"
  by (auto simp: apart_def bystanders_def) (auto simp: put_client_def)

lemma not_isl: "\<not> isl r \<longleftrightarrow> (\<exists>x. r = Inr x)"
  by (cases r) simp_all

lemma carried_on_at_state [simp]:
  "carried_on cid (at_state c st) w w' = carried_on cid c w w'" "carried_on cid c (put_client cid c' w) w' = carried_on cid c w w'"
  by (simp_all add: carried_on_def cong: option.case_cong)

lemma carried_on_living: "living cid c' w' \<Longrightarrow> w_clients w' cid = Some c' \<Longrightarrow> client_sock c' = client_sock c \<Longrightarrow>
    apart cid (client_sock c) w w' \<Longrightarrow> carried_on cid c w w'"
  by (simp add: carried_on_def)

lemma awaited_same: "confined cid w w' \<Longrightarrow> client_sock c' = client_sock c \<Longrightarrow> awaited cid c' w' = awaited cid c w"
  by (simp add: awaited_def confined_def)

lemma handshakingD:
  assumes "handshaking cid c w"
  shows "linked cid c w" "settled c w" "active_ends c = CLIENT" "origin_sock c = -1"
    and "upright cid c w" and "close_state (client_state c) (active_ends c) = client_state c" and "closing c = (WRITE_REMAINING, CLIENT_WRITE)"
proof -
  show d: "linked cid c w" "settled c w" "active_ends c = CLIENT" "origin_sock c = -1"
    using assms by (simp_all add: handshaking_def)
  have "hasFlag CLIENT (CLIENT_READ OR ORIGIN_READ)" "CLIENT \<noteq> 0" by code_simp+
  then show "close_state (client_state c) (active_ends c) = client_state c" using d by (simp add: close_state_def)
  then show "upright cid c w" using d by (simp add: upright_def)
  show "closing c = (WRITE_REMAINING, CLIENT_WRITE)" by (rule closing_handshake [OF d(3)])
qed

text \<open>How a reader of the handshake ends: it refuses, it goes on, or it has a target.\<close>

inductive progress :: "nat \<Rightarrow> client \<Rightarrow> world \<Rightarrow> (nat \<times> world) run \<Rightarrow> bool" for cid c w where
  refuses: "served cid c w r WRITE_REMAINING CLIENT_WRITE rest out logs c' \<Longrightarrow> progress cid c w r"
| goes_on: "served cid c w r st CLIENT rest out [] c' \<Longrightarrow> st = PLAIN_AUTH \<or> st = REQUEST \<Longrightarrow> progress cid c w r"
| waits: "buffer_wf b \<Longrightarrow> stm_current c = Some AUTH_METHOD \<Longrightarrow>
    progress cid c w (Inr (AUTH_METHOD, put_client cid (c\<lparr>origin_buf := b\<rparr>) w))"
| aims: "served cid c w (Inr (st, w')) st CLIENT rest [] [] c' \<Longrightarrow> st = RESOLVING \<or> st = CONNECTING \<Longrightarrow>
    quiet w' (client_sock c) OP_READ \<Longrightarrow> \<not> isl (log_dest True c') \<Longrightarrow> progress cid c w (Inr (st, w'))"

lemma auth_method_progress:
  assumes h: "handshaking cid c w" and st: "stm_current c = Some AUTH_METHOD" and env: "env_ok (w_env w)"
  shows "progress cid c w (read_auth_method (conn_key cid (client_sock c)) w)"
proof -
  note d = handshakingD [OF h]
  let ?k = "conn_key cid (client_sock c)"
  note s = linked_serving [OF d(1) env, of "client_sock c"]
  have k: "key_fd ?k = client_sock c" by simp
  obtain c' where c': "if hung_up c w
    then served cid c w (read_auth_method ?k w) (fst (closing c)) (snd (closing c)) (received c w) [] [] c'
    else case parse_hello (user_count (w_users w)) (received c w) of
      None \<Rightarrow> served cid c w (read_auth_method ?k w) (client_state c) (active_ends c) (received c w) [] [] c'
    | Some (m, rest) \<Rightarrow> served cid c w (read_auth_method ?k w) (hello_state c m)
        (if m = None then snd (closing c) else active_ends c) rest
        (take (Buffer.space (client_buf c)) (hello_reply m)) [] c'"
    using read_auth_method_ok [OF s k] by blast
  consider (wait) "\<not> hung_up c w" "parse_hello (user_count (w_users w)) (received c w) = None" | (eof) "hung_up c w"
    | (complete) m rest where "\<not> hung_up c w" "parse_hello (user_count (w_users w)) (received c w) = Some (m, rest)"
    by (metis option.exhaust prod.exhaust)
  then show ?thesis
  proof cases
    case wait
    obtain b where r: "receive ?k w = Inr (cid, c\<lparr>origin_buf := b\<rparr>, False, put_client cid (c\<lparr>origin_buf := b\<rparr>) w)"
      and b: "buffer_wf b" "contents b = received c w"
      using receive_ok [OF s k] wait(1) by metis
    have "read_auth_method ?k w = Inr (client_state c, put_client cid (c\<lparr>origin_buf := b\<rparr>) w)"
      using read_auth_method_wait [OF r] b wait(2) by simp
    then show ?thesis using waits [OF b(1) st] st by (simp add: client_state_def)
  next
    case eof
    then show ?thesis using c' d(7) by (auto intro: refuses)
  next
    case complete
    then show ?thesis using c' d(3,7) by (cases m) (auto simp: hello_state_def intro: refuses goes_on split: if_splits)
  qed
qed

lemma plain_auth_progress:
  assumes h: "handshaking cid c w" and st: "stm_current c = Some PLAIN_AUTH" and env: "env_ok (w_env w)"
    and room: "\<not> (filled_up c w \<and> cut_after_name (received c w) \<and> \<not> hung_up c w)"
  shows "progress cid c w (read_plain_auth (conn_key cid (client_sock c)) w)"
proof -
  note d = handshakingD [OF h]
  let ?k = "conn_key cid (client_sock c)"
  have s: "serving ?k cid c w" "key_fd ?k = client_sock c" "filled_up c w \<and> cut_after_name (received c w) \<longrightarrow> hung_up c w"
    using linked_serving [OF d(1) env] room by simp_all
  show ?thesis
    using read_plain_auth_ok [OF s] d(3,7) st
    by (auto simp: client_state_def auth_state_def intro: refuses goes_on split: if_splits option.splits prod.splits)
qed

text \<open>
  The hazards of a request: the refusal that is to be logged without a name, no memory for the
  target, a name that does not fit the log.
\<close>

definition request_hazard :: "client \<Rightarrow> world \<Rightarrow> bool" where
  "request_hazard c w \<longleftrightarrow>
     (case request_failure c w of
        Some _ \<Rightarrow> isl (log_dest True (judged c w))
      | None \<Rightarrow>
          (case parse_request (received c w) of
             Req cmd at addr port rest \<Rightarrow> \<not> env_malloc (w_env w) 0 \<or> \<not> env_malloc (w_env w) 1
               \<or> at = ATYP_DOMAIN_NAME \<and> 255 \<le> length (cstr addr)
           | _ \<Rightarrow> False))"

lemma targeted_log:
  assumes "targeted at addr port c" and "at = ATYP_DOMAIN_NAME \<Longrightarrow> length (cstr addr) < 255" and "\<not> curr_freed c"
  shows "\<not> isl (log_dest True c)"
  using assms by (auto simp: targeted_def log_dest_def cstr_terminated split: if_splits)

lemma request_progress:
  assumes h: "handshaking cid c w" and st: "stm_current c = Some REQUEST" and env: "env_ok (w_env w)"
    and safe: "\<not> request_hazard c w"
  shows "progress cid c w (read_proxy_request (conn_key cid (client_sock c)) w)"
proof -
  note d = handshakingD [OF h]
  let ?k = "conn_key cid (client_sock c)"
  note s = linked_serving [OF d(1) env, of "client_sock c"]
  have k: "key_fd ?k = client_sock c" by simp
  show ?thesis
  proof (cases "request_failure c w")
    case (Some cr)
    obtain code rest where cr: "cr = (code, rest)" by (cases cr)
    obtain dst where dst: "log_dest True (judged c w) = Inr dst" using safe Some by (auto simp: request_hazard_def not_isl)
    show ?thesis using read_proxy_request_refused [OF s k _ dst] Some cr d(7) by (auto intro: refuses)
  next
    case None
    then have up: "\<not> hung_up c w" by (auto simp: request_failure_def)
    show ?thesis
    proof (cases "parse_request (received c w)")
      case Req_wait
      from read_proxy_request_waits [OF s k up this] show ?thesis
        using st d(3) by (auto simp: client_state_def intro: goes_on)
    next
      case (Req_bad_atyp at)
      then show ?thesis using None up by (simp add: request_failure_def)
    next
      case (Req cmd at addr port rest)
      then have cmd: "cmd = CONNECT" using None up by (auto simp: request_failure_def split: if_splits)
      have mem: "env_malloc (w_env w) 0" "env_malloc (w_env w) 1" and short: "at = ATYP_DOMAIN_NAME \<Longrightarrow> length (cstr addr) < 255"
        using safe None Req by (auto simp: request_hazard_def)
      let ?st = "if at = ATYP_DOMAIN_NAME then RESOLVING else CONNECTING"
      note go = read_proxy_request_connect [OF s k up Req [unfolded cmd] mem]
      obtain c' where c': "served cid c w (read_proxy_request ?k w) ?st (active_ends c) rest [] [] c'" "targeted at addr port c'"
        using go(1) by blast
      obtain w' where w': "read_proxy_request ?k w = Inr (?st, w')" "quiet w' (client_sock c) OP_READ" using go(2) by blast
      have "curr_freed c' = curr_freed c" using c'(1) by (auto simp: served_def tidy_def)
      then have "\<not> isl (log_dest True c')" using targeted_log [OF c'(2) short] linkedD(10) [OF d(1)] by simp
      then have "progress cid c w (Inr (?st, w'))" using c'(1) w' d(3) by (intro aims) (simp_all split: if_split)
      with w'(1) show ?thesis by simp
    qed
  qed
qed

section \<open>Entering a state\<close>

text \<open>\<open>create_connection\<close> asks for the callback that makes the first attempt.\<close>

lemma arrive_connecting:
  assumes l: "linked cid c w" and e: "active_ends c = CLIENT" and o: "origin_sock c = -1" and st: "stm_current c = Some CONNECTING"
    and q: "quiet w (client_sock c) OP_READ" and k: "key_data k = Some (A_client cid)"
  shows "\<exists>w'. arrival CONNECTING k w = Inr w' \<and> dialing cid c w' \<and> confined cid w w'"
proof -
  note d = linkedD [OF l]
  obtain s w' where w': "selector_add_interest (client_sock c) OP_WRITE w = Inr (s, w')" "touches {client_sock c} w w'" "w_clients w' = w_clients w"
    "registered w' = (registered w)(client_sock c := map_option (\<lambda>it. it\<lparr>it_interest := it_interest it OR OP_WRITE,
       it_mask := it_mask it OR OP_WRITE\<rparr>) (registered w (client_sock c)))"
    by (rule add_touches [OF d(1)])
  have "linked cid c w'" using w'(3) d by (intro linked_touches [OF l touches_again [OF w'(2)]]) simp_all
  moreover have "quiet w' (client_sock c) OP_READ" by (rule polled_for_write(1) [OF w'(4) q])
  ultimately have "dialing cid c w'" using e o st by (simp add: dialing_def)
  moreover have "confined cid w w'" using w'(3) by (intro confined_touches [OF l touches_again [OF w'(2)]]) simp_all
  ultimately show ?thesis
    using w'(1) d(9) k by (simp add: arrival_def create_connection_def no_action_def ATTACHMENT_def)
qed

text \<open>\<open>start_name_resolution\<close> starts the thread, if the system lets it.\<close>

lemma arrive_resolving:
  assumes h: "handshaking cid c w" and st: "stm_current c = Some RESOLVING" and p: "awaited cid c w = 0" and k: "key_data k = Some (A_client cid)"
  shows "\<exists>w'. arrival RESOLVING k w = Inr w' \<and> w_clients w' = w_clients w \<and> living cid c w' \<and> apart cid fd w w'"
proof -
  define w' where "w' = (if env_thread (w_env w) then emit (Spawn_resolver cid) (w\<lparr>w_threads := w_threads w @ [cid]\<rparr>) else w)"
  have same: "linked cid c w' = linked cid c w" "settled c w' = settled c w" "quiet w' = quiet w" "w_clients w' = w_clients w"
    by (simp_all add: w'_def linked_def settled_def ends_quiet_def proxy_fd_def quiet_def fun_eq_iff) (simp_all add: emit_def)
  have "handshaking cid c w'" using h unfolding handshaking_def same .
  moreover have "awaited cid c w' \<le> 1" using p by (simp add: w'_def awaited_def emit_def)
  ultimately have "living cid c w'" using st by (simp add: living_def)
  moreover have "others cid w' = others cid w" by (simp add: w'_def)
  then have "apart cid fd w w'" using same(4) by (simp add: apart_def bystanders_def) (simp add: w'_def emit_def)
  ultimately show ?thesis
    using k same(4) by (simp add: arrival_def start_name_resolution_def no_action_def ATTACHMENT_def flip: w'_def)
qed

lemma quiet_put [simp]: "quiet (put_client cid c w) = quiet w"
  by (simp add: quiet_def fun_eq_iff)

lemma handshake_states:
  "AUTH_METHOD \<le> WRITE_REMAINING" "PLAIN_AUTH \<le> WRITE_REMAINING" "REQUEST \<le> WRITE_REMAINING" "RESOLVING \<le> WRITE_REMAINING"
  "CONNECTING \<le> WRITE_REMAINING" "PROXY \<le> WRITE_REMAINING"
  by (simp_all add: socks5_states)

text \<open>The event goes to the callback \<open>cb\<close> of the state of the client, and the connection is carried on.\<close>

abbreviation lands :: "((key, world) state_definition \<Rightarrow> (key \<Rightarrow> world \<Rightarrow> (nat \<times> world) run) option) \<Rightarrow> nat \<Rightarrow> client \<Rightarrow> world \<Rightarrow> bool" where
  "lands cb cid c w \<equiv> \<exists>ret w'. stm_dispatch cb proxy_machine client_stm (conn_key cid (client_sock c)) w = Inr (ret, w') \<and> carried_on cid c w w'"

lemma handshake_state:
  assumes "handshaking cid c w" and "stm_current c = Some st"
  shows "st \<le> WRITE_REMAINING" and "hasFlag (active_ends c) CLIENT_WRITE"
  using assms handshake_states client_ends(1) by (auto simp: handshaking_def)

text \<open>The end of a reader is an end of the event: first a refusal.\<close>

lemma refusal_lands:
  assumes h: "handshaking cid c w" and st: "stm_current c = Some st" and p: "awaited cid c w = 0" and f: "cb (state_actions ! st) = Some f"
    and sv: "served cid c w (f (conn_key cid (client_sock c)) w) WRITE_REMAINING CLIENT_WRITE rest out logs c2"
  shows "lands cb cid c w"
proof -
  note d = handshakingD [OF h] and ld = linkedD [OF handshakingD(1) [OF h]] and le = handshake_state [OF h st]
  let ?k = "conn_key cid (client_sock c)"
  obtain w2 where w2: "f ?k w = Inr (WRITE_REMAINING, w2)" "linked cid c2 w2" "settled c2 w2" "stm_current c2 = stm_current c"
    "active_ends c2 = CLIENT_WRITE" "client_sock c2 = client_sock c" "confined cid w w2"
    by (rule served_linked [OF d(1,2) le(2) sv]) blast
  have cl: "close_state st (active_ends c2) = WRITE_REMAINING" using w2(5) client_ends by (simp add: close_state_def)
  have w2': "f ?k w = Inr (close_state st (active_ends c2), w2)" using w2(1) cl by simp
  obtain w' where w': "stm_dispatch cb proxy_machine client_stm ?k w = Inr (WRITE_REMAINING, w')" "confined cid w2 w'"
    "w_clients w' cid = Some (at_state c2 WRITE_REMAINING)" "upright cid (at_state c2 WRITE_REMAINING) w'"
    using dispatched [where cb = cb, OF _ ld(2) st le(1) f w2' w2(2,3)] w2(4) st cl by (auto simp: socks5_states)
  have "relaying cid (at_state c2 WRITE_REMAINING) w'" using w'(4) w2(5) client_ends by (simp add: relaying_def)
  moreover have "confined cid w w'" using w2(7) w'(2) by (rule confined_trans)
  ultimately show ?thesis
    using p awaited_same [of cid w w' "at_state c2 WRITE_REMAINING" c] w'(1,3) w2(6) by (simp add: carried_on_def living_def confined_apart)
qed

text \<open>A state that is left for another, or not left, with the client as \<open>c2\<close>.\<close>

lemma shake_dispatch:
  assumes h: "handshaking cid c w" and st: "stm_current c = Some st" and p: "awaited cid c w = 0" and f: "cb (state_actions ! st) = Some f"
    and sv: "served cid c w (f (conn_key cid (client_sock c)) w) st' CLIENT rest out [] c2" and st': "st' \<le> WRITE_REMAINING"
  obtains w2 where "f (conn_key cid (client_sock c)) w = Inr (st', w2)" "linked cid (at_state c2 st') (put_client cid (at_state c2 st') w2)"
    "settled c2 w2" "active_ends c2 = CLIENT" "client_sock c2 = client_sock c" "origin_sock c2 = -1" "confined cid w w2"
    "awaited cid (at_state c2 st') (put_client cid (at_state c2 st') w2) = 0"
    "stm_dispatch cb proxy_machine client_stm (conn_key cid (client_sock c)) w =
      bindE (if st' = st then Inr (put_client cid (at_state c2 st') w2)
        else arrival st' (conn_key cid (client_sock c)) (put_client cid (at_state c2 st') w2)) (\<lambda>w'. Inr (st', w'))"
proof -
  note d = handshakingD [OF h] and ld = linkedD [OF handshakingD(1) [OF h]] and le = handshake_state [OF h st]
  let ?k = "conn_key cid (client_sock c)" and ?c = "at_state c2 st'"
  obtain w2 where w2: "f ?k w = Inr (st', w2)" "linked cid c2 w2" "settled c2 w2" "stm_current c2 = stm_current c"
    "active_ends c2 = CLIENT" "client_sock c2 = client_sock c" "origin_sock c2 = origin_sock c" "confined cid w w2"
    by (rule served_linked [OF d(1,2) le(2) sv]) blast
  let ?w = "put_client cid ?c w2"
  have "?w = w2" if "st' = st" using w2(4) st put_same linkedD(2) [OF w2(2)] that by (simp add: at_state_same)
  then have "stm_dispatch cb proxy_machine client_stm ?k w = bindE (if st' = st then Inr ?w else arrival st' ?k ?w) (\<lambda>w'. Inr (st', w'))"
    using dispatch_run [where cb = cb, OF _ ld(2) st f w2(1) linkedD(2) [OF w2(2)] _ le(1) st'] w2(4) st by (simp add: at_state_def)
  moreover have "linked cid ?c ?w" using linkedD [OF w2(2)] by (intro linked_put [OF w2(2)]) simp_all
  moreover have "awaited cid ?c ?w = 0" using p awaited_same [of cid w ?w ?c c] w2(6,8) by simp
  ultimately show thesis using that [OF w2(1)] w2(3-8) d(4) by simp
qed

lemma next_lands:
  assumes h: "handshaking cid c w" "stm_current c = Some st" "awaited cid c w = 0" "cb (state_actions ! st) = Some f"
    and sv: "served cid c w (f (conn_key cid (client_sock c)) w) st' CLIENT rest out [] c2" and st': "st' = PLAIN_AUTH \<or> st' = REQUEST"
  shows "lands cb cid c w"
proof -
  let ?c = "at_state c2 st'" and ?k = "conn_key cid (client_sock c)"
  have "st' \<le> WRITE_REMAINING" using st' handshake_states by auto
  then obtain w2 where w2: "f ?k w = Inr (st', w2)" "linked cid ?c (put_client cid ?c w2)" "settled c2 w2" "active_ends c2 = CLIENT"
    "client_sock c2 = client_sock c" "origin_sock c2 = -1" "confined cid w w2" "awaited cid ?c (put_client cid ?c w2) = 0"
    "stm_dispatch cb proxy_machine client_stm ?k w = bindE (if st' = st then Inr (put_client cid ?c w2) else arrival st' ?k (put_client cid ?c w2)) (\<lambda>w'. Inr (st', w'))"
    by (rule shake_dispatch [where cb = cb and f = f, OF h sv])
  let ?w = "put_client cid ?c w2"
  have "arrival st' ?k ?w = Inr ?w" using st' by (auto simp: arrival_def no_action_def)
  then have "stm_dispatch cb proxy_machine client_stm ?k w = Inr (st', ?w)" using w2(9) by simp
  moreover have "handshaking cid ?c ?w" using w2(2-6) st' by (auto simp: handshaking_def)
  then have "living cid ?c ?w" using w2(8) by (simp add: living_def)
  then have "carried_on cid c w ?w" using w2(5,7) by (intro carried_on_living [of cid ?c]) (simp_all add: confined_apart, simp add: put_client_def)
  ultimately show ?thesis by blast
qed

lemma aim_lands:
  assumes h: "handshaking cid c w" "stm_current c = Some st" "awaited cid c w = 0" "cb (state_actions ! st) = Some f"
    and sv: "served cid c w (f (conn_key cid (client_sock c)) w) st' CLIENT rest [] [] c2" and st': "st' = RESOLVING \<or> st' = CONNECTING" "st' \<noteq> st"
    and q: "f (conn_key cid (client_sock c)) w = Inr (st', w0)" "quiet w0 (client_sock c) OP_READ" and log: "\<not> isl (log_dest True c2)"
  shows "lands cb cid c w"
proof -
  let ?c = "at_state c2 st'" and ?k = "conn_key cid (client_sock c)"
  have "st' \<le> WRITE_REMAINING" using st' handshake_states by auto
  then obtain w2 where w2: "f ?k w = Inr (st', w2)" "linked cid ?c (put_client cid ?c w2)" "settled c2 w2" "active_ends c2 = CLIENT"
    "client_sock c2 = client_sock c" "origin_sock c2 = -1" "confined cid w w2" "awaited cid ?c (put_client cid ?c w2) = 0"
    "stm_dispatch cb proxy_machine client_stm ?k w = bindE (if st' = st then Inr (put_client cid ?c w2) else arrival st' ?k (put_client cid ?c w2)) (\<lambda>w'. Inr (st', w'))"
    by (rule shake_dispatch [where cb = cb and f = f, OF h sv])
  let ?w = "put_client cid ?c w2"
  have quiet: "quiet w2 (client_sock c2) OP_READ" using q w2(1,5) by simp
  have "\<exists>w'. arrival st' ?k ?w = Inr w' \<and> w_clients w' cid = Some ?c \<and> living cid ?c w' \<and> apart cid (client_sock c) ?w w'"
  proof (cases "st' = RESOLVING")
    case True
    then have "handshaking cid ?c ?w" using w2(2-6) quiet log by (simp add: handshaking_def)
    then show ?thesis using arrive_resolving [of cid ?c ?w ?k "client_sock c"] w2(8) linkedD(2) [OF w2(2)] True by auto
  next
    case False
    with st'(1) have st': "st' = CONNECTING" by simp
    have "\<exists>w'. arrival CONNECTING ?k ?w = Inr w' \<and> dialing cid ?c w' \<and> confined cid ?w w'"
      by (rule arrive_connecting [OF w2(2)]) (use w2(4-6) quiet st' in simp_all)
    then obtain w' where w': "arrival CONNECTING ?k ?w = Inr w'" "dialing cid ?c w'" "confined cid ?w w'" by blast
    then have "living cid ?c w'" using log w2(8) awaited_same [OF w'(3), of ?c ?c] by (simp add: living_def)
    then show ?thesis using w'(1,2) st' confined_apart [OF w'(3)] by (simp add: dialing_def linked_def)
  qed
  then obtain w' where "arrival st' ?k ?w = Inr w'" "w_clients w' cid = Some ?c" "living cid ?c w'"
    "apart cid (client_sock c) ?w w'" by blast
  then show ?thesis using w2(5,9) st'(2) apart_trans [OF confined_apart [OF w2(7)]] by (simp add: carried_on_def)
qed

lemma wait_lands:
  assumes h: "handshaking cid c w" and st: "stm_current c = Some AUTH_METHOD" and p: "awaited cid c w = 0"
    and f: "cb (state_actions ! AUTH_METHOD) = Some f"
      "f (conn_key cid (client_sock c)) w = Inr (AUTH_METHOD, put_client cid (c\<lparr>origin_buf := b\<rparr>) w)" "buffer_wf b"
  shows "lands cb cid c w"
proof -
  note d = handshakingD [OF h] and ld = linkedD [OF handshakingD(1) [OF h]]
  let ?c = "c\<lparr>origin_buf := b\<rparr>"
  let ?w = "put_client cid ?c w"
  have "linked cid ?c ?w" using ld f(3) by (intro linked_put [OF d(1)]) simp_all
  moreover have "settled ?c ?w" using d(2) by (simp add: settled_def ends_quiet_def)
  ultimately have "handshaking cid ?c ?w" using h st by (simp add: handshaking_def)
  then have "living cid ?c ?w" using p awaited_same [of cid w ?w ?c c] by (simp add: living_def)
  moreover have "stm_dispatch cb proxy_machine client_stm (conn_key cid (client_sock c)) w = Inr (AUTH_METHOD, ?w)"
    using dispatch_run [where cb = cb, OF _ ld(2) st f(1,2), of ?c] st by (simp add: put_client_def handshake_states)
  ultimately show ?thesis by (simp add: carried_on_def) (simp add: put_client_def)
qed

lemma shaken:
  assumes h: "handshaking cid c w" "stm_current c = Some st" and st: "st \<notin> {RESOLVING, CONNECTING}" and p: "awaited cid c w = 0"
    and f: "cb (state_actions ! st) = Some f" and g: "progress cid c w (f (conn_key cid (client_sock c)) w)"
  shows "lands cb cid c w"
  using g
proof (cases rule: progress.cases)
  case (refuses rest out logs c')
  then show ?thesis by (rule refusal_lands [where cb = cb, OF h p f])
next
  case (goes_on st' rest out c')
  then show ?thesis by (rule next_lands [where cb = cb, OF h p f])
next
  case (waits b)
  with h f show ?thesis using wait_lands [where cb = cb and f = f, OF h(1) _ p _ waits(1)] by simp
next
  case (aims st' w' rest c')
  then have "served cid c w (f (conn_key cid (client_sock c)) w) st' CLIENT rest [] [] c'" by simp
  then show ?thesis
    by (rule aim_lands [where cb = cb, OF h p f]) (use aims st in auto)
qed

section \<open>Events during the handshake\<close>

text \<open>The first event finds a machine without a state and puts it into the initial one.\<close>

lemma first_dispatch:
  assumes k: "key_data k = Some (A_client cid)" and c: "w_clients w cid = Some c" "stm_current c = None"
  shows "stm_dispatch cb proxy_machine client_stm k w = stm_dispatch cb proxy_machine client_stm k (put_client cid (at_state c AUTH_METHOD) w)"
proof -
  have at: "ATTACHMENT k = Inr cid" using k by (simp add: ATTACHMENT_def)
  have "handle_first proxy_machine client_stm k w = Inr (put_client cid (at_state c AUTH_METHOD) w)"
    using c at by (simp add: handle_first_def arrive_def client_stm_def proxy_machine_def get_client_def at_state_def no_action_def socks5_states)
      (simp add: state_actions_def no_action_def socks5_states)
  moreover have "handle_first proxy_machine client_stm k (put_client cid (at_state c AUTH_METHOD) w) = Inr (put_client cid (at_state c AUTH_METHOD) w)"
    using at by (simp add: handle_first_def client_stm_def)
  ultimately show ?thesis by (simp add: stm_dispatch_def)
qed

text \<open>Who may pass from the first two states to the request, whether the machine is running already or not.\<close>

lemma running_gate:
  assumes s: "serving k cid c w" and fd: "key_fd k = client_sock c" and st: "stm_current c = Some st" "st = AUTH_METHOD \<or> st = PLAIN_AUTH"
    and run: "stm_dispatch on_read_ready proxy_machine client_stm k w = Inr (ret, w')"
  shows "ret \<in> {AUTH_METHOD, PLAIN_AUTH, DONE, WRITE_REMAINING} \<or> ret = REQUEST \<and> admitted c w"
proof -
  have k: "key_data k = Some (A_client cid)" "w_clients w cid = Some c"
    using s by (simp_all add: serving_def)
  have cs: "client_state c = st"
    using st(1) by (simp add: client_state_def)
  obtain f w2 where f: "on_read_ready (state_actions ! st) = Some f" "f k w = Inr (ret, w2)"
    by (rule running_dispatch [OF run k st(1)])
  show ?thesis
    using st(2)
  proof
    assume "st = AUTH_METHOD"
    with f cs read_auth_method_result [OF s fd] show ?thesis by auto
  next
    assume "st = PLAIN_AUTH"
    with f cs read_plain_auth_result [OF s fd] show ?thesis by auto
  qed
qed

lemma first_gate:
  assumes s: "serving k cid c w" and fd: "key_fd k = client_sock c" and st: "stm_current c = None"
    and run: "stm_dispatch on_read_ready proxy_machine client_stm k w = Inr (ret, w')"
  shows "ret \<in> {AUTH_METHOD, PLAIN_AUTH, DONE, WRITE_REMAINING} \<or> ret = REQUEST \<and> admitted c w"
proof -
  let ?c = "at_state c AUTH_METHOD"
  let ?w = "put_client cid ?c w"
  have k: "key_data k = Some (A_client cid)" "w_clients w cid = Some c" using s by (simp_all add: serving_def)
  have "serving k cid ?c ?w" using s by (simp add: serving_def proxy_fd_def) (simp add: put_client_def)
  moreover have "stm_dispatch on_read_ready proxy_machine client_stm k ?w = Inr (ret, w')"
    using run first_dispatch [OF k st, of on_read_ready] by simp
  ultimately have "ret \<in> {AUTH_METHOD, PLAIN_AUTH, DONE, WRITE_REMAINING} \<or> ret = REQUEST \<and> admitted ?c ?w"
    using running_gate [of k cid ?c ?w AUTH_METHOD ret w'] fd by (simp add: at_state_def)
  moreover have "admitted ?c ?w = admitted c w"
    using st by (simp add: admitted_def client_state_def received_def at_state_def put_client_def)
  ultimately show ?thesis by simp
qed

lemma readers:
  "on_read_ready (state_actions ! AUTH_METHOD) = Some read_auth_method" "AUTH_METHOD \<notin> {RESOLVING, CONNECTING}"
  "on_read_ready (state_actions ! PLAIN_AUTH) = Some read_plain_auth" "PLAIN_AUTH \<notin> {RESOLVING, CONNECTING}"
  "on_read_ready (state_actions ! REQUEST) = Some read_proxy_request" "REQUEST \<notin> {RESOLVING, CONNECTING}"
  by (simp_all add: no_action_def socks5_states del: state_actions_nth) (simp_all add: state_actions_def no_action_def)

lemma handshake_read:
  assumes h: "handshaking cid c w" and p: "awaited cid c w = 0" and env: "env_ok (w_env w)"
    and it: "registered w (client_sock c) = Some it" "hasFlag (it_interest it) OP_READ"
    and safe: "client_state c = PLAIN_AUTH \<Longrightarrow> \<not> (filled_up c w \<and> cut_after_name (received c w) \<and> \<not> hung_up c w)"
      "client_state c = REQUEST \<Longrightarrow> \<not> request_hazard c w"
  shows "lands on_read_ready cid c w"
proof (cases "stm_current c")
  case None
  note d = handshakingD [OF h]
  let ?c = "at_state c AUTH_METHOD"
  let ?w = "put_client cid ?c w"
  have "linked cid ?c ?w" using linkedD [OF d(1)] by (intro linked_put [OF d(1)]) simp_all
  then have h': "handshaking cid ?c ?w" using h None by (simp add: handshaking_def)
  have "\<exists>ret w'. stm_dispatch on_read_ready proxy_machine client_stm (conn_key cid (client_sock ?c)) ?w = Inr (ret, w') \<and> carried_on cid ?c ?w w'"
    using shaken [where cb = on_read_ready, OF h' _ readers(2) _ readers(1) auth_method_progress [OF h']] env p awaited_same [of cid w ?w ?c c] by simp
  then show ?thesis
    using first_dispatch [OF _ linkedD(2) [OF d(1)] None, of "conn_key cid (client_sock c)" on_read_ready] by simp
next
  case (Some st)
  then have cs: "client_state c = st" by (simp add: client_state_def)
  have "\<not> quiet w (client_sock c) OP_READ" using it by (auto simp: quiet_def)
  then consider "st = AUTH_METHOD" | "st = PLAIN_AUTH" | "st = REQUEST" using h Some by (auto simp: handshaking_def)
  then show ?thesis
  proof cases
    case 1
    then show ?thesis using shaken [where cb = on_read_ready, OF h _ readers(2) p readers(1) auth_method_progress [OF h _ env]] Some by simp
  next
    case 2
    then show ?thesis using shaken [where cb = on_read_ready, OF h _ readers(4) p readers(3) plain_auth_progress [OF h _ env safe(1)]] Some cs by simp
  next
    case 3
    then show ?thesis using shaken [where cb = on_read_ready, OF h _ readers(6) p readers(5) request_progress [OF h _ env safe(2)]] Some cs by simp
  qed
qed

lemma ends_after_write: "ends_after CLIENT_WRITE CLIENT = 0"
  by code_simp

lemma handshake_write:
  assumes h: "handshaking cid c w" and p: "awaited cid c w \<le> (if stm_current c = Some RESOLVING then 1 else 0)" and env: "env_ok (w_env w)"
    and it: "registered w (client_sock c) = Some it" "hasFlag (it_interest it) OP_WRITE"
  shows "lands on_write_ready cid c w"
proof -
  note d = handshakingD [OF h]
  let ?k = "conn_key cid (client_sock c)"
  have "\<not> quiet w (client_sock c) OP_WRITE" using it by (auto simp: quiet_def)
  then obtain st where st: "stm_current c = Some st" "st = PLAIN_AUTH \<or> st = REQUEST \<or> st = RESOLVING"
    using h by (auto simp: handshaking_def split: option.splits)
  have cs: "client_state c = st" using st(1) by (simp add: client_state_def)
  have le: "client_state c \<le> WRITE_REMAINING" "client_state c \<noteq> DONE" "stm_current c = Some (client_state c)"
    using st cs by (auto simp: socks5_states)
  have f: "on_write_ready (state_actions ! client_state c) = Some handle_proxy_write" using st(2) cs by (auto simp: no_action_def)
  have r: "relayed cid c w CLIENT_WRITE (handle_proxy_write ?k w) (contents (origin_buf c)) (kept (w_env w) (client_buf c))"
    by (rule relay_write_client [OF d(5) _ _ env]) simp_all
  obtain ret w' where w': "stm_dispatch on_write_ready proxy_machine client_stm ?k w = Inr (ret, w')"
    "moved cid c w CLIENT_WRITE (contents (origin_buf c)) (kept (w_env w) (client_buf c)) w'"
    using relayed_dispatch [where cb = on_write_ready, OF d(5) _ le(3,1,2) f r] by auto
  have "carried_on cid c w w'"
  proof (cases "w_clients w' cid")
    case None
    then show ?thesis using w'(2) by (simp add: carried_on_def moved_def confined_apart)
  next
    case (Some c')
    then obtain ob cb pp e where c': "c' = at_state (relayed_client c ob cb pp e) (close_state (client_state c) e)" "e \<noteq> 0"
      "e = active_ends c \<and> calm w w' \<or> e = ends_after CLIENT_WRITE (active_ends c)" and u: "upright cid c' w'" "confined cid w w'"
      using w'(2) by (auto simp: moved_def)
    from c'(2,3) have e: "e = active_ends c" "calm w w'" using d(3) ends_after_write by auto
    have fields: "client_sock c' = client_sock c" "origin_sock c' = origin_sock c" "active_ends c' = CLIENT" "stm_current c' = Some st"
      "log_dest True c' = log_dest True c"
      using c'(1) e(1) d(3,6) cs by simp_all
    have "handshaking cid c' w'"
      using h u(1) fields st(1) e(2) d(4) by (auto simp: handshaking_def upright_def calm_def)
    then have "living cid c' w'"
      using p awaited_same [OF u(2) fields(1)] fields(4) st(1) by (simp add: living_def)
    then show ?thesis using Some fields(1) u(2) by (simp add: carried_on_def confined_apart)
  qed
  with w'(1) show ?thesis by blast
qed

section \<open>Events\<close>

text \<open>
  What happens to a connection: one of its sockets is ready (for reading or not; the client's or not), the
  resolver's thread stores its result and queues the notification, or the selector works the
  notification off.
\<close>

datatype conn_event = Ready bool bool | Resolved "byte list option \<Rightarrow> nat \<Rightarrow> addrinfo list option" | Notified

text \<open>One turn of \<open>handle_block_notifications\<close>.\<close>

definition notify_client :: "int \<Rightarrow> world \<Rightarrow> world run" where
  "notify_client fd w =
     (if fd \<in> set (resolution_jobs w)
      then bindE (case registered w fd of
                    None \<Rightarrow> Inr w
                  | Some it \<Rightarrow> socksv5_block \<lparr>key_fd = fd, key_data = it_data it\<rparr> w) (\<lambda>w1.
           Inr (w1\<lparr>resolution_jobs := remove1 fd (resolution_jobs w1)\<rparr>))
      else Inr w)"

definition life_step :: "nat \<Rightarrow> conn_event \<Rightarrow> world \<Rightarrow> world run" where
  "life_step cid ev w =
     (case ev of
        Resolved gai \<Rightarrow> if cid \<in> set (w_threads w) then thread_name_resolution gai cid w else Inr w
      | Ready rd of_client \<Rightarrow>
          (case w_clients w cid of
             None \<Rightarrow> Inr w
           | Some c \<Rightarrow> relay_event rd (if of_client then client_sock c else origin_sock c) w)
      | Notified \<Rightarrow>
          (case w_clients w cid of
             None \<Rightarrow> Inr w
           | Some c \<Rightarrow> notify_client (client_sock c) w))"

text \<open>
  The events that the code does not survive, or of which it cannot be said: the password length that is
  read behind the buffer, the requests above, and the thread that finds its client freed.
\<close>

definition hazard :: "nat \<Rightarrow> conn_event \<Rightarrow> world \<Rightarrow> bool" where
  "hazard cid ev w \<longleftrightarrow>
     (case w_clients w cid of
        None \<Rightarrow> (case ev of Resolved _ \<Rightarrow> cid \<in> set (w_threads w) | _ \<Rightarrow> False)
      | Some c \<Rightarrow> ev = Ready True True
          \<and> (client_state c = PLAIN_AUTH \<and> filled_up c w \<and> cut_after_name (received c w) \<and> \<not> hung_up c w
             \<or> client_state c = REQUEST \<and> request_hazard c w))"

text \<open>What is asked of the system: sane results of its calls, a socket that is new, its address of the right family.\<close>

definition conn_env :: "nat \<Rightarrow> world \<Rightarrow> bool" where
  "conn_env cid w \<longleftrightarrow> env_ok (w_env w)
     \<and> (case w_clients w cid of
          None \<Rightarrow> True
        | Some c \<Rightarrow> client_state c = CONNECTING \<longrightarrow> same_family c (w_env w) \<and> fresh_socket c w)"

lemma living_linked: "living cid c w \<Longrightarrow> linked cid c w"
  by (auto simp: living_def handshaking_def dialing_def relaying_def upright_def)

lemma carried_on_same: "living cid c w \<Longrightarrow> carried_on cid c w w"
  using living_linked [of cid c w] linkedD(2) by (fastforce simp: carried_on_def)

lemma event_dispatch:
  assumes "linked cid c w" and "fd \<in> {client_sock c, origin_sock c}" and "registered w fd = Some it"
  shows "hasFlag (it_interest it) OP_READ \<Longrightarrow> relay_event True fd w =
      bindE (stm_dispatch on_read_ready proxy_machine client_stm (conn_key cid fd) w) (\<lambda>(_, w1). Inr w1)"
    and "hasFlag (it_interest it) OP_WRITE \<Longrightarrow> relay_event False fd w =
      bindE (stm_dispatch on_write_ready proxy_machine client_stm (conn_key cid fd) w) (\<lambda>(_, w1). Inr w1)"
  using assms(3) linkedD(11) [OF assms]
  by (simp_all add: relay_event_def socksv5_read_def stm_handler_read_def socksv5_write_def stm_handler_write_def conn_key_def)

lemma handshake_ready:
  assumes h: "handshaking cid c w" and lv: "living cid c w" and env: "env_ok (w_env w)" and safe: "\<not> hazard cid (Ready rd of_client) w"
  shows "\<exists>w'. relay_event rd (if of_client then client_sock c else origin_sock c) w = Inr w' \<and> carried_on cid c w w'"
proof (cases "\<exists>it. registered w (if of_client then client_sock c else origin_sock c) = Some it \<and> hasFlag (it_interest it) (if rd then OP_READ else OP_WRITE)")
  case False
  then show ?thesis using carried_on_same [OF lv] by (auto simp: relay_event_def split: option.splits)
next
  case True
  note d = handshakingD [OF h]
  have of_client: "of_client" using True d(4) registered_negative [of "-1" w] by (cases of_client) auto
  then obtain it where it: "registered w (client_sock c) = Some it" "hasFlag (it_interest it) (if rd then OP_READ else OP_WRITE)"
    using True by auto
  have p: "awaited cid c w \<le> (if stm_current c = Some RESOLVING then 1 else 0)" using lv by (simp add: living_def)
  note ev = event_dispatch [OF d(1) _ it(1)]
  show ?thesis
  proof (cases rd)
    case True
    have "\<not> quiet w (client_sock c) OP_READ" using it True by (auto simp: quiet_def)
    then have "stm_current c \<noteq> Some RESOLVING" using h by (auto simp: handshaking_def socks5_states)
    then have "\<exists>ret w'. stm_dispatch on_read_ready proxy_machine client_stm (conn_key cid (client_sock c)) w = Inr (ret, w') \<and> carried_on cid c w w'"
      using p it safe True of_client linkedD(2) [OF d(1)] by (intro handshake_read [OF h _ env it(1)]) (auto simp: hazard_def)
    then show ?thesis using ev(1) it(2) True of_client by auto
  next
    case False
    then have "\<exists>ret w'. stm_dispatch on_write_ready proxy_machine client_stm (conn_key cid (client_sock c)) w = Inr (ret, w') \<and> carried_on cid c w w'"
      using it by (intro handshake_write [OF h p env it(1)]) simp
    then show ?thesis using ev(2) it(2) False of_client by auto
  qed
qed

lemma log_any:
  assumes "\<not> isl (log_dest True c)" and "\<not> curr_freed c"
  shows "\<not> isl (log_dest True (c\<lparr>curr_addr := as\<rparr>))"
  using assms by (cases as) (auto simp: log_dest_def not_isl split: if_splits option.splits)

lemma dial_ready:
  assumes dl: "dialing cid c w" and log: "\<not> isl (log_dest True c)" and lv: "living cid c w" and env: "conn_env cid w"
  shows "\<exists>w'. relay_event rd (if of_client then client_sock c else origin_sock c) w = Inr w' \<and> carried_on cid c w w'"
proof -
  have l: "linked cid c w" and st: "stm_current c = Some CONNECTING" using dl by (simp_all add: dialing_def)
  note ld = linkedD [OF l]
  have p: "awaited cid c w = 0" using lv st by (simp add: living_def socks5_states split: if_splits)
  let ?fd = "if of_client then client_sock c else origin_sock c"
  obtain d where d: "log_dest True c = Inr d" using log by (auto simp: not_isl)
  have ok: "?fd \<in> {client_sock c, origin_sock c}" "env_ok (w_env w)" "same_family c (w_env w)" "fresh_socket c w"
    using env ld(2) st by (auto simp: conn_env_def client_state_def)
  obtain w' where w': "relay_event rd ?fd w = Inr w'" "if rd \<or> quiet w ?fd OP_WRITE then w' = w else dial_step cid c w (dial_verdict ?fd c (w_env w)) w'"
    using dial_event [OF dl ok d] by blast
  have go_on: "carried_on cid c w w'" if "linked cid c' w'" "living cid c' w'" "client_sock c' = client_sock c" "confined cid w w'" for c'
    using carried_on_living [OF that(2) linkedD(2) [OF that(1)] that(3) confined_apart [OF that(4)]] .
  have "carried_on cid c w w'"
  proof (cases "rd \<or> quiet w ?fd OP_WRITE")
    case True
    then show ?thesis using w'(2) carried_on_same [OF lv] by simp
  next
    case False
    then have step: "dial_step cid c w (dial_verdict ?fd c (w_env w)) w'" using w'(2) by simp
    show ?thesis
    proof (cases "dial_verdict ?fd c (w_env w)")
      case (Underway as)
      let ?c = "c\<lparr>curr_addr := as, origin_sock := env_socket (w_env w)\<rparr>"
      have c': "confined cid w w'" "dialing cid ?c w'" using step Underway by (simp_all add: dial_step_def)
      moreover have "\<not> isl (log_dest True ?c)" using log_any [OF log ld(10), of as] by simp
      ultimately have "living cid ?c w'" using p awaited_same [OF c'(1), of ?c c] by (simp add: living_def)
      then show ?thesis by (rule go_on [rotated]) (use c' in \<open>simp_all add: dialing_def\<close>)
    next
      case Established
      then obtain c' where c': "relaying cid c' w'" "connected cid c w c' w'" using step by (auto simp: dial_step_def)
      then have "living cid c' w'" using p awaited_same [of cid w w' c' c] by (simp add: living_def connected_def)
      then show ?thesis by (rule go_on [rotated]) (use c' in \<open>simp_all add: relaying_def upright_def connected_def\<close>)
    next
      case (Reject as code)
      then obtain c' where c': "relaying cid c' w'" "rejected cid (c\<lparr>curr_addr := as\<rparr>) w code c' w'" using step by (auto simp: dial_step_def)
      then have "living cid c' w'" using p awaited_same [of cid w w' c' c] by (simp add: living_def rejected_def)
      then show ?thesis by (rule go_on [rotated]) (use c' in \<open>simp_all add: relaying_def upright_def rejected_def\<close>)
    qed
  qed
  with w'(1) show ?thesis by blast
qed

lemma relay_ready:
  assumes r: "relaying cid c w" and lv: "living cid c w" and env: "env_ok (w_env w)"
  shows "\<exists>w'. relay_event rd (if of_client then client_sock c else origin_sock c) w = Inr w' \<and> carried_on cid c w w'"
proof -
  let ?fd = "if of_client then client_sock c else origin_sock c"
  have "?fd \<in> {client_sock c, origin_sock c}" by simp
  from relay_event_ok [OF r this env, of rd] obtain w' up down where
    w': "relay_event rd ?fd w = Inr w'" "confined cid w w'" "aftermath cid c up down w'" unfolding conserving_def by blast
  have "stm_current c = Some PROXY \<or> stm_current c = Some WRITE_REMAINING" using r by (auto simp: relaying_def)
  then have p: "awaited cid c w = 0" using lv by (auto simp: living_def socks5_states split: if_splits)
  have "carried_on cid c w w'"
  proof (cases "w_clients w' cid")
    case None
    then show ?thesis using w'(2,3) by (simp add: aftermath_def carried_on_def confined_apart)
  next
    case (Some c')
    then show ?thesis
      using w'(2,3) p awaited_same [OF w'(2), of c' c] by (simp add: aftermath_def carried_on_def living_def confined_apart)
  qed
  with w'(1) show ?thesis by blast
qed

section \<open>The resolver\<close>

lemma count_list_drop: "count_list (remove1 x xs) y = count_list xs y - (if x = y then 1 else 0)"
  by (induction xs) (auto simp: count_list_0_iff)

lemma jobs_fields [simp]:
  "sel_wf (w\<lparr>resolution_jobs := js\<rparr>) = sel_wf w"
  by (simp add: sel_wf_def)

lemma linked_jobs [simp]:
  "linked cid c (w\<lparr>resolution_jobs := js\<rparr>) = linked cid c w" "settled c (w\<lparr>resolution_jobs := js\<rparr>) = settled c w"
  "quiet (w\<lparr>resolution_jobs := js\<rparr>) = quiet w"
  "linked cid c (w\<lparr>w_threads := ts\<rparr>) = linked cid c w" "settled c (w\<lparr>w_threads := ts\<rparr>) = settled c w" "quiet (w\<lparr>w_threads := ts\<rparr>) = quiet w"
  by (simp_all add: linked_def settled_def ends_quiet_def proxy_fd_def quiet_def fun_eq_iff)

text \<open>The thread stores what \<open>getaddrinfo\<close> found, if anything, and leaves a notification, if there is memory for it.\<close>

lemma resolver_result:
  assumes lv: "living cid c w" and t: "cid \<in> set (w_threads w)"
  shows "\<exists>w'. thread_name_resolution gai cid w = Inr w' \<and> carried_on cid c w w'"
proof -
  note ld = linkedD [OF living_linked [OF lv]]
  have one: "0 < count_list (w_threads w) cid" using t by (simp add: count_list_0_iff flip: neq0_conv)
  then have st: "stm_current c = Some RESOLVING" and p: "awaited cid c w = 1" using lv by (auto simp: living_def awaited_def split: if_splits)
  then have h: "handshaking cid c w"
    using lv by (auto simp: living_def dialing_def relaying_def socks5_states)
  note d = handshakingD [OF h]
  define c' where "c' = (case gai (map_option cstr (dest_fqdn c)) (ntohs (dest_port c)) of None \<Rightarrow> c | Some res \<Rightarrow> c\<lparr>resolution := res\<rparr>)"
  define js where "js = (if env_malloc (w_env w) 0 then client_sock c # resolution_jobs w else resolution_jobs w)"
  let ?w = "(put_client cid c' w)\<lparr>resolution_jobs := js, w_threads := remove1 cid (w_threads w)\<rparr>"
  have fields: "client_sock c' = client_sock c" "origin_sock c' = origin_sock c" "active_ends c' = active_ends c" "stm_current c' = stm_current c"
    "client_wf c'" "\<not> curr_freed c'" "log_dest True c' = log_dest True c" "settled c' w = settled c w"
    using ld(3,10) by (auto simp: c'_def client_wf_def log_dest_def settled_def ends_quiet_def split: option.splits)
  have run: "thread_name_resolution gai cid w = Inr ?w"
    using ld(2,9) by (cases "gai (map_option cstr (dest_fqdn c)) (ntohs (dest_port c))")
      (simp_all add: thread_name_resolution_def selector_notify_block_def c'_def js_def put_client_def fun_upd_idem)
  have "linked cid c' (put_client cid c' w)" using fields by (intro linked_put [OF d(1)]) simp_all
  then have "handshaking cid c' ?w" using h fields st by (simp add: handshaking_def)
  moreover have "awaited cid c' ?w \<le> 1"
    using p one fields(1) by (simp add: awaited_def js_def count_list_drop)
  ultimately have "living cid c' ?w" using fields(4) st by (simp add: living_def)
  moreover have "apart cid (client_sock c) w ?w"
    by (simp add: apart_def bystanders_def js_def count_list_drop) (simp add: put_client_def)
  ultimately show ?thesis using run fields(1) by (intro exI [of _ ?w]) (simp add: carried_on_def, simp add: put_client_def)
qed

lemma notified_dispatch:
  assumes h: "handshaking cid c w" and st: "stm_current c = Some RESOLVING" and fd: "fd = client_sock c"
  shows "\<exists>w' c'. stm_dispatch on_block_ready proxy_machine client_stm (conn_key cid fd) w = Inr (CONNECTING, w')
    \<and> dialing cid c' w' \<and> \<not> isl (log_dest True c') \<and> confined cid w w' \<and> client_sock c' = client_sock c"
proof -
  note d = handshakingD [OF h]
  note ld = linkedD [OF d(1)]
  let ?k = "conn_key cid fd" and ?c = "c\<lparr>curr_addr := resolution c\<rparr>"
  let ?c' = "at_state ?c CONNECTING"
  let ?w = "put_client cid ?c' w"
  have q: "quiet w (client_sock c) OP_READ" and log: "\<not> isl (log_dest True c)" using h st by (auto simp: handshaking_def socks5_states)
  have f: "on_block_ready (state_actions ! RESOLVING) = Some handle_finished_resolution" by (simp add: no_action_def)
  have run: "handle_finished_resolution ?k w = Inr (CONNECTING, put_client cid ?c w)"
    using ld(9) by (simp add: handle_finished_resolution_def)
  have ne: "CONNECTING \<noteq> RESOLVING" by (simp add: socks5_states)
  have "stm_dispatch on_block_ready proxy_machine client_stm ?k w = bindE (arrival CONNECTING ?k ?w) (\<lambda>w3. Inr (CONNECTING, w3))"
    using dispatch_run [where cb = on_block_ready, OF _ ld(2) st f run, of ?c] ne st handshake_states
    by (simp add: at_state_def) (simp add: put_client_def)
  moreover have "client_wf ?c" using ld(3) by (simp add: client_wf_def)
  then have l: "linked cid ?c' ?w" using ld(10) by (intro linked_put [OF d(1)]) simp_all
  have "\<exists>w'. arrival CONNECTING ?k ?w = Inr w' \<and> dialing cid ?c' w' \<and> confined cid ?w w'"
    by (rule arrive_connecting [OF l]) (use d(3,4) q in simp_all)
  then obtain w' where "arrival CONNECTING ?k ?w = Inr w'" "dialing cid ?c' w'" "confined cid ?w w'" by blast
  moreover have "\<not> isl (log_dest True ?c')" using log_any [OF log ld(10)] by simp
  ultimately show ?thesis by (intro exI [of _ w'] exI [of _ ?c']) simp
qed

lemma notified:
  assumes lv: "living cid c w"
  shows "\<exists>w'. notify_client (client_sock c) w = Inr w' \<and> carried_on cid c w w'"
proof (cases "client_sock c \<in> set (resolution_jobs w)")
  case False
  then show ?thesis using carried_on_same [OF lv] by (simp add: notify_client_def)
next
  case True
  note ld = linkedD [OF living_linked [OF lv]]
  have one: "0 < count_list (resolution_jobs w) (client_sock c)" using True by (simp add: count_list_0_iff flip: neq0_conv)
  then have st: "stm_current c = Some RESOLVING" and p: "awaited cid c w = 1" using lv by (auto simp: living_def awaited_def split: if_splits)
  then have h: "handshaking cid c w"
    using lv by (auto simp: living_def dialing_def relaying_def socks5_states)
  let ?done = "\<lambda>w1. w1\<lparr>resolution_jobs := remove1 (client_sock c) (resolution_jobs w1)\<rparr>"
  have left: "awaited cid c' (?done w1) = 0" if "confined cid w w1" "client_sock c' = client_sock c" for c' w1
    using that p one by (simp add: awaited_def confined_def count_list_drop)
  have off: "apart cid (client_sock c) w (?done w1)" if "confined cid w w1" for w1
    using that by (simp add: confined_def apart_def bystanders_def count_list_drop)
  show ?thesis
  proof (cases "registered w (client_sock c)")
    case None
    have "handshaking cid c (?done w)" using h st by (simp add: handshaking_def)
    then have "living cid c (?done w)" using left [of w c] by (simp add: living_def)
    then show ?thesis using True None ld(2) off [of w] by (simp add: notify_client_def carried_on_def)
  next
    case (Some it)
    have data: "it_data it = Some (A_client cid)" by (rule ld(11) [OF _ Some]) simp
    obtain w1 c' where w1: "stm_dispatch on_block_ready proxy_machine client_stm (conn_key cid (client_sock c)) w = Inr (CONNECTING, w1)"
      "dialing cid c' w1" "\<not> isl (log_dest True c')" "confined cid w w1" "client_sock c' = client_sock c"
      using notified_dispatch [OF h st refl] by blast
    have "dialing cid c' (?done w1)" using w1(2) by (simp add: dialing_def)
    then have "living cid c' (?done w1)" using w1(3) left [OF w1(4,5)] by (simp add: living_def)
    moreover have "w_clients (?done w1) cid = Some c'" using w1(2) by (simp add: dialing_def linked_def)
    ultimately have "carried_on cid c w (?done w1)" using w1(5) off [OF w1(4)] by (intro carried_on_living)
    moreover have "notify_client (client_sock c) w = Inr (?done w1)"
      using True Some data w1(1) by (simp add: notify_client_def socksv5_block_def stm_handler_block_def conn_key_def)
    ultimately show ?thesis by blast
  qed
qed

section \<open>Runs\<close>

lemma life_step_ok:
  assumes lv: "living cid c w" and env: "conn_env cid w" and safe: "\<not> hazard cid ev w"
  shows "\<exists>w'. life_step cid ev w = Inr w' \<and> carried_on cid c w w'"
proof (cases ev)
  case (Ready rd of_client)
  have ok: "env_ok (w_env w)" using env by (simp add: conn_env_def)
  have "\<exists>w'. relay_event rd (if of_client then client_sock c else origin_sock c) w = Inr w' \<and> carried_on cid c w w'"
    using lv handshake_ready [OF _ lv ok safe [unfolded Ready]] dial_ready [OF _ _ lv env] relay_ready [OF _ lv ok]
    unfolding living_def by blast
  then show ?thesis using linkedD(2) [OF living_linked [OF lv]] Ready by (simp add: life_step_def)
next
  case (Resolved gai)
  then show ?thesis using resolver_result [OF lv] carried_on_same [OF lv] by (simp add: life_step_def)
next
  case Notified
  then show ?thesis using notified [OF lv] linkedD(2) [OF living_linked [OF lv]] by (simp add: life_step_def)
qed

text \<open>A sequence of events, each with what the system answers then.\<close>

fun life_run :: "nat \<Rightarrow> (conn_event \<times> sysenv) list \<Rightarrow> world \<Rightarrow> world run" where
  "life_run cid [] w = Inr w"
| "life_run cid ((ev, e) # evs) w = bindE (life_step cid ev (w\<lparr>w_env := e\<rparr>)) (life_run cid evs)"

text \<open>No event on the way is a hazard, and the system behaves.\<close>

fun safe_run :: "nat \<Rightarrow> (conn_event \<times> sysenv) list \<Rightarrow> world \<Rightarrow> bool" where
  "safe_run cid [] w = True"
| "safe_run cid ((ev, e) # evs) w =
     (let w0 = w\<lparr>w_env := e\<rparr> in conn_env cid w0 \<and> \<not> hazard cid ev w0
        \<and> (case life_step cid ev w0 of Inl _ \<Rightarrow> True | Inr w1 \<Rightarrow> safe_run cid evs w1))"

definition lived :: "nat \<Rightarrow> int \<Rightarrow> world \<Rightarrow> bool" where
  "lived cid fd w \<longleftrightarrow>
     (case w_clients w cid of Some c \<Rightarrow> living cid c w \<and> client_sock c = fd | None \<Rightarrow> registered w fd = None)"

lemma living_env [simp]: "living cid c (w\<lparr>w_env := e\<rparr>) = living cid c w"
  by (simp add: living_def handshaking_def dialing_def linked_def settled_def proxy_fd_def ends_quiet_def quiet_def awaited_def
      cong: option.case_cong)

lemma lived_env [simp]: "lived cid fd (w\<lparr>w_env := e\<rparr>) = lived cid fd w"
  by (simp add: lived_def cong: option.case_cong)

lemma lived_step:
  assumes "lived cid fd w" and "conn_env cid w" and "\<not> hazard cid ev w"
  shows "\<exists>w'. life_step cid ev w = Inr w' \<and> lived cid fd w' \<and> apart cid fd w w'"
proof (cases "w_clients w cid")
  case None
  then have "life_step cid ev w = Inr w"
    using assms(3) by (cases ev) (simp_all add: life_step_def hazard_def)
  with assms(1) show ?thesis by simp
next
  case (Some c)
  then have c: "living cid c w" "client_sock c = fd" using assms(1) by (simp_all add: lived_def)
  from life_step_ok [OF c(1) assms(2,3)] obtain w' where "life_step cid ev w = Inr w'" "carried_on cid c w w'" by blast
  with c(2) show ?thesis by (auto simp: carried_on_def lived_def split: option.splits)
qed

lemma lived_run:
  assumes "lived cid fd w" and "safe_run cid evs w"
  shows "\<exists>w'. life_run cid evs w = Inr w' \<and> lived cid fd w' \<and> apart cid fd w w'"
  using assms
proof (induction evs arbitrary: w)
  case (Cons ev evs)
  obtain e0 e where ev: "ev = (e0, e)" by (cases ev)
  have "lived cid fd (w\<lparr>w_env := e\<rparr>)" "conn_env cid (w\<lparr>w_env := e\<rparr>)" "\<not> hazard cid e0 (w\<lparr>w_env := e\<rparr>)"
    using Cons.prems ev by (simp_all add: Let_def)
  then obtain w1 where w1: "life_step cid e0 (w\<lparr>w_env := e\<rparr>) = Inr w1" "lived cid fd w1" "apart cid fd (w\<lparr>w_env := e\<rparr>) w1"
    using lived_step by blast
  then have "safe_run cid evs w1" using Cons.prems(2) ev by (simp add: Let_def)
  from Cons.IH [OF w1(2) this] obtain w' where "life_run cid evs w1 = Inr w'" "lived cid fd w'" "apart cid fd w1 w'" by blast
  then show ?case using ev w1(1,3) apart_trans by auto
qed simp

section \<open>The beginning\<close>

text \<open>
  \<open>accept\<close> gave a descriptor that is not in use, and an address that fits the field; the four allocations
  of \<open>create_client\<close> succeeded.
\<close>

definition acceptable :: "world \<Rightarrow> bool" where
  "acceptable w \<longleftrightarrow> sel_wf w \<and> env_ok (w_env w) \<and> w_next w \<notin> set (w_threads w)
     \<and> (case env_accept (w_env w) of
          Accept_err \<Rightarrow> True
        | Accept_ok sock addr len \<Rightarrow> len \<le> SOCKADDR_SIZE \<and> \<not> INVALID_FD sock \<and> registered w sock = None \<and> sock \<notin> set (resolution_jobs w))"

definition admits :: "world \<Rightarrow> int option" where
  "admits w =
     (if fst (add_proxy_client (w_state w))
      then case env_accept (w_env w) of
             Accept_err \<Rightarrow> None
           | Accept_ok sock addr len \<Rightarrow> if \<forall>i<4. env_malloc (w_env w) i then Some sock else None
      else None)"

lemma four: "(\<forall>i<4::nat. P i) \<longleftrightarrow> P 0 \<and> P 1 \<and> P 2 \<and> P 3"
  by (auto simp: eval_nat_numeral less_Suc_eq)

lemma fresh_client_wf: "length raw1 = n \<Longrightarrow> length raw2 = n \<Longrightarrow> client_wf ((fresh_client sock n raw1 raw2 cur)\<lparr>client_addr := a\<rparr>)"
  by (simp add: client_wf_def fresh_client_def MAX_CREDENTIALS_def)

text \<open>The size of the peer's address, and whether something is still on its way for the number or the socket of the new client.\<close>

definition peer_len :: "world \<Rightarrow> nat" where
  "peer_len w = (case env_accept (w_env w) of Accept_err \<Rightarrow> 0 | Accept_ok sock addr len \<Rightarrow> len)"

definition unawaited :: "int \<Rightarrow> world \<Rightarrow> bool" where
  "unawaited sock w \<longleftrightarrow> w_next w \<notin> set (w_threads w) \<and> sock \<notin> set (resolution_jobs w)"

lemma admitsE:
  assumes "admits w = Some sock"
  obtains addr st where "env_accept (w_env w) = Accept_ok sock addr (peer_len w)" "add_proxy_client (w_state w) = (True, st)"
    "env_malloc (w_env w) 0" "env_malloc (w_env w) 1" "env_malloc (w_env w) 2" "env_malloc (w_env w) 3"
  using assms by (cases "env_accept (w_env w)"; cases "add_proxy_client (w_state w)")
    (auto simp: admits_def peer_len_def four split: if_splits)

lemma oversized_peer:
  assumes "admits w = Some sock" and "SOCKADDR_SIZE < peer_len w"
  shows "master_read_handler k w = Inl Out_of_bounds"
  by (rule admitsE [OF assms(1)]) (use assms(2) in \<open>simp add: master_read_handler_def create_client_def proxy_machine_starts Let_def\<close>)

text \<open>The client as it is stored, whether its socket can be watched or not.\<close>

definition stored :: "int \<Rightarrow> world \<Rightarrow> client \<Rightarrow> world \<Rightarrow> bool" where
  "stored sock w c w' \<longleftrightarrow> w_clients w' = (w_clients w)(w_next w \<mapsto> c) \<and> client_sock c = sock \<and> client_wf c
     \<and> contents (client_buf c) = [] \<and> contents (origin_buf c) = [] \<and> stm_current c = None
     \<and> w_state w' = snd (add_proxy_client (w_state w))"

lemma admitted_client:
  assumes wf: "sel_wf w" "env_ok (w_env w)" and adm: "admits w = Some sock" and len: "peer_len w \<le> SOCKADDR_SIZE"
  shows "\<exists>w' c. master_read_handler k w = Inr w' \<and> stored sock w c w'
    \<and> (if INVALID_FD sock \<or> registered w sock \<noteq> None then registered w' = registered w
       else registered w' = (registered w)(sock \<mapsto> new_item sock OP_READ socks5_handler (Some (A_client (w_next w))))
         \<and> (unawaited sock w \<longrightarrow> living (w_next w) c w'))"
proof -
  let ?cid = "w_next w" and ?e = "w_env w"
  obtain addr st where acc: "env_accept ?e = Accept_ok sock addr (peer_len w)" and go: "add_proxy_client (w_state w) = (True, st)"
    and mem: "env_malloc ?e 0" "env_malloc ?e 1" "env_malloc ?e 2" "env_malloc ?e 3"
    by (rule admitsE [OF adm])
  let ?n = "unat (get_buffsize st)"
  let ?c = "(fresh_client sock ?n (env_junk ?e ?n) (env_junk ?e ?n) None)\<lparr>client_addr := addr\<rparr>"
  have cwf: "client_wf ?c" by (rule fresh_client_wf) (use wf(2) in \<open>simp_all add: env_ok_def\<close>)
  have f: "client_sock ?c = sock" "origin_sock ?c = -1" "active_ends ?c = CLIENT" "stm_current ?c = None" "\<not> curr_freed ?c"
    "contents (client_buf ?c) = []" "contents (origin_buf ?c) = []"
    by (simp_all add: fresh_client_def)
  let ?w2 = "put_client ?cid ?c (w\<lparr>w_state := st, w_next := ?cid + 1\<rparr>)"
  have run: "master_read_handler k w = bindE (register_client sock OP_READ ?cid ?w2) (\<lambda>(_, w3). Inr w3)"
    using go acc mem len by (simp add: master_read_handler_def create_client_def proxy_machine_starts Let_def)
  show ?thesis
  proof (cases "INVALID_FD sock \<or> registered w sock \<noteq> None")
    case True
    then have "sel_wf ?w2" "INVALID_FD sock \<or> registered ?w2 sock \<noteq> None" using wf(1) by simp_all
    then obtain s where "register_client sock OP_READ ?cid ?w2 = Inr (s, ?w2)"
      using selector_register_refused unfolding register_client_def by blast
    then have "master_read_handler k w = Inr ?w2" using run by simp
    moreover have "stored sock w ?c ?w2" using f cwf go by (simp add: stored_def put_client_def)
    ultimately show ?thesis using True by (intro exI [of _ ?w2] exI [of _ ?c]) simp
  next
    case False
    then have fd: "\<not> INVALID_FD sock" "registered w sock = None" by simp_all
    obtain w3 where w3: "register_client sock OP_READ ?cid ?w2 = Inr (SELECTOR_SUCCESS, w3)" "sel_wf w3"
      "registered w3 = (registered w)(sock \<mapsto> new_item sock OP_READ socks5_handler (Some (A_client ?cid)))"
      and more: "fdselector.more w3 = fdselector.more ?w2" "resolution_jobs w3 = resolution_jobs ?w2"
      using selector_register_fresh [of ?w2 sock "\<lambda>_. True" zero_item socks5_handler OP_READ "Some (A_client ?cid)"] wf(1) fd
      by (auto simp: register_client_def)
    note mf = more_eq_fields [OF more(1)]
    have st: "stored sock w ?c w3" using mf f cwf go by (simp add: stored_def put_client_def)
    have neg: "registered w3 (-1) = None" by (rule registered_negative) simp
    have nn: "0 \<le> sock" using fd(1) by (simp add: INVALID_FD_def)
    then have "linked ?cid ?c w3" using w3(2,3) st cwf f neg by (auto simp: linked_def stored_def proxy_fd_def new_item_def)
    moreover have "quiet w3 sock OP_WRITE" using w3(3) by (simp add: quiet_def new_item_def op_bits OP_READ_def)
    moreover have "settled ?c w3" using f neg client_ends by (simp add: settled_def ends_quiet_def quiet_def)
    ultimately have "handshaking ?cid ?c w3" using f by (simp add: handshaking_def)
    moreover have "awaited ?cid ?c w3 = 0" if "unawaited sock w"
      using f(1) that more(2) mf by (simp add: unawaited_def awaited_def put_client_def)
    ultimately have "unawaited sock w \<longrightarrow> living ?cid ?c w3" by (simp add: living_def)
    moreover have "master_read_handler k w = Inr w3" using run w3(1) by simp
    ultimately show ?thesis using False st w3(3) by (intro exI [of _ w3] exI [of _ ?c]) simp
  qed
qed

lemma accept_client:
  assumes ok: "acceptable w" and adm: "admits w = Some sock"
  shows "\<exists>w' c. master_read_handler k w = Inr w' \<and> w_clients w' = (w_clients w)(w_next w \<mapsto> c) \<and> living (w_next w) c w' \<and> client_sock c = sock
    \<and> stm_current c = None"
proof -
  have "sel_wf w" "env_ok (w_env w)" "peer_len w \<le> SOCKADDR_SIZE" "\<not> (INVALID_FD sock \<or> registered w sock \<noteq> None)" "unawaited sock w"
    by (rule admitsE [OF adm], use ok in \<open>simp add: acceptable_def unawaited_def\<close>)+
  then show ?thesis using admitted_client [of w sock k] adm by (auto simp: stored_def)
qed

lemma decline_client:
  assumes adm: "admits w = None"
  shows "\<exists>w'. master_read_handler k w = Inr w' \<and> w_clients w' = w_clients w \<and> registered w' = registered w
    \<and> proxy_client_count (w_state w') = proxy_client_count (w_state w)"
proof -
  obtain b st where add: "add_proxy_client (w_state w) = (b, st)" by (cases "add_proxy_client (w_state w)")
  show ?thesis
  proof (cases b)
    case False
    then have "st = w_state w" using add by (auto simp: add_proxy_client_def split: if_splits)
    then show ?thesis using add False by (simp add: master_read_handler_def)
  next
    case True
    then have cnt: "proxy_client_count (rm_proxy_client st) = proxy_client_count (w_state w)"
      using add by (auto simp: add_proxy_client_def rm_proxy_client_def split: if_splits)
    show ?thesis
    proof (cases "env_accept (w_env w)")
      case Accept_err
      then show ?thesis using add True cnt by (simp add: master_read_handler_def)
    next
      case (Accept_ok sock addr len)
      then have "create_client sock (w\<lparr>w_state := st\<rparr>) = Inr None"
        using adm add True by (auto simp: admits_def four create_client_def Let_def)
      then show ?thesis
        using add True cnt Accept_ok by (simp add: master_read_handler_def) (simp add: emit_def)
    qed
  qed
qed

end
