(* ===== verification/Args.thy ===== *)
theory Args
  imports Server_State Users
begin

text \<open>
  \<open>src/args.c\<close>: the command line of the server, with the GNU \<open>getopt_long\<close> it is built on. A string
  is the list of its bytes before the NUL. \<open>exit\<close> is the value \<open>Stop\<close> with the exit status.
\<close>

section \<open>\<open>getopt_long\<close>\<close>

text \<open>
  What a call returns: an option with its argument, or \<open>'?'\<close> or \<open>':'\<close> for an unknown option or a
  missing argument. Operands are moved behind the options, \<open>--\<close> ends the options.
\<close>

datatype optres = Opt nat "byte list" | Bad nat

fun short_spec :: "byte \<Rightarrow> byte list \<Rightarrow> bool option" where
  "short_spec c [] = None"
| "short_spec c [x] = (if c = x \<and> x \<noteq> 58 then Some False else None)"
| "short_spec c (x # y # zs) = (if c = x \<and> x \<noteq> 58 then Some (y = 58) else short_spec c (y # zs))"

text \<open>The long options here all take an argument; a unique prefix of a name is enough.\<close>

definition long_matches :: "byte list \<Rightarrow> (byte list \<times> nat) list \<Rightarrow> (byte list \<times> nat) list" where
  "long_matches name longs =
     (let exact = filter (\<lambda>(n, v). n = name) longs
      in if exact \<noteq> [] then exact else filter (\<lambda>(n, v). take (length name) n = name) longs)"

text \<open>\<open>short\<close> is the rest of a cluster \<open>-abc\<close> that is being read, \<open>miss\<close> the result for a missing argument.\<close>

function (sequential) getopt_scan ::
  "byte list \<Rightarrow> (byte list \<times> nat) list \<Rightarrow> nat \<Rightarrow> byte list option \<Rightarrow> byte list list \<Rightarrow> optres list \<times> byte list list" where
  "getopt_scan spec longs miss None [] = ([], [])"
| "getopt_scan spec longs miss None (a # as) =
     (if a = [45, 45] then ([], as)
      else if take 2 a = [45, 45] \<and> longs \<noteq> [] then
        (let name = takeWhile (\<lambda>c. c \<noteq> 61) (drop 2 a); has = (61 \<in> set (drop 2 a)); val = drop (3 + length name) a in
         case long_matches name longs of
           [(n, v)] \<Rightarrow>
             if has then (let (os, rest) = getopt_scan spec longs miss None as in (Opt v val # os, rest))
             else (case as of
                     [] \<Rightarrow> ([Bad miss], [])
                   | b # bs \<Rightarrow> (let (os, rest) = getopt_scan spec longs miss None bs in (Opt v b # os, rest)))
         | _ \<Rightarrow> (let (os, rest) = getopt_scan spec longs miss None as in (Bad 63 # os, rest)))
      else if a = [] \<or> hd a \<noteq> 45 \<or> a = [45] then
        (let (os, rest) = getopt_scan spec longs miss None as in (os, a # rest))
      else getopt_scan spec longs miss (Some (tl a)) as)"
| "getopt_scan spec longs miss (Some []) as = getopt_scan spec longs miss None as"
| "getopt_scan spec longs miss (Some (c # cs)) as =
     (case short_spec c spec of
        None \<Rightarrow> (let (os, rest) = getopt_scan spec longs miss (Some cs) as in (Bad 63 # os, rest))
      | Some False \<Rightarrow> (let (os, rest) = getopt_scan spec longs miss (Some cs) as in (Opt (unat c) [] # os, rest))
      | Some True \<Rightarrow>
          if cs \<noteq> [] then (let (os, rest) = getopt_scan spec longs miss None as in (Opt (unat c) cs # os, rest))
          else (case as of
                  [] \<Rightarrow> ([Bad miss], [])
                | b # bs \<Rightarrow> (let (os, rest) = getopt_scan spec longs miss None bs in (Opt (unat c) b # os, rest))))"
  by pat_completeness auto
termination
  by (relation "measure (\<lambda>(spec, longs, miss, short, as). case short of None \<Rightarrow> 2 * (length (concat as) + length as)
        | Some s \<Rightarrow> 2 * (length (concat as) + length as) + length s + 1)")
    (auto split: option.splits)

section \<open>The arguments of the server\<close>

record doh =
  doh_host :: "byte list"
  doh_ip :: "byte list"
  doh_port :: "16 word"
  doh_path :: "byte list"
  doh_query :: "byte list"

record socks5args =
  socks_addr :: "byte list option"
  socks_port :: "16 word"
  mng_addr :: "byte list option"
  mng_port :: "16 word"
  dissectors_enabled :: bool
  args_doh :: doh

datatype 'a outcome = Stop nat | Done 'a

definition bindX :: "'a outcome \<Rightarrow> ('a \<Rightarrow> 'b outcome) \<Rightarrow> 'b outcome" where
  "bindX m f = (case m of Stop n \<Rightarrow> Stop n | Done x \<Rightarrow> f x)"

lemma bindX_simps [simp]: "bindX (Stop n) f = Stop n" "bindX (Done x) f = f x"
  by (simp_all add: bindX_def)

definition port_arg :: "byte list \<Rightarrow> 16 word outcome" where
  "port_arg s =
     (let (sl, end_ptr) = strtol s in
      if end_ptr = s \<or> end_ptr \<noteq> [] \<or> sl < 0 \<or> sl > 65535 then Stop 1 else Done (word_of_int sl))"

text \<open>What the options act on: the arguments, the process-wide state and tables, and the count of \<open>-u\<close>.\<close>

record startup =
  su_args :: socks5args
  su_state :: server_state
  su_users :: user_table
  su_tokens :: token_table
  su_nusers :: nat

definition default_args :: socks5args where
  "default_args = \<lparr>socks_addr = None, socks_port = 1080, mng_addr = None, mng_port = 8080, dissectors_enabled = True,
     args_doh = \<lparr>doh_host = bytes_of ''localhost'', doh_ip = bytes_of ''127.0.0.1'', doh_port = 8053,
       doh_path = bytes_of ''/getnsrecord'', doh_query = bytes_of ''?dns=''\<rparr>\<rparr>"

definition long_options :: "(byte list \<times> nat) list" where
  "long_options = [(bytes_of ''doh-ip'', 0xD001), (bytes_of ''doh-port'', 0xD002), (bytes_of ''doh-host'', 0xD003),
     (bytes_of ''doh-path'', 0xD004), (bytes_of ''doh-query'', 0xD005)]"

definition server_options :: "byte list" where
  "server_options = bytes_of ''hl:L:Np:P:u:t:v''"

text \<open>The \<open>switch\<close> of \<open>parse_args\<close>.\<close>

definition take_option :: "optres \<Rightarrow> startup \<Rightarrow> startup outcome run" where
  "take_option o1 su =
     (let args = su_args su in
      case o1 of
        Bad c \<Rightarrow> Inr (Stop 1)
      | Opt c optarg \<Rightarrow>
          if c = 104 then Inr (Stop 1)
          else if c = 108 then Inr (Done (su\<lparr>su_args := args\<lparr>socks_addr := Some optarg\<rparr>\<rparr>))
          else if c = 76 then Inr (Done (su\<lparr>su_args := args\<lparr>mng_addr := Some optarg\<rparr>\<rparr>))
          else if c = 78 then Inr (Done (su\<lparr>su_args := args\<lparr>dissectors_enabled := False\<rparr>,
                                            su_state := set_dissector_state False (su_state su)\<rparr>))
          else if c = 112 then Inr (bindX (port_arg optarg) (\<lambda>p. Done (su\<lparr>su_args := args\<lparr>socks_port := p\<rparr>\<rparr>)))
          else if c = 80 then Inr (bindX (port_arg optarg) (\<lambda>p. Done (su\<lparr>su_args := args\<lparr>mng_port := p\<rparr>\<rparr>)))
          else if c = 117 then
            (if su_nusers su \<ge> MAX_USERS then Inr (Stop 1)
             else bindE (add_user optarg (su_users su)) (\<lambda>(_, ut, _).
                  Inr (Done (su\<lparr>su_users := ut, su_nusers := su_nusers su + 1\<rparr>))))
          else if c = 118 then Inr (Stop 0)
          else if c = 116 then
            bindE (add_token optarg (su_tokens su)) (\<lambda>(_, tt). Inr (Done (su\<lparr>su_tokens := tt\<rparr>)))
          else if c = 0xD001 then Inr (Done (su\<lparr>su_args := args\<lparr>args_doh := (args_doh args)\<lparr>doh_ip := optarg\<rparr>\<rparr>\<rparr>))
          else if c = 0xD002 then Inr (bindX (port_arg optarg) (\<lambda>p. Done (su\<lparr>su_args := args\<lparr>args_doh := (args_doh args)\<lparr>doh_port := p\<rparr>\<rparr>\<rparr>)))
          else if c = 0xD003 then Inr (Done (su\<lparr>su_args := args\<lparr>args_doh := (args_doh args)\<lparr>doh_host := optarg\<rparr>\<rparr>\<rparr>))
          else if c = 0xD004 then Inr (Done (su\<lparr>su_args := args\<lparr>args_doh := (args_doh args)\<lparr>doh_path := optarg\<rparr>\<rparr>\<rparr>))
          else if c = 0xD005 then Inr (Done (su\<lparr>su_args := args\<lparr>args_doh := (args_doh args)\<lparr>doh_query := optarg\<rparr>\<rparr>\<rparr>))
          else Inr (Stop 1))"

fun take_options :: "optres list \<Rightarrow> startup \<Rightarrow> startup outcome run" where
  "take_options [] su = Inr (Done su)"
| "take_options (o1 # os) su =
     bindE (take_option o1 su) (\<lambda>r. case r of Stop n \<Rightarrow> Inr (Stop n) | Done su1 \<Rightarrow> take_options os su1)"

definition parse_args :: "byte list list \<Rightarrow> startup \<Rightarrow> startup outcome run" where
  "parse_args argv su =
     (let (os, operands) = getopt_scan server_options long_options 63 None argv in
      bindE (take_options os (su\<lparr>su_args := default_args, su_nusers := 0\<rparr>)) (\<lambda>r.
      case r of
        Stop n \<Rightarrow> Inr (Stop n)
      | Done su1 \<Rightarrow> if operands \<noteq> [] then Inr (Stop 1) else Inr (Done su1)))"

section \<open>What it leaves\<close>

definition startup_ok :: "startup \<Rightarrow> bool" where
  "startup_ok su \<longleftrightarrow> users_wf (su_users su) \<and> tokens_wf (su_tokens su)"

definition initial_startup :: startup where
  "initial_startup = \<lparr>su_args = default_args, su_state = initial_state, su_users = empty_users, su_tokens = empty_tokens, su_nusers = 0\<rparr>"

text \<open>The users and tokens an option adds.\<close>

fun option_users :: "optres \<Rightarrow> (byte list \<times> byte list) list \<Rightarrow> (byte list \<times> byte list) list" where
  "option_users (Opt c s) us = (if c = 117 \<and> acceptable_user s us then us @ [(user_name s, user_pass s)] else us)"
| "option_users (Bad c) us = us"

definition acceptable_token :: "byte list \<Rightarrow> byte list list \<Rightarrow> bool" where
  "acceptable_token s toks \<longleftrightarrow> length s < MAX_TOKEN_LENGTH \<and> (\<forall>c\<in>set s. isprint c) \<and> length toks < MAX_TOKENS"

fun option_tokens :: "optres \<Rightarrow> byte list list \<Rightarrow> byte list list" where
  "option_tokens (Opt c s) toks = (if c = 116 \<and> acceptable_token s toks then toks @ [s] else toks)"
| "option_tokens (Bad c) toks = toks"

lemma add_token_spec:
  assumes "tokens_wf tt"
  obtains tt' where "add_token s tt = Inr (acceptable_token s (token_entries tt), tt')" "tokens_wf tt'"
    "token_entries tt' = token_entries tt @ (if acceptable_token s (token_entries tt) then [s] else [])"
proof -
  have acc: "acceptable_token s (token_entries tt) \<longleftrightarrow> valid_token s tt \<and> length (token_entries tt) < MAX_TOKENS"
    by (auto simp: acceptable_token_def valid_token_def check_valid_token_iff)
  show thesis
  proof (cases "acceptable_token s (token_entries tt)")
    case True
    then show thesis using ts.accept_law [OF assms, of s] acc that by auto
  next
    case False
    then have "add_token s tt = Inr (False, tt)" using ts.refuse_law [OF assms, of s] acc by blast
    then show thesis using False assms that [of tt] by simp
  qed
qed

text \<open>One option: no fault, and what it changes.\<close>

definition option_done :: "startup \<Rightarrow> optres list \<Rightarrow> startup \<Rightarrow> bool" where
  "option_done su os su' \<longleftrightarrow> startup_ok su' \<and> (\<exists>d. su_state su' = (su_state su)\<lparr>dissector_state := d\<rparr>)
     \<and> user_entries (su_users su') = fold option_users os (user_entries (su_users su))
     \<and> token_entries (su_tokens su') = fold option_tokens os (token_entries (su_tokens su))"

lemma take_option_ok:
  assumes "startup_ok su"
  shows "\<exists>r. take_option o1 su = Inr r \<and> (\<forall>su'. r = Done su' \<longrightarrow> option_done su [o1] su')"
proof (cases o1)
  case (Opt c s)
  have keep: "\<exists>d. su_state su = (su_state su)\<lparr>dissector_state := d\<rparr>"
    by (intro exI [of _ "dissector_state (su_state su)"]) simp
  have wf: "users_wf (su_users su)" "tokens_wf (su_tokens su)" using assms by (simp_all add: startup_ok_def)
  obtain ok ut where u: "add_user s (su_users su) = Inr (ok, ut, user_name s)" "users_wf ut"
    "user_entries ut = user_entries (su_users su) @ (if acceptable_user s (user_entries (su_users su)) then [(user_name s, user_pass s)] else [])"
    using add_user_spec [OF wf(1)] by blast
  obtain ok' tt where t: "add_token s (su_tokens su) = Inr (ok', tt)" "tokens_wf tt"
    "token_entries tt = token_entries (su_tokens su) @ (if acceptable_token s (token_entries (su_tokens su)) then [s] else [])"
    using add_token_spec [OF wf(2)] by blast
  show ?thesis
    using Opt u t wf keep
    by (cases "port_arg s") (auto simp: take_option_def Let_def option_done_def startup_ok_def set_dissector_state_def)
qed (simp add: take_option_def)

lemma option_done_trans:
  assumes "option_done su os su1" and "option_done su1 os' su2"
  shows "option_done su (os @ os') su2"
proof -
  obtain d d' where "su_state su1 = (su_state su)\<lparr>dissector_state := d\<rparr>" "su_state su2 = (su_state su1)\<lparr>dissector_state := d'\<rparr>"
    using assms by (auto simp: option_done_def)
  then have "su_state su2 = (su_state su)\<lparr>dissector_state := d'\<rparr>" by simp
  with assms show ?thesis by (auto simp: option_done_def)
qed

lemma take_options_ok:
  assumes "startup_ok su"
  shows "\<exists>r. take_options os su = Inr r \<and> (\<forall>su'. r = Done su' \<longrightarrow> option_done su os su')"
  using assms
proof (induction os arbitrary: su)
  case Nil
  then show ?case by (auto simp: option_done_def intro!: exI [of _ "dissector_state (su_state su)"])
next
  case (Cons o1 os)
  obtain r where r: "take_option o1 su = Inr r" "\<And>su'. r = Done su' \<Longrightarrow> option_done su [o1] su'"
    using take_option_ok [OF Cons.prems, of o1] by blast
  show ?case
  proof (cases r)
    case (Stop n)
    then show ?thesis using r(1) by simp
  next
    case (Done su1)
    then have "option_done su [o1] su1" using r(2) by simp
    then have "startup_ok su1" by (simp add: option_done_def)
    with Done show ?thesis
      using r(1) Cons.IH [of su1] option_done_trans [OF \<open>option_done su [o1] su1\<close>, of os] by auto
  qed
qed

text \<open>
  Whatever is typed, the tables are sound afterwards and hold exactly the acceptable entries in
  their order, and only \<open>-N\<close> touches the settings.
\<close>

lemma parse_args_ok:
  assumes "startup_ok su"
  shows "\<exists>r. parse_args argv su = Inr r \<and> (\<forall>su'. r = Done su' \<longrightarrow>
    option_done su (fst (getopt_scan server_options long_options 63 None argv)) su')"
proof -
  obtain os rest where g: "getopt_scan server_options long_options 63 None argv = (os, rest)" by fastforce
  let ?su = "su\<lparr>su_args := default_args, su_nusers := 0\<rparr>"
  have "startup_ok ?su" using assms by (simp add: startup_ok_def)
  then obtain r where r: "take_options os ?su = Inr r" "\<And>su'. r = Done su' \<Longrightarrow> option_done su os su'"
    using take_options_ok [of ?su os] by (auto simp: option_done_def)
  show ?thesis
  proof (cases r)
    case (Stop n)
    then show ?thesis using g r(1) by (simp add: parse_args_def)
  next
    case (Done su1)
    then show ?thesis using g r by (cases "rest = []") (auto simp: parse_args_def)
  qed
qed

end
