(* ===== verification/Mgmt_Tables.thy ===== *)
theory Mgmt_Tables
  imports Mgmt_Protocol
begin

text \<open>
  The blocks of the lexer \<open>src/mgmt_protocol.re.c\<close>, which re2c made out of
  \<open>lexer/mgmt_protocol.re\<close>: one definition per label \<open>yyN\<close>, in the order of the file, with the
  branches of its \<open>switch\<close> in the order of its \<open>case\<close> labels (consecutive characters as ranges).
  \<open>yyc_pass\<close> and \<open>yyc_trns\<close> stand at the indices 1 and 76 of the table, which have no label of
  their own. The theory \<open>Mgmt_Lexer\<close> executes them.

  A block with a label in front of its \<open>switch\<close> (\<open>yy18\<close> with \<open>yy19\<close>, and so on) gives two entries:
  the inner label is entered with the character under the cursor already fetched.
\<close>

section \<open>The instructions\<close>

text \<open>
  \<open>Go n\<close> is \<open>goto yyn\<close>; \<open>Tag1_go\<close> and \<open>Tag2_go\<close> first store the cursor in \<open>yyt1\<close> or \<open>yyt2\<close>;
  \<open>Fill_go\<close> first tests \<open>lim <= cur\<close> and then stores the number of its fill label and returns
  \<open>MGMT_INCOMPLETE\<close>.
\<close>

datatype yyact = Go nat | Tag1_go nat | Tag2_go nat | Fill_go nat

datatype yypre = Stay | Advance | Mark_advance

datatype yyargs = No_args | Args_t1_t2 | Args_t1_cur

text \<open>
  \<open>Scan\<close>: move the cursor, pass the fill label, switch on the character under the cursor.
  \<open>Bump n\<close>: move the cursor and fall through to \<open>yyn\<close>. \<open>Back n\<close>: return to the marker and go to
  \<open>yyn\<close>. \<open>Accept\<close>: move the cursor if so told, set \<open>args\<close> and \<open>arge\<close>, reset the state, leave the
  loop with a result.
\<close>

datatype yyblock =
    Scan yypre nat "((nat \<times> nat) list \<times> yyact) list" yyact
  | Bump nat
  | Back nat
  | Accept bool yyargs MgmtCommand

section \<open>The blocks\<close>

definition yyc_pass :: yyblock where
  "yyc_pass =
     Scan Stay 0 [([(13, 13)], Go 4), ([(32, 65), (69, 75), (77, 79), (82, 82), (86, 97), (101, 107),
     (109, 111), (114, 114), (118, 127)], Go 5), ([(66, 66), (98, 98)], Go 6), ([(67, 67), (99,
     99)], Go 7), ([(68, 68), (100, 100)], Go 8), ([(76, 76), (108, 108)], Go 9), ([(80, 80),
     (112, 112)], Go 10), ([(81, 81), (113, 113)], Go 11), ([(83, 83), (115, 115)], Go 12),
     ([(84, 84), (116, 116)], Go 13), ([(85, 85), (117, 117)], Go 14)] (Fill_go 2)"

definition yy2 :: yyblock where
  "yy2 = Bump 3"

definition yy3 :: yyblock where
  "yy3 = Accept False No_args MGMT_INVALID_CMD"

definition yy4 :: yyblock where
  "yy4 = Scan Advance 1 [([(10, 10)], Go 15)] (Fill_go 3)"

definition yy5 :: yyblock where
  "yy5 = Scan Mark_advance 2 [([(13, 13)], Go 16), ([(32, 127)], Go 18)] (Fill_go 3)"

definition yy6 :: yyblock where
  "yy6 =
     Scan Mark_advance 3 [([(13, 13)], Go 16), ([(32, 84), (86, 116), (118, 127)], Go 18), ([(85, 85),
     (117, 117)], Go 20)] (Fill_go 3)"

definition yy7 :: yyblock where
  "yy7 =
     Scan Mark_advance 4 [([(13, 13)], Go 16), ([(32, 64), (66, 96), (98, 127)], Go 18), ([(65, 65),
     (97, 97)], Go 21)] (Fill_go 3)"

definition yy8 :: yyblock where
  "yy8 =
     Scan Mark_advance 5 [([(13, 13)], Go 16), ([(32, 72), (74, 104), (106, 127)], Go 18), ([(73, 73),
     (105, 105)], Go 22)] (Fill_go 3)"

definition yy9 :: yyblock where
  "yy9 =
     Scan Mark_advance 6 [([(13, 13)], Go 16), ([(32, 72), (74, 104), (106, 127)], Go 18), ([(73, 73),
     (105, 105)], Go 23)] (Fill_go 3)"

definition yy10 :: yyblock where
  "yy10 =
     Scan Mark_advance 7 [([(13, 13)], Go 16), ([(32, 64), (66, 96), (98, 127)], Go 18), ([(65, 65),
     (97, 97)], Go 24)] (Fill_go 3)"

definition yy11 :: yyblock where
  "yy11 =
     Scan Mark_advance 8 [([(13, 13)], Go 16), ([(32, 84), (86, 116), (118, 127)], Go 18), ([(85, 85),
     (117, 117)], Go 25)] (Fill_go 3)"

definition yy12 :: yyblock where
  "yy12 =
     Scan Mark_advance 9 [([(13, 13)], Go 16), ([(32, 68), (70, 100), (102, 127)], Go 18), ([(69, 69),
     (101, 101)], Go 26)] (Fill_go 3)"

definition yy13 :: yyblock where
  "yy13 =
     Scan Mark_advance 10 [([(13, 13)], Go 16), ([(32, 78), (80, 110), (112, 127)], Go 18), ([(79,
     79), (111, 111)], Go 27)] (Fill_go 3)"

definition yy14 :: yyblock where
  "yy14 =
     Scan Mark_advance 11 [([(13, 13)], Go 16), ([(32, 82), (84, 114), (116, 127)], Go 18), ([(83,
     83), (115, 115)], Go 28)] (Fill_go 3)"

definition yy15 :: yyblock where
  "yy15 = Accept True No_args MGMT_INVALID_CMD"

definition yy16 :: yyblock where
  "yy16 = Scan Advance 12 [([(10, 10)], Go 29)] (Fill_go 17)"

definition yy17 :: yyblock where
  "yy17 = Back 3"

definition yy19 :: yyblock where
  "yy19 = Scan Stay 13 [([(13, 13)], Go 16), ([(32, 127)], Go 18)] (Fill_go 17)"

definition yy18 :: yyblock where
  "yy18 = Scan Advance 13 [([(13, 13)], Go 16), ([(32, 127)], Go 18)] (Fill_go 17)"

definition yy20 :: yyblock where
  "yy20 = Scan Advance 14 [([(0, 0)], Fill_go 17), ([(70, 70), (102, 102)], Go 30)] (Go 19)"

definition yy21 :: yyblock where
  "yy21 = Scan Advance 15 [([(0, 0)], Fill_go 17), ([(80, 80), (112, 112)], Go 31)] (Go 19)"

definition yy22 :: yyblock where
  "yy22 = Scan Advance 16 [([(0, 0)], Fill_go 17), ([(83, 83), (115, 115)], Go 32)] (Go 19)"

definition yy23 :: yyblock where
  "yy23 = Scan Advance 17 [([(0, 0)], Fill_go 17), ([(83, 83), (115, 115)], Go 33)] (Go 19)"

definition yy24 :: yyblock where
  "yy24 = Scan Advance 18 [([(0, 0)], Fill_go 17), ([(83, 83), (115, 115)], Go 34)] (Go 19)"

definition yy25 :: yyblock where
  "yy25 = Scan Advance 19 [([(0, 0)], Fill_go 17), ([(73, 73), (105, 105)], Go 35)] (Go 19)"

definition yy26 :: yyblock where
  "yy26 = Scan Advance 20 [([(0, 0)], Fill_go 17), ([(84, 84), (116, 116)], Go 36)] (Go 19)"

definition yy27 :: yyblock where
  "yy27 = Scan Advance 21 [([(0, 0)], Fill_go 17), ([(75, 75), (107, 107)], Go 37)] (Go 19)"

definition yy28 :: yyblock where
  "yy28 = Scan Advance 22 [([(0, 0)], Fill_go 17), ([(69, 69), (101, 101)], Go 38)] (Go 19)"

definition yy29 :: yyblock where
  "yy29 = Accept True No_args MGMT_INVALID_CMD"

definition yy30 :: yyblock where
  "yy30 = Scan Advance 23 [([(0, 0)], Fill_go 17), ([(70, 70), (102, 102)], Go 39)] (Go 19)"

definition yy31 :: yyblock where
  "yy31 = Scan Advance 24 [([(0, 0)], Fill_go 17), ([(65, 65), (97, 97)], Go 40)] (Go 19)"

definition yy32 :: yyblock where
  "yy32 = Scan Advance 25 [([(0, 0)], Fill_go 17), ([(83, 83), (115, 115)], Go 41)] (Go 19)"

definition yy33 :: yyblock where
  "yy33 = Scan Advance 26 [([(0, 0)], Fill_go 17), ([(84, 84), (116, 116)], Go 42)] (Go 19)"

definition yy34 :: yyblock where
  "yy34 = Scan Advance 27 [([(0, 0)], Fill_go 17), ([(83, 83), (115, 115)], Go 42)] (Go 19)"

definition yy35 :: yyblock where
  "yy35 = Scan Advance 28 [([(0, 0)], Fill_go 17), ([(84, 84), (116, 116)], Go 43)] (Go 19)"

definition yy36 :: yyblock where
  "yy36 = Scan Advance 29 [([(0, 0)], Fill_go 17), ([(45, 45)], Go 44)] (Go 19)"

definition yy37 :: yyblock where
  "yy37 = Scan Advance 30 [([(0, 0)], Fill_go 17), ([(69, 69), (101, 101)], Go 45)] (Go 19)"

definition yy38 :: yyblock where
  "yy38 = Scan Advance 31 [([(0, 0)], Fill_go 17), ([(82, 82), (114, 114)], Go 34)] (Go 19)"

definition yy39 :: yyblock where
  "yy39 = Scan Advance 32 [([(0, 0)], Fill_go 17), ([(83, 83), (115, 115)], Go 46)] (Go 19)"

definition yy40 :: yyblock where
  "yy40 =
     Scan Advance 33 [([(13, 13)], Go 47), ([(32, 32)], Go 40), ([(33, 127)], Go 18)] (Fill_go 17)"

definition yy41 :: yyblock where
  "yy41 = Scan Advance 34 [([(0, 0)], Fill_go 17), ([(69, 69), (101, 101)], Go 48)] (Go 19)"

definition yy42 :: yyblock where
  "yy42 = Scan Advance 35 [([(0, 0)], Fill_go 17), ([(32, 32)], Go 49)] (Go 19)"

definition yy43 :: yyblock where
  "yy43 =
     Scan Advance 36 [([(13, 13)], Go 50), ([(32, 32)], Go 43), ([(33, 127)], Go 18)] (Fill_go 17)"

definition yy44 :: yyblock where
  "yy44 =
     Scan Advance 37 [([(0, 0)], Fill_go 17), ([(66, 66), (98, 98)], Go 51), ([(68, 68), (100, 100)],
     Go 52)] (Go 19)"

definition yy45 :: yyblock where
  "yy45 = Scan Advance 38 [([(0, 0)], Fill_go 17), ([(78, 78), (110, 110)], Go 53)] (Go 19)"

definition yy46 :: yyblock where
  "yy46 = Scan Advance 39 [([(0, 0)], Fill_go 17), ([(73, 73), (105, 105)], Go 54)] (Go 19)"

definition yy47 :: yyblock where
  "yy47 = Scan Advance 40 [([(10, 10)], Go 55)] (Fill_go 17)"

definition yy48 :: yyblock where
  "yy48 = Scan Advance 41 [([(0, 0)], Fill_go 17), ([(67, 67), (99, 99)], Go 56)] (Go 19)"

definition yy49 :: yyblock where
  "yy49 = Scan Advance 42 [([(13, 13)], Go 57)] (Fill_go 49)"

definition yy50 :: yyblock where
  "yy50 = Scan Advance 43 [([(10, 10)], Go 58)] (Fill_go 17)"

definition yy51 :: yyblock where
  "yy51 = Scan Advance 44 [([(0, 0)], Fill_go 17), ([(85, 85), (117, 117)], Go 20)] (Go 19)"

definition yy52 :: yyblock where
  "yy52 = Scan Advance 45 [([(0, 0)], Fill_go 17), ([(73, 73), (105, 105)], Go 22)] (Go 19)"

definition yy53 :: yyblock where
  "yy53 = Scan Advance 46 [([(0, 0)], Fill_go 17), ([(33, 127)], Go 18)] (Go 60)"

definition yy54 :: yyblock where
  "yy54 = Scan Advance 47 [([(0, 0)], Fill_go 17), ([(90, 90), (122, 122)], Go 61)] (Go 19)"

definition yy55 :: yyblock where
  "yy55 = Accept True No_args MGMT_CAPA"

definition yy56 :: yyblock where
  "yy56 = Scan Advance 48 [([(0, 0)], Fill_go 17), ([(84, 84), (116, 116)], Go 62)] (Go 19)"

definition yy57 :: yyblock where
  "yy57 = Scan Advance 49 [([(10, 10)], Go 63)] (Fill_go 17)"

definition yy58 :: yyblock where
  "yy58 = Accept True No_args MGMT_QUIT"

definition yy60 :: yyblock where
  "yy60 =
     Scan Stay 50 [([(13, 13)], Go 16), ([(32, 32)], Go 59), ([(33, 127)], Tag1_go 64)] (Fill_go 17)"

definition yy59 :: yyblock where
  "yy59 =
     Scan Advance 50 [([(13, 13)], Go 16), ([(32, 32)], Go 59), ([(33, 127)], Tag1_go 64)] (Fill_go
     17)"

definition yy61 :: yyblock where
  "yy61 = Scan Advance 51 [([(0, 0)], Fill_go 17), ([(69, 69), (101, 101)], Go 42)] (Go 19)"

definition yy62 :: yyblock where
  "yy62 = Scan Advance 52 [([(0, 0)], Fill_go 17), ([(79, 79), (111, 111)], Go 65)] (Go 19)"

definition yy63 :: yyblock where
  "yy63 = Accept True No_args MGMT_INVALID_ARGS"

definition yy64 :: yyblock where
  "yy64 =
     Scan Advance 53 [([(13, 13)], Tag2_go 66), ([(32, 32)], Tag2_go 67), ([(33, 127)], Go 64)]
     (Fill_go 17)"

definition yy65 :: yyblock where
  "yy65 = Scan Advance 54 [([(0, 0)], Fill_go 17), ([(82, 82), (114, 114)], Go 68)] (Go 19)"

definition yy66 :: yyblock where
  "yy66 = Scan Advance 55 [([(10, 10)], Go 69)] (Fill_go 17)"

definition yy67 :: yyblock where
  "yy67 =
     Scan Advance 56 [([(13, 13)], Go 66), ([(32, 32)], Go 67), ([(33, 127)], Go 18)] (Fill_go 17)"

definition yy68 :: yyblock where
  "yy68 = Scan Advance 57 [([(0, 0)], Fill_go 17), ([(45, 45)], Go 70)] (Go 19)"

definition yy69 :: yyblock where
  "yy69 = Accept True Args_t1_t2 MGMT_TOKEN"

definition yy70 :: yyblock where
  "yy70 = Scan Advance 58 [([(0, 0)], Fill_go 17), ([(83, 83), (115, 115)], Go 71)] (Go 19)"

definition yy71 :: yyblock where
  "yy71 = Scan Advance 59 [([(0, 0)], Fill_go 17), ([(84, 84), (116, 116)], Go 72)] (Go 19)"

definition yy72 :: yyblock where
  "yy72 = Scan Advance 60 [([(0, 0)], Fill_go 17), ([(65, 65), (97, 97)], Go 73)] (Go 19)"

definition yy73 :: yyblock where
  "yy73 = Scan Advance 61 [([(0, 0)], Fill_go 17), ([(84, 84), (116, 116)], Go 74)] (Go 19)"

definition yy74 :: yyblock where
  "yy74 = Scan Advance 62 [([(0, 0)], Fill_go 17), ([(85, 85), (117, 117)], Go 34)] (Go 19)"

definition yy75 :: yyblock where
  "yy75 = Accept False No_args MGMT_INCOMPLETE"

definition yyc_trns :: yyblock where
  "yyc_trns =
     Scan Stay 63 [([(13, 13)], Go 79), ([(32, 64), (69, 75), (77, 79), (82, 82), (84, 84), (86, 96),
     (101, 107), (109, 111), (114, 114), (116, 116), (118, 127)], Go 80), ([(65, 65), (97, 97)],
     Go 81), ([(66, 66), (98, 98)], Go 82), ([(67, 67), (99, 99)], Go 83), ([(68, 68), (100,
     100)], Go 84), ([(76, 76), (108, 108)], Go 85), ([(80, 80), (112, 112)], Go 86), ([(81, 81),
     (113, 113)], Go 87), ([(83, 83), (115, 115)], Go 88), ([(85, 85), (117, 117)], Go 89)]
     (Fill_go 77)"

definition yy77 :: yyblock where
  "yy77 = Bump 78"

definition yy78 :: yyblock where
  "yy78 = Accept False No_args MGMT_INVALID_CMD"

definition yy79 :: yyblock where
  "yy79 = Scan Advance 64 [([(10, 10)], Go 90)] (Fill_go 78)"

definition yy80 :: yyblock where
  "yy80 = Scan Mark_advance 65 [([(13, 13)], Go 91), ([(32, 127)], Go 93)] (Fill_go 78)"

definition yy81 :: yyblock where
  "yy81 =
     Scan Mark_advance 66 [([(13, 13)], Go 91), ([(32, 67), (69, 99), (101, 127)], Go 93), ([(68, 68),
     (100, 100)], Go 95)] (Fill_go 78)"

definition yy82 :: yyblock where
  "yy82 =
     Scan Mark_advance 67 [([(13, 13)], Go 91), ([(32, 84), (86, 116), (118, 127)], Go 93), ([(85,
     85), (117, 117)], Go 96)] (Fill_go 78)"

definition yy83 :: yyblock where
  "yy83 =
     Scan Mark_advance 68 [([(13, 13)], Go 91), ([(32, 64), (66, 96), (98, 127)], Go 93), ([(65, 65),
     (97, 97)], Go 97)] (Fill_go 78)"

definition yy84 :: yyblock where
  "yy84 =
     Scan Mark_advance 69 [([(13, 13)], Go 91), ([(32, 72), (74, 104), (106, 127)], Go 93), ([(73,
     73), (105, 105)], Go 98)] (Fill_go 78)"

definition yy85 :: yyblock where
  "yy85 =
     Scan Mark_advance 70 [([(13, 13)], Go 91), ([(32, 72), (74, 104), (106, 127)], Go 93), ([(73,
     73), (105, 105)], Go 99)] (Fill_go 78)"

definition yy86 :: yyblock where
  "yy86 =
     Scan Mark_advance 71 [([(13, 13)], Go 91), ([(32, 64), (66, 96), (98, 127)], Go 93), ([(65, 65),
     (97, 97)], Go 100)] (Fill_go 78)"

definition yy87 :: yyblock where
  "yy87 =
     Scan Mark_advance 72 [([(13, 13)], Go 91), ([(32, 84), (86, 116), (118, 127)], Go 93), ([(85,
     85), (117, 117)], Go 101)] (Fill_go 78)"

definition yy88 :: yyblock where
  "yy88 =
     Scan Mark_advance 73 [([(13, 13)], Go 91), ([(32, 68), (70, 83), (85, 100), (102, 115), (117,
     127)], Go 93), ([(69, 69), (101, 101)], Go 102), ([(84, 84), (116, 116)], Go 103)] (Fill_go
     78)"

definition yy89 :: yyblock where
  "yy89 =
     Scan Mark_advance 74 [([(13, 13)], Go 91), ([(32, 82), (84, 114), (116, 127)], Go 93), ([(83,
     83), (115, 115)], Go 104)] (Fill_go 78)"

definition yy90 :: yyblock where
  "yy90 = Accept True No_args MGMT_INVALID_CMD"

definition yy91 :: yyblock where
  "yy91 = Scan Advance 75 [([(10, 10)], Go 105)] (Fill_go 92)"

definition yy92 :: yyblock where
  "yy92 = Back 78"

definition yy94 :: yyblock where
  "yy94 = Scan Stay 76 [([(13, 13)], Go 91), ([(32, 127)], Go 93)] (Fill_go 92)"

definition yy93 :: yyblock where
  "yy93 = Scan Advance 76 [([(13, 13)], Go 91), ([(32, 127)], Go 93)] (Fill_go 92)"

definition yy95 :: yyblock where
  "yy95 = Scan Advance 77 [([(0, 0)], Fill_go 92), ([(68, 68), (100, 100)], Go 106)] (Go 94)"

definition yy96 :: yyblock where
  "yy96 = Scan Advance 78 [([(0, 0)], Fill_go 92), ([(70, 70), (102, 102)], Go 107)] (Go 94)"

definition yy97 :: yyblock where
  "yy97 = Scan Advance 79 [([(0, 0)], Fill_go 92), ([(80, 80), (112, 112)], Go 108)] (Go 94)"

definition yy98 :: yyblock where
  "yy98 = Scan Advance 80 [([(0, 0)], Fill_go 92), ([(83, 83), (115, 115)], Go 109)] (Go 94)"

definition yy99 :: yyblock where
  "yy99 = Scan Advance 81 [([(0, 0)], Fill_go 92), ([(83, 83), (115, 115)], Go 110)] (Go 94)"

definition yy100 :: yyblock where
  "yy100 = Scan Advance 82 [([(0, 0)], Fill_go 92), ([(83, 83), (115, 115)], Go 111)] (Go 94)"

definition yy101 :: yyblock where
  "yy101 = Scan Advance 83 [([(0, 0)], Fill_go 92), ([(73, 73), (105, 105)], Go 112)] (Go 94)"

definition yy102 :: yyblock where
  "yy102 = Scan Advance 84 [([(0, 0)], Fill_go 92), ([(84, 84), (116, 116)], Go 113)] (Go 94)"

definition yy103 :: yyblock where
  "yy103 = Scan Advance 85 [([(0, 0)], Fill_go 92), ([(65, 65), (97, 97)], Go 114)] (Go 94)"

definition yy104 :: yyblock where
  "yy104 = Scan Advance 86 [([(0, 0)], Fill_go 92), ([(69, 69), (101, 101)], Go 115)] (Go 94)"

definition yy105 :: yyblock where
  "yy105 = Accept True No_args MGMT_INVALID_CMD"

definition yy106 :: yyblock where
  "yy106 = Scan Advance 87 [([(0, 0)], Fill_go 92), ([(45, 45)], Go 116)] (Go 94)"

definition yy107 :: yyblock where
  "yy107 = Scan Advance 88 [([(0, 0)], Fill_go 92), ([(70, 70), (102, 102)], Go 117)] (Go 94)"

definition yy108 :: yyblock where
  "yy108 = Scan Advance 89 [([(0, 0)], Fill_go 92), ([(65, 65), (97, 97)], Go 118)] (Go 94)"

definition yy109 :: yyblock where
  "yy109 = Scan Advance 90 [([(0, 0)], Fill_go 92), ([(83, 83), (115, 115)], Go 119)] (Go 94)"

definition yy110 :: yyblock where
  "yy110 = Scan Advance 91 [([(0, 0)], Fill_go 92), ([(84, 84), (116, 116)], Go 120)] (Go 94)"

definition yy111 :: yyblock where
  "yy111 = Scan Advance 92 [([(0, 0)], Fill_go 92), ([(83, 83), (115, 115)], Go 120)] (Go 94)"

definition yy112 :: yyblock where
  "yy112 = Scan Advance 93 [([(0, 0)], Fill_go 92), ([(84, 84), (116, 116)], Go 121)] (Go 94)"

definition yy113 :: yyblock where
  "yy113 = Scan Advance 94 [([(0, 0)], Fill_go 92), ([(45, 45)], Go 122)] (Go 94)"

definition yy114 :: yyblock where
  "yy114 = Scan Advance 95 [([(0, 0)], Fill_go 92), ([(84, 84), (116, 116)], Go 123)] (Go 94)"

definition yy115 :: yyblock where
  "yy115 = Scan Advance 96 [([(0, 0)], Fill_go 92), ([(82, 82), (114, 114)], Go 124)] (Go 94)"

definition yy116 :: yyblock where
  "yy116 = Scan Advance 97 [([(0, 0)], Fill_go 92), ([(85, 85), (117, 117)], Go 125)] (Go 94)"

definition yy117 :: yyblock where
  "yy117 = Scan Advance 98 [([(0, 0)], Fill_go 92), ([(83, 83), (115, 115)], Go 126)] (Go 94)"

definition yy118 :: yyblock where
  "yy118 =
     Scan Advance 99 [([(13, 13)], Go 127), ([(32, 32)], Go 118), ([(33, 127)], Go 93)] (Fill_go 92)"

definition yy119 :: yyblock where
  "yy119 = Scan Advance 100 [([(0, 0)], Fill_go 92), ([(69, 69), (101, 101)], Go 128)] (Go 94)"

definition yy120 :: yyblock where
  "yy120 = Scan Advance 101 [([(0, 0)], Fill_go 92), ([(32, 32)], Go 129)] (Go 94)"

definition yy121 :: yyblock where
  "yy121 =
     Scan Advance 102 [([(13, 13)], Go 131), ([(32, 32)], Go 121), ([(33, 127)], Go 93)] (Fill_go 92)"

definition yy122 :: yyblock where
  "yy122 =
     Scan Advance 103 [([(0, 0)], Fill_go 92), ([(66, 66), (98, 98)], Go 132), ([(68, 68), (100,
     100)], Go 133)] (Go 94)"

definition yy123 :: yyblock where
  "yy123 = Scan Advance 104 [([(0, 0)], Fill_go 92), ([(83, 83), (115, 115)], Go 134)] (Go 94)"

definition yy124 :: yyblock where
  "yy124 = Scan Advance 105 [([(0, 0)], Fill_go 92), ([(83, 83), (115, 115)], Go 135)] (Go 94)"

definition yy125 :: yyblock where
  "yy125 = Scan Advance 106 [([(0, 0)], Fill_go 92), ([(83, 83), (115, 115)], Go 136)] (Go 94)"

definition yy126 :: yyblock where
  "yy126 = Scan Advance 107 [([(0, 0)], Fill_go 92), ([(73, 73), (105, 105)], Go 137)] (Go 94)"

definition yy127 :: yyblock where
  "yy127 = Scan Advance 108 [([(10, 10)], Go 138)] (Fill_go 92)"

definition yy128 :: yyblock where
  "yy128 = Scan Advance 109 [([(0, 0)], Fill_go 92), ([(67, 67), (99, 99)], Go 139)] (Go 94)"

definition yy130 :: yyblock where
  "yy130 = Scan Stay 110 [([(13, 13)], Go 140)] (Fill_go 129)"

definition yy129 :: yyblock where
  "yy129 = Scan Advance 110 [([(13, 13)], Go 140)] (Fill_go 129)"

definition yy131 :: yyblock where
  "yy131 = Scan Advance 111 [([(10, 10)], Go 141)] (Fill_go 92)"

definition yy132 :: yyblock where
  "yy132 = Scan Advance 112 [([(0, 0)], Fill_go 92), ([(85, 85), (117, 117)], Go 142)] (Go 94)"

definition yy133 :: yyblock where
  "yy133 = Scan Advance 113 [([(0, 0)], Fill_go 92), ([(73, 73), (105, 105)], Go 143)] (Go 94)"

definition yy134 :: yyblock where
  "yy134 =
     Scan Advance 114 [([(13, 13)], Go 144), ([(32, 32)], Go 134), ([(33, 127)], Go 93)] (Fill_go 92)"

definition yy135 :: yyblock where
  "yy135 =
     Scan Advance 115 [([(0, 0)], Fill_go 92), ([(13, 13)], Go 145), ([(32, 32)], Go 146)] (Go 94)"

definition yy136 :: yyblock where
  "yy136 = Scan Advance 116 [([(0, 0)], Fill_go 92), ([(69, 69), (101, 101)], Go 147)] (Go 94)"

definition yy137 :: yyblock where
  "yy137 = Scan Advance 117 [([(0, 0)], Fill_go 92), ([(90, 90), (122, 122)], Go 148)] (Go 94)"

definition yy138 :: yyblock where
  "yy138 = Accept True No_args MGMT_CAPA"

definition yy139 :: yyblock where
  "yy139 = Scan Advance 118 [([(0, 0)], Fill_go 92), ([(84, 84), (116, 116)], Go 149)] (Go 94)"

definition yy140 :: yyblock where
  "yy140 = Scan Advance 119 [([(10, 10)], Go 150)] (Fill_go 92)"

definition yy141 :: yyblock where
  "yy141 = Accept True No_args MGMT_QUIT"

definition yy142 :: yyblock where
  "yy142 = Scan Advance 120 [([(0, 0)], Fill_go 92), ([(70, 70), (102, 102)], Go 151)] (Go 94)"

definition yy143 :: yyblock where
  "yy143 = Scan Advance 121 [([(0, 0)], Fill_go 92), ([(83, 83), (115, 115)], Go 152)] (Go 94)"

definition yy144 :: yyblock where
  "yy144 = Scan Advance 122 [([(10, 10)], Go 153)] (Fill_go 92)"

definition yy145 :: yyblock where
  "yy145 = Scan Advance 123 [([(10, 10)], Go 154)] (Fill_go 92)"

definition yy146 :: yyblock where
  "yy146 = Scan Advance 124 [([(13, 13)], Go 145), ([(32, 32)], Go 146)] (Fill_go 129)"

definition yy147 :: yyblock where
  "yy147 = Scan Advance 125 [([(0, 0)], Fill_go 92), ([(82, 82), (114, 114)], Go 155)] (Go 94)"

definition yy148 :: yyblock where
  "yy148 = Scan Advance 126 [([(0, 0)], Fill_go 92), ([(69, 69), (101, 101)], Go 156)] (Go 94)"

definition yy149 :: yyblock where
  "yy149 = Scan Advance 127 [([(0, 0)], Fill_go 92), ([(79, 79), (111, 111)], Go 157)] (Go 94)"

definition yy150 :: yyblock where
  "yy150 = Accept True No_args MGMT_INVALID_ARGS"

definition yy151 :: yyblock where
  "yy151 = Scan Advance 128 [([(0, 0)], Fill_go 92), ([(70, 70), (102, 102)], Go 158)] (Go 94)"

definition yy152 :: yyblock where
  "yy152 = Scan Advance 129 [([(0, 0)], Fill_go 92), ([(83, 83), (115, 115)], Go 159)] (Go 94)"

definition yy153 :: yyblock where
  "yy153 = Accept True No_args MGMT_STATS"

definition yy154 :: yyblock where
  "yy154 = Accept True No_args MGMT_USERS"

definition yy155 :: yyblock where
  "yy155 = Scan Advance 130 [([(0, 0)], Fill_go 92), ([(33, 127)], Go 93)] (Go 161)"

definition yy156 :: yyblock where
  "yy156 =
     Scan Advance 131 [([(0, 0)], Fill_go 92), ([(13, 13)], Go 162), ([(32, 32)], Go 163)] (Go 94)"

definition yy157 :: yyblock where
  "yy157 = Scan Advance 132 [([(0, 0)], Fill_go 92), ([(82, 82), (114, 114)], Go 164)] (Go 94)"

definition yy158 :: yyblock where
  "yy158 = Scan Advance 133 [([(0, 0)], Fill_go 92), ([(83, 83), (115, 115)], Go 165)] (Go 94)"

definition yy159 :: yyblock where
  "yy159 = Scan Advance 134 [([(0, 0)], Fill_go 92), ([(69, 69), (101, 101)], Go 166)] (Go 94)"

definition yy161 :: yyblock where
  "yy161 =
     Scan Stay 135 [([(13, 13)], Go 91), ([(32, 32)], Go 160), ([(33, 127)], Tag1_go 167)] (Fill_go
     92)"

definition yy160 :: yyblock where
  "yy160 =
     Scan Advance 135 [([(13, 13)], Go 91), ([(32, 32)], Go 160), ([(33, 127)], Tag1_go 167)] (Fill_go
     92)"

definition yy162 :: yyblock where
  "yy162 = Scan Advance 136 [([(10, 10)], Go 168)] (Fill_go 92)"

definition yy163 :: yyblock where
  "yy163 = Scan Advance 137 [([(13, 13)], Go 162), ([(32, 32)], Go 163)] (Fill_go 129)"

definition yy164 :: yyblock where
  "yy164 = Scan Advance 138 [([(0, 0)], Fill_go 92), ([(45, 45)], Go 169)] (Go 94)"

definition yy165 :: yyblock where
  "yy165 = Scan Advance 139 [([(0, 0)], Fill_go 92), ([(73, 73), (105, 105)], Go 170)] (Go 94)"

definition yy166 :: yyblock where
  "yy166 = Scan Advance 140 [([(0, 0)], Fill_go 92), ([(67, 67), (99, 99)], Go 171)] (Go 94)"

definition yy167 :: yyblock where
  "yy167 =
     Scan Advance 141 [([(13, 13)], Tag2_go 172), ([(32, 32)], Tag2_go 173), ([(33, 127)], Go 167)]
     (Fill_go 92)"

definition yy168 :: yyblock where
  "yy168 = Accept True No_args MGMT_GET_BUFFSIZE"

definition yy169 :: yyblock where
  "yy169 = Scan Advance 142 [([(0, 0)], Fill_go 92), ([(83, 83), (115, 115)], Go 174)] (Go 94)"

definition yy170 :: yyblock where
  "yy170 = Scan Advance 143 [([(0, 0)], Fill_go 92), ([(90, 90), (122, 122)], Go 175)] (Go 94)"

definition yy171 :: yyblock where
  "yy171 = Scan Advance 144 [([(0, 0)], Fill_go 92), ([(84, 84), (116, 116)], Go 176)] (Go 94)"

definition yy172 :: yyblock where
  "yy172 = Scan Advance 145 [([(10, 10)], Go 177)] (Fill_go 92)"

definition yy173 :: yyblock where
  "yy173 =
     Scan Advance 146 [([(13, 13)], Go 172), ([(32, 32)], Go 173), ([(33, 127)], Go 93)] (Fill_go 92)"

definition yy174 :: yyblock where
  "yy174 = Scan Advance 147 [([(0, 0)], Fill_go 92), ([(84, 84), (116, 116)], Go 178)] (Go 94)"

definition yy175 :: yyblock where
  "yy175 = Scan Advance 148 [([(0, 0)], Fill_go 92), ([(69, 69), (101, 101)], Go 179)] (Go 94)"

definition yy176 :: yyblock where
  "yy176 = Scan Advance 149 [([(0, 0)], Fill_go 92), ([(79, 79), (111, 111)], Go 180)] (Go 94)"

definition yy177 :: yyblock where
  "yy177 = Accept True Args_t1_t2 MGMT_ADD_USER"

definition yy178 :: yyblock where
  "yy178 = Scan Advance 150 [([(0, 0)], Fill_go 92), ([(65, 65), (97, 97)], Go 181)] (Go 94)"

definition yy179 :: yyblock where
  "yy179 = Scan Advance 151 [([(0, 0)], Fill_go 92), ([(32, 32)], Go 182)] (Go 94)"

definition yy180 :: yyblock where
  "yy180 = Scan Advance 152 [([(0, 0)], Fill_go 92), ([(82, 82), (114, 114)], Go 183)] (Go 94)"

definition yy181 :: yyblock where
  "yy181 = Scan Advance 153 [([(0, 0)], Fill_go 92), ([(84, 84), (116, 116)], Go 184)] (Go 94)"

definition yy182 :: yyblock where
  "yy182 =
     Scan Advance 154 [([(13, 13)], Go 140), ([(32, 32)], Go 182), ([(48, 57)], Tag1_go 185)] (Fill_go
     129)"

definition yy183 :: yyblock where
  "yy183 = Scan Advance 155 [([(0, 0)], Fill_go 92), ([(45, 45)], Go 186)] (Go 94)"

definition yy184 :: yyblock where
  "yy184 = Scan Advance 156 [([(0, 0)], Fill_go 92), ([(85, 85), (117, 117)], Go 187)] (Go 94)"

definition yy185 :: yyblock where
  "yy185 =
     Scan Advance 157 [([(13, 13)], Tag2_go 188), ([(32, 32)], Tag2_go 189), ([(48, 57)], Go 185)]
     (Fill_go 129)"

definition yy186 :: yyblock where
  "yy186 = Scan Advance 158 [([(0, 0)], Fill_go 92), ([(83, 83), (115, 115)], Go 190)] (Go 94)"

definition yy187 :: yyblock where
  "yy187 = Scan Advance 159 [([(0, 0)], Fill_go 92), ([(83, 83), (115, 115)], Go 191)] (Go 94)"

definition yy188 :: yyblock where
  "yy188 = Scan Advance 160 [([(10, 10)], Go 192)] (Fill_go 92)"

definition yy189 :: yyblock where
  "yy189 = Scan Advance 161 [([(13, 13)], Go 188), ([(32, 32)], Go 189)] (Fill_go 129)"

definition yy190 :: yyblock where
  "yy190 = Scan Advance 162 [([(0, 0)], Fill_go 92), ([(84, 84), (116, 116)], Go 193)] (Go 94)"

definition yy191 :: yyblock where
  "yy191 = Scan Advance 163 [([(0, 0)], Fill_go 92), ([(32, 32)], Go 194)] (Go 94)"

definition yy192 :: yyblock where
  "yy192 = Accept True Args_t1_t2 MGMT_SET_BUFFSIZE"

definition yy193 :: yyblock where
  "yy193 = Scan Advance 164 [([(0, 0)], Fill_go 92), ([(65, 65), (97, 97)], Go 195)] (Go 94)"

definition yy194 :: yyblock where
  "yy194 = Scan Advance 165 [([(13, 13)], Go 196), ([(32, 32)], Go 194)] (Fill_go 129)"

definition yy195 :: yyblock where
  "yy195 = Scan Advance 166 [([(0, 0)], Fill_go 92), ([(84, 84), (116, 116)], Go 197)] (Go 94)"

definition yy196 :: yyblock where
  "yy196 = Scan Advance 167 [([(10, 10)], Go 198)] (Fill_go 92)"

definition yy197 :: yyblock where
  "yy197 = Scan Advance 168 [([(0, 0)], Fill_go 92), ([(85, 85), (117, 117)], Go 199)] (Go 94)"

definition yy198 :: yyblock where
  "yy198 = Accept True No_args MGMT_GET_DISSECTOR_STATUS"

definition yy199 :: yyblock where
  "yy199 = Scan Advance 169 [([(0, 0)], Fill_go 92), ([(83, 83), (115, 115)], Go 200)] (Go 94)"

definition yy200 :: yyblock where
  "yy200 = Scan Advance 170 [([(0, 0)], Fill_go 92), ([(32, 32)], Go 201)] (Go 94)"

definition yy201 :: yyblock where
  "yy201 =
     Scan Advance 171 [([(13, 13)], Go 140), ([(32, 32)], Go 201), ([(111, 111)], Tag1_go 202)]
     (Fill_go 129)"

definition yy202 :: yyblock where
  "yy202 =
     Scan Advance 172 [([(0, 0)], Fill_go 129), ([(102, 102)], Go 203), ([(110, 110)], Go 204)] (Go
     130)"

definition yy203 :: yyblock where
  "yy203 = Scan Advance 173 [([(0, 0)], Fill_go 129), ([(102, 102)], Go 204)] (Go 130)"

definition yy204 :: yyblock where
  "yy204 = Scan Advance 174 [([(13, 13)], Go 205)] (Fill_go 129)"

definition yy205 :: yyblock where
  "yy205 = Scan Advance 175 [([(10, 10)], Go 206)] (Fill_go 92)"

definition yy206 :: yyblock where
  "yy206 = Accept True Args_t1_cur MGMT_SET_DISSECTOR_STATUS"

definition yy207 :: yyblock where
  "yy207 = Accept False No_args MGMT_INCOMPLETE"

section \<open>The table\<close>

text \<open>Index 0 is \<open>yy0\<close>, which switches on the condition and is executed apart.\<close>

definition yytable :: "yyblock list" where
  "yytable =
     [yyc_pass, yyc_pass, yy2, yy3, yy4, yy5, yy6, yy7, yy8, yy9, yy10, yy11, yy12, yy13, yy14, yy15,
     yy16, yy17, yy18, yy19, yy20, yy21, yy22, yy23, yy24, yy25, yy26, yy27, yy28, yy29, yy30,
     yy31, yy32, yy33, yy34, yy35, yy36, yy37, yy38, yy39, yy40, yy41, yy42, yy43, yy44, yy45,
     yy46, yy47, yy48, yy49, yy50, yy51, yy52, yy53, yy54, yy55, yy56, yy57, yy58, yy59, yy60,
     yy61, yy62, yy63, yy64, yy65, yy66, yy67, yy68, yy69, yy70, yy71, yy72, yy73, yy74, yy75,
     yyc_trns, yy77, yy78, yy79, yy80, yy81, yy82, yy83, yy84, yy85, yy86, yy87, yy88, yy89,
     yy90, yy91, yy92, yy93, yy94, yy95, yy96, yy97, yy98, yy99, yy100, yy101, yy102, yy103,
     yy104, yy105, yy106, yy107, yy108, yy109, yy110, yy111, yy112, yy113, yy114, yy115, yy116,
     yy117, yy118, yy119, yy120, yy121, yy122, yy123, yy124, yy125, yy126, yy127, yy128, yy129,
     yy130, yy131, yy132, yy133, yy134, yy135, yy136, yy137, yy138, yy139, yy140, yy141, yy142,
     yy143, yy144, yy145, yy146, yy147, yy148, yy149, yy150, yy151, yy152, yy153, yy154, yy155,
     yy156, yy157, yy158, yy159, yy160, yy161, yy162, yy163, yy164, yy165, yy166, yy167, yy168,
     yy169, yy170, yy171, yy172, yy173, yy174, yy175, yy176, yy177, yy178, yy179, yy180, yy181,
     yy182, yy183, yy184, yy185, yy186, yy187, yy188, yy189, yy190, yy191, yy192, yy193, yy194,
     yy195, yy196, yy197, yy198, yy199, yy200, yy201, yy202, yy203, yy204, yy205, yy206, yy207]"

text \<open>
  The \<open>switch (YYGETSTATE)\<close>: for every fill label the block to go to when there is still no
  input, and the block whose fill label it is.
\<close>

definition yyfill_eof :: "nat list" where
  "yyfill_eof =
     [75, 3, 3, 3, 3, 3, 3, 3, 3, 3, 3, 3, 17, 17, 17, 17, 17, 17, 17, 17, 17, 17, 17, 17, 17, 17, 17,
     17, 17, 17, 17, 17, 17, 17, 17, 17, 17, 17, 17, 17, 17, 17, 17, 17, 17, 17, 17, 17, 17, 17,
     17, 17, 17, 17, 17, 17, 17, 17, 17, 17, 17, 17, 17, 207, 78, 78, 78, 78, 78, 78, 78, 78, 78,
     78, 78, 92, 92, 92, 92, 92, 92, 92, 92, 92, 92, 92, 92, 92, 92, 92, 92, 92, 92, 92, 92, 92,
     92, 92, 92, 92, 92, 92, 92, 92, 92, 92, 92, 92, 92, 92, 92, 92, 92, 92, 92, 92, 92, 92, 92,
     92, 92, 92, 92, 92, 92, 92, 92, 92, 92, 92, 92, 92, 92, 92, 92, 92, 92, 92, 92, 92, 92, 92,
     92, 92, 92, 92, 92, 92, 92, 92, 92, 92, 92, 92, 92, 92, 92, 92, 92, 92, 92, 92, 92, 92, 92,
     92, 92, 92, 92, 92, 92, 92, 92, 92, 92, 92]"

definition yyfill_block :: "nat list" where
  "yyfill_block =
     [1, 4, 5, 6, 7, 8, 9, 10, 11, 12, 13, 14, 16, 19, 20, 21, 22, 23, 24, 25, 26, 27, 28, 30, 31, 32,
     33, 34, 35, 36, 37, 38, 39, 40, 41, 42, 43, 44, 45, 46, 47, 48, 49, 50, 51, 52, 53, 54, 56,
     57, 60, 61, 62, 64, 65, 66, 67, 68, 70, 71, 72, 73, 74, 76, 79, 80, 81, 82, 83, 84, 85, 86,
     87, 88, 89, 91, 94, 95, 96, 97, 98, 99, 100, 101, 102, 103, 104, 106, 107, 108, 109, 110,
     111, 112, 113, 114, 115, 116, 117, 118, 119, 120, 121, 122, 123, 124, 125, 126, 127, 128,
     130, 131, 132, 133, 134, 135, 136, 137, 139, 140, 142, 143, 144, 145, 146, 147, 148, 149,
     151, 152, 155, 156, 157, 158, 159, 161, 162, 163, 164, 165, 166, 167, 169, 170, 171, 172,
     173, 174, 175, 176, 178, 179, 180, 181, 182, 183, 184, 185, 186, 187, 188, 189, 190, 191,
     193, 194, 195, 196, 197, 199, 200, 201, 202, 203, 204, 205]"

lemma length_tables [simp]: "length yytable = 208" "length yyfill_eof = 176" "length yyfill_block = 176"
  by (simp_all add: yytable_def yyfill_eof_def yyfill_block_def)

lemmas yy_defs =
  yyc_pass_def yy2_def yy3_def yy4_def yy5_def yy6_def yy7_def yy8_def yy9_def yy10_def yy11_def
  yy12_def yy13_def yy14_def yy15_def yy16_def yy17_def yy19_def yy18_def yy20_def yy21_def
  yy22_def yy23_def yy24_def yy25_def yy26_def yy27_def yy28_def yy29_def yy30_def yy31_def
  yy32_def yy33_def yy34_def yy35_def yy36_def yy37_def yy38_def yy39_def yy40_def yy41_def
  yy42_def yy43_def yy44_def yy45_def yy46_def yy47_def yy48_def yy49_def yy50_def yy51_def
  yy52_def yy53_def yy54_def yy55_def yy56_def yy57_def yy58_def yy60_def yy59_def yy61_def
  yy62_def yy63_def yy64_def yy65_def yy66_def yy67_def yy68_def yy69_def yy70_def yy71_def
  yy72_def yy73_def yy74_def yy75_def yyc_trns_def yy77_def yy78_def yy79_def yy80_def yy81_def
  yy82_def yy83_def yy84_def yy85_def yy86_def yy87_def yy88_def yy89_def yy90_def yy91_def
  yy92_def yy94_def yy93_def yy95_def yy96_def yy97_def yy98_def yy99_def yy100_def yy101_def
  yy102_def yy103_def yy104_def yy105_def yy106_def yy107_def yy108_def yy109_def yy110_def
  yy111_def yy112_def yy113_def yy114_def yy115_def yy116_def yy117_def yy118_def yy119_def
  yy120_def yy121_def yy122_def yy123_def yy124_def yy125_def yy126_def yy127_def yy128_def
  yy130_def yy129_def yy131_def yy132_def yy133_def yy134_def yy135_def yy136_def yy137_def
  yy138_def yy139_def yy140_def yy141_def yy142_def yy143_def yy144_def yy145_def yy146_def
  yy147_def yy148_def yy149_def yy150_def yy151_def yy152_def yy153_def yy154_def yy155_def
  yy156_def yy157_def yy158_def yy159_def yy161_def yy160_def yy162_def yy163_def yy164_def
  yy165_def yy166_def yy167_def yy168_def yy169_def yy170_def yy171_def yy172_def yy173_def
  yy174_def yy175_def yy176_def yy177_def yy178_def yy179_def yy180_def yy181_def yy182_def
  yy183_def yy184_def yy185_def yy186_def yy187_def yy188_def yy189_def yy190_def yy191_def
  yy192_def yy193_def yy194_def yy195_def yy196_def yy197_def yy198_def yy199_def yy200_def
  yy201_def yy202_def yy203_def yy204_def yy205_def yy206_def yy207_def

end
