(* ===== verification/Mgmt_Lexer.thy ===== *)
theory Mgmt_Lexer
  imports Mgmt_Tables
begin

text \<open>
  \<open>parseMgmtRequest\<close> of \<open>src/mgmt_protocol.re.c\<close>: the execution of the blocks of \<open>Mgmt_Tables\<close> on
  an input window. The loop is run with fuel; \<open>parse_terminates\<close> shows that the fuel given is
  always enough, that the lexer never reads outside its buffer and that it leaves the window
  well-formed.
\<close>

section \<open>Execution\<close>

definition in_range :: "byte \<Rightarrow> nat \<times> nat \<Rightarrow> bool" where
  "in_range c r \<longleftrightarrow> fst r \<le> unat c \<and> unat c \<le> snd r"

fun yylook :: "((nat \<times> nat) list \<times> yyact) list \<Rightarrow> yyact \<Rightarrow> byte \<Rightarrow> yyact" where
  "yylook [] d c = d"
| "yylook ((rs, a) # cs) d c = (if list_ex (in_range c) rs then a else yylook cs d c)"

text \<open>The lexer leaves its loop to wait for input, or with a result and the pair \<open>args\<close>, \<open>arge\<close>.\<close>

datatype yyout = Need_input | Result MgmtCommand "(nat \<times> nat) option"

datatype yynext = Next nat Input | Final yyout Input

definition yy_pre :: "yypre \<Rightarrow> Input \<Rightarrow> Input" where
  "yy_pre p i =
     (case p of
        Stay \<Rightarrow> i
      | Advance \<Rightarrow> i\<lparr>in_cur := in_cur i + 1\<rparr>
      | Mark_advance \<Rightarrow> i\<lparr>in_cur := in_cur i + 1, in_mar := in_cur i + 1\<rparr>)"

text \<open>From the fill label on.\<close>

definition yy_scan :: "nat \<Rightarrow> ((nat \<times> nat) list \<times> yyact) list \<Rightarrow> yyact \<Rightarrow> Input \<Rightarrow> yynext run" where
  "yy_scan fill cs d i =
     bindE (arr_get (in_buf i) (in_cur i)) (\<lambda>yych.
     Inr (case yylook cs d yych of
            Go n \<Rightarrow> Next n i
          | Tag1_go n \<Rightarrow> Next n (i\<lparr>in_yyt1 := in_cur i\<rparr>)
          | Tag2_go n \<Rightarrow> Next n (i\<lparr>in_yyt2 := in_cur i\<rparr>)
          | Fill_go n \<Rightarrow> if in_lim i \<le> in_cur i then Final Need_input (i\<lparr>in_state := int fill\<rparr>)
                         else Next n i))"

definition yy_args :: "yyargs \<Rightarrow> Input \<Rightarrow> (nat \<times> nat) option" where
  "yy_args a i =
     (case a of
        No_args \<Rightarrow> None
      | Args_t1_t2 \<Rightarrow> Some (in_yyt1 i, in_yyt2 i)
      | Args_t1_cur \<Rightarrow> Some (in_yyt1 i, in_cur i - 2))"

definition yy_enter :: "yyblock \<Rightarrow> Input \<Rightarrow> yynext run" where
  "yy_enter b i =
     (case b of
        Scan p fill cs d \<Rightarrow> yy_scan fill cs d (yy_pre p i)
      | Bump n \<Rightarrow> Inr (Next n (i\<lparr>in_cur := in_cur i + 1\<rparr>))
      | Back n \<Rightarrow> Inr (Next n (i\<lparr>in_cur := in_mar i\<rparr>))
      | Accept adv a cmd \<Rightarrow>
          let i1 = (if adv then i\<lparr>in_cur := in_cur i + 1\<rparr> else i)
          in Inr (Final (Result cmd (yy_args a i1)) (i1\<lparr>in_state := -1\<rparr>)))"

text \<open>The loop from a given position; \<open>None\<close> is the end of the fuel.\<close>

fun yy_loop :: "nat \<Rightarrow> yynext \<Rightarrow> (yyout \<times> Input) option run" where
  "yy_loop fuel (Final r i) = Inr (Some (r, i))"
| "yy_loop 0 (Next n i) = Inr None"
| "yy_loop (Suc fuel) (Next n i) =
     bindE (arr_get yytable n) (\<lambda>b. bindE (yy_enter b i) (yy_loop fuel))"

text \<open>\<open>yy0\<close> and the \<open>switch (YYGETSTATE)\<close> in front of it.\<close>

definition yy0 :: "Input \<Rightarrow> nat" where
  "yy0 i = (if in_cond i = yyctrns then 76 else 1)"

definition yy_start :: "Input \<Rightarrow> yynext run" where
  "yy_start i =
     (let st = in_state i in
      if st < 0 \<or> 176 \<le> st then Inr (Next (yy0 i) i)
      else if in_lim i \<le> in_cur i then Inr (Next (yyfill_eof ! nat st) i)
      else (case yytable ! (yyfill_block ! nat st) of
              Scan p fill cs d \<Rightarrow> yy_scan fill cs d i
            | _ \<Rightarrow> Inr (Next (yy0 i) i)))"

text \<open>
  The results: the command and, unless more input is needed, the values stored in \<open>*arg\<close>,
  \<open>*argLen\<close> (a difference of pointers in \<open>size_t\<close>) and \<open>*len\<close>.
\<close>

definition parse_fuel :: "Input \<Rightarrow> nat" where
  "parse_fuel i = 4 * in_lim i + 8"

definition parseMgmtRequest :: "Input \<Rightarrow> (MgmtCommand \<times> (nat option \<times> nat \<times> nat) option \<times> Input) option run" where
  "parseMgmtRequest i =
     bindE (yy_start i) (\<lambda>s.
     bindE (yy_loop (parse_fuel i) s) (\<lambda>r.
     Inr (case r of
            None \<Rightarrow> None
          | Some (Need_input, i1) \<Rightarrow> Some (MGMT_INCOMPLETE, None, i1)
          | Some (Result cmd a, i1) \<Rightarrow>
              let argLen = (case a of None \<Rightarrow> 0 | Some (s, e) \<Rightarrow> nat ((int e - int s) mod 2 ^ 64));
                  len = in_cur i1 - in_tok i1
              in Some (cmd, Some (map_option fst a, argLen, len),
                       i1\<lparr>in_tok := in_cur i1, in_mar := in_cur i1, in_state := -1\<rparr>))))"

section \<open>Facts about the table\<close>

text \<open>
  What makes the execution safe, block by block: a \<open>switch\<close> takes a NUL, and so the sentinel, to
  a fill test; all targets exist; an inner label (\<open>stay_labels\<close>) leads on to a block that moves the
  cursor or to an end; a marker is only taken back to an end (\<open>end_labels\<close>).
\<close>

fun act_target :: "yyact \<Rightarrow> nat" where
  "act_target (Go n) = n" | "act_target (Tag1_go n) = n" | "act_target (Tag2_go n) = n" | "act_target (Fill_go n) = n"

fun is_fill :: "yyact \<Rightarrow> bool" where
  "is_fill (Fill_go n) = True" | "is_fill _ = False"

fun is_stay :: "yyblock \<Rightarrow> bool" where
  "is_stay (Scan Stay _ _ _) = True" | "is_stay _ = False"

fun is_end :: "yyblock \<Rightarrow> bool" where
  "is_end (Accept False _ _) = True" | "is_end _ = False"

fun is_scan :: "yyblock \<Rightarrow> bool" where
  "is_scan (Scan _ _ _ _) = True" | "is_scan _ = False"

text \<open>The blocks that move the cursor over the character under it.\<close>

fun consumes :: "yyblock \<Rightarrow> bool" where
  "consumes (Scan p _ _ _) \<longleftrightarrow> p \<noteq> Stay" | "consumes (Bump _) = True" | "consumes (Back _) = False"
| "consumes (Accept adv _ _) = adv"

definition stay_labels :: "nat list" where
  "stay_labels = [0, 1, 19, 60, 76, 94, 130, 161]"

definition end_labels :: "nat list" where
  "end_labels = [3, 78]"

fun block_ok :: "yyblock \<Rightarrow> bool" where
  "block_ok (Scan p fill cs d) \<longleftrightarrow> is_fill (yylook cs d 0) \<and> fill < 176
     \<and> list_all (\<lambda>n. n < 208 \<and> (p = Stay \<longrightarrow> n \<notin> set stay_labels)) (act_target d # map (act_target \<circ> snd) cs)"
| "block_ok (Bump n) \<longleftrightarrow> n \<in> set end_labels"
| "block_ok (Back n) \<longleftrightarrow> n \<in> set end_labels"
| "block_ok (Accept adv a cmd) \<longleftrightarrow> True"

lemma yytable_ok: "list_all block_ok yytable"
  unfolding yytable_def by (simp add: yy_defs in_range_def stay_labels_def end_labels_def)

lemma stay_labels_ok: "list_all (\<lambda>(n, b). is_stay b \<longrightarrow> n \<in> set stay_labels) (enumerate 0 yytable)"
  unfolding yytable_def by (simp add: yy_defs stay_labels_def)

lemma end_labels_ok: "list_all (\<lambda>n. n < 208 \<and> is_end (yytable ! n)) end_labels"
  unfolding yytable_def end_labels_def by (simp add: yy_defs)

lemma fill_eof_ok: "list_all (\<lambda>n. n < 208 \<and> \<not> consumes (yytable ! n)) yyfill_eof"
proof -
  have "set yyfill_eof \<subseteq> set [3, 17, 75, 78, 92, 207]"
    unfolding yyfill_eof_def by simp
  moreover have "list_all (\<lambda>n. n < 208 \<and> \<not> consumes (yytable ! n)) [3, 17, 75, 78, 92, 207]"
    unfolding yytable_def by (simp add: yy_defs)
  ultimately show ?thesis
    unfolding list_all_iff by blast
qed

definition other_labels :: "nat list" where
  "other_labels = [2, 3, 15, 17, 29, 55, 58, 63, 69, 75, 77, 78, 90, 92, 105, 138, 141, 150, 153, 154, 168, 177, 192, 198, 206, 207]"

lemma fill_block_ok: "list_all (\<lambda>n. n < 208 \<and> is_scan (yytable ! n)) yyfill_block"
proof -
  have "list_all (\<lambda>(n, b). is_scan b \<or> n \<in> set other_labels) (enumerate 0 yytable)"
    unfolding yytable_def by (simp add: yy_defs other_labels_def)
  then have "is_scan (yytable ! n) \<or> n \<in> set other_labels" if "n < 208" for n
    using that by (force simp: list_all_iff in_set_enumerate_eq)
  moreover have "list_all (\<lambda>n. n < 208 \<and> n \<notin> set other_labels) yyfill_block"
    unfolding yyfill_block_def other_labels_def by simp
  ultimately show ?thesis
    by (auto simp: list_all_iff)
qed

lemma table_at:
  assumes "n < 208"
  shows "arr_get yytable n = Inr (yytable ! n)" and "block_ok (yytable ! n)"
    and "is_stay (yytable ! n) \<Longrightarrow> n \<in> set stay_labels"
proof -
  show "arr_get yytable n = Inr (yytable ! n)" using assms by simp
  show "block_ok (yytable ! n)" using yytable_ok assms by (simp add: list_all_length)
  have "(n, yytable ! n) \<in> set (enumerate 0 yytable)" using assms by (simp add: in_set_enumerate_eq)
  then show "is_stay (yytable ! n) \<Longrightarrow> n \<in> set stay_labels"
    using stay_labels_ok by (force simp: list_all_iff)
qed

lemma end_at: "n \<in> set end_labels \<Longrightarrow> n < 208 \<and> is_end (yytable ! n)"
  using end_labels_ok by (simp add: list_all_iff)

section \<open>Safety and termination\<close>

definition same_window :: "Input \<Rightarrow> Input \<Rightarrow> bool" where
  "same_window i i' \<longleftrightarrow> in_buf i' = in_buf i \<and> in_lim i' = in_lim i \<and> in_tok i' = in_tok i
     \<and> in_bufSize i' = in_bufSize i \<and> in_cond i' = in_cond i"

lemma same_window_refl [simp]: "same_window i i"
  by (simp add: same_window_def)

lemma same_window_trans: "same_window i i1 \<Longrightarrow> same_window i1 i2 \<Longrightarrow> same_window i i2"
  by (simp add: same_window_def)

text \<open>A position of the lexer: the target exists, and a block that moves the cursor has a character to move over.\<close>

fun pos_ok :: "yynext \<Rightarrow> bool" where
  "pos_ok (Next n i) \<longleftrightarrow> n < 208 \<and> input_wf i \<and> (consumes (yytable ! n) \<longrightarrow> in_cur i < in_lim i)"
| "pos_ok (Final r i) \<longleftrightarrow> input_wf i \<and> (r = Need_input \<longrightarrow> in_cur i = in_lim i \<and> 0 \<le> in_state i \<and> in_state i < 176)"

fun pos_input :: "yynext \<Rightarrow> Input" where
  "pos_input (Next n i) = i" | "pos_input (Final r i) = i"

text \<open>What is left to do: four units per character, and some for the blocks in between.\<close>

fun block_cost :: "yyblock \<Rightarrow> nat \<Rightarrow> nat" where
  "block_cost (Scan p _ _ _) rem = 4 * rem + (if p = Stay then 7 else 6)"
| "block_cost (Accept _ _ _) rem = 1"
| "block_cost _ rem = 2"

fun pos_cost :: "yynext \<Rightarrow> nat" where
  "pos_cost (Next n i) = block_cost (yytable ! n) (in_lim i - in_cur i)" | "pos_cost (Final r i) = 0"

lemma yylook_target: "yylook cs d c = a \<Longrightarrow> a \<in> insert d (snd ` set cs)"
  by (induction cs d c rule: yylook.induct) (auto split: if_splits)

lemma scan_ok:
  assumes blk: "block_ok (Scan p fill cs d)" and wf: "input_wf i"
  shows "\<exists>r. yy_scan fill cs d i = Inr r \<and> pos_ok r \<and> same_window i (pos_input r)
    \<and> (\<forall>n i'. r = Next n i' \<longrightarrow> n < 208 \<and> (p = Stay \<longrightarrow> n \<notin> set stay_labels) \<and> in_cur i' = in_cur i \<and> in_cur i < in_lim i)"
proof -
  let ?c = "in_buf i ! in_cur i"
  have w: "in_cur i \<le> in_lim i" "in_lim i < length (in_buf i)" "in_buf i ! in_lim i = 0"
    using wf by (auto simp: input_wf_def)
  have get: "arr_get (in_buf i) (in_cur i) = Inr ?c"
    using w by simp
  define a where "a = yylook cs d ?c"
  have tgt: "act_target a < 208 \<and> (p = Stay \<longrightarrow> act_target a \<notin> set stay_labels)"
    using blk yylook_target [of cs d ?c a] by (auto simp: a_def list_all_iff)
  have lt: "in_cur i < in_lim i" if "\<not> is_fill a"
  proof (rule ccontr)
    assume "\<not> in_cur i < in_lim i"
    with w have "?c = 0" by simp
    with blk that show False by (simp add: a_def)
  qed
  have wf': "input_wf (i\<lparr>in_yyt1 := x\<rparr>)" "input_wf (i\<lparr>in_yyt2 := x\<rparr>)" "input_wf (i\<lparr>in_state := y\<rparr>)" for x y
    using wf by (simp_all add: input_wf_def)
  show ?thesis
    using get tgt lt wf wf' w blk
    by (cases a) (auto simp: yy_scan_def a_def [symmetric] same_window_def)
qed

lemma enter_ok:
  assumes "pos_ok (Next n i)"
  shows "\<exists>r. yy_enter (yytable ! n) i = Inr r \<and> pos_ok r \<and> same_window i (pos_input r) \<and> pos_cost r < pos_cost (Next n i)"
proof -
  have n: "n < 208" and wf: "input_wf i" and room: "consumes (yytable ! n) \<Longrightarrow> in_cur i < in_lim i"
    using assms by auto
  note blk = table_at(2) [OF n]
  show ?thesis
  proof (cases "yytable ! n")
    case (Scan p fill cs d)
    have wf1: "input_wf (yy_pre p i)" "same_window i (yy_pre p i)"
      using wf room Scan by (auto simp: yy_pre_def input_wf_def same_window_def split: yypre.splits)
    obtain r where r: "yy_scan fill cs d (yy_pre p i) = Inr r" "pos_ok r" "same_window (yy_pre p i) (pos_input r)"
      and nxt: "\<forall>m i'. r = Next m i' \<longrightarrow> m < 208 \<and> (p = Stay \<longrightarrow> m \<notin> set stay_labels)
        \<and> in_cur i' = in_cur (yy_pre p i) \<and> in_cur (yy_pre p i) < in_lim (yy_pre p i)"
      using scan_ok [OF blk [unfolded Scan] wf1(1)] by blast
    have "pos_cost r < pos_cost (Next n i)"
    proof (cases r)
      case (Next m i')
      have lim: "in_lim i' = in_lim i" using Next r(3) wf1(2) by (simp add: same_window_def)
      have m: "m < 208" "p = Stay \<Longrightarrow> \<not> is_stay (yytable ! m)" "in_cur i' = in_cur (yy_pre p i)" "in_cur i' < in_lim i"
        using nxt Next table_at(3) [of m] wf1(2) by (auto simp: same_window_def)
      show ?thesis
        using m lim Next Scan by (cases "yytable ! m"; cases p) (auto simp: yy_pre_def)
    qed (use Scan in simp)
    then show ?thesis
      using r Scan same_window_trans [OF wf1(2) r(3)] by (simp add: yy_enter_def)
  next
    case (Bump m)
    then have m: "m < 208" "is_end (yytable ! m)" using blk end_at by simp_all
    then show ?thesis
      using Bump room wf
      by (cases "yytable ! m" rule: is_end.cases) (auto simp: yy_enter_def input_wf_def same_window_def)
  next
    case (Back m)
    then have m: "m < 208" "is_end (yytable ! m)" using blk end_at by simp_all
    then show ?thesis
      using Back wf
      by (cases "yytable ! m" rule: is_end.cases) (auto simp: yy_enter_def input_wf_def same_window_def)
  next
    case (Accept adv a cmd)
    then show ?thesis
      using room wf by (auto simp: yy_enter_def input_wf_def same_window_def Let_def)
  qed
qed

lemma loop_ok:
  assumes "pos_ok p" and "pos_cost p \<le> fuel"
  shows "\<exists>r i. yy_loop fuel p = Inr (Some (r, i)) \<and> pos_ok (Final r i) \<and> same_window (pos_input p) i"
  using assms
proof (induction fuel p rule: yy_loop.induct)
  case (1 fuel r i)
  then show ?case by simp
next
  case (2 n i)
  then show ?case by (cases "yytable ! n") (auto split: if_splits)
next
  case (3 fuel n i)
  obtain q where q: "yy_enter (yytable ! n) i = Inr q" "pos_ok q" "same_window i (pos_input q)"
    "pos_cost q < pos_cost (Next n i)"
    using enter_ok [OF 3(2)] by blast
  have n: "n < 208" using 3(2) by simp
  obtain r i' where "yy_loop fuel q = Inr (Some (r, i'))" "pos_ok (Final r i')" "same_window (pos_input q) i'"
    using 3(1) [OF table_at(1) [OF n] q(1,2)] q(4) 3(3) by auto
  then show ?case
    using q same_window_trans table_at(1) [OF n] by auto
qed

lemma entry_blocks: "is_stay (yytable ! 1)" "is_stay (yytable ! 76)"
  unfolding yytable_def by (simp_all add: yyc_pass_def yyc_trns_def)

lemma entry_ok:
  assumes "input_wf i"
  shows "pos_ok (Next (yy0 i) i)" and "pos_cost (Next (yy0 i) i) \<le> parse_fuel i"
  using assms entry_blocks
  by (auto simp: yy0_def parse_fuel_def elim!: is_stay.elims(2) split: if_splits)

lemma start_ok:
  assumes wf: "input_wf i"
  shows "\<exists>p. yy_start i = Inr p \<and> pos_ok p \<and> same_window i (pos_input p) \<and> pos_cost p \<le> parse_fuel i"
proof (cases "in_state i < 0 \<or> 176 \<le> in_state i")
  case True
  then show ?thesis using entry_ok [OF wf] by (simp add: yy_start_def)
next
  case False
  then have st: "nat (in_state i) < 176" by linarith
  show ?thesis
  proof (cases "in_lim i \<le> in_cur i")
    case True
    let ?n = "yyfill_eof ! nat (in_state i)"
    have n: "?n < 208" "\<not> consumes (yytable ! ?n)"
      using fill_eof_ok st by (auto simp: list_all_length)
    have "pos_cost (Next ?n i) \<le> parse_fuel i"
      using True by (cases "yytable ! ?n") (auto simp: parse_fuel_def)
    then show ?thesis
      using False True n wf by (auto simp: yy_start_def Let_def)
  next
    case room: False
    let ?n = "yyfill_block ! nat (in_state i)"
    have n: "?n < 208" "is_scan (yytable ! ?n)"
      using fill_block_ok st by (auto simp: list_all_length)
    then obtain p fill cs d where b: "yytable ! ?n = Scan p fill cs d"
      by (auto elim: is_scan.elims(2))
    obtain r where r: "yy_scan fill cs d i = Inr r" "pos_ok r" "same_window i (pos_input r)"
      and nxt: "\<forall>m i'. r = Next m i' \<longrightarrow> m < 208 \<and> (p = Stay \<longrightarrow> m \<notin> set stay_labels) \<and> in_cur i' = in_cur i \<and> in_cur i < in_lim i"
      using scan_ok [OF table_at(2) [OF n(1), unfolded b] wf] by blast
    have "pos_cost r \<le> parse_fuel i"
    proof (cases r)
      case (Next m i')
      then have "in_lim i' = in_lim i" using r(3) by (simp add: same_window_def)
      then show ?thesis
        using Next by (cases "yytable ! m") (auto simp: parse_fuel_def)
    qed simp
    then show ?thesis
      using r b False room by (auto simp: yy_start_def Let_def)
  qed
qed

lemma parse_ok:
  assumes wf: "input_wf i"
  obtains cmd out i' where "parseMgmtRequest i = Inr (Some (cmd, out, i'))" "input_wf i'"
    "in_buf i' = in_buf i" "in_lim i' = in_lim i" "in_bufSize i' = in_bufSize i" "in_cond i' = in_cond i"
    "out = None \<longrightarrow> cmd = MGMT_INCOMPLETE \<and> in_cur i' = in_lim i \<and> in_tok i' = in_tok i"
    "\<forall>arg argLen len. out = Some (arg, argLen, len) \<longrightarrow> in_tok i' = in_tok i + len \<and> in_cur i' = in_tok i' \<and> in_state i' = -1"
proof -
  obtain p where p: "yy_start i = Inr p" "pos_ok p" "same_window i (pos_input p)" "pos_cost p \<le> parse_fuel i"
    using start_ok [OF wf] by blast
  obtain r i1 where r: "yy_loop (parse_fuel i) p = Inr (Some (r, i1))" "pos_ok (Final r i1)" "same_window (pos_input p) i1"
    using loop_ok [OF p(2,4)] by blast
  have same: "same_window i i1" using same_window_trans [OF p(3) r(3)] .
  show thesis
  proof (cases r)
    case Need_input
    then show thesis
      using that [of MGMT_INCOMPLETE None i1] p(1) r same by (simp add: parseMgmtRequest_def same_window_def)
  next
    case (Result cmd a)
    let ?i = "i1\<lparr>in_tok := in_cur i1, in_mar := in_cur i1, in_state := -1\<rparr>"
    have "input_wf ?i" "in_tok i1 \<le> in_cur i1"
      using r(2) by (simp_all add: input_wf_def)
    then show thesis
      using that [of cmd _ ?i] p(1) r(1) same Result
      by (simp add: parseMgmtRequest_def same_window_def Let_def)
  qed
qed

end
