(* ===== verification/Mgmt_Commands.thy ===== *)
theory Mgmt_Commands
  imports Mgmt_Lexer
begin

text \<open>
  What the lexer recognises. A \<open>switch\<close> that goes on to an inner label looks at the same
  character again; \<open>delta\<close> folds the two looks into one, so that the lexer becomes an automaton
  that reads a character per step. The shapes of the commands are locales: a keyword and the line end
  (\<open>keyword_line\<close>, \<open>plain_command\<close>), a free argument (\<open>arg_command\<close>), one of a few words (\<open>word_command\<close>).
\<close>

section \<open>Runs that do not depend on the fuel\<close>

definition leads :: "yynext \<Rightarrow> yynext \<Rightarrow> bool" where
  "leads p q \<longleftrightarrow> (\<exists>k. \<forall>f. yy_loop (k + f) p = yy_loop f q)"

lemma leads_refl [simp]: "leads p p"
  unfolding leads_def by (intro exI [of _ 0]) simp

lemma leads_trans:
  assumes "leads p q" and "leads q r"
  shows "leads p r"
proof -
  obtain k l where "\<And>f. yy_loop (k + f) p = yy_loop f q" "\<And>f. yy_loop (l + f) q = yy_loop f r"
    using assms unfolding leads_def by blast
  then have "yy_loop ((k + l) + f) p = yy_loop f r" for f
    by (simp add: add.assoc)
  then show ?thesis unfolding leads_def by blast
qed

lemma leads_step:
  assumes "n < 208" and "yy_enter (yytable ! n) i = Inr q"
  shows "leads (Next n i) q"
  unfolding leads_def using assms by (intro exI [of _ 1]) simp

lemma loop_more_fuel: "yy_loop fuel p = Inr (Some x) \<Longrightarrow> yy_loop (fuel + k) p = Inr (Some x)"
proof (induction fuel p rule: yy_loop.induct)
  case (3 fuel n i)
  then show ?case by (auto simp: fault_simps)
qed (auto split: nat.splits simp: fault_simps)

text \<open>With the fuel of \<open>parseMgmtRequest\<close>, a run that leads to an end has that end as its result.\<close>

lemma leads_final:
  assumes "pos_ok p" and "pos_cost p \<le> fuel" and "leads p (Final r i)"
  shows "yy_loop fuel p = Inr (Some (r, i))"
proof -
  obtain r' i' where res: "yy_loop fuel p = Inr (Some (r', i'))"
    using loop_ok [OF assms(1,2)] by blast
  obtain k where "yy_loop (k + fuel) p = Inr (Some (r, i))"
    using assms(3) unfolding leads_def by auto
  then show ?thesis
    using res loop_more_fuel [OF res, of k] by (simp add: add.commute)
qed

section \<open>The automaton\<close>

text \<open>Only blocks that move the cursor are states.\<close>

definition delta :: "nat \<Rightarrow> byte \<Rightarrow> yyact option" where
  "delta n c =
     (case yytable ! n of
        Scan p f cs d \<Rightarrow>
          if p = Stay then None
          else (case yylook cs d c of
                  Go m \<Rightarrow> (case yytable ! m of Scan Stay f2 cs2 d2 \<Rightarrow> Some (yylook cs2 d2 c) | _ \<Rightarrow> Some (Go m))
                | a \<Rightarrow> Some a)
      | _ \<Rightarrow> None)"

definition apply_act :: "yyact \<Rightarrow> Input \<Rightarrow> yynext" where
  "apply_act a i =
     (case a of
        Go n \<Rightarrow> Next n i
      | Tag1_go n \<Rightarrow> Next n (i\<lparr>in_yyt1 := in_cur i\<rparr>)
      | Tag2_go n \<Rightarrow> Next n (i\<lparr>in_yyt2 := in_cur i\<rparr>)
      | Fill_go n \<Rightarrow> Next n i)"

lemma scan_act:
  assumes "in_cur i < in_lim i" and "in_lim i < length (in_buf i)"
  shows "yy_scan fill cs d i = Inr (apply_act (yylook cs d (in_buf i ! in_cur i)) i)"
  using assms by (simp add: yy_scan_def apply_act_def split: yyact.splits)

lemma look_target: "block_ok (Scan p f cs d) \<Longrightarrow> act_target (yylook cs d c) < 208"
  using yylook_target [of cs d c] by (auto simp: list_all_iff)

text \<open>The cursor moves to the next character, which \<open>delta\<close> judges; the marker may move too.\<close>

lemma leads_delta:
  assumes pos: "pos_ok (Next n i)" and room: "in_cur i + 1 < in_lim i" and c: "in_buf i ! (in_cur i + 1) = c"
    and d: "delta n c = Some a"
  obtains m where "leads (Next n i) (apply_act a (i\<lparr>in_cur := in_cur i + 1, in_mar := m\<rparr>))"
    "in_tok i \<le> m" "m \<le> in_lim i" "act_target a < 208"
proof -
  obtain p f cs df where blk: "yytable ! n = Scan p f cs df" and p: "p \<noteq> Stay"
    using d by (auto simp: delta_def split: yyblock.splits if_splits)
  have n: "n < 208" and wf: "input_wf i" using pos by simp_all
  let ?m = "if p = Mark_advance then in_cur i + 1 else in_mar i"
  let ?i = "i\<lparr>in_cur := in_cur i + 1, in_mar := ?m\<rparr>"
  have pre: "yy_pre p i = ?i"
    using p by (cases p) (simp_all add: yy_pre_def)
  have len: "in_lim i < length (in_buf i)" and m: "in_tok i \<le> ?m" "?m \<le> in_lim i"
    using wf room by (auto simp: input_wf_def)
  have enter: "yy_enter (yytable ! n) i = Inr (apply_act (yylook cs df c) ?i)"
    using blk room len c by (simp add: yy_enter_def pre scan_act)
  have t1: "act_target (yylook cs df c) < 208"
    using look_target table_at(2) [OF n] blk by metis
  have one: "leads (Next n i) (apply_act (yylook cs df c) ?i)"
    by (rule leads_step [OF n enter])
  show thesis
  proof (cases "\<exists>k f2 cs2 d2. yylook cs df c = Go k \<and> yytable ! k = Scan Stay f2 cs2 d2")
    case True
    then obtain k f2 cs2 d2 where k: "yylook cs df c = Go k" "yytable ! k = Scan Stay f2 cs2 d2" by blast
    then have a: "a = yylook cs2 d2 c" using d blk p by (simp add: delta_def)
    have k208: "k < 208" using t1 k(1) by simp
    have "yy_enter (yytable ! k) ?i = Inr (apply_act (yylook cs2 d2 c) ?i)"
      using k(2) room len c by (simp add: yy_enter_def yy_pre_def scan_act)
    then have two: "leads (Next k ?i) (apply_act a ?i)"
      unfolding a by (rule leads_step [OF k208])
    have "leads (Next n i) (Next k ?i)"
      using one k(1) by (simp add: apply_act_def)
    from leads_trans [OF this two] have "leads (Next n i) (apply_act a ?i)" .
    moreover have "act_target a < 208"
      unfolding a using look_target table_at(2) [OF k208] k(2) by metis
    ultimately show thesis
      using that [of ?m] m by blast
  next
    case False
    then have "a = yylook cs df c"
      using d blk p by (auto simp: delta_def split: yyact.splits yyblock.splits yypre.splits)
    then show thesis
      using that [of ?m] one m t1 by simp
  qed
qed

text \<open>A string the automaton reads without setting a tag.\<close>

fun goes :: "nat \<Rightarrow> byte list \<Rightarrow> nat option" where
  "goes n [] = Some n"
| "goes n (c # cs) = (case delta n c of Some (Go m) \<Rightarrow> goes m cs | _ \<Rightarrow> None)"

lemma goes_append: "goes n xs = Some m \<Longrightarrow> goes n (xs @ ys) = goes m ys"
  by (induction xs arbitrary: n) (auto split: option.splits yyact.splits)

lemma goes_loop: "(\<And>c. c \<in> set xs \<Longrightarrow> delta n c = Some (Go n)) \<Longrightarrow> goes n xs = Some n"
  by (induction xs) auto

text \<open>
  The cursor stands on the character before \<open>bs\<close>, and all of \<open>bs\<close> has arrived. \<open>untagged\<close>: the
  window and the tags are as before.
\<close>

definition sees :: "Input \<Rightarrow> byte list \<Rightarrow> bool" where
  "sees i bs \<longleftrightarrow> in_cur i + length bs < in_lim i \<and> take (length bs) (drop (in_cur i + 1) (in_buf i)) = bs"

definition untagged :: "Input \<Rightarrow> Input \<Rightarrow> bool" where
  "untagged i i' \<longleftrightarrow> same_window i i' \<and> input_wf i' \<and> in_yyt1 i' = in_yyt1 i \<and> in_yyt2 i' = in_yyt2 i"

lemma untagged_refl: "input_wf i \<Longrightarrow> untagged i i"
  by (simp add: untagged_def)

lemma untagged_trans: "untagged i i1 \<Longrightarrow> untagged i1 i2 \<Longrightarrow> untagged i i2"
  by (auto simp: untagged_def dest: same_window_trans)

lemma sees_Cons:
  assumes "input_wf i"
  shows "sees i (c # cs) \<longleftrightarrow> in_cur i + 1 < in_lim i \<and> in_buf i ! (in_cur i + 1) = c \<and> sees (i\<lparr>in_cur := in_cur i + 1\<rparr>) cs"
proof -
  have "in_cur i + 1 < length (in_buf i)" if "in_cur i + 1 < in_lim i"
    using assms that by (auto simp: input_wf_def)
  then show ?thesis
    by (auto simp: sees_def take_Suc_conv_app_nth Cons_nth_drop_Suc [symmetric])
qed

lemma sees_window:
  "same_window i i' \<Longrightarrow> in_cur i' = in_cur i \<Longrightarrow> sees i' = sees i"
  by (simp add: sees_def same_window_def fun_eq_iff)

lemma leads_act:
  assumes pos: "pos_ok (Next n i)" and see: "sees i (c # cs)" and d: "delta n c = Some a"
  obtains i1 where "leads (Next n i) (apply_act a i1)" "in_cur i1 = in_cur i + 1" "untagged i i1" "sees i1 cs"
    "act_target a < 208" "in_cur i1 < in_lim i1"
proof -
  have wf: "input_wf i" using pos by simp
  have room: "in_cur i + 1 < in_lim i" and c: "in_buf i ! (in_cur i + 1) = c"
    and rest: "sees (i\<lparr>in_cur := in_cur i + 1\<rparr>) cs"
    using see by (simp_all add: sees_Cons [OF wf])
  obtain m where m: "leads (Next n i) (apply_act a (i\<lparr>in_cur := in_cur i + 1, in_mar := m\<rparr>))"
    "in_tok i \<le> m" "m \<le> in_lim i" "act_target a < 208"
    by (rule leads_delta [OF pos room c d])
  let ?i = "i\<lparr>in_cur := in_cur i + 1, in_mar := m\<rparr>"
  have "sees ?i cs" using rest by (simp add: sees_def)
  moreover have "untagged i ?i"
    using wf room m(2,3) by (auto simp: untagged_def same_window_def input_wf_def)
  ultimately show thesis
    using that [of ?i] m(1,4) room by simp
qed

lemma goes_leads:
  assumes "pos_ok (Next n i)" and "goes n bs = Some m" and "sees i (bs @ rest)"
  shows "\<exists>i1. leads (Next n i) (Next m i1) \<and> in_cur i1 = in_cur i + length bs \<and> untagged i i1
    \<and> sees i1 rest \<and> pos_ok (Next m i1)"
  using assms
proof (induction bs arbitrary: n i)
  case Nil
  then show ?case using untagged_refl [of i] by (intro exI [of _ i]) auto
next
  case (Cons c bs)
  obtain k where k: "delta n c = Some (Go k)" "goes k bs = Some m"
    using Cons.prems(2) by (auto split: option.splits yyact.splits)
  obtain i1 where i1: "leads (Next n i) (apply_act (Go k) i1)" "in_cur i1 = in_cur i + 1" "untagged i i1"
    "sees i1 (bs @ rest)" "act_target (Go k) < 208" "in_cur i1 < in_lim i1"
    using leads_act [OF Cons.prems(1) _ k(1)] Cons.prems(3) by (metis append_Cons)
  have pos: "pos_ok (Next k i1)"
    using i1 by (simp add: untagged_def)
  obtain i2 where "leads (Next k i1) (Next m i2)" "in_cur i2 = in_cur i1 + length bs" "untagged i1 i2" "sees i2 rest"
    "pos_ok (Next m i2)"
    using Cons.IH [OF pos k(2) i1(4)] by blast
  moreover from this have "leads (Next n i) (Next m i2)"
    using leads_trans i1(1) by (auto simp: apply_act_def)
  ultimately show ?case
    using i1(2) untagged_trans [OF i1(3)] by auto
qed

text \<open>A window at the start of a line.\<close>

definition line_start :: "nat \<Rightarrow> Input \<Rightarrow> bool" where
  "line_start cond i \<longleftrightarrow> input_wf i \<and> in_bufSize i < 2 ^ 64 \<and> in_state i = -1 \<and> in_cur i = in_tok i \<and> in_cond i = cond"

text \<open>The first letter of a line, under the cursor: the entry block judges it.\<close>

lemma line_entry:
  assumes st: "line_start cond i" and line: "pending i = (c1 # bs) @ rest"
    and entry: "yytable ! yy0 i = Scan Stay f tab d" "yylook tab d c1 = Go k1"
  shows "leads (Next (yy0 i) i) (Next k1 i)" and "pos_ok (Next k1 i)" and "sees i bs"
proof -
  have wf: "input_wf i" and tok: "in_cur i = in_tok i" using st by (simp_all add: line_start_def)
  have len: "in_cur i + length bs < in_lim i" "in_lim i < length (in_buf i)"
    using wf length_pending [OF wf] line tok by (simp_all add: input_wf_def)
  have drop: "drop (in_cur i) (in_buf i) = c1 # bs @ rest @ drop (in_lim i) (in_buf i)"
    using drop_pending [OF wf] line tok by simp
  then have "in_buf i ! (in_cur i + 0) = c1"
    using len by (subst nth_drop [symmetric]) simp_all
  then have c1: "in_buf i ! in_cur i = c1" by simp
  have "drop (in_cur i + 1) (in_buf i) = bs @ rest @ drop (in_lim i) (in_buf i)"
    using arg_cong [OF drop, of "drop 1"] by (simp add: add.commute)
  then show "sees i bs"
    using len(1) by (simp add: sees_def)
  have in_lt: "in_cur i < in_lim i" using len by simp
  have n0: "yy0 i < 208" using entry_ok(1) [OF wf] by simp
  have "yy_enter (yytable ! yy0 i) i = Inr (Next k1 i)"
    using entry c1 in_lt len(2) by (simp add: yy_enter_def yy_pre_def scan_act apply_act_def)
  then show "leads (Next (yy0 i) i) (Next k1 i)" by (rule leads_step [OF n0])
  have "act_target (Go k1) < 208"
    using look_target [OF table_at(2) [OF n0, unfolded entry(1)], of c1] entry(2) by simp
  then show "pos_ok (Next k1 i)" using wf in_lt by simp
qed

definition arg_size :: "(nat \<times> nat) option \<Rightarrow> nat" where
  "arg_size a = (case a of None \<Rightarrow> 0 | Some (s, e) \<Rightarrow> nat ((int e - int s) mod 2 ^ 64))"

text \<open>A run over the whole line determines the result of \<open>parseMgmtRequest\<close>.\<close>

lemma line_result:
  assumes st: "line_start cond i" and line: "pending i = (c1 # bs) @ rest"
    and run: "leads (Next (yy0 i) i) (Final (Result cmd a) i2)" "in_cur i2 = in_cur i + 1 + length bs" "same_window i i2"
  shows "\<exists>i'. parseMgmtRequest i = Inr (Some (cmd, Some (map_option fst a, arg_size a, 1 + length bs), i'))
    \<and> line_start cond i' \<and> pending i' = rest"
proof -
  have wf: "input_wf i" using st by (simp add: line_start_def)
  have loop: "yy_loop (parse_fuel i) (Next (yy0 i) i) = Inr (Some (Result cmd a, i2))"
    by (rule leads_final [OF entry_ok [OF wf] run(1)])
  let ?i = "i2\<lparr>in_tok := in_cur i2, in_mar := in_cur i2, in_state := -1\<rparr>"
  have wf2: "input_wf ?i"
    using loop_ok [OF entry_ok [OF wf]] loop by (auto simp: input_wf_def)
  have shift: "in_cur i2 = in_tok i + (1 + length bs)"
    using run(2) st by (simp add: line_start_def)
  have "pending ?i = drop (1 + length bs) (pending i)"
    using run(3) shift by (intro pending_shift [OF wf]) (simp_all add: same_window_def)
  then have "pending ?i = rest" using line by simp
  moreover have "parseMgmtRequest i = Inr (Some (cmd, Some (map_option fst a, arg_size a, 1 + length bs), ?i))"
    using loop st run(3) shift
    by (simp add: parseMgmtRequest_def yy_start_def same_window_def line_start_def arg_size_def Let_def)
  ultimately show ?thesis
    using wf2 run(3) st by (auto simp: same_window_def line_start_def)
qed

lemma yy0_at: "line_start yycpass i \<Longrightarrow> yy0 i = 1" "line_start yyctrns i \<Longrightarrow> yy0 i = 76"
  by (simp_all add: yy0_def line_start_def yycpass_def yyctrns_def)

text \<open>The letters of a keyword in any mixture of cases.\<close>

definition letters :: "string \<Rightarrow> byte list \<Rightarrow> bool" where
  "letters kw ks \<longleftrightarrow> map tolower ks = bytes_of kw"

lemma letters_Cons: "letters (x # xs) kw \<Longrightarrow> \<exists>c ks. kw = c # ks \<and> tolower c = of_char x \<and> letters xs ks"
  by (auto simp: letters_def bytes_of_def)

section \<open>Commands without an argument\<close>

text \<open>
  \<open>accepts_after ok cond name cmd\<close>: at the start of a line, in condition \<open>cond\<close>, the keyword \<open>name\<close> followed
  by a number of spaces that is \<open>ok\<close> and the line end is read as \<open>cmd\<close>, and the lexer stands behind it.
\<close>

definition accepts_after :: "(nat \<Rightarrow> bool) \<Rightarrow> nat \<Rightarrow> string \<Rightarrow> MgmtCommand \<Rightarrow> bool" where
  "accepts_after ok cond name cmd \<longleftrightarrow> (\<forall>i kw b rest.
     line_start cond i \<and> letters name kw \<and> ok b \<and> pending i = kw @ replicate b 32 @ [13, 10] @ rest \<longrightarrow>
     (\<exists>i'. parseMgmtRequest i = Inr (Some (cmd, Some (None, 0, length kw + b + 2), i'))
        \<and> line_start cond i' \<and> pending i' = rest))"

definition accepts :: "nat \<Rightarrow> string \<Rightarrow> MgmtCommand \<Rightarrow> bool" where
  "accepts = accepts_after (\<lambda>_. True)"

lemma acceptsD:
  assumes "accepts_after ok cond name cmd" and "line_start cond i" "letters name kw" "ok b" "pending i = kw @ replicate b 32 @ [13, 10] @ rest"
  shows "\<exists>i'. parseMgmtRequest i = Inr (Some (cmd, Some (None, 0, length kw + b + 2), i')) \<and> line_start cond i' \<and> pending i' = rest"
  using assms unfolding accepts_after_def by blast

locale keyword_line =
  fixes kw acc :: nat and ok :: "nat \<Rightarrow> bool" and cmd :: MgmtCommand
  assumes line_tail: "ok b \<Longrightarrow> goes kw (replicate b 32 @ [13, 10]) = Some acc" and acc_ok: "yytable ! acc = Accept True No_args cmd"
begin

lemma whole_line:
  assumes st: "line_start cond i" and entry: "yytable ! yy0 i = Scan Stay f tab d" "yylook tab d c1 = Go k1"
    and key: "goes k1 ks = Some kw" and b: "ok b" and line: "pending i = (c1 # ks @ replicate b 32 @ [13, 10]) @ rest"
  shows "\<exists>i'. parseMgmtRequest i = Inr (Some (cmd, Some (None, 0, length ks + b + 3), i'))
    \<and> line_start cond i' \<and> pending i' = rest"
proof -
  let ?bs = "ks @ replicate b 32 @ [13, 10]"
  note ent = line_entry [OF st line entry]
  have "goes k1 ?bs = Some acc"
    using goes_append [OF key] line_tail [OF b] by simp
  from goes_leads [OF ent(2) this, of "[]"] ent(3) obtain i1 where
    i1: "leads (Next k1 i) (Next acc i1)" "in_cur i1 = in_cur i + length ?bs" "untagged i i1" "pos_ok (Next acc i1)"
    by (auto simp del: pos_ok.simps)
  let ?i = "i1\<lparr>in_cur := in_cur i1 + 1, in_state := -1\<rparr>"
  have "yy_enter (yytable ! acc) i1 = Inr (Final (Result cmd None) ?i)"
    by (simp add: acc_ok yy_enter_def yy_args_def)
  then have fin: "leads (Next acc i1) (Final (Result cmd None) ?i)"
    using i1(4) by (intro leads_step) auto
  have "leads (Next (yy0 i) i) (Final (Result cmd None) ?i)"
    by (rule leads_trans [OF leads_trans [OF ent(1) i1(1)] fin])
  from line_result [OF st line this] i1(2,3) show ?thesis
    by (auto simp: untagged_def same_window_def arg_size_def)
qed

lemma accepted:
  assumes start: "\<And>i. line_start cond i \<Longrightarrow> yy0 i = n"
    and entry: "\<And>c. tolower c = of_char x \<Longrightarrow> \<exists>f tab d. yytable ! n = Scan Stay f tab d \<and> yylook tab d c = Go k1"
    and key: "\<And>ks. letters xs ks \<Longrightarrow> goes k1 ks = Some kw"
  shows "accepts_after ok cond (x # xs) cmd"
  unfolding accepts_after_def
proof (intro allI impI, elim conjE)
  fix i bs b rest
  assume st: "line_start cond i" and name: "letters (x # xs) bs" and b: "ok b" and line: "pending i = bs @ replicate b 32 @ [13, 10] @ rest"
  obtain c ks where ks: "bs = c # ks" "tolower c = of_char x" "letters xs ks"
    using letters_Cons [OF name] by blast
  obtain f tab d where e: "yytable ! yy0 i = Scan Stay f tab d" "yylook tab d c = Go k1"
    using entry [OF ks(2)] start [OF st] by auto
  have line': "pending i = (c # ks @ replicate b 32 @ [13, 10]) @ rest"
    using line ks(1) by simp
  from whole_line [OF st e key [OF ks(3)] b line'] ks(1)
  show "\<exists>i'. parseMgmtRequest i = Inr (Some (cmd, Some (None, 0, length bs + b + 2), i'))
      \<and> line_start cond i' \<and> pending i' = rest"
    by (simp add: numeral_3_eq_3)
qed

end

text \<open>The usual command takes any number of spaces.\<close>

locale plain_command =
  fixes kw sp cr acc :: nat and cmd :: MgmtCommand
  assumes kw_sp: "delta kw 32 = Some (Go sp)" and sp_sp: "delta sp 32 = Some (Go sp)"
    and kw_cr: "delta kw 13 = Some (Go cr)" and sp_cr: "delta sp 13 = Some (Go cr)"
    and cr_lf: "delta cr 10 = Some (Go acc)" and accepting: "yytable ! acc = Accept True No_args cmd"

sublocale plain_command < keyword_line kw acc "\<lambda>_. True" cmd
proof
  fix b :: nat
  show "goes kw (replicate b 32 @ [13, 10]) = Some acc"
    using kw_sp kw_cr sp_cr cr_lf goes_append [OF goes_loop, of "replicate (b - 1) 32" sp "[13, 10]"] sp_sp
    by (cases b) simp_all
qed (rule accepting)

section \<open>Commands with an argument\<close>

text \<open>The spaces before the argument and the argument itself, whose start is tagged.\<close>

lemma tagged_argument:
  assumes pos: "pos_ok (Next kw i)" and spaces: "goes kw (replicate (Suc a) 32) = Some sp"
    and tag: "delta sp c = Some (Tag1_go k)" and word: "goes k cs = Some e" and see: "sees i (replicate (Suc a) 32 @ (c # cs) @ rest)"
  obtains i1 where "leads (Next kw i) (Next e i1)" "in_cur i1 = in_cur i + Suc a + length (c # cs)" "same_window i i1"
    "in_yyt1 i1 = in_cur i + Suc a + 1" "sees i1 rest" "pos_ok (Next e i1)"
proof -
  from goes_leads [OF pos spaces see] obtain i1 where i1: "leads (Next kw i) (Next sp i1)" "in_cur i1 = in_cur i + Suc a"
    "untagged i i1" "sees i1 ((c # cs) @ rest)" "pos_ok (Next sp i1)"
    by (auto simp del: pos_ok.simps)
  have see1: "sees i1 (c # cs @ rest)" using i1(4) by simp
  obtain i2 where i2: "leads (Next sp i1) (apply_act (Tag1_go k) i2)" "in_cur i2 = in_cur i1 + 1" "untagged i1 i2"
    "sees i2 (cs @ rest)" "act_target (Tag1_go k) < 208" "in_cur i2 < in_lim i2"
    by (rule leads_act [OF i1(5) see1 tag])
  let ?i2 = "i2\<lparr>in_yyt1 := in_cur i2\<rparr>"
  have pos2: "pos_ok (Next k ?i2)" and see2: "sees ?i2 (cs @ rest)"
    using i2 by (auto simp: untagged_def input_wf_def sees_def)
  from goes_leads [OF pos2 word see2] obtain i3 where i3: "leads (Next k ?i2) (Next e i3)"
    "in_cur i3 = in_cur i2 + length cs" "untagged ?i2 i3" "sees i3 rest" "pos_ok (Next e i3)"
    by (auto simp del: pos_ok.simps)
  have "leads (Next kw i) (Next e i3)"
    using leads_trans [OF leads_trans [OF i1(1)] i3(1)] i2(1) by (simp add: apply_act_def)
  moreover have "same_window i i3"
    using i1(3) i2(3) i3(3) by (auto simp: untagged_def same_window_def)
  ultimately show thesis
    using that [of i3] i1(2) i2(2) i3 by (simp add: untagged_def)
qed

text \<open>
  A whole line at the start of the window: the entry block goes to \<open>k1\<close> on the first letter, the
  other letters lead to \<open>kw\<close>, and from there the rest of the line to the result.
\<close>

definition arg_result :: "nat \<Rightarrow> MgmtCommand \<Rightarrow> nat \<Rightarrow> byte list \<Rightarrow> nat \<Rightarrow> bool" where
  "arg_result kw cmd a arg b \<longleftrightarrow> (\<forall>i. pos_ok (Next kw i) \<and> sees i (replicate (Suc a) 32 @ arg @ replicate b 32 @ [13, 10]) \<longrightarrow>
     (\<exists>i1. leads (Next kw i) (Final (Result cmd (Some (in_cur i + a + 2, in_cur i + a + 2 + length arg))) i1)
        \<and> in_cur i1 = in_cur i + a + length arg + b + 4 \<and> same_window i i1))"

lemma argument_line:
  assumes st: "line_start cond i" and entry: "yytable ! yy0 i = Scan Stay f tab d" "yylook tab d c1 = Go k1"
    and key: "goes k1 ks = Some kw" and res: "arg_result kw cmd a arg b"
    and line: "pending i = (c1 # ks @ replicate (Suc a) 32 @ arg @ replicate b 32 @ [13, 10]) @ rest"
  shows "\<exists>i'. parseMgmtRequest i = Inr (Some (cmd,
      Some (Some (in_tok i + length ks + a + 2), length arg, length ks + a + length arg + b + 4), i'))
    \<and> line_start cond i' \<and> pending i' = rest"
proof -
  let ?bs = "ks @ replicate (Suc a) 32 @ arg @ replicate b 32 @ [13, 10]"
  note ent = line_entry [OF st line entry]
  have wf: "input_wf i" and tok: "in_cur i = in_tok i" and size: "in_bufSize i < 2 ^ 64"
    using st by (simp_all add: line_start_def)
  obtain i1 where i1: "leads (Next k1 i) (Next kw i1)" "in_cur i1 = in_cur i + length ks" "untagged i i1"
    "sees i1 (replicate (Suc a) 32 @ arg @ replicate b 32 @ [13, 10])" "pos_ok (Next kw i1)"
    using goes_leads [OF ent(2) key ent(3)] by blast
  let ?a = "Some (in_cur i1 + a + 2, in_cur i1 + a + 2 + length arg)"
  obtain i2 where i2: "leads (Next kw i1) (Final (Result cmd ?a) i2)"
    "in_cur i2 = in_cur i1 + a + length arg + b + 4" "same_window i1 i2"
    using res i1(4,5) unfolding arg_result_def by blast
  have win: "same_window i i2" using i1(3) i2(3) by (auto simp: untagged_def same_window_def)
  have "length arg \<le> length (pending i)" "length (pending i) \<le> in_bufSize i"
    using line length_pending [OF wf] wf by (auto simp: input_wf_def)
  then have "length arg < 2 ^ 64"
    using size by linarith
  then have small: "arg_size ?a = length arg"
    by (simp add: arg_size_def flip: of_nat_power zmod_int)
  have "leads (Next (yy0 i) i) (Final (Result cmd ?a) i2)"
    by (rule leads_trans [OF leads_trans [OF ent(1) i1(1)] i2(1)])
  from line_result [OF st line this] i1(2) i2(2) win small tok show ?thesis
    by auto
qed

locale arg_command =
  fixes kw sp ar gap cr acc :: nat and argc :: "byte \<Rightarrow> bool" and cmd :: MgmtCommand
  assumes kw_sp: "delta kw 32 = Some (Go sp)" and sp_sp: "delta sp 32 = Some (Go sp)"
    and sp_arg: "argc c \<Longrightarrow> delta sp c = Some (Tag1_go ar)" and ar_ar: "argc c \<Longrightarrow> delta ar c = Some (Go ar)"
    and ar_gap: "delta ar 32 = Some (Tag2_go gap)" and gap_gap: "delta gap 32 = Some (Go gap)"
    and ar_cr: "delta ar 13 = Some (Tag2_go cr)" and gap_cr: "delta gap 13 = Some (Go cr)"
    and cr_lf: "delta cr 10 = Some (Go acc)" and acc_ok: "yytable ! acc = Accept True Args_t1_t2 cmd"
begin

lemma argument:
  assumes pos: "pos_ok (Next kw i)" and arg: "arg \<noteq> []" "\<forall>c\<in>set arg. argc c"
    and see: "sees i (replicate (Suc a) 32 @ arg @ rest)"
  obtains i1 where "leads (Next kw i) (Next ar i1)" "in_cur i1 = in_cur i + Suc a + length arg" "same_window i i1"
    "in_yyt1 i1 = in_cur i + Suc a + 1" "sees i1 rest" "pos_ok (Next ar i1)"
proof -
  obtain c cs where cs: "arg = c # cs" using arg(1) by (cases arg) auto
  have spaces: "goes kw (replicate (Suc a) 32) = Some sp"
    using kw_sp sp_sp goes_loop [of "replicate a 32" sp] by simp
  have tag: "delta sp c = Some (Tag1_go ar)" and word: "goes ar cs = Some ar"
    using sp_arg arg(2) cs goes_loop [of cs ar] ar_ar by simp_all
  show thesis
    by (rule tagged_argument [OF pos spaces tag word see [unfolded cs]]) (use that cs in simp)
qed

text \<open>The end of the argument, the trailing spaces and the line end.\<close>

lemma line_end:
  assumes pos: "pos_ok (Next ar i)" and see: "sees i (replicate b 32 @ [13, 10])"
  obtains i1 where "leads (Next ar i) (Next acc i1)" "in_cur i1 = in_cur i + b + 2" "same_window i i1"
    "in_yyt1 i1 = in_yyt1 i" "in_yyt2 i1 = in_cur i + 1" "pos_ok (Next acc i1)"
proof -
  define m where "m = (if b = 0 then cr else gap)"
  define c :: byte where "c = (if b = 0 then 13 else 32)"
  define cs :: "byte list" where "cs = (if b = 0 then [10] else replicate (b - 1) 32 @ [13, 10])"
  have d: "delta ar c = Some (Tag2_go m)"
    by (simp add: m_def c_def ar_cr ar_gap)
  have see': "sees i (c # cs)"
    using see by (cases b) (simp_all add: c_def cs_def)
  obtain i2 where i2: "leads (Next ar i) (apply_act (Tag2_go m) i2)" "in_cur i2 = in_cur i + 1" "untagged i i2"
    "sees i2 cs" "act_target (Tag2_go m) < 208" "in_cur i2 < in_lim i2"
    by (rule leads_act [OF pos see' d])
  let ?i2 = "i2\<lparr>in_yyt2 := in_cur i2\<rparr>"
  have pos2: "pos_ok (Next m ?i2)" and see2: "sees ?i2 (cs @ [])"
    using i2 by (auto simp: untagged_def input_wf_def sees_def)
  have "goes m cs = Some acc"
    using goes_append [OF goes_loop, of "replicate (b - 1) 32" gap "[13, 10]"] gap_gap gap_cr cr_lf
    by (simp add: m_def cs_def)
  from goes_leads [OF pos2 this see2] obtain i3 where i3: "leads (Next m ?i2) (Next acc i3)"
    "in_cur i3 = in_cur i2 + length cs" "untagged ?i2 i3" "pos_ok (Next acc i3)"
    by (auto simp del: pos_ok.simps)
  have "leads (Next ar i) (Next acc i3)"
    using leads_trans [OF _ i3(1)] i2(1) by (simp add: apply_act_def)
  moreover have "length cs = b + 1"
    by (simp add: cs_def)
  ultimately show thesis
    using that [of i3] i2(2,3) i3 by (auto simp: untagged_def same_window_def)
qed

text \<open>From the last letter of the keyword to the result.\<close>

lemma command:
  assumes pos: "pos_ok (Next kw i)" and arg: "arg \<noteq> []" "\<forall>c\<in>set arg. argc c"
    and see: "sees i (replicate (Suc a) 32 @ arg @ replicate b 32 @ [13, 10])"
  obtains i1 where
    "leads (Next kw i) (Final (Result cmd (Some (in_cur i + a + 2, in_cur i + a + 2 + length arg))) i1)"
    "in_cur i1 = in_cur i + a + length arg + b + 4" "same_window i i1"
proof -
  obtain i1 where i1: "leads (Next kw i) (Next ar i1)" "in_cur i1 = in_cur i + Suc a + length arg" "same_window i i1"
    "in_yyt1 i1 = in_cur i + Suc a + 1" "sees i1 (replicate b 32 @ [13, 10])" "pos_ok (Next ar i1)"
    by (rule argument [OF pos arg see])
  obtain i2 where i2: "leads (Next ar i1) (Next acc i2)" "in_cur i2 = in_cur i1 + b + 2" "same_window i1 i2"
    "in_yyt1 i2 = in_yyt1 i1" "in_yyt2 i2 = in_cur i1 + 1" "pos_ok (Next acc i2)"
    by (rule line_end [OF i1(6,5)])
  let ?i = "i2\<lparr>in_cur := in_cur i2 + 1, in_state := -1\<rparr>"
  have "yy_enter (yytable ! acc) i2 = Inr (Final (Result cmd (Some (in_yyt1 i2, in_yyt2 i2))) ?i)"
    by (simp add: acc_ok yy_enter_def yy_args_def)
  then have "leads (Next acc i2) (Final (Result cmd (Some (in_yyt1 i2, in_yyt2 i2))) ?i)"
    using i2(6) by (intro leads_step) auto
  from leads_trans [OF leads_trans [OF i1(1) i2(1)] this] show thesis
    using that [of ?i] i1(2,3,4) i2(2,3,4,5) by (simp add: same_window_def)
qed

lemma whole_line:
  assumes "line_start cond i" and "yytable ! yy0 i = Scan Stay f tab d" "yylook tab d c1 = Go k1"
    and "goes k1 ks = Some kw" and "arg \<noteq> []" "\<forall>c\<in>set arg. argc c"
    and "pending i = (c1 # ks @ replicate (Suc a) 32 @ arg @ replicate b 32 @ [13, 10]) @ rest"
  shows "\<exists>i'. parseMgmtRequest i = Inr (Some (cmd,
      Some (Some (in_tok i + length ks + a + 2), length arg, length ks + a + length arg + b + 4), i'))
    \<and> line_start cond i' \<and> pending i' = rest"
proof (rule argument_line [OF assms(1-4) _ assms(7)])
  show "arg_result kw cmd a arg b" unfolding arg_result_def using command [OF _ assms(5,6)] by metis
qed

end

text \<open>A command whose argument is one of a few words, with the line end right behind it.\<close>

locale word_command =
  fixes kw sp cr acc :: nat and word :: "byte list \<Rightarrow> bool" and cmd :: MgmtCommand
  assumes kw_sp: "delta kw 32 = Some (Go sp)" and sp_sp: "delta sp 32 = Some (Go sp)"
    and word_path: "word w \<Longrightarrow> \<exists>c cs k e. w = c # cs \<and> delta sp c = Some (Tag1_go k) \<and> goes k cs = Some e \<and> delta e 13 = Some (Go cr)"
    and cr_lf: "delta cr 10 = Some (Go acc)" and acc_ok: "yytable ! acc = Accept True Args_t1_cur cmd"
begin

lemma command: "word w \<Longrightarrow> arg_result kw cmd a w 0"
  unfolding arg_result_def
proof (intro allI impI, elim conjE)
  fix i assume w: "word w" and pos: "pos_ok (Next kw i)" and see: "sees i (replicate (Suc a) 32 @ w @ replicate 0 32 @ [13, 10])"
  obtain c cs k e where p: "w = c # cs" "delta sp c = Some (Tag1_go k)" "goes k cs = Some e" "delta e 13 = Some (Go cr)"
    using word_path [OF w] by blast
  have spaces: "goes kw (replicate (Suc a) 32) = Some sp"
    using kw_sp sp_sp goes_loop [of "replicate a 32" sp] by simp
  have see': "sees i (replicate (Suc a) 32 @ (c # cs) @ [13, 10])" using see p(1) by simp
  obtain i1 where i1: "leads (Next kw i) (Next e i1)" "in_cur i1 = in_cur i + Suc a + length (c # cs)" "same_window i i1"
    "in_yyt1 i1 = in_cur i + Suc a + 1" "sees i1 [13, 10]" "pos_ok (Next e i1)"
    by (rule tagged_argument [OF pos spaces p(2,3) see'])
  have "goes e [13, 10] = Some acc" using p(4) cr_lf by simp
  from goes_leads [OF i1(6) this, of "[]"] i1(5) obtain i2 where i2: "leads (Next e i1) (Next acc i2)"
    "in_cur i2 = in_cur i1 + length [13, 10 :: byte]" "untagged i1 i2" "pos_ok (Next acc i2)"
    by (auto simp del: pos_ok.simps)
  let ?i = "i2\<lparr>in_cur := in_cur i2 + 1, in_state := -1\<rparr>"
  have "yy_enter (yytable ! acc) i2 = Inr (Final (Result cmd (Some (in_yyt1 i2, in_cur i2 + 1 - 2))) ?i)"
    by (simp add: acc_ok yy_enter_def yy_args_def)
  then have "leads (Next acc i2) (Final (Result cmd (Some (in_yyt1 i2, in_cur i2 + 1 - 2))) ?i)"
    using i2(4) by (intro leads_step) auto
  from leads_trans [OF leads_trans [OF i1(1) i2(1)] this]
  show "\<exists>i1. leads (Next kw i) (Final (Result cmd (Some (in_cur i + a + 2, in_cur i + a + 2 + length w))) i1)
      \<and> in_cur i1 = in_cur i + a + length w + 0 + 4 \<and> same_window i i1"
    using i1(2,3,4) i2(2,3) p(1) by (intro exI [of _ ?i]) (auto simp: untagged_def same_window_def)
qed

end

section \<open>The commands with an argument\<close>

definition printable :: "byte \<Rightarrow> bool" where
  "printable c \<longleftrightarrow> 33 \<le> unat c \<and> unat c \<le> 127"

definition digit :: "byte \<Rightarrow> bool" where
  "digit c \<longleftrightarrow> 48 \<le> unat c \<and> unat c \<le> 57"

lemma arg_labels:
  "yytable ! 53 = yy53" "yytable ! 59 = yy59" "yytable ! 60 = yy60" "yytable ! 64 = yy64" "yytable ! 66 = yy66"
  "yytable ! 67 = yy67" "yytable ! 69 = yy69"
  "yytable ! 155 = yy155" "yytable ! 160 = yy160" "yytable ! 161 = yy161" "yytable ! 167 = yy167" "yytable ! 172 = yy172"
  "yytable ! 173 = yy173" "yytable ! 177 = yy177"
  "yytable ! 179 = yy179" "yytable ! 182 = yy182" "yytable ! 185 = yy185" "yytable ! 188 = yy188"
  "yytable ! 189 = yy189" "yytable ! 192 = yy192"
  unfolding yytable_def by simp_all

interpretation token_cmd: arg_command 53 59 64 67 66 69 printable MGMT_TOKEN
  by unfold_locales (auto simp: delta_def arg_labels yy_defs in_range_def printable_def)

interpretation add_user_cmd: arg_command 155 160 167 173 172 177 printable MGMT_ADD_USER
  by unfold_locales (auto simp: delta_def arg_labels yy_defs in_range_def printable_def)

interpretation set_buffsize_cmd: arg_command 179 182 185 189 188 192 digit MGMT_SET_BUFFSIZE
  by unfold_locales (auto simp: delta_def arg_labels yy_defs in_range_def digit_def)

section \<open>Keywords\<close>

lemma tolower_eq:
  "tolower c = x \<longleftrightarrow> c = x \<and> \<not> (65 \<le> x \<and> x \<le> 90) \<or> c = x - 32 \<and> 65 \<le> x - 32 \<and> x - 32 \<le> 90"
  by (auto simp: tolower_def split: if_splits)

lemma keyword_labels:
  "yytable ! 13 = yy13" "yytable ! 27 = yy27" "yytable ! 37 = yy37" "yytable ! 45 = yy45"
  "yytable ! 81 = yy81" "yytable ! 88 = yy88" "yytable ! 95 = yy95" "yytable ! 102 = yy102"
  "yytable ! 106 = yy106" "yytable ! 113 = yy113" "yytable ! 116 = yy116" "yytable ! 122 = yy122"
  "yytable ! 125 = yy125" "yytable ! 132 = yy132" "yytable ! 136 = yy136" "yytable ! 142 = yy142"
  "yytable ! 147 = yy147" "yytable ! 151 = yy151" "yytable ! 158 = yy158" "yytable ! 165 = yy165"
  "yytable ! 170 = yy170" "yytable ! 175 = yy175"
  unfolding yytable_def by simp_all

text \<open>A property of bytes that holds of a lower-case letter and of its capital.\<close>

lemma either_case:
  "tolower c = x \<Longrightarrow> P x \<Longrightarrow> (65 \<le> x - 32 \<Longrightarrow> x - 32 \<le> 90 \<Longrightarrow> P (x - 32)) \<Longrightarrow> P c"
  using tolower_eq [of c x] by auto

text \<open>The transitions along the three keywords, in either case.\<close>

lemma keyword_delta:
  "tolower c = 111 \<Longrightarrow> delta 13 c = Some (Go 27)"
  "tolower c = 107 \<Longrightarrow> delta 27 c = Some (Go 37)"
  "tolower c = 101 \<Longrightarrow> delta 37 c = Some (Go 45)"
  "tolower c = 110 \<Longrightarrow> delta 45 c = Some (Go 53)"
  "tolower c = 100 \<Longrightarrow> delta 81 c = Some (Go 95)"
  "tolower c = 100 \<Longrightarrow> delta 95 c = Some (Go 106)"
  "tolower c = 45 \<Longrightarrow> delta 106 c = Some (Go 116)"
  "tolower c = 117 \<Longrightarrow> delta 116 c = Some (Go 125)"
  "tolower c = 115 \<Longrightarrow> delta 125 c = Some (Go 136)"
  "tolower c = 101 \<Longrightarrow> delta 136 c = Some (Go 147)"
  "tolower c = 114 \<Longrightarrow> delta 147 c = Some (Go 155)"
  "tolower c = 101 \<Longrightarrow> delta 88 c = Some (Go 102)"
  "tolower c = 116 \<Longrightarrow> delta 102 c = Some (Go 113)"
  "tolower c = 45 \<Longrightarrow> delta 113 c = Some (Go 122)"
  "tolower c = 98 \<Longrightarrow> delta 122 c = Some (Go 132)"
  "tolower c = 117 \<Longrightarrow> delta 132 c = Some (Go 142)"
  "tolower c = 102 \<Longrightarrow> delta 142 c = Some (Go 151)"
  "tolower c = 102 \<Longrightarrow> delta 151 c = Some (Go 158)"
  "tolower c = 115 \<Longrightarrow> delta 158 c = Some (Go 165)"
  "tolower c = 105 \<Longrightarrow> delta 165 c = Some (Go 170)"
  "tolower c = 122 \<Longrightarrow> delta 170 c = Some (Go 175)"
  "tolower c = 101 \<Longrightarrow> delta 175 c = Some (Go 179)"
  by (erule either_case; simp add: delta_def keyword_labels arg_labels yy_defs in_range_def)+

lemma keyword_goes:
  "letters ''oken'' ks \<Longrightarrow> goes 13 ks = Some 53"
  "letters ''dd-user'' ks \<Longrightarrow> goes 81 ks = Some 155"
  "letters ''et-buffsize'' ks \<Longrightarrow> goes 88 ks = Some 179"
  by (auto simp: letters_def bytes_of_def keyword_delta)

lemma entry_labels: "yytable ! 1 = yyc_pass" "yytable ! 76 = yyc_trns"
  unfolding yytable_def by simp_all

lemma entry_goes:
  "tolower c = 116 \<Longrightarrow> \<exists>f tab d. yytable ! 1 = Scan Stay f tab d \<and> yylook tab d c = Go 13"
  "tolower c = 97 \<Longrightarrow> \<exists>f tab d. yytable ! 76 = Scan Stay f tab d \<and> yylook tab d c = Go 81"
  "tolower c = 115 \<Longrightarrow> \<exists>f tab d. yytable ! 76 = Scan Stay f tab d \<and> yylook tab d c = Go 88"
  by (erule either_case; simp add: entry_labels yyc_pass_def yyc_trns_def in_range_def del: One_nat_def)+

text \<open>\<open>keyword spaces argument spaces CR LF\<close>.\<close>

definition arg_line :: "byte list \<Rightarrow> nat \<Rightarrow> byte list \<Rightarrow> nat \<Rightarrow> byte list" where
  "arg_line kw a arg b = kw @ replicate (Suc a) 32 @ arg @ replicate b 32 @ [13, 10]"

definition lexed :: "Input \<Rightarrow> MgmtCommand \<Rightarrow> byte list \<Rightarrow> nat \<Rightarrow> byte list \<Rightarrow> nat \<Rightarrow> byte list \<Rightarrow> bool" where
  "lexed i cmd kw a arg b rest \<longleftrightarrow> (\<exists>i'. parseMgmtRequest i = Inr (Some (cmd,
      Some (Some (in_tok i + length kw + Suc a), length arg, length (arg_line kw a arg b)), i'))
    \<and> line_start (in_cond i) i' \<and> pending i' = rest)"

lemma lexed_intro:
  assumes "line_start cond i" and "\<exists>i'. parseMgmtRequest i = Inr (Some (cmd,
      Some (Some (in_tok i + length ks + a + 2), length arg, length ks + a + length arg + b + 4), i'))
    \<and> line_start cond i' \<and> pending i' = rest"
  shows "lexed i cmd (c # ks) a arg b rest"
  using assms by (auto simp: lexed_def arg_line_def line_start_def)

lemma lex_token:
  assumes st: "line_start yycpass i" and line: "pending i = arg_line kw a arg b @ rest"
    and kw: "letters ''token'' kw" and arg: "arg \<noteq> []" "\<forall>c\<in>set arg. printable c"
  shows "lexed i MGMT_TOKEN kw a arg b rest"
proof -
  obtain c ks where ks: "kw = c # ks" "tolower c = 116" "letters ''oken'' ks"
    using kw by (auto simp: letters_def bytes_of_def)
  obtain f tab d where e: "yytable ! yy0 i = Scan Stay f tab d" "yylook tab d c = Go 13"
    using entry_goes(1) [OF ks(2)] yy0_at(1) [OF st] by auto
  show ?thesis
    unfolding ks(1) using line ks(1)
    by (intro lexed_intro [OF st] token_cmd.whole_line [OF st e keyword_goes(1) [OF ks(3)] arg]) (simp add: arg_line_def)
qed

lemma lex_add_user:
  assumes st: "line_start yyctrns i" and line: "pending i = arg_line kw a arg b @ rest"
    and kw: "letters ''add-user'' kw" and arg: "arg \<noteq> []" "\<forall>c\<in>set arg. printable c"
  shows "lexed i MGMT_ADD_USER kw a arg b rest"
proof -
  obtain c ks where ks: "kw = c # ks" "tolower c = 97" "letters ''dd-user'' ks"
    using kw by (auto simp: letters_def bytes_of_def)
  obtain f tab d where e: "yytable ! yy0 i = Scan Stay f tab d" "yylook tab d c = Go 81"
    using entry_goes(2) [OF ks(2)] yy0_at(2) [OF st] by auto
  show ?thesis
    unfolding ks(1) using line ks(1)
    by (intro lexed_intro [OF st] add_user_cmd.whole_line [OF st e keyword_goes(2) [OF ks(3)] arg]) (simp add: arg_line_def)
qed

lemma lex_set_buffsize:
  assumes st: "line_start yyctrns i" and line: "pending i = arg_line kw a arg b @ rest"
    and kw: "letters ''set-buffsize'' kw" and arg: "arg \<noteq> []" "\<forall>c\<in>set arg. digit c"
  shows "lexed i MGMT_SET_BUFFSIZE kw a arg b rest"
proof -
  obtain c ks where ks: "kw = c # ks" "tolower c = 115" "letters ''et-buffsize'' ks"
    using kw by (auto simp: letters_def bytes_of_def)
  obtain f tab d where e: "yytable ! yy0 i = Scan Stay f tab d" "yylook tab d c = Go 88"
    using entry_goes(3) [OF ks(2)] yy0_at(2) [OF st] by auto
  show ?thesis
    unfolding ks(1) using line ks(1)
    by (intro lexed_intro [OF st] set_buffsize_cmd.whole_line [OF st e keyword_goes(3) [OF ks(3)] arg]) (simp add: arg_line_def)
qed

section \<open>Keywords without an argument\<close>

lemma plain_labels:
  "yytable ! 7 = yy7" "yytable ! 11 = yy11" "yytable ! 21 = yy21" "yytable ! 25 = yy25"
  "yytable ! 31 = yy31" "yytable ! 35 = yy35" "yytable ! 40 = yy40" "yytable ! 43 = yy43"
  "yytable ! 47 = yy47" "yytable ! 50 = yy50" "yytable ! 55 = yy55" "yytable ! 58 = yy58"
  "yytable ! 82 = yy82" "yytable ! 83 = yy83" "yytable ! 87 = yy87" "yytable ! 89 = yy89"
  "yytable ! 96 = yy96" "yytable ! 97 = yy97" "yytable ! 101 = yy101" "yytable ! 103 = yy103"
  "yytable ! 104 = yy104" "yytable ! 107 = yy107" "yytable ! 108 = yy108" "yytable ! 112 = yy112"
  "yytable ! 114 = yy114" "yytable ! 115 = yy115" "yytable ! 117 = yy117" "yytable ! 118 = yy118"
  "yytable ! 121 = yy121" "yytable ! 123 = yy123" "yytable ! 124 = yy124" "yytable ! 126 = yy126"
  "yytable ! 127 = yy127" "yytable ! 131 = yy131" "yytable ! 134 = yy134" "yytable ! 135 = yy135"
  "yytable ! 137 = yy137" "yytable ! 138 = yy138" "yytable ! 141 = yy141" "yytable ! 144 = yy144"
  "yytable ! 145 = yy145" "yytable ! 146 = yy146" "yytable ! 148 = yy148" "yytable ! 153 = yy153"
  "yytable ! 154 = yy154" "yytable ! 156 = yy156" "yytable ! 162 = yy162" "yytable ! 163 = yy163"
  "yytable ! 168 = yy168" "yytable ! 94 = yy94" "yytable ! 130 = yy130"
  unfolding yytable_def by simp_all

interpretation stats_cmd: plain_command 134 134 144 153 MGMT_STATS
  by unfold_locales (simp_all add: delta_def plain_labels keyword_labels arg_labels yy_defs in_range_def)

interpretation users_cmd: plain_command 135 146 145 154 MGMT_USERS
  by unfold_locales (simp_all add: delta_def plain_labels keyword_labels arg_labels yy_defs in_range_def)

interpretation buffsize_cmd: plain_command 156 163 162 168 MGMT_GET_BUFFSIZE
  by unfold_locales (simp_all add: delta_def plain_labels keyword_labels arg_labels yy_defs in_range_def)

interpretation capa_cmd: plain_command 118 118 127 138 MGMT_CAPA
  by unfold_locales (simp_all add: delta_def plain_labels keyword_labels arg_labels yy_defs in_range_def)

interpretation quit_cmd: plain_command 121 121 131 141 MGMT_QUIT
  by unfold_locales (simp_all add: delta_def plain_labels keyword_labels arg_labels yy_defs in_range_def)

interpretation capa_pass_cmd: plain_command 40 40 47 55 MGMT_CAPA
  by unfold_locales (simp_all add: delta_def plain_labels keyword_labels arg_labels yy_defs in_range_def)

interpretation quit_pass_cmd: plain_command 43 43 50 58 MGMT_QUIT
  by unfold_locales (simp_all add: delta_def plain_labels keyword_labels arg_labels yy_defs in_range_def)

lemma plain_delta:
  "tolower c = 116 \<Longrightarrow> delta 88 c = Some (Go 103)"
  "tolower c = 97 \<Longrightarrow> delta 103 c = Some (Go 114)"
  "tolower c = 116 \<Longrightarrow> delta 114 c = Some (Go 123)"
  "tolower c = 115 \<Longrightarrow> delta 123 c = Some (Go 134)"
  "tolower c = 115 \<Longrightarrow> delta 89 c = Some (Go 104)"
  "tolower c = 101 \<Longrightarrow> delta 104 c = Some (Go 115)"
  "tolower c = 114 \<Longrightarrow> delta 115 c = Some (Go 124)"
  "tolower c = 115 \<Longrightarrow> delta 124 c = Some (Go 135)"
  "tolower c = 117 \<Longrightarrow> delta 82 c = Some (Go 96)"
  "tolower c = 102 \<Longrightarrow> delta 96 c = Some (Go 107)"
  "tolower c = 102 \<Longrightarrow> delta 107 c = Some (Go 117)"
  "tolower c = 115 \<Longrightarrow> delta 117 c = Some (Go 126)"
  "tolower c = 105 \<Longrightarrow> delta 126 c = Some (Go 137)"
  "tolower c = 122 \<Longrightarrow> delta 137 c = Some (Go 148)"
  "tolower c = 101 \<Longrightarrow> delta 148 c = Some (Go 156)"
  "tolower c = 97 \<Longrightarrow> delta 83 c = Some (Go 97)"
  "tolower c = 112 \<Longrightarrow> delta 97 c = Some (Go 108)"
  "tolower c = 97 \<Longrightarrow> delta 108 c = Some (Go 118)"
  "tolower c = 117 \<Longrightarrow> delta 87 c = Some (Go 101)"
  "tolower c = 105 \<Longrightarrow> delta 101 c = Some (Go 112)"
  "tolower c = 116 \<Longrightarrow> delta 112 c = Some (Go 121)"
  "tolower c = 97 \<Longrightarrow> delta 7 c = Some (Go 21)"
  "tolower c = 112 \<Longrightarrow> delta 21 c = Some (Go 31)"
  "tolower c = 97 \<Longrightarrow> delta 31 c = Some (Go 40)"
  "tolower c = 117 \<Longrightarrow> delta 11 c = Some (Go 25)"
  "tolower c = 105 \<Longrightarrow> delta 25 c = Some (Go 35)"
  "tolower c = 116 \<Longrightarrow> delta 35 c = Some (Go 43)"
  by (erule either_case; simp add: delta_def plain_labels keyword_labels arg_labels yy_defs in_range_def)+

lemma plain_goes:
  "letters ''tats'' ks \<Longrightarrow> goes 88 ks = Some 134"
  "letters ''sers'' ks \<Longrightarrow> goes 89 ks = Some 135"
  "letters ''uffsize'' ks \<Longrightarrow> goes 82 ks = Some 156"
  "letters ''apa'' ks \<Longrightarrow> goes 83 ks = Some 118"
  "letters ''uit'' ks \<Longrightarrow> goes 87 ks = Some 121"
  "letters ''apa'' ks \<Longrightarrow> goes 7 ks = Some 40"
  "letters ''uit'' ks \<Longrightarrow> goes 11 ks = Some 43"
  by (auto simp: letters_def bytes_of_def plain_delta)

lemma plain_entry:
  "tolower c = 115 \<Longrightarrow> \<exists>f tab d. yytable ! 76 = Scan Stay f tab d \<and> yylook tab d c = Go 88"
  "tolower c = 117 \<Longrightarrow> \<exists>f tab d. yytable ! 76 = Scan Stay f tab d \<and> yylook tab d c = Go 89"
  "tolower c = 98 \<Longrightarrow> \<exists>f tab d. yytable ! 76 = Scan Stay f tab d \<and> yylook tab d c = Go 82"
  "tolower c = 99 \<Longrightarrow> \<exists>f tab d. yytable ! 76 = Scan Stay f tab d \<and> yylook tab d c = Go 83"
  "tolower c = 113 \<Longrightarrow> \<exists>f tab d. yytable ! 76 = Scan Stay f tab d \<and> yylook tab d c = Go 87"
  "tolower c = 99 \<Longrightarrow> \<exists>f tab d. yytable ! 1 = Scan Stay f tab d \<and> yylook tab d c = Go 7"
  "tolower c = 113 \<Longrightarrow> \<exists>f tab d. yytable ! 1 = Scan Stay f tab d \<and> yylook tab d c = Go 11"
  by (erule either_case; simp add: entry_labels yyc_pass_def yyc_trns_def in_range_def del: One_nat_def)+

text \<open>The commands that are a keyword alone, with the condition they belong to.\<close>

lemma plain_accepted:
  "accepts yyctrns ''stats'' MGMT_STATS"
  "accepts yyctrns ''users'' MGMT_USERS"
  "accepts yyctrns ''buffsize'' MGMT_GET_BUFFSIZE"
  "accepts yyctrns ''capa'' MGMT_CAPA"
  "accepts yyctrns ''quit'' MGMT_QUIT"
  "accepts yycpass ''capa'' MGMT_CAPA"
  "accepts yycpass ''quit'' MGMT_QUIT"
  unfolding accepts_def
  subgoal by (rule stats_cmd.accepted [OF yy0_at(2) plain_entry(1) plain_goes(1)]) simp_all
  subgoal by (rule users_cmd.accepted [OF yy0_at(2) plain_entry(2) plain_goes(2)]) simp_all
  subgoal by (rule buffsize_cmd.accepted [OF yy0_at(2) plain_entry(3) plain_goes(3)]) simp_all
  subgoal by (rule capa_cmd.accepted [OF yy0_at(2) plain_entry(4) plain_goes(4)]) simp_all
  subgoal by (rule quit_cmd.accepted [OF yy0_at(2) plain_entry(5) plain_goes(5)]) simp_all
  subgoal by (rule capa_pass_cmd.accepted [OF yy0_at(1) plain_entry(6) plain_goes(6)]) simp_all
  subgoal by (rule quit_pass_cmd.accepted [OF yy0_at(1) plain_entry(7) plain_goes(7)]) simp_all
  done

section \<open>The commands of the dissector\<close>

lemma dissector_labels:
  "yytable ! 84 = yy84" "yytable ! 91 = yy91" "yytable ! 98 = yy98" "yytable ! 105 = yy105"
  "yytable ! 109 = yy109" "yytable ! 119 = yy119" "yytable ! 128 = yy128" "yytable ! 133 = yy133"
  "yytable ! 139 = yy139" "yytable ! 143 = yy143" "yytable ! 149 = yy149" "yytable ! 152 = yy152"
  "yytable ! 157 = yy157" "yytable ! 159 = yy159" "yytable ! 164 = yy164" "yytable ! 166 = yy166"
  "yytable ! 169 = yy169" "yytable ! 171 = yy171" "yytable ! 174 = yy174" "yytable ! 176 = yy176"
  "yytable ! 178 = yy178" "yytable ! 180 = yy180" "yytable ! 181 = yy181" "yytable ! 183 = yy183"
  "yytable ! 184 = yy184" "yytable ! 186 = yy186" "yytable ! 187 = yy187" "yytable ! 190 = yy190"
  "yytable ! 191 = yy191" "yytable ! 193 = yy193" "yytable ! 194 = yy194" "yytable ! 195 = yy195"
  "yytable ! 196 = yy196" "yytable ! 197 = yy197" "yytable ! 198 = yy198" "yytable ! 199 = yy199"
  "yytable ! 200 = yy200" "yytable ! 201 = yy201" "yytable ! 202 = yy202" "yytable ! 203 = yy203"
  "yytable ! 204 = yy204" "yytable ! 205 = yy205" "yytable ! 206 = yy206"
  unfolding yytable_def by simp_all

lemmas dissector_simps = delta_def dissector_labels plain_labels keyword_labels yy_defs in_range_def

text \<open>
  The status is only read when a space follows the keyword; without one the line is an unknown command.
\<close>

interpretation dissector_cmd: keyword_line 191 198 "\<lambda>b. 0 < b" MGMT_GET_DISSECTOR_STATUS
proof
  fix b :: nat assume "0 < b"
  then obtain k where b: "b = Suc k" by (cases b) auto
  have "delta 191 32 = Some (Go 194)" and sp: "delta 194 32 = Some (Go 194)" and "goes 194 [13, 10] = Some 198"
    by (simp_all add: dissector_simps)
  then show "goes 191 (replicate b 32 @ [13, 10]) = Some 198"
    using goes_append [OF goes_loop, of "replicate k 32" 194 "[13, 10]"] by (simp add: b)
qed (simp add: dissector_simps)

interpretation bare_dissector_cmd: keyword_line 191 105 "\<lambda>b. b = 0" MGMT_INVALID_CMD
  by unfold_locales (simp_all add: dissector_simps)

text \<open>The new status is a word in lower case, with nothing behind it.\<close>

definition status_word :: "byte list \<Rightarrow> bool" where
  "status_word w \<longleftrightarrow> w = bytes_of ''on'' \<or> w = bytes_of ''off''"

interpretation set_dissector_cmd: word_command 200 201 205 206 status_word MGMT_SET_DISSECTOR_STATUS
proof
  fix w assume "status_word w"
  then show "\<exists>c cs k e. w = c # cs \<and> delta 201 c = Some (Tag1_go k) \<and> goes k cs = Some e \<and> delta e 13 = Some (Go 205)"
    by (intro exI [of _ "hd w"] exI [of _ "tl w"] exI [of _ 202] exI [of _ 204])
      (auto simp: status_word_def bytes_of_def dissector_simps)
qed (simp_all add: dissector_simps)

lemma dissector_delta:
  "tolower c = 105 \<Longrightarrow> delta 84 c = Some (Go 98)"
  "tolower c = 115 \<Longrightarrow> delta 98 c = Some (Go 109)"
  "tolower c = 115 \<Longrightarrow> delta 109 c = Some (Go 119)"
  "tolower c = 101 \<Longrightarrow> delta 119 c = Some (Go 128)"
  "tolower c = 99 \<Longrightarrow> delta 128 c = Some (Go 139)"
  "tolower c = 116 \<Longrightarrow> delta 139 c = Some (Go 149)"
  "tolower c = 111 \<Longrightarrow> delta 149 c = Some (Go 157)"
  "tolower c = 114 \<Longrightarrow> delta 157 c = Some (Go 164)"
  "tolower c = 45 \<Longrightarrow> delta 164 c = Some (Go 169)"
  "tolower c = 115 \<Longrightarrow> delta 169 c = Some (Go 174)"
  "tolower c = 116 \<Longrightarrow> delta 174 c = Some (Go 178)"
  "tolower c = 97 \<Longrightarrow> delta 178 c = Some (Go 181)"
  "tolower c = 116 \<Longrightarrow> delta 181 c = Some (Go 184)"
  "tolower c = 117 \<Longrightarrow> delta 184 c = Some (Go 187)"
  "tolower c = 115 \<Longrightarrow> delta 187 c = Some (Go 191)"
  "tolower c = 100 \<Longrightarrow> delta 122 c = Some (Go 133)"
  "tolower c = 105 \<Longrightarrow> delta 133 c = Some (Go 143)"
  "tolower c = 115 \<Longrightarrow> delta 143 c = Some (Go 152)"
  "tolower c = 115 \<Longrightarrow> delta 152 c = Some (Go 159)"
  "tolower c = 101 \<Longrightarrow> delta 159 c = Some (Go 166)"
  "tolower c = 99 \<Longrightarrow> delta 166 c = Some (Go 171)"
  "tolower c = 116 \<Longrightarrow> delta 171 c = Some (Go 176)"
  "tolower c = 111 \<Longrightarrow> delta 176 c = Some (Go 180)"
  "tolower c = 114 \<Longrightarrow> delta 180 c = Some (Go 183)"
  "tolower c = 45 \<Longrightarrow> delta 183 c = Some (Go 186)"
  "tolower c = 115 \<Longrightarrow> delta 186 c = Some (Go 190)"
  "tolower c = 116 \<Longrightarrow> delta 190 c = Some (Go 193)"
  "tolower c = 97 \<Longrightarrow> delta 193 c = Some (Go 195)"
  "tolower c = 116 \<Longrightarrow> delta 195 c = Some (Go 197)"
  "tolower c = 117 \<Longrightarrow> delta 197 c = Some (Go 199)"
  "tolower c = 115 \<Longrightarrow> delta 199 c = Some (Go 200)"
  by (erule either_case; simp add: dissector_simps)+

lemma dissector_goes:
  "letters ''issector-status'' ks \<Longrightarrow> goes 84 ks = Some 191"
  "letters ''et-dissector-status'' ks \<Longrightarrow> goes 88 ks = Some 200"
  by (auto simp: letters_def bytes_of_def keyword_delta dissector_delta)

lemma dissector_entry: "tolower c = 100 \<Longrightarrow> \<exists>f tab d. yytable ! 76 = Scan Stay f tab d \<and> yylook tab d c = Go 84"
  by (erule either_case; simp add: entry_labels yyc_trns_def in_range_def)

lemma dissector_accepted:
  "accepts_after (\<lambda>b. 0 < b) yyctrns ''dissector-status'' MGMT_GET_DISSECTOR_STATUS"
  "accepts_after (\<lambda>b. b = 0) yyctrns ''dissector-status'' MGMT_INVALID_CMD"
  subgoal by (rule dissector_cmd.accepted [OF yy0_at(2) dissector_entry dissector_goes(1)]) simp_all
  subgoal by (rule bare_dissector_cmd.accepted [OF yy0_at(2) dissector_entry dissector_goes(1)]) simp_all
  done

lemma lex_set_dissector:
  assumes st: "line_start yyctrns i" and line: "pending i = arg_line kw a w 0 @ rest"
    and kw: "letters ''set-dissector-status'' kw" and w: "status_word w"
  shows "lexed i MGMT_SET_DISSECTOR_STATUS kw a w 0 rest"
proof -
  obtain c ks where ks: "kw = c # ks" "tolower c = 115" "letters ''et-dissector-status'' ks"
    using kw by (auto simp: letters_def bytes_of_def)
  obtain f tab d where e: "yytable ! yy0 i = Scan Stay f tab d" "yylook tab d c = Go 88"
    using entry_goes(3) [OF ks(2)] yy0_at(2) [OF st] by auto
  show ?thesis
    unfolding ks(1) using line ks(1)
    by (intro lexed_intro [OF st] argument_line [OF st e dissector_goes(2) [OF ks(3)] set_dissector_cmd.command [OF w]])
      (simp add: arg_line_def)
qed

text \<open>The commands with an argument, in the same way: \<open>ok arg b\<close> says which arguments and how many spaces behind them.\<close>

definition accepts_arg :: "nat \<Rightarrow> string \<Rightarrow> (byte list \<Rightarrow> nat \<Rightarrow> bool) \<Rightarrow> MgmtCommand \<Rightarrow> bool" where
  "accepts_arg cond name ok cmd \<longleftrightarrow> (\<forall>i kw a arg b rest.
     line_start cond i \<and> letters name kw \<and> ok arg b \<and> pending i = arg_line kw a arg b @ rest \<longrightarrow> lexed i cmd kw a arg b rest)"

lemma arguments_accepted:
  "accepts_arg yycpass ''token'' (\<lambda>arg _. arg \<noteq> [] \<and> (\<forall>c\<in>set arg. printable c)) MGMT_TOKEN"
  "accepts_arg yyctrns ''add-user'' (\<lambda>arg _. arg \<noteq> [] \<and> (\<forall>c\<in>set arg. printable c)) MGMT_ADD_USER"
  "accepts_arg yyctrns ''set-buffsize'' (\<lambda>arg _. arg \<noteq> [] \<and> (\<forall>c\<in>set arg. digit c)) MGMT_SET_BUFFSIZE"
  "accepts_arg yyctrns ''set-dissector-status'' (\<lambda>arg b. arg \<in> {bytes_of ''on'', bytes_of ''off''} \<and> b = 0) MGMT_SET_DISSECTOR_STATUS"
  unfolding accepts_arg_def by (simp_all add: lex_token lex_add_user lex_set_buffsize lex_set_dissector status_word_def)

end
