(* ===== verification/Mgmt.thy ===== *)
theory Mgmt
  imports Socks_World Mgmt_Commands
begin

text \<open>
  \<open>src/mgmt.c\<close>: the management server. A connection sends lines; \<open>processMgmtClient\<close> takes the
  commands out of the input window with the lexer, executes them on the settings, counters, users
  and tokens, and queues the answers in \<open>write_buf\<close>, or in \<open>pending_buf\<close> when an answer does not
  fit, which stops the interpretation until it has been moved.
\<close>

section \<open>Formatting\<close>

definition CRLF :: "byte list" where "CRLF = [13, 10]"
definition success_status :: "byte list" where "success_status = bytes_of ''+OK''"
definition error_status :: "byte list" where "error_status = bytes_of ''-ERR''"

text \<open>
  \<open>snprintf(response_buf, MGMT_BUFFSIZE, ...)\<close> of the formatted text \<open>s\<close>: the return value is the
  length of the whole text, the buffer holds what fits in front of the NUL.
\<close>

definition snprintf :: "byte list \<Rightarrow> nat \<times> byte list" where
  "snprintf s = (length s, take (MGMT_BUFFSIZE - 1) s)"

text \<open>\<open>strcat(response_buf, s)\<close>.\<close>

definition strcat :: "byte list \<Rightarrow> byte list \<Rightarrow> byte list run" where
  "strcat dst s = (if length dst + length s < MGMT_BUFFSIZE then Inr (dst @ s) else Inl Out_of_bounds)"

section \<open>The answers\<close>

definition hello_text :: "byte list" where
  "hello_text = success_status
     @ bytes_of '' mgmt server ready. Authenticate using TOKEN to access all functionalities'' @ CRLF"

definition invalid_cmd_text :: "byte list" where
  "invalid_cmd_text = error_status @ bytes_of '' Invalid command for this stage '' @ CRLF"

definition invalid_arg_text :: "byte list" where
  "invalid_arg_text = error_status @ bytes_of '' Invalid arguments for command'' @ CRLF"

definition correct_password_text :: "byte list" where
  "correct_password_text = success_status @ bytes_of '' Welcome!'' @ CRLF"

definition incorrect_password_text :: "byte list" where
  "incorrect_password_text = error_status @ bytes_of '' Incorrect password - try again'' @ CRLF"

definition quit_text :: "byte list" where
  "quit_text = success_status @ bytes_of '' Quitting...'' @ CRLF"

definition stats_text :: "server_state \<Rightarrow> byte list" where
  "stats_text s = success_status
     @ bytes_of '' Showing stats (B)yte (H)istorical connections (C)urrent connections...'' @ CRLF
     @ bytes_of ''B'' @ show_nat (unat (get_transferred_bytes s)) @ CRLF
     @ bytes_of ''H'' @ show_nat (unat (get_all_connections s)) @ CRLF
     @ bytes_of ''C'' @ show_nat (unat (get_current_clients s)) @ CRLF @ bytes_of ''.'' @ CRLF"

text \<open>\<open>%d\<close> is given the \<open>size_t\<close>: it takes the low 32 bits.\<close>

definition buffsize_text :: "server_state \<Rightarrow> byte list" where
  "buffsize_text s = success_status @ bytes_of '' '' @ CRLF
     @ show_int (sint (ucast (get_buffsize s) :: 32 word)) @ CRLF @ bytes_of ''.'' @ CRLF"

definition set_buffsize_text :: "byte list" where
  "set_buffsize_text = success_status @ bytes_of '' Buffsize updated '' @ CRLF"

definition set_buffsize_error_text :: "byte list" where
  "set_buffsize_error_text = error_status @ bytes_of '' Error updating buffsize '' @ CRLF"

definition dissector_status_text :: "server_state \<Rightarrow> byte list" where
  "dissector_status_text s = success_status @ bytes_of '' '' @ CRLF
     @ bytes_of (if get_dissector_state s then ''on'' else ''off'') @ CRLF @ bytes_of ''.'' @ CRLF"

definition set_dissector_status_text :: "byte list" where
  "set_dissector_status_text = success_status @ bytes_of '' Dissector status updated '' @ CRLF"

definition set_dissector_status_error_text :: "byte list" where
  "set_dissector_status_error_text = error_status @ bytes_of '' Error updating dissector status '' @ CRLF"

definition add_user_text :: "byte list \<Rightarrow> byte list" where
  "add_user_text arg = success_status @ bytes_of '' Added user '' @ arg @ CRLF"

definition add_user_error_text :: "byte list \<Rightarrow> byte list" where
  "add_user_error_text arg = error_status @ bytes_of '' Error adding user '' @ arg @ CRLF"

definition capa_message :: "byte list" where
  "capa_message = bytes_of ''+OK '' @ CRLF @ bytes_of ''TOKEN'' @ CRLF @ bytes_of ''USERS'' @ CRLF
     @ bytes_of ''STATS'' @ CRLF @ bytes_of ''BUFFSIZE'' @ CRLF @ bytes_of ''SET-BUFFSIZE'' @ CRLF
     @ bytes_of ''DISSECTOR-STATUS'' @ CRLF @ bytes_of ''SET-DISSECTOR-STATUS'' @ CRLF @ bytes_of ''.'' @ CRLF"

definition users_header :: "byte list" where
  "users_header = success_status @ bytes_of '' Listing users... '' @ CRLF"

text \<open>The loop over the user table.\<close>

fun list_users :: "user list \<Rightarrow> byte list \<Rightarrow> byte list run" where
  "list_users [] buf = strcat buf (bytes_of ''.'' @ CRLF)"
| "list_users (u # us) buf =
     bindE (strcat buf (cstr (username u))) (\<lambda>b1. bindE (strcat b1 CRLF) (list_users us))"

section \<open>Arguments\<close>

text \<open>
  \<open>arg[argLen] = NUL\<close>: the address is computed modulo the width of a pointer. The text of the
  argument is what precedes the first NUL from \<open>arg\<close> on.
\<close>

definition end_arg :: "nat option \<Rightarrow> nat \<Rightarrow> Input \<Rightarrow> (nat \<times> Input) run" where
  "end_arg arg argLen i =
     (case arg of
        None \<Rightarrow> Inl Null_deref
      | Some a \<Rightarrow> bindE (mem_write ((a + argLen) mod 2 ^ 64) [0] (in_buf i)) (\<lambda>b. Inr (a, i\<lparr>in_buf := b\<rparr>)))"

definition arg_text :: "nat \<Rightarrow> Input \<Rightarrow> byte list run" where
  "arg_text a i = (if 0 \<in> set (drop a (in_buf i)) then Inr (cstr (drop a (in_buf i))) else Inl Out_of_bounds)"

text \<open>\<open>(int) strtol(s, NULL, 10)\<close>: the value is clamped to \<open>long\<close> and then cut to 32 bits.\<close>

definition atoi :: "byte list \<Rightarrow> int" where
  "atoi s = signed_take_bit 31 (fst (strtol s))"

section \<open>Executing a command\<close>

definition MIN_SOCKS_BUFFSIZE :: "64 word" where "MIN_SOCKS_BUFFSIZE = 512"
definition MAX_SOCKS_BUFFSIZE :: "64 word" where "MAX_SOCKS_BUFFSIZE = 10241"

text \<open>
  The cases of the \<open>switch\<close> that have an argument. Each gives the input window with the bytes it
  overwrote, the server state, the user table, the authentication result and the formatted answer.
\<close>

definition do_token :: "nat option \<Rightarrow> nat \<Rightarrow> mgmt_client \<Rightarrow> world \<Rightarrow> (mgmt_client \<times> world \<times> nat \<times> byte list) run" where
  "do_token arg argLen c w =
     bindE (end_arg arg argLen (input c)) (\<lambda>(a, i).
     bindE (arg_text a i) (\<lambda>tok.
     if check_token tok (w_tokens w)
     then Inr (c\<lparr>input := i\<lparr>in_cond := yyctrns\<rparr>\<rparr>, w, snprintf correct_password_text)
     else Inr (c\<lparr>input := i\<rparr>, w, snprintf incorrect_password_text)))"

definition do_set_buffsize :: "nat option \<Rightarrow> nat \<Rightarrow> mgmt_client \<Rightarrow> world \<Rightarrow> (mgmt_client \<times> world \<times> nat \<times> byte list) run" where
  "do_set_buffsize arg argLen c w =
     bindE (end_arg arg argLen (input c)) (\<lambda>(a, i).
     bindE (arg_text a i) (\<lambda>s.
     let new_size = (word_of_int (atoi s) :: 64 word) in
     if new_size > MIN_SOCKS_BUFFSIZE \<and> new_size < MAX_SOCKS_BUFFSIZE
     then Inr (c\<lparr>input := i\<rparr>, w\<lparr>w_state := set_buffsize new_size (w_state w)\<rparr>, snprintf set_buffsize_text)
     else Inr (c\<lparr>input := i\<rparr>, w, snprintf set_buffsize_error_text)))"

definition do_set_dissector :: "nat option \<Rightarrow> nat \<Rightarrow> mgmt_client \<Rightarrow> world \<Rightarrow> (mgmt_client \<times> world \<times> nat \<times> byte list) run" where
  "do_set_dissector arg argLen c w =
     bindE (end_arg arg argLen (input c)) (\<lambda>(a, i).
     bindE (arg_text a i) (\<lambda>s.
     let low = map tolower s;
         c1 = c\<lparr>input := i\<lparr>in_buf := overwrite a low (in_buf i)\<rparr>\<rparr> in
     if low = bytes_of ''on''
     then Inr (c1, w\<lparr>w_state := set_dissector_state True (w_state w)\<rparr>, snprintf set_dissector_status_text)
     else if low = bytes_of ''off''
     then Inr (c1, w\<lparr>w_state := set_dissector_state False (w_state w)\<rparr>, snprintf set_dissector_status_text)
     else Inr (c1, w, snprintf set_dissector_status_error_text)))"

text \<open>\<open>add_user\<close> cuts the argument in place at its first colon; the answer shows what is left.\<close>

definition do_add_user :: "nat option \<Rightarrow> nat \<Rightarrow> mgmt_client \<Rightarrow> world \<Rightarrow> (mgmt_client \<times> world \<times> nat \<times> byte list) run" where
  "do_add_user arg argLen c w =
     bindE (end_arg arg argLen (input c)) (\<lambda>(a, i).
     bindE (arg_text a i) (\<lambda>s.
     bindE (add_user s (w_users w)) (\<lambda>(ok, ut, left).
     let cut = (if 58 \<in> set s then overwrite (a + length left) [0] (in_buf i) else in_buf i);
         c1 = c\<lparr>input := i\<lparr>in_buf := cut\<rparr>\<rparr> in
     if ok then Inr (c1, w\<lparr>w_users := ut\<rparr>, snprintf (add_user_text left))
     else Inr (c1, w\<lparr>w_users := ut\<rparr>, snprintf (add_user_error_text left)))))"

definition do_users :: "mgmt_client \<Rightarrow> world \<Rightarrow> (mgmt_client \<times> world \<times> nat \<times> byte list) run" where
  "do_users c w =
     (let (response_len, buf) = snprintf users_header;
          (us, n) = get_users (w_users w)
      in bindE (list_users (take n us) buf) (\<lambda>r. Inr (c, w, response_len, r)))"

text \<open>The \<open>switch\<close>; \<open>None\<close> is its \<open>return false\<close>.\<close>

definition answer ::
  "MgmtCommand \<Rightarrow> nat option \<Rightarrow> nat \<Rightarrow> mgmt_client \<Rightarrow> world \<Rightarrow> (mgmt_client \<times> world \<times> nat \<times> byte list) option run" where
  "answer cmd arg argLen c w =
     (case cmd of
        MGMT_INCOMPLETE \<Rightarrow> Inr None
      | MGMT_INVALID_CMD \<Rightarrow> Inr (Some (c, w, snprintf invalid_cmd_text))
      | MGMT_INVALID_ARGS \<Rightarrow> Inr (Some (c, w, snprintf invalid_arg_text))
      | MGMT_CAPA \<Rightarrow> Inr (Some (c, w, snprintf capa_message))
      | MGMT_TOKEN \<Rightarrow> bindE (do_token arg argLen c w) (\<lambda>r. Inr (Some r))
      | MGMT_STATS \<Rightarrow> Inr (Some (c, w, snprintf (stats_text (w_state w))))
      | MGMT_USERS \<Rightarrow> bindE (do_users c w) (\<lambda>r. Inr (Some r))
      | MGMT_GET_BUFFSIZE \<Rightarrow> Inr (Some (c, w, snprintf (buffsize_text (w_state w))))
      | MGMT_SET_BUFFSIZE \<Rightarrow> bindE (do_set_buffsize arg argLen c w) (\<lambda>r. Inr (Some r))
      | MGMT_GET_DISSECTOR_STATUS \<Rightarrow> Inr (Some (c, w, snprintf (dissector_status_text (w_state w))))
      | MGMT_SET_DISSECTOR_STATUS \<Rightarrow> bindE (do_set_dissector arg argLen c w) (\<lambda>r. Inr (Some r))
      | MGMT_ADD_USER \<Rightarrow> bindE (do_add_user arg argLen c w) (\<lambda>r. Inr (Some r))
      | MGMT_QUIT \<Rightarrow> Inr (Some (c\<lparr>quitted := True\<rparr>, w, snprintf quit_text)))"

definition write_response :: "buffer \<Rightarrow> byte list \<Rightarrow> (int \<times> buffer) run" where
  "write_response b response =
     bindE (buffer_write_ptr b) (\<lambda>(write_ptr, size).
     if length response > size then Inr (-1, b)
     else bindE (mem_write write_ptr response (buf_data b)) (\<lambda>d.
          bindE (buffer_write_adv (b\<lparr>buf_data := d\<rparr>) (int (length response))) (\<lambda>b1.
          Inr (int (length response), b1))))"

definition copy_from_buf :: "buffer \<Rightarrow> buffer \<Rightarrow> (int \<times> buffer \<times> buffer) run" where
  "copy_from_buf dest src =
     bindE (buffer_write_ptr dest) (\<lambda>(dest_ptr, dest_capa).
     bindE (buffer_read_ptr src) (\<lambda>(src_ptr, src_size).
     if src_size > dest_capa then Inr (-1, dest, src)
     else bindE (mem_write dest_ptr (take src_size (drop src_ptr (buf_data src))) (buf_data dest)) (\<lambda>d.
          bindE (buffer_read_adv src (int src_size)) (\<lambda>src1.
          bindE (buffer_write_adv (dest\<lparr>buf_data := d\<rparr>) (int src_size)) (\<lambda>dest1.
          Inr (int src_size, dest1, src1))))))"

text \<open>
  The loop of \<open>processMgmtClient\<close>; \<open>None\<close> is the end of the fuel. The fuel given is one step for
  every byte in the window and two more.
\<close>

fun process_loop :: "nat \<Rightarrow> mgmt_client \<Rightarrow> world \<Rightarrow> (bool \<times> mgmt_client \<times> world) option run" where
  "process_loop 0 c w = Inr None"
| "process_loop (Suc fuel) c w =
     bindE (parseMgmtRequest (input c)) (\<lambda>r.
     case r of
       None \<Rightarrow> Inr None
     | Some (cmd, out, i) \<Rightarrow>
         let c1 = c\<lparr>input := i\<rparr> in
         if cmd = MGMT_INCOMPLETE then Inr (Some (True, c1, w))
         else
         bindE (buffer_write_ptr (write_buf c1)) (\<lambda>(_, space).
         let (arg, argLen) = (case out of None \<Rightarrow> (None, 0) | Some (a, l, _) \<Rightarrow> (a, l)) in
         bindE (answer cmd arg argLen c1 w) (\<lambda>ans.
         case ans of
           None \<Rightarrow> Inr (Some (False, c1, w))
         | Some (c2, w2, response_len, response) \<Rightarrow>
             if response_len > space
             then bindE (write_response (pending_buf c2) response) (\<lambda>(_, b).
                  Inr (Some (True, c2\<lparr>pending_buf := b\<rparr>, w2)))
             else bindE (write_response (write_buf c2) response) (\<lambda>(_, b).
                  process_loop fuel (c2\<lparr>write_buf := b\<rparr>) w2))))"

definition process_fuel :: "mgmt_client \<Rightarrow> nat" where
  "process_fuel c = length (pending (input c)) + 2"

definition processMgmtClient :: "mgmt_client \<Rightarrow> world \<Rightarrow> (bool \<times> mgmt_client \<times> world) option run" where
  "processMgmtClient c w = process_loop (process_fuel c) c w"

section \<open>The handlers\<close>

definition get_mgmt :: "key \<Rightarrow> world \<Rightarrow> (nat \<times> mgmt_client) run" where
  "get_mgmt k w =
     (case key_data k of
        Some (A_mgmt mid) \<Rightarrow> (case w_mgmt w mid of None \<Rightarrow> Inl Use_after_free | Some c \<Rightarrow> Inr (mid, c))
      | _ \<Rightarrow> Inl Null_deref)"

definition put_mgmt :: "nat \<Rightarrow> mgmt_client \<Rightarrow> world \<Rightarrow> world" where
  "put_mgmt mid c w = w\<lparr>w_mgmt := (w_mgmt w)(mid \<mapsto> c)\<rparr>"

text \<open>
  A client just allocated: its arrays and tag pointers hold whatever was in memory. \<open>in_buf\<close> is \<open>read_buf_raw\<close> together with the
  padding behind it, on which the sentinel of \<open>initState\<close> falls.
\<close>

definition create_mgmt_client :: "int \<Rightarrow> sysenv \<Rightarrow> mgmt_client option run" where
  "create_mgmt_client sock e =
     (if \<not> env_malloc e 0 then Inr None
      else let raw = env_junk e MGMT_BUFFSIZE;
               inp = \<lparr>in_buf = env_junk e (MGMT_BUFFSIZE + read_buf_padding), in_lim = env_wild e, in_cur = env_wild e,
                      in_mar = env_wild e, in_tok = env_wild e, in_yyt1 = env_wild e, in_yyt2 = env_wild e,
                      in_state = 0, in_cond = 0, in_bufSize = MGMT_BUFFSIZE\<rparr>
           in bindE (initState inp) (\<lambda>i.
              Inr (Some \<lparr>mc_fd = sock, write_buf = buffer_init MGMT_BUFFSIZE raw,
                         pending_buf = buffer_init MGMT_BUFFSIZE raw, input = i, quitted = False\<rparr>)))"

text \<open>Both failure paths release the client twice: \<open>handle_mgmt_close\<close> has already counted it out.\<close>

definition mgmt_give_up :: "int \<Rightarrow> nat option \<Rightarrow> world \<Rightarrow> world run" where
  "mgmt_give_up sock mid w =
     bindE (handle_mgmt_close \<lparr>key_fd = sock, key_data = map_option A_mgmt mid\<rparr> w) (\<lambda>w1.
     Inr (w1\<lparr>w_state := rm_mgmt_client (w_state w1)\<rparr>))"

definition mgmt_master_read_handler :: "key \<Rightarrow> world \<Rightarrow> world run" where
  "mgmt_master_read_handler k w =
     (let (ok, st) = add_mgmt_client (w_state w);
          w1 = w\<lparr>w_state := st\<rparr> in
      if \<not> ok then Inr w1
      else case env_accept (w_env w1) of
        Accept_err \<Rightarrow> Inr (w1\<lparr>w_state := rm_mgmt_client (w_state w1)\<rparr>)
      | Accept_ok sock addr len \<Rightarrow>
          bindE (create_mgmt_client sock (w_env w1)) (\<lambda>nc.
          case nc of
            None \<Rightarrow> mgmt_give_up sock None w1
          | Some c \<Rightarrow>
              let mid = w_next w1;
                  (_, hello) = snprintf hello_text in
              bindE (buffer_put hello (write_buf c)) (\<lambda>b.
              let w2 = put_mgmt mid (c\<lparr>write_buf := b\<rparr>) (w1\<lparr>w_next := mid + 1\<rparr>) in
              bindE (selector_register (\<lambda>_. True) zero_item sock (Some mgmt_handler) (OP_WRITE OR OP_READ)
                       (Some (A_mgmt mid)) w2) (\<lambda>(st, w3).
              if st \<noteq> SELECTOR_SUCCESS then mgmt_give_up sock (Some mid) w3 else Inr w3))))"

text \<open>
  \<open>checkEOF(fillBuffer(...))\<close>: \<open>checkEOF\<close> is a macro that names its argument twice, so the window is filled again whenever the
  first \<open>read\<close> did not return 0, and then only the second result counts.
\<close>

definition checkEOF_fillBuffer :: "sys_read \<Rightarrow> sys_read \<Rightarrow> Input \<Rightarrow> (bool \<times> Input) run" where
  "checkEOF_fillBuffer rd rd' i =
     bindE (fillBuffer rd i) (\<lambda>(count, _, i1).
     if count = 0 then Inr (True, i1)
     else bindE (fillBuffer rd' i1) (\<lambda>(count', err, i2). Inr (count' < 0 \<and> err \<noteq> EAGAIN, i2)))"

text \<open>In the handlers \<open>None\<close> is a run of \<open>processMgmtClient\<close> that does not end.\<close>

definition handle_mgmt_read :: "key \<Rightarrow> world \<Rightarrow> world option run" where
  "handle_mgmt_read k w =
     bindE (get_mgmt k w) (\<lambda>(mid, c).
     if buffer_can_read (pending_buf c) then Inr (Some w)
     else
     bindE (checkEOF_fillBuffer (env_read (w_env w)) (env_reread (w_env w)) (input c)) (\<lambda>(eof, i).
     let c1 = c\<lparr>input := i\<rparr>;
         w1 = put_mgmt mid c1 w in
     if eof
     then bindE (unregister (mc_fd c) w1) (\<lambda>(_, w2). Inr (Some w2))
     else
     bindE (processMgmtClient c1 w1) (\<lambda>r.
     case r of
       None \<Rightarrow> Inr None
     | Some (_, c2, w2) \<Rightarrow>
         bindE (selector_set_interest (mc_fd c) (OP_WRITE OR OP_READ) (put_mgmt mid c2 w2)) (\<lambda>(_, w3).
         Inr (Some w3)))))"

text \<open>\<open>pending_buf\<close> is moved to \<open>write_buf\<close>; if that frees it, the waiting commands are processed.\<close>

definition move_pending :: "mgmt_client \<Rightarrow> world \<Rightarrow> (mgmt_client \<times> world) option run" where
  "move_pending c w =
     (if buffer_can_read (pending_buf c)
      then bindE (copy_from_buf (write_buf c) (pending_buf c)) (\<lambda>(n, wb, pb).
           let c1 = c\<lparr>write_buf := wb, pending_buf := pb\<rparr> in
           if n > 0 then bindE (processMgmtClient c1 w) (\<lambda>r. Inr (map_option (\<lambda>(_, c2, w2). (c2, w2)) r))
           else Inr (Some (c1, w)))
      else Inr (Some (c, w)))"

definition handle_mgmt_write :: "key \<Rightarrow> world \<Rightarrow> world option run" where
  "handle_mgmt_write k w =
     bindE (get_mgmt k w) (\<lambda>(mid, c).
     if \<not> buffer_can_read (write_buf c) \<and> \<not> buffer_can_read (pending_buf c)
     then bindE (selector_set_interest (key_fd k) OP_READ w) (\<lambda>(_, w1). Inr (Some w1))
     else
     bindE (move_pending c w) (\<lambda>r.
     case r of
       None \<Rightarrow> Inr None
     | Some (c1, w1) \<Rightarrow>
         bindE (write_to_sock (env_send (w_env w1)) (write_buf c1)) (\<lambda>(bytes_left, err, b).
         let w2 = put_mgmt mid (c1\<lparr>write_buf := b\<rparr>) w1 in
         if bytes_left < 0 \<or> (bytes_left = 0 \<and> quitted c1)
         then bindE (unregister (mc_fd c) w2) (\<lambda>(_, w3). Inr (Some w3))
         else Inr (Some w2))))"

end
