(* ===== verification/Lexer_Invariants.thy ===== *)
theory Lexer_Invariants
  imports Mgmt_Commands
begin

text \<open>
  Invariants of the management lexer that its callers rely on, beyond memory safety: a command
  that is returned has consumed at least one byte, the argument it points to lies inside the
  buffer, and before authentication only the commands of that stage are ever returned. The
  locale \<open>lex_invariant\<close> carries an invariant of the blocks over a whole call of
  \<open>parseMgmtRequest\<close>, also when the token is interrupted for more input; it is interpreted once
  for each of the three.
\<close>

section \<open>Invariants of a call\<close>

text \<open>
  \<open>at n i\<close> holds when the block of label \<open>n\<close> is entered, \<open>inside n i\<close> at its \<open>switch\<close>, \<open>waits i\<close>
  between calls, \<open>yields cmd a i\<close> when a command is returned.
\<close>

definition lex_holds ::
  "(nat \<Rightarrow> Input \<Rightarrow> bool) \<Rightarrow> (Input \<Rightarrow> bool) \<Rightarrow> (MgmtCommand \<Rightarrow> (nat \<times> nat) option \<Rightarrow> Input \<Rightarrow> bool) \<Rightarrow> yynext \<Rightarrow> bool" where
  "lex_holds at waits yields q =
     (case q of
        Next n i \<Rightarrow> at n i
      | Final Need_input i \<Rightarrow> waits i
      | Final (Result cmd a) i \<Rightarrow> yields cmd a i)"

definition acts :: "((nat \<times> nat) list \<times> yyact) list \<Rightarrow> yyact \<Rightarrow> yyact set" where
  "acts cs d = insert d (snd ` set cs)"

lemma scan_cases:
  assumes "yy_scan fill cs d i = Inr q"
  obtains a where "a \<in> acts cs d" "q = apply_act a i" | "q = Final Need_input (i\<lparr>in_state := int fill\<rparr>)"
proof -
  obtain c where "q = (case yylook cs d c of
            Go n \<Rightarrow> Next n i
          | Tag1_go n \<Rightarrow> Next n (i\<lparr>in_yyt1 := in_cur i\<rparr>)
          | Tag2_go n \<Rightarrow> Next n (i\<lparr>in_yyt2 := in_cur i\<rparr>)
          | Fill_go n \<Rightarrow> if in_lim i \<le> in_cur i then Final Need_input (i\<lparr>in_state := int fill\<rparr>) else Next n i)"
    using assms by (auto simp: yy_scan_def bindE_eq_Inr)
  moreover have "yylook cs d c \<in> acts cs d"
    using yylook_target by (simp add: acts_def)
  ultimately show thesis
    using that(1) [of "yylook cs d c"] that(2)
    by (cases "yylook cs d c") (auto simp: apply_act_def split: if_splits)
qed

locale lex_invariant =
  fixes at inside :: "nat \<Rightarrow> Input \<Rightarrow> bool" and waits :: "Input \<Rightarrow> bool"
    and yields :: "MgmtCommand \<Rightarrow> (nat \<times> nat) option \<Rightarrow> Input \<Rightarrow> bool"
  assumes pre_law: "n < 208 \<Longrightarrow> yytable ! n = Scan p f cs d \<Longrightarrow> at n i \<Longrightarrow> input_wf i \<Longrightarrow> inside n (yy_pre p i)"
    and act_law: "n < 208 \<Longrightarrow> yytable ! n = Scan p f cs d \<Longrightarrow> inside n i \<Longrightarrow> input_wf i \<Longrightarrow> a \<in> acts cs d \<Longrightarrow>
      lex_holds at waits yields (apply_act a i)"
    and wait_law: "n < 208 \<Longrightarrow> yytable ! n = Scan p f cs d \<Longrightarrow> inside n i \<Longrightarrow> waits (i\<lparr>in_state := int f\<rparr>)"
    and bump_law: "n < 208 \<Longrightarrow> yytable ! n = Bump m \<Longrightarrow> at n i \<Longrightarrow> at m (i\<lparr>in_cur := in_cur i + 1\<rparr>)"
    and back_law: "n < 208 \<Longrightarrow> yytable ! n = Back m \<Longrightarrow> at n i \<Longrightarrow> at m (i\<lparr>in_cur := in_mar i\<rparr>)"
    and accept_law: "n < 208 \<Longrightarrow> yytable ! n = Accept adv ar cmd \<Longrightarrow> at n i \<Longrightarrow> input_wf i \<Longrightarrow> (adv \<longrightarrow> in_cur i < in_lim i) \<Longrightarrow>
      i1 = (if adv then i\<lparr>in_cur := in_cur i + 1\<rparr> else i) \<Longrightarrow> yields cmd (yy_args ar i1) (i1\<lparr>in_state := -1\<rparr>)"
    and eof_law: "st < 176 \<Longrightarrow> waits i \<Longrightarrow> in_state i = int st \<Longrightarrow> at (yyfill_eof ! st) i"
    and resume_law: "st < 176 \<Longrightarrow> waits i \<Longrightarrow> in_state i = int st \<Longrightarrow> inside (yyfill_block ! st) i"
    and entry_law: "waits i \<Longrightarrow> in_state i < 0 \<or> 176 \<le> in_state i \<Longrightarrow> at (yy0 i) i"
    and again_law: "yields cmd r i \<Longrightarrow> waits (i\<lparr>in_tok := in_cur i, in_mar := in_cur i, in_state := -1\<rparr>)"
begin

lemma scan_holds:
  assumes "n < 208" and "yytable ! n = Scan p f cs d" and "inside n i" and "input_wf i" and "yy_scan f cs d i = Inr q"
  shows "lex_holds at waits yields q"
  using assms(5)
proof (cases rule: scan_cases)
  case (1 a)
  then show ?thesis using act_law [OF assms(1-4)] by simp
next
  case 2
  then show ?thesis using wait_law [OF assms(1-3)] by (simp add: lex_holds_def)
qed

lemma enter_holds:
  assumes pos: "pos_ok (Next n i)" and at: "at n i" and run: "yy_enter (yytable ! n) i = Inr q"
  shows "lex_holds at waits yields q"
proof -
  have n: "n < 208" and wf: "input_wf i" and room: "consumes (yytable ! n) \<Longrightarrow> in_cur i < in_lim i"
    using pos by auto
  show ?thesis
  proof (cases "yytable ! n")
    case (Scan p f cs d)
    have "input_wf (yy_pre p i)"
      using wf room Scan by (auto simp: yy_pre_def input_wf_def split: yypre.splits)
    then show ?thesis
      using scan_holds [OF n Scan pre_law [OF n Scan at wf]] run Scan by (simp add: yy_enter_def)
  next
    case (Bump m)
    then have "q = Next m (i\<lparr>in_cur := in_cur i + 1\<rparr>)" using run by (simp add: yy_enter_def)
    then show ?thesis using bump_law [OF n Bump at] by (simp add: lex_holds_def)
  next
    case (Back m)
    then have "q = Next m (i\<lparr>in_cur := in_mar i\<rparr>)" using run by (simp add: yy_enter_def)
    then show ?thesis using back_law [OF n Back at] by (simp add: lex_holds_def)
  next
    case (Accept adv a cmd)
    define i1 where "i1 = (if adv then i\<lparr>in_cur := in_cur i + 1\<rparr> else i)"
    have "q = Final (Result cmd (yy_args a i1)) (i1\<lparr>in_state := -1\<rparr>)"
      using run Accept by (simp add: yy_enter_def i1_def Let_def)
    then show ?thesis
      using accept_law [OF n Accept at wf _ i1_def] room Accept by (simp add: lex_holds_def)
  qed
qed

lemma loop_holds:
  assumes "pos_ok p" and "lex_holds at waits yields p" and "yy_loop fuel p = Inr (Some (r, i))"
  shows "lex_holds at waits yields (Final r i)"
  using assms
proof (induction fuel p rule: yy_loop.induct)
  case (3 fuel n i0)
  have n: "n < 208" using 3(2) by simp
  obtain q where q: "yy_enter (yytable ! n) i0 = Inr q" "pos_ok q"
    using enter_ok [OF 3(2)] by blast
  have "lex_holds at waits yields q"
    using enter_holds [OF 3(2) _ q(1)] 3(3) by (simp add: lex_holds_def)
  then show ?case
    using 3(1) [OF table_at(1) [OF n] q(1,2)] 3(4) q(1) table_at(1) [OF n] by simp
qed simp_all

lemma start_holds:
  assumes wf: "input_wf i" and w: "waits i" and run: "yy_start i = Inr q"
  shows "lex_holds at waits yields q"
proof (cases "in_state i < 0 \<or> 176 \<le> in_state i")
  case True
  then show ?thesis using run entry_law [OF w] by (auto simp: yy_start_def lex_holds_def)
next
  case False
  define st where "st = nat (in_state i)"
  have st: "st < 176" "in_state i = int st" using False by (auto simp: st_def)
  have n: "yyfill_block ! st < 208" "is_scan (yytable ! (yyfill_block ! st))"
    using fill_block_ok st by (auto simp: list_all_length)
  then obtain p f cs d where b: "yytable ! (yyfill_block ! st) = Scan p f cs d"
    by (auto elim: is_scan.elims(2))
  show ?thesis
  proof (cases "in_lim i \<le> in_cur i")
    case True
    then show ?thesis
      using run False eof_law [OF st(1) w st(2)] by (auto simp: yy_start_def lex_holds_def st_def Let_def)
  next
    case room: False
    then show ?thesis
      using run False b scan_holds [OF n(1) b resume_law [OF st(1) w st(2)] wf]
      by (auto simp: yy_start_def st_def Let_def)
  qed
qed

text \<open>What a call returns, and that the invariant holds for the next one.\<close>

lemma parse_holds:
  assumes wf: "input_wf i" and w: "waits i" and run: "parseMgmtRequest i = Inr (Some (cmd, out, i'))"
  shows "waits i'"
    and "out = Some (arg, argLen, len) \<Longrightarrow> \<exists>a i1. yields cmd a i1 \<and> arg = map_option fst a \<and> argLen = arg_size a
      \<and> len = in_cur i1 - in_tok i1 \<and> in_bufSize i1 = in_bufSize i \<and> in_cond i1 = in_cond i"
proof -
  obtain p where p: "yy_start i = Inr p" "pos_ok p" "same_window i (pos_input p)" "pos_cost p \<le> parse_fuel i"
    using start_ok [OF wf] by blast
  obtain r i1 where r: "yy_loop (parse_fuel i) p = Inr (Some (r, i1))" "pos_ok (Final r i1)" "same_window (pos_input p) i1"
    using loop_ok [OF p(2,4)] by blast
  have same: "same_window i i1" using same_window_trans [OF p(3) r(3)] .
  have h: "lex_holds at waits yields (Final r i1)"
    by (rule loop_holds [OF p(2) start_holds [OF wf w p(1)] r(1)])
  show "waits i'"
    using run p(1) r(1) h again_law
    by (cases r) (auto simp: parseMgmtRequest_def lex_holds_def Let_def)
  show "out = Some (arg, argLen, len) \<Longrightarrow> \<exists>a i1. yields cmd a i1 \<and> arg = map_option fst a \<and> argLen = arg_size a
      \<and> len = in_cur i1 - in_tok i1 \<and> in_bufSize i1 = in_bufSize i \<and> in_cond i1 = in_cond i"
    using run p(1) r(1) h same
    by (cases r) (auto simp: parseMgmtRequest_def lex_holds_def Let_def arg_size_def same_window_def intro!: exI [of _ i1])
qed

end

section \<open>Checks on the table\<close>

text \<open>A check of every block, with its label, gives a fact about each.\<close>

lemma enumerate_check:
  assumes "list_all (\<lambda>(n, b). P n b) (enumerate 0 xs)" and "n < length xs"
  shows "P n (xs ! n)"
proof -
  have "(n, xs ! n) \<in> set (enumerate 0 xs)"
    using assms(2) by (simp add: in_set_enumerate_eq)
  with assms(1) show ?thesis by (force simp: list_all_iff)
qed

lemma table_check: "list_all (\<lambda>(n, b). P n b) (enumerate 0 yytable) \<Longrightarrow> n < 208 \<Longrightarrow> P n (yytable ! n)"
  by (rule enumerate_check) simp_all

lemma acts_all: "list_all P (d # map snd cs) \<longleftrightarrow> (\<forall>a\<in>acts cs d. P a)"
  by (auto simp: acts_def list_all_iff)

lemma target_act: "lex_holds at waits yields (apply_act a i) \<longleftrightarrow>
    at (act_target a) (case a of Tag1_go _ \<Rightarrow> i\<lparr>in_yyt1 := in_cur i\<rparr> | Tag2_go _ \<Rightarrow> i\<lparr>in_yyt2 := in_cur i\<rparr> | _ \<Rightarrow> i)"
  by (cases a) (simp_all add: apply_act_def lex_holds_def)

section \<open>The two stages\<close>

text \<open>The labels before 76 and the fill states before 63 belong to the stage before authentication.\<close>

definition pass_commands :: "MgmtCommand list" where
  "pass_commands = [MGMT_INVALID_CMD, MGMT_INCOMPLETE, MGMT_TOKEN, MGMT_CAPA, MGMT_QUIT, MGMT_INVALID_ARGS]"

fun stage_block :: "nat \<Rightarrow> yyblock \<Rightarrow> bool" where
  "stage_block n (Scan p f cs d) \<longleftrightarrow> (f < 63 \<longleftrightarrow> n < 76) \<and> list_all (\<lambda>a. act_target a < 76 \<longleftrightarrow> n < 76) (d # map snd cs)"
| "stage_block n (Bump m) \<longleftrightarrow> (m < 76 \<longleftrightarrow> n < 76)"
| "stage_block n (Back m) \<longleftrightarrow> (m < 76 \<longleftrightarrow> n < 76)"
| "stage_block n (Accept adv a cmd) \<longleftrightarrow> (if n < 76 then cmd \<in> set pass_commands else cmd \<noteq> MGMT_TOKEN)"

lemma stage_check: "list_all (\<lambda>(n, b). stage_block n b) (enumerate 0 yytable)"
  unfolding yytable_def by (simp add: yy_defs pass_commands_def)

lemma stage_fills:
  assumes "st < 176"
  shows "yyfill_eof ! st < 76 \<longleftrightarrow> st < 63" and "yyfill_block ! st < 76 \<longleftrightarrow> st < 63"
proof -
  have "list_all (\<lambda>(k, n). n < 76 \<longleftrightarrow> k < 63) (enumerate 0 yyfill_eof)"
    "list_all (\<lambda>(k, n). n < 76 \<longleftrightarrow> k < 63) (enumerate 0 yyfill_block)"
    unfolding yyfill_eof_def yyfill_block_def by simp_all
  then show "yyfill_eof ! st < 76 \<longleftrightarrow> st < 63" and "yyfill_block ! st < 76 \<longleftrightarrow> st < 63"
    using assms by (auto simp: list_all_iff in_set_enumerate_eq)
qed

definition stage_at :: "nat \<Rightarrow> Input \<Rightarrow> bool" where
  "stage_at n i \<longleftrightarrow> in_cond i \<in> {yycpass, yyctrns} \<and> (n < 76 \<longleftrightarrow> in_cond i = yycpass)"

definition stage_waits :: "Input \<Rightarrow> bool" where
  "stage_waits i \<longleftrightarrow> in_cond i \<in> {yycpass, yyctrns}
     \<and> (0 \<le> in_state i \<and> in_state i < 176 \<longrightarrow> (in_state i < 63 \<longleftrightarrow> in_cond i = yycpass))"

definition stage_yields :: "MgmtCommand \<Rightarrow> (nat \<times> nat) option \<Rightarrow> Input \<Rightarrow> bool" where
  "stage_yields cmd a i \<longleftrightarrow> in_cond i \<in> {yycpass, yyctrns}
     \<and> (if in_cond i = yycpass then cmd \<in> set pass_commands else cmd \<noteq> MGMT_TOKEN)"

lemmas stage_defs = stage_at_def stage_waits_def stage_yields_def

interpretation stage: lex_invariant stage_at stage_at stage_waits stage_yields
proof
  fix n p f cs d i a
  assume n: "n < 208" and b: "yytable ! n = Scan p f cs d" and at: "stage_at n i"
  have ok: "stage_block n (Scan p f cs d)"
    using table_check [OF stage_check n] b by simp
  show "stage_at n (yy_pre p i)"
    using at by (cases p) (simp_all add: stage_at_def yy_pre_def)
  show "stage_waits (i\<lparr>in_state := int f\<rparr>)"
    using at ok by (auto simp: stage_defs)
  show "lex_holds stage_at stage_waits stage_yields (apply_act a i)" if "a \<in> acts cs d"
  proof -
    have "act_target a < 76 \<longleftrightarrow> n < 76"
      using ok that by (simp only: stage_block.simps acts_all)
    with at show ?thesis by (simp add: target_act stage_at_def split: yyact.splits)
  qed
next
  fix n m i
  assume n: "n < 208" and at: "stage_at n i"
  note ok = table_check [OF stage_check n]
  show "stage_at m (i\<lparr>in_cur := in_cur i + 1\<rparr>)" if "yytable ! n = Bump m"
    using ok that at by (simp add: stage_at_def)
  show "stage_at m (i\<lparr>in_cur := in_mar i\<rparr>)" if "yytable ! n = Back m"
    using ok that at by (simp add: stage_at_def)
  show "stage_yields cmd (yy_args ar i1) (i1\<lparr>in_state := -1\<rparr>)"
    if "yytable ! n = Accept adv ar cmd" "i1 = (if adv then i\<lparr>in_cur := in_cur i + 1\<rparr> else i)" for adv ar cmd i1
    using ok that at by (auto simp: stage_defs split: if_splits)
next
  fix st i
  assume "st < 176" "stage_waits i" "in_state i = int st"
  then show "stage_at (yyfill_eof ! st) i" "stage_at (yyfill_block ! st) i"
    by (auto simp: stage_defs stage_fills)
next
  fix i assume "stage_waits i"
  then show "stage_at (yy0 i) i"
    by (auto simp: stage_defs yy0_def yycpass_def yyctrns_def)
next
  fix cmd r i assume "stage_yields cmd r i"
  then show "stage_waits (i\<lparr>in_tok := in_cur i, in_mar := in_cur i, in_state := -1\<rparr>)"
    by (simp add: stage_defs)
qed

section \<open>Arguments\<close>

text \<open>The labels at which the first and the second tag have been set.\<close>

definition tag1 :: "nat \<Rightarrow> bool" where
  "tag1 n = (if n < 64 then False else if n < 70 then n \<notin> {65, 68} else if n < 167 then False else if n < 172 then n = 167
     else if n < 202 then n \<in> {172, 173, 177, 185, 188, 189, 192} else n \<le> 206)"

definition tag2 :: "nat \<Rightarrow> bool" where
  "tag2 n = (if n < 66 then False else if n < 70 then n \<noteq> 68 else if n < 172 then False
     else if n < 193 then n \<in> {172, 173, 177, 188, 189, 192} else False)"

text \<open>The fill states of these labels.\<close>

definition tag1_fill :: "nat \<Rightarrow> bool" where
  "tag1_fill f = (if f < 53 then False else f \<in> {53, 55, 56, 141, 145, 146, 157, 160, 161, 172, 173, 174, 175})"

definition tag2_fill :: "nat \<Rightarrow> bool" where
  "tag2_fill f = (if f < 55 then False else f \<in> {55, 56, 145, 146, 160, 161})"

fun sets1 :: "yyact \<Rightarrow> bool" where "sets1 (Tag1_go n) = True" | "sets1 _ = False"
fun sets2 :: "yyact \<Rightarrow> bool" where "sets2 (Tag2_go n) = True" | "sets2 _ = False"

definition arg_commands :: "MgmtCommand list" where
  "arg_commands = [MGMT_TOKEN, MGMT_SET_BUFFSIZE, MGMT_SET_DISSECTOR_STATUS, MGMT_ADD_USER]"

fun tag_block :: "nat \<Rightarrow> yyblock \<Rightarrow> bool" where
  "tag_block n (Scan p f cs d) \<longleftrightarrow>
     list_all (\<lambda>a. (tag1 (act_target a) \<longrightarrow> sets1 a \<or> tag1 n)
               \<and> (tag2 (act_target a) \<longrightarrow> sets2 a \<or> tag2 n)) (d # map snd cs)
     \<and> (tag1_fill f \<longrightarrow> tag1 n) \<and> (tag2_fill f \<longrightarrow> tag2 n)"
| "tag_block n (Bump m) \<longleftrightarrow> True"
| "tag_block n (Back m) \<longleftrightarrow> True"
| "tag_block n (Accept adv a cmd) \<longleftrightarrow> (a = No_args \<longleftrightarrow> cmd \<notin> set arg_commands)
     \<and> (a \<noteq> No_args \<longrightarrow> tag1 n) \<and> (a = Args_t1_t2 \<longrightarrow> tag2 n)"

lemma tag_check: "list_all (\<lambda>(n, b). tag_block n b) (enumerate 0 yytable)"
  unfolding yytable_def by (simp add: yy_defs tag1_def tag2_def tag1_fill_def tag2_fill_def arg_commands_def)

lemma untagged_ends:
  shows "m \<in> set end_labels \<Longrightarrow> \<not> tag1 m \<and> \<not> tag2 m"
    and "st < 176 \<Longrightarrow> \<not> tag1 (yyfill_eof ! st) \<and> \<not> tag2 (yyfill_eof ! st)"
proof -
  have "list_all (\<lambda>n. \<not> tag1 n \<and> \<not> tag2 n) yyfill_eof"
    unfolding yyfill_eof_def by (simp add: tag1_def tag2_def)
  then show "st < 176 \<Longrightarrow> \<not> tag1 (yyfill_eof ! st) \<and> \<not> tag2 (yyfill_eof ! st)"
    by (simp add: list_all_length)
qed (auto simp: end_labels_def tag1_def tag2_def)

lemma tag_fills:
  assumes "st < 176"
  shows "tag1 (yyfill_block ! st) \<longleftrightarrow> tag1_fill st" and "tag2 (yyfill_block ! st) \<longleftrightarrow> tag2_fill st"
proof -
  have "list_all (\<lambda>(k, n). (tag1 n \<longleftrightarrow> tag1_fill k) \<and> (tag2 n \<longleftrightarrow> tag2_fill k)) (enumerate 0 yyfill_block)"
    unfolding yyfill_block_def by (simp add: tag1_def tag2_def tag1_fill_def tag2_fill_def)
  then show "tag1 (yyfill_block ! st) \<longleftrightarrow> tag1_fill st" and "tag2 (yyfill_block ! st) \<longleftrightarrow> tag2_fill st"
    using assms by (auto simp: list_all_iff in_set_enumerate_eq)
qed

lemma entry_untagged: "\<not> tag1 (yy0 i)" "\<not> tag2 (yy0 i)"
  by (simp_all add: yy0_def tag1_def tag2_def)

definition tag_at :: "nat \<Rightarrow> Input \<Rightarrow> bool" where
  "tag_at n i \<longleftrightarrow> (tag1 n \<longrightarrow> in_yyt1 i \<le> in_bufSize i) \<and> (tag2 n \<longrightarrow> in_yyt2 i \<le> in_bufSize i)"

definition tag_waits :: "Input \<Rightarrow> bool" where
  "tag_waits i \<longleftrightarrow> (\<forall>st. in_state i = int st \<longrightarrow>
     (tag1_fill st \<longrightarrow> in_yyt1 i \<le> in_bufSize i) \<and> (tag2_fill st \<longrightarrow> in_yyt2 i \<le> in_bufSize i))"

definition tag_yields :: "MgmtCommand \<Rightarrow> (nat \<times> nat) option \<Rightarrow> Input \<Rightarrow> bool" where
  "tag_yields cmd a i \<longleftrightarrow> (case a of None \<Rightarrow> cmd \<notin> set arg_commands | Some (s, e) \<Rightarrow> s \<le> in_bufSize i \<and> e \<le> in_bufSize i)"

interpretation tags: lex_invariant tag_at tag_at tag_waits tag_yields
proof
  fix n p f cs d i a
  assume n: "n < 208" and b: "yytable ! n = Scan p f cs d" and at: "tag_at n i"
  have ok: "tag_block n (Scan p f cs d)"
    using table_check [OF tag_check n] b by simp
  show "tag_at n (yy_pre p i)"
    using at by (cases p) (simp_all add: tag_at_def yy_pre_def)
  show "tag_waits (i\<lparr>in_state := int f\<rparr>)"
    using at ok by (auto simp: tag_waits_def tag_at_def)
  show "lex_holds tag_at tag_waits tag_yields (apply_act a i)" if "a \<in> acts cs d" and wf: "input_wf i"
  proof -
    have t: "tag1 (act_target a) \<longrightarrow> sets1 a \<or> tag1 n"
      "tag2 (act_target a) \<longrightarrow> sets2 a \<or> tag2 n"
      using ok that(1) by (simp_all only: tag_block.simps acts_all) blast+
    have cur: "in_cur i \<le> in_bufSize i" using wf by (simp add: input_wf_def)
    show ?thesis
      using t at cur by (cases a) (simp_all add: target_act tag_at_def)
  qed
next
  fix n m i
  assume n: "n < 208" and at: "tag_at n i"
  note ok = table_check [OF tag_check n] and blk = table_at(2) [OF n]
  show "tag_at m (i\<lparr>in_cur := in_cur i + 1\<rparr>)" if "yytable ! n = Bump m"
    using that blk untagged_ends(1) by (simp add: tag_at_def)
  show "tag_at m (i\<lparr>in_cur := in_mar i\<rparr>)" if "yytable ! n = Back m"
    using that blk untagged_ends(1) by (simp add: tag_at_def)
  show "tag_yields cmd (yy_args ar i1) (i1\<lparr>in_state := -1\<rparr>)"
    if "yytable ! n = Accept adv ar cmd" "input_wf i" "adv \<longrightarrow> in_cur i < in_lim i"
      "i1 = (if adv then i\<lparr>in_cur := in_cur i + 1\<rparr> else i)" for adv ar cmd i1
    using ok that at by (cases ar) (auto simp: tag_yields_def tag_at_def yy_args_def input_wf_def split: if_splits)
next
  fix st i
  assume "st < 176" "tag_waits i" "in_state i = int st"
  then show "tag_at (yyfill_eof ! st) i" "tag_at (yyfill_block ! st) i"
    by (auto simp: tag_waits_def tag_at_def tag_fills dest: untagged_ends(2))
next
  fix i show "tag_at (yy0 i) i"
    by (simp add: tag_at_def entry_untagged)
next
  fix cmd r i show "tag_waits (i\<lparr>in_tok := in_cur i, in_mar := in_cur i, in_state := -1\<rparr>)"
    by (simp add: tag_waits_def)
qed

section \<open>Progress\<close>

text \<open>
  Where a token starts, the labels of its first character, the ends that are reached without the
  marker having been set, and the ends without a token.
\<close>

definition entry_label :: "nat \<Rightarrow> bool" where
  "entry_label n = (if n < 2 then True else n = 76)"

definition first_label :: "nat \<Rightarrow> bool" where
  "first_label n = (if n < 2 then False else if n < 15 then n \<noteq> 3 else if n < 77 then False else if n < 90 then n \<noteq> 78 else False)"

definition short_label :: "nat \<Rightarrow> bool" where
  "short_label n = (if n < 3 then False else if n < 79 then n \<in> {3, 15, 78} else n = 90)"

definition empty_label :: "nat \<Rightarrow> bool" where
  "empty_label n = (if n < 75 then False else if n < 76 then True else n = 207)"

lemmas label_defs = entry_label_def first_label_def short_label_def empty_label_def

fun progress_block :: "nat \<Rightarrow> yyblock \<Rightarrow> bool" where
  "progress_block n (Scan p f cs d) \<longleftrightarrow> \<not> short_label n \<and> \<not> empty_label n \<and>
     (if entry_label n then p = Stay \<and> (f = 0 \<or> f = 63) \<and> list_all (\<lambda>a. first_label (act_target a)) (d # map snd cs)
      else if n = 4 \<or> n = 79 then p = Advance \<and> (f = 1 \<or> f = 64) \<and> list_all (\<lambda>a. short_label (act_target a)) (d # map snd cs)
      else f \<noteq> 0 \<and> f \<noteq> 63 \<and> (first_label n \<longrightarrow> p = Mark_advance)
        \<and> list_all (\<lambda>a. \<not> entry_label (act_target a) \<and> \<not> first_label (act_target a) \<and> \<not> empty_label (act_target a)) (d # map snd cs))"
| "progress_block n (Bump m) \<longleftrightarrow> first_label n"
| "progress_block n (Back m) \<longleftrightarrow> \<not> entry_label n \<and> \<not> first_label n \<and> \<not> short_label n \<and> \<not> empty_label n"
| "progress_block n (Accept adv a cmd) \<longleftrightarrow> \<not> entry_label n \<and> \<not> first_label n \<and> (empty_label n \<longrightarrow> cmd = MGMT_INCOMPLETE)"

lemma progress_check: "list_all (\<lambda>(n, b). progress_block n b) (enumerate 0 yytable)"
  unfolding yytable_def by (simp add: yy_defs label_defs)

lemma progress_fills:
  assumes "st < 176"
  shows "(entry_label (yyfill_block ! st) \<longleftrightarrow> st = 0 \<or> st = 63)
      \<and> (yyfill_block ! st = 4 \<or> yyfill_block ! st = 79 \<longleftrightarrow> st = 1 \<or> st = 64)"
    and "(empty_label (yyfill_eof ! st) \<longleftrightarrow> st = 0 \<or> st = 63) \<and> (st = 1 \<or> st = 64 \<longrightarrow> short_label (yyfill_eof ! st))
      \<and> \<not> entry_label (yyfill_eof ! st) \<and> \<not> first_label (yyfill_eof ! st)"
proof -
  have "list_all (\<lambda>(k, n). (entry_label n \<longleftrightarrow> k = 0 \<or> k = 63) \<and> (n = 4 \<or> n = 79 \<longleftrightarrow> k = 1 \<or> k = 64)) (enumerate 0 yyfill_block)"
    unfolding yyfill_block_def by (simp add: label_defs)
  from enumerate_check [OF this] show "(entry_label (yyfill_block ! st) \<longleftrightarrow> st = 0 \<or> st = 63)
      \<and> (yyfill_block ! st = 4 \<or> yyfill_block ! st = 79 \<longleftrightarrow> st = 1 \<or> st = 64)"
    using assms by simp
  have "list_all (\<lambda>(k, n). (empty_label n \<longleftrightarrow> k = 0 \<or> k = 63) \<and> (k = 1 \<or> k = 64 \<longrightarrow> short_label n)
      \<and> \<not> entry_label n \<and> \<not> first_label n) (enumerate 0 yyfill_eof)"
    unfolding yyfill_eof_def by (simp add: label_defs)
  from enumerate_check [OF this] show "(empty_label (yyfill_eof ! st) \<longleftrightarrow> st = 0 \<or> st = 63) \<and> (st = 1 \<or> st = 64 \<longrightarrow> short_label (yyfill_eof ! st))
      \<and> \<not> entry_label (yyfill_eof ! st) \<and> \<not> first_label (yyfill_eof ! st)"
    using assms by simp
qed

definition progress_at :: "nat \<Rightarrow> Input \<Rightarrow> bool" where
  "progress_at n i \<longleftrightarrow>
     (if entry_label n \<or> first_label n then in_cur i = in_tok i
      else empty_label n \<or> in_tok i < in_cur i \<and> (short_label n \<or> in_tok i < in_mar i))"

definition progress_inside :: "nat \<Rightarrow> Input \<Rightarrow> bool" where
  "progress_inside n i \<longleftrightarrow>
     (if entry_label n then in_cur i = in_tok i else in_tok i < in_cur i \<and> (n = 4 \<or> n = 79 \<or> in_tok i < in_mar i))"

definition progress_waits :: "Input \<Rightarrow> bool" where
  "progress_waits i \<longleftrightarrow>
     (if in_state i < 0 \<or> 176 \<le> in_state i \<or> in_state i = 0 \<or> in_state i = 63 then in_cur i = in_tok i
      else in_tok i < in_cur i \<and> (in_state i = 1 \<or> in_state i = 64 \<or> in_tok i < in_mar i))"

definition progress_yields :: "MgmtCommand \<Rightarrow> (nat \<times> nat) option \<Rightarrow> Input \<Rightarrow> bool" where
  "progress_yields cmd a i \<longleftrightarrow> cmd = MGMT_INCOMPLETE \<or> in_tok i < in_cur i"

lemmas progress_defs = progress_at_def progress_inside_def progress_waits_def progress_yields_def

lemma end_labels_progress: "m \<in> set end_labels \<Longrightarrow> \<not> entry_label m \<and> \<not> first_label m \<and> short_label m"
  by (auto simp: end_labels_def label_defs)

lemma labels_4_79: "\<not> entry_label 4" "\<not> entry_label 79" "first_label 4" "first_label 79"
  by (simp_all add: label_defs)

lemma short_apart: "short_label n \<Longrightarrow> \<not> entry_label n \<and> \<not> first_label n"
  by (auto simp: label_defs split: if_splits)

lemma first_apart: "first_label n \<Longrightarrow> \<not> entry_label n"
  by (auto simp: label_defs split: if_splits)

interpretation progress: lex_invariant progress_at progress_inside progress_waits progress_yields
proof
  fix n p f cs d i a
  assume n: "n < 208" and b: "yytable ! n = Scan p f cs d"
  have ok: "progress_block n (Scan p f cs d)"
    using table_check [OF progress_check n] by (simp only: b)
  have f: "f < 176" using table_at(2) [OF n] b by simp
  show "progress_inside n (yy_pre p i)" if "progress_at n i"
    using ok that labels_4_79 by (cases p) (auto simp: progress_defs yy_pre_def split: if_splits)
  show "progress_waits (i\<lparr>in_state := int f\<rparr>)" if "progress_inside n i"
    using ok that f labels_4_79 by (auto simp: progress_defs split: if_splits)
  show "lex_holds progress_at progress_waits progress_yields (apply_act a i)" if "progress_inside n i" "a \<in> acts cs d"
  proof -
    have t: "if entry_label n then first_label (act_target a)
       else if n = 4 \<or> n = 79 then short_label (act_target a)
       else \<not> entry_label (act_target a) \<and> \<not> first_label (act_target a) \<and> \<not> empty_label (act_target a)"
      using ok that(2) by (simp only: progress_block.simps acts_all) (auto split: if_splits)
    show ?thesis
      using t that(1) first_apart short_apart
      by (cases a) (auto simp: target_act progress_defs split: if_splits)
  qed
next
  fix n m i
  assume n: "n < 208" and at: "progress_at n i"
  note ok = table_check [OF progress_check n] and blk = table_at(2) [OF n]
  show "progress_at m (i\<lparr>in_cur := in_cur i + 1\<rparr>)" if "yytable ! n = Bump m"
    using that at ok blk end_labels_progress by (simp add: progress_at_def)
  show "progress_at m (i\<lparr>in_cur := in_mar i\<rparr>)" if "yytable ! n = Back m"
    using that at ok blk end_labels_progress by (simp add: progress_at_def)
  show "progress_yields cmd (yy_args ar i1) (i1\<lparr>in_state := -1\<rparr>)"
    if "yytable ! n = Accept adv ar cmd" "i1 = (if adv then i\<lparr>in_cur := in_cur i + 1\<rparr> else i)" for adv ar cmd i1
    using ok that at by (auto simp: progress_defs split: if_splits)
next
  fix st i
  assume "st < 176" "progress_waits i" "in_state i = int st"
  then show "progress_at (yyfill_eof ! st) i" "progress_inside (yyfill_block ! st) i"
    using progress_fills [of st] by (auto simp: progress_defs split: if_splits)
next
  fix i assume "progress_waits i" "in_state i < 0 \<or> 176 \<le> in_state i"
  then show "progress_at (yy0 i) i"
    by (auto simp: progress_defs yy0_def entry_label_def split: if_splits)
next
  fix cmd r i show "progress_waits (i\<lparr>in_tok := in_cur i, in_mar := in_cur i, in_state := -1\<rparr>)"
    by (simp add: progress_waits_def)
qed

section \<open>The lexer as its callers see it\<close>

text \<open>All the invariants together; the byte behind the array always stays a NUL.\<close>

definition lexer_wf :: "Input \<Rightarrow> bool" where
  "lexer_wf i \<longleftrightarrow> input_wf i \<and> roomy i \<and> stage_waits i \<and> tag_waits i \<and> progress_waits i \<and> in_buf i ! in_bufSize i = 0"

lemma lexer_wfD:
  "lexer_wf i \<Longrightarrow> input_wf i" "lexer_wf i \<Longrightarrow> stage_waits i" "lexer_wf i \<Longrightarrow> tag_waits i" "lexer_wf i \<Longrightarrow> progress_waits i"
  "lexer_wf i \<Longrightarrow> in_buf i ! in_bufSize i = 0" "lexer_wf i \<Longrightarrow> roomy i" "lexer_wf i \<Longrightarrow> in_bufSize i < length (in_buf i)"
  by (simp_all add: lexer_wf_def roomy_def)

text \<open>The command may appear in this stage, and its argument is there if it needs one.\<close>

definition command_ok :: "MgmtCommand \<Rightarrow> nat option \<Rightarrow> nat \<Rightarrow> Input \<Rightarrow> bool" where
  "command_ok cmd arg argLen i \<longleftrightarrow>
     (if in_cond i = yycpass then cmd \<in> set pass_commands else cmd \<noteq> MGMT_TOKEN)
     \<and> (cmd \<in> set arg_commands \<longrightarrow>
         (\<exists>s e. arg = Some s \<and> s \<le> in_bufSize i \<and> e \<le> in_bufSize i \<and> argLen = nat ((int e - int s) mod 2 ^ 64)))"

lemma parse_call:
  assumes wf: "lexer_wf i"
  obtains cmd out i' where "parseMgmtRequest i = Inr (Some (cmd, out, i'))" "lexer_wf i'"
    "in_buf i' = in_buf i" "in_lim i' = in_lim i" "in_bufSize i' = in_bufSize i" "in_cond i' = in_cond i"
    "cmd \<noteq> MGMT_INCOMPLETE \<Longrightarrow> \<exists>arg argLen len. out = Some (arg, argLen, len) \<and> 0 < len \<and> in_tok i' = in_tok i + len
       \<and> in_cur i' = in_tok i' \<and> in_state i' = -1 \<and> command_ok cmd arg argLen i'"
proof -
  note w = lexer_wfD [OF wf]
  obtain cmd out i' where p: "parseMgmtRequest i = Inr (Some (cmd, out, i'))" "input_wf i'"
    "in_buf i' = in_buf i" "in_lim i' = in_lim i" "in_bufSize i' = in_bufSize i" "in_cond i' = in_cond i"
    "out = None \<longrightarrow> cmd = MGMT_INCOMPLETE \<and> in_cur i' = in_lim i \<and> in_tok i' = in_tok i"
    "\<forall>arg argLen len. out = Some (arg, argLen, len) \<longrightarrow> in_tok i' = in_tok i + len \<and> in_cur i' = in_tok i' \<and> in_state i' = -1"
    using parse_ok [OF w(1)] by blast
  have wf': "lexer_wf i'"
    using stage.parse_holds(1) [OF w(1,2) p(1)] tags.parse_holds(1) [OF w(1,3) p(1)] progress.parse_holds(1) [OF w(1,4) p(1)] p(2-5) w(5,6)
    by (simp add: lexer_wf_def roomy_def)
  have "\<exists>arg argLen len. out = Some (arg, argLen, len) \<and> 0 < len \<and> in_tok i' = in_tok i + len
       \<and> in_cur i' = in_tok i' \<and> in_state i' = -1 \<and> command_ok cmd arg argLen i'" if cmd: "cmd \<noteq> MGMT_INCOMPLETE"
  proof -
    obtain arg argLen len where out: "out = Some (arg, argLen, len)"
      using p(7) cmd by (cases out) auto
    note call = p(1) [unfolded out]
    have "if in_cond i' = yycpass then cmd \<in> set pass_commands else cmd \<noteq> MGMT_TOKEN"
      using stage.parse_holds(2) [OF w(1,2) call refl] p(6) by (auto simp: stage_yields_def split: if_splits)
    moreover have "0 < len"
      using progress.parse_holds(2) [OF w(1,4) call refl] cmd by (auto simp: progress_yields_def)
    moreover have "\<exists>s e. arg = Some s \<and> s \<le> in_bufSize i \<and> e \<le> in_bufSize i \<and> argLen = nat ((int e - int s) mod 2 ^ 64)"
      if "cmd \<in> set arg_commands"
    proof -
      obtain a i1 where "tag_yields cmd a i1" "arg = map_option fst a" "argLen = arg_size a" "in_bufSize i1 = in_bufSize i"
        using tags.parse_holds(2) [OF w(1,3) call refl] by blast
      with that show ?thesis
        by (cases a) (auto simp: tag_yields_def arg_size_def)
    qed
    ultimately show ?thesis
      using out p(5,8) by (auto simp: command_ok_def)
  qed
  then show thesis using that p(1,3-6) wf' by blast
qed

text \<open>The window keeps its invariant when it is created and when it is refilled.\<close>

lemma initState_lexer:
  assumes "roomy i"
  obtains i' where "initState i = Inr i'" "lexer_wf i'" "pending i' = []" "in_cond i' = yycpass" "in_bufSize i' = in_bufSize i"
proof -
  obtain i' where i': "initState i = Inr i'" "input_wf i'" "roomy i'" "pending i' = []" "in_cond i' = yycpass"
    "in_lim i' = in_bufSize i" "in_bufSize i' = in_bufSize i"
    using initState_ok [OF assms] by blast
  have "in_cur i' = in_tok i'" "in_state i' = -1"
    using i'(1) assms by (auto simp: initState_def Let_def bindE_eq_Inr)
  then have "lexer_wf i'"
    using i' by (simp add: lexer_wf_def stage_waits_def tag_waits_def progress_waits_def input_wf_def)
  then show thesis using that i' by blast
qed

lemma overwrite_below: "off + length bs \<le> n \<Longrightarrow> n < length dst \<Longrightarrow> overwrite off bs dst ! n = dst ! n"
  by (auto simp: overwrite_def nth_append)

lemma fillBuffer_fields:
  assumes wf: "input_wf i" and roomy: "roomy i" and rd: "read_ok rd" and run: "fillBuffer rd i = Inr (n, e, i')"
  shows "in_mar i' = in_mar i - in_tok i"
    and "in_buf i ! in_bufSize i = 0 \<Longrightarrow> in_buf i' ! in_bufSize i = 0"
proof -
  have w: "in_bufSize i < length (in_buf i)" "in_tok i \<le> in_lim i" "in_lim i \<le> in_bufSize i"
    using wf roomy by (auto simp: input_wf_def roomy_def)
  let ?mv = "take (in_bufSize i - in_tok i) (drop (in_tok i) (in_buf i))"
  let ?b1 = "overwrite 0 ?mv (in_buf i)"
  have len: "length ?mv = in_bufSize i - in_tok i" "length ?b1 = length (in_buf i)"
    using w by simp_all
  have b1: "?b1 ! in_bufSize i = in_buf i ! in_bufSize i"
    using w by (intro overwrite_below) simp_all
  have nul: "overwrite k [0] dst ! in_bufSize i = 0" if "k \<le> in_bufSize i" "in_bufSize i < length dst" "dst ! in_bufSize i = 0"
    for k and dst :: "byte list"
    using that by (cases "k = in_bufSize i") (simp_all add: nth_overwrite_single overwrite_below)
  have room: "in_lim i - in_tok i + length bs \<le> in_bufSize i" if "rd (in_bufSize i - (in_lim i - in_tok i)) = Read_ok bs" for bs
    using rd that w by (fastforce simp: read_ok_def)
  show "in_mar i' = in_mar i - in_tok i"
    using run by (auto simp: fillBuffer_def Let_def bindE_eq_Inr split: read_res.splits)
  assume z: "in_buf i ! in_bufSize i = 0"
  show "in_buf i' ! in_bufSize i = 0"
  proof (cases "rd (in_bufSize i - (in_lim i - in_tok i))")
    case (Read_err x)
    then show ?thesis
      using run len w nul [of "in_lim i - in_tok i" ?b1] b1 z
      by (auto simp: fillBuffer_def Let_def bindE_eq_Inr mem_write_def split: if_splits)
  next
    case (Read_ok bs)
    let ?b2 = "overwrite (in_lim i - in_tok i) bs ?b1"
    have "?b2 ! in_bufSize i = 0" "in_bufSize i < length ?b2"
      using room [OF Read_ok] len b1 z w(1) by (simp_all add: overwrite_below)
    then show ?thesis
      using run Read_ok len w room [OF Read_ok] nul [of "in_lim i - in_tok i + length bs" ?b2]
      by (auto simp: fillBuffer_def Let_def bindE_eq_Inr mem_write_def split: if_splits)
  qed
qed

lemma fillBuffer_lexer:
  assumes wf: "lexer_wf i" and rd: "read_ok rd"
  obtains n e i' bs where "fillBuffer rd i = Inr (n, e, i')" "lexer_wf i'" "in_bufSize i' = in_bufSize i" "in_cond i' = in_cond i"
    "pending i' = pending i @ bs" "0 \<le> n \<Longrightarrow> n = int (length bs)" "n < 0 \<Longrightarrow> bs = []"
proof -
  note w = lexer_wfD [OF wf]
  obtain n e i' bs where f: "fillBuffer rd i = Inr (n, e, i')" "input_wf i'" "roomy i'" "in_tok i' = 0"
    "in_cur i' = in_cur i - in_tok i" "in_cond i' = in_cond i" "in_state i' = in_state i"
    "in_bufSize i' = in_bufSize i" "in_yyt1 i' = in_yyt1 i" "in_yyt2 i' = in_yyt2 i" "pending i' = pending i @ bs"
    "0 \<le> n \<longrightarrow> n = int (length bs)" "n < 0 \<longrightarrow> bs = []"
    using fillBuffer_ok [OF w(1,6) rd] by blast
  note more = fillBuffer_fields [OF w(1,6) rd f(1)]
  have "progress_waits i'"
    using w(4) f more(1) by (auto simp: progress_waits_def split: if_splits)
  then have "lexer_wf i'"
    using w f(2-10) more(2) by (simp add: lexer_wf_def stage_waits_def tag_waits_def)
  then show thesis using that f by blast
qed

end
