(* ===== verification/Mgmt_Server.thy ===== *)
theory Mgmt_Server
  imports Mgmt Lexer_Invariants "HOL-Library.Sublist"
begin

text \<open>
  What \<open>src/mgmt.c\<close> does on every input: the command loop ends without a fault and keeps the
  invariant of its client, nothing is changed before a token of the table was shown, and the
  settings stay in their ranges. Answers are appended to the output in order.
\<close>

section \<open>Output\<close>

lemma write_response_put:
  assumes "buffer_wf b"
  shows "write_response b r = (if length r \<le> Buffer.space b
    then bindE (buffer_put r b) (\<lambda>b1. Inr (int (length r), b1)) else Inr (-1, b))"
  using assms by (simp add: write_response_def buffer_put_def bindE_assoc)

text \<open>A response is appended as a whole or not at all.\<close>

lemma write_response_ok:
  assumes "buffer_wf b"
  obtains n b' where "write_response b r = Inr (n, b')" "buffer_wf b'" "buf_limit b' = buf_limit b"
    "contents b' = contents b @ (if length r \<le> Buffer.space b then r else [])"
    "Buffer.space b' = (if length r \<le> Buffer.space b then Buffer.space b - length r else Buffer.space b)"
proof (cases "length r \<le> Buffer.space b")
  case True
  then obtain b' where "buffer_put r b = Inr b'" "buffer_wf b'" "contents b' = contents b @ r"
    "Buffer.space b' = Buffer.space b - length r" "buf_limit b' = buf_limit b"
    using buffer_put_ok [OF assms] by blast
  then show thesis
    using True that by (simp add: write_response_put [OF assms])
next
  case False
  then show thesis
    using assms by (intro that [of "-1" b]) (simp_all add: write_response_put)
qed

text \<open>Moving the waiting answers: all of them or none.\<close>

definition moved :: "buffer \<Rightarrow> buffer \<Rightarrow> bool" where
  "moved dest src \<longleftrightarrow> length (contents src) \<le> Buffer.space dest"

lemma copy_from_buf_ok:
  assumes d: "buffer_wf dest" and s: "buffer_wf src"
  obtains n dest' src' where "copy_from_buf dest src = Inr (n, dest', src')" "buffer_wf dest'" "buffer_wf src'"
    "buf_limit dest' = buf_limit dest" "buf_limit src' = buf_limit src"
    "contents dest' = contents dest @ (if moved dest src then contents src else [])"
    "contents src' = (if moved dest src then [] else contents src)"
    "n = (if moved dest src then int (length (contents src)) else -1)"
proof (cases "moved dest src")
  case True
  then have fits: "length (contents src) \<le> Buffer.space dest" by (simp add: moved_def)
  have bytes: "take (length (contents src)) (drop (buf_read src) (buf_data src)) = contents src"
    using contents_slice [OF s, of 0 "length (contents src)"] by simp
  obtain d' where d': "buffer_put (contents src) dest = Inr d'" "buffer_wf d'" "contents d' = contents dest @ contents src"
    "buf_limit d' = buf_limit dest"
    using buffer_put_ok [OF d fits] by blast
  obtain s' where s': "buffer_read_adv src (int (length (contents src))) = Inr s'" "buffer_wf s'" "contents s' = []"
    "buf_limit s' = buf_limit src"
    using buffer_read_adv_ok [OF s, of "length (contents src)"] by auto
  obtain x where "mem_write (buf_write dest) (contents src) (buf_data dest) = Inr x"
    "buffer_write_adv (dest\<lparr>buf_data := x\<rparr>) (int (length (contents src))) = Inr d'"
    using d'(1) d by (auto simp: buffer_put_def bindE_eq_Inr)
  then have "copy_from_buf dest src = Inr (int (length (contents src)), d', s')"
    using d s s'(1) fits by (simp add: copy_from_buf_def bytes)
  then show thesis using that True d' s' by simp
next
  case False
  then have "copy_from_buf dest src = Inr (-1, dest, src)"
    using d s by (simp add: copy_from_buf_def moved_def)
  then show thesis using that False d s by simp
qed

section \<open>Arguments\<close>

text \<open>
  Before the command is executed the text of its argument is cut and perhaps rewritten inside the
  window; NULs stay NULs, so the invariant of the lexer is not lost.
\<close>

definition retouched :: "Input \<Rightarrow> Input \<Rightarrow> bool" where
  "retouched i i' \<longleftrightarrow> i' = i\<lparr>in_buf := in_buf i'\<rparr> \<and> length (in_buf i') = length (in_buf i)
     \<and> (\<forall>k < length (in_buf i). in_buf i ! k = 0 \<longrightarrow> in_buf i' ! k = 0)"

lemma retouchedI:
  "length b = length (in_buf i) \<Longrightarrow> (\<And>k. k < length b \<Longrightarrow> in_buf i ! k = 0 \<Longrightarrow> b ! k = 0) \<Longrightarrow> retouched i (i\<lparr>in_buf := b\<rparr>)"
  by (simp add: retouched_def)

lemma retouched_refl [simp]: "retouched i i"
  by (simp add: retouched_def)

lemma retouched_fields:
  assumes "retouched i i'"
  shows "in_bufSize i' = in_bufSize i" "in_tok i' = in_tok i" "in_lim i' = in_lim i" "in_cur i' = in_cur i" "in_mar i' = in_mar i"
    "in_yyt1 i' = in_yyt1 i" "in_yyt2 i' = in_yyt2 i"
    "in_state i' = in_state i" "in_cond i' = in_cond i" "length (in_buf i') = length (in_buf i)"
proof -
  have eq: "i' = i\<lparr>in_buf := in_buf i'\<rparr>" using assms by (simp add: retouched_def)
  show "in_bufSize i' = in_bufSize i" "in_tok i' = in_tok i" "in_lim i' = in_lim i" "in_cur i' = in_cur i" "in_mar i' = in_mar i"
    "in_yyt1 i' = in_yyt1 i" "in_yyt2 i' = in_yyt2 i" "in_state i' = in_state i" "in_cond i' = in_cond i"
    by (subst eq, simp)+
  show "length (in_buf i') = length (in_buf i)" using assms by (simp add: retouched_def)
qed

lemma retouched_trans:
  assumes "retouched i i1" and "retouched i1 i2"
  shows "retouched i i2"
proof -
  have "i2 = i1\<lparr>in_buf := in_buf i2\<rparr>" "i1 = i\<lparr>in_buf := in_buf i1\<rparr>"
    using assms by (simp_all add: retouched_def)
  then have "i2 = i\<lparr>in_buf := in_buf i2\<rparr>" by (metis Input.update_convs(1) Input.surjective)
  with assms show ?thesis by (simp add: retouched_def)
qed

lemma retouched_lexer:
  assumes "lexer_wf i" and "retouched i i'"
  shows "lexer_wf i'"
proof -
  note eqs = retouched_fields [OF assms(2)]
  have nul: "in_buf i' ! k = 0" if "k < length (in_buf i)" "in_buf i ! k = 0" for k
    using assms(2) that by (simp add: retouched_def)
  show ?thesis
    using assms(1) nul [of "in_lim i"] nul [of "in_bufSize i"]
    by (simp add: lexer_wf_def input_wf_def roomy_def stage_waits_def tag_waits_def progress_waits_def eqs)
qed

lemma retouched_nul: "e < length (in_buf i) \<Longrightarrow> retouched i (i\<lparr>in_buf := (in_buf i)[e := 0]\<rparr>)"
  by (rule retouchedI) (simp_all add: nth_list_update)

text \<open>The pointer arithmetic of \<open>arg[argLen]\<close> comes out at the end of the argument, also if it wrapped.\<close>

lemma wrapped_end:
  fixes s e :: nat
  assumes "e < 2 ^ 64"
  shows "(s + nat ((int e - int s) mod 2 ^ 64)) mod 2 ^ 64 = e"
proof -
  have "int ((s + nat ((int e - int s) mod 2 ^ 64)) mod 2 ^ 64) = (int s + (int e - int s) mod 2 ^ 64) mod 2 ^ 64"
    by (simp add: zmod_int)
  also have "\<dots> = int e mod 2 ^ 64"
    by (simp only: mod_add_right_eq) simp
  also have "\<dots> = int e"
    using assms by (simp flip: zmod_int)
  finally show ?thesis by (simp only: of_nat_eq_iff)
qed

definition small :: "Input \<Rightarrow> bool" where
  "small i \<longleftrightarrow> in_bufSize i < 2 ^ 64"

lemma arg_members:
  "MGMT_TOKEN \<in> set arg_commands" "MGMT_SET_BUFFSIZE \<in> set arg_commands"
  "MGMT_SET_DISSECTOR_STATUS \<in> set arg_commands" "MGMT_ADD_USER \<in> set arg_commands"
  by (simp_all add: arg_commands_def)

lemma end_arg_ok:
  assumes wf: "lexer_wf i" "small i" and cmd: "command_ok cmd arg argLen i" "cmd \<in> set arg_commands"
  obtains a e i1 t where "end_arg arg argLen i = Inr (a, i1)" "retouched i i1" "arg_text a i1 = Inr t"
    "i1 = i\<lparr>in_buf := (in_buf i)[e := 0]\<rparr>" "t = cstr (drop a (in_buf i1))" "a \<le> in_bufSize i" "e \<le> in_bufSize i"
proof -
  obtain s e where a: "arg = Some s" "s \<le> in_bufSize i" "e \<le> in_bufSize i" "argLen = nat ((int e - int s) mod 2 ^ 64)"
    using cmd by (auto simp: command_ok_def)
  let ?i = "i\<lparr>in_buf := (in_buf i)[e := 0]\<rparr>"
  have len: "in_bufSize i < length (in_buf i)" using lexer_wfD(7) [OF wf(1)] .
  have "(s + argLen) mod 2 ^ 64 = e"
    using a wrapped_end [of e s] wf(2) by (simp only: small_def)
  then have run: "end_arg arg argLen i = Inr (s, ?i)"
    using a len unfolding end_arg_def by (simp only: option.simps) (simp add: overwrite_single)
  have re: "retouched i ?i"
    using retouched_nul [of e i] a len by simp
  have "in_buf ?i ! in_bufSize i = 0"
    using lexer_wfD(5) [OF retouched_lexer [OF wf(1) re]] by simp
  moreover have "drop s (in_buf ?i) ! (in_bufSize i - s) = in_buf ?i ! in_bufSize i" "in_bufSize i - s < length (drop s (in_buf ?i))"
    using a len by simp_all
  ultimately have "0 \<in> set (drop s (in_buf ?i))"
    by (metis nth_mem)
  then have "arg_text s ?i = Inr (cstr (drop s (in_buf ?i)))"
    by (simp add: arg_text_def)
  then show thesis using that [OF run re _ refl refl] a by blast
qed

text \<open>
  Overwriting bytes with NULs does not make texts appear: what can be read in the window after it
  was there before. The text of an argument is a piece of the window.
\<close>

definition nulled :: "byte list \<Rightarrow> byte list \<Rightarrow> bool" where
  "nulled xs ys \<longleftrightarrow> length ys = length xs \<and> (\<forall>k < length xs. ys ! k = xs ! k \<or> ys ! k = 0)"

lemma nulled_refl [simp]: "nulled xs xs"
  by (simp add: nulled_def)

lemma nulled_update: "nulled xs (xs[e := 0])"
  unfolding nulled_def by (metis length_list_update nth_list_update_eq nth_list_update_neq)

lemma nulled_sublist:
  assumes "nulled xs ys" and "0 \<notin> set t" and "sublist t ys"
  shows "sublist t xs"
proof -
  obtain p q where ys: "ys = p @ t @ q" using assms(3) by (auto simp: sublist_def)
  have len: "length xs = length p + length t + length q"
    using assms(1) ys by (simp add: nulled_def)
  have "t = take (length t) (drop (length p) xs)"
  proof (rule nth_equalityI)
    fix k assume k: "k < length t"
    then have "t ! k \<noteq> 0" using assms(2) nth_mem by metis
    moreover have "ys ! (length p + k) = t ! k"
      using ys k by (simp add: nth_append)
    moreover have "length p + k < length xs" using k len by simp
    ultimately have "t ! k = xs ! (length p + k)"
      using assms(1) by (metis nulled_def)
    then show "t ! k = take (length t) (drop (length p) xs) ! k"
      using k len by simp
  qed (use len in simp)
  moreover have "sublist (take n (drop (length p) xs)) xs" for n
    by (rule sublist_order.order_trans [OF sublist_take sublist_drop])
  ultimately show ?thesis by metis
qed

lemma sublist_cstr: "sublist (cstr (drop a ys)) ys"
  unfolding cstr_def by (rule sublist_order.order_trans [OF sublist_takeWhile sublist_drop])

section \<open>One command\<close>

definition buffsize_ok :: "server_state \<Rightarrow> bool" where
  "buffsize_ok s \<longleftrightarrow> 512 < unat (buffsize s) \<and> unat (buffsize s) \<le> 10240"

definition tables_ok :: "world \<Rightarrow> bool" where
  "tables_ok w \<longleftrightarrow> users_wf (w_users w) \<and> tokens_wf (w_tokens w) \<and> buffsize_ok (w_state w)"

text \<open>Only the settings and the users may have changed.\<close>

definition settings_changed :: "world \<Rightarrow> world \<Rightarrow> bool" where
  "settings_changed w w' \<longleftrightarrow> (\<exists>b d us. w' = w\<lparr>w_state := (w_state w)\<lparr>buffsize := b, dissector_state := d\<rparr>, w_users := us\<rparr>)"

lemma settings_changed_refl [simp]: "settings_changed w w"
  unfolding settings_changed_def
  by (intro exI [of _ "buffsize (w_state w)"] exI [of _ "dissector_state (w_state w)"] exI [of _ "w_users w"]) simp

lemma settings_changed_trans: "settings_changed w w1 \<Longrightarrow> settings_changed w1 w2 \<Longrightarrow> settings_changed w w2"
  unfolding settings_changed_def by (elim exE) (simp, blast)

text \<open>The connection shows a token of the table.\<close>

definition shows_token :: "Input \<Rightarrow> world \<Rightarrow> bool" where
  "shows_token i w \<longleftrightarrow> (\<exists>tok\<in>set (token_entries (w_tokens w)). 0 \<notin> set tok \<and> sublist tok (in_buf i))"

text \<open>Before authentication nothing changes but the stage, and that only for a token.\<close>

definition gate :: "Input \<Rightarrow> world \<Rightarrow> Input \<Rightarrow> world \<Rightarrow> bool" where
  "gate i w i' w' \<longleftrightarrow> (in_cond i = yycpass \<longrightarrow> w' = w \<and> nulled (in_buf i) (in_buf i')
     \<and> (in_cond i' = yycpass \<or> in_cond i' = yyctrns \<and> shows_token i w)) \<and> (in_cond i = yyctrns \<longrightarrow> in_cond i' = yyctrns)"

text \<open>What a command may do to its client and the world.\<close>

definition executed :: "mgmt_client \<Rightarrow> world \<Rightarrow> mgmt_client \<Rightarrow> world \<Rightarrow> bool" where
  "executed c w c' w' \<longleftrightarrow> mc_fd c' = mc_fd c \<and> write_buf c' = write_buf c \<and> pending_buf c' = pending_buf c
     \<and> lexer_wf (input c') \<and> in_bufSize (input c') = in_bufSize (input c) \<and> in_tok (input c') = in_tok (input c)
     \<and> in_lim (input c') = in_lim (input c) \<and> tables_ok w' \<and> settings_changed w w' \<and> gate (input c) w (input c') w'"

lemma executed_plain:
  assumes "lexer_wf (input c)" "tables_ok w"
  shows "executed c w (c\<lparr>quitted := q\<rparr>) w" and "executed c w c w"
  using assms stage_waits_def lexer_wfD(2) by (auto simp: executed_def gate_def)

lemma snprintf_fits [simp]: "\<exists>len r. snprintf s = (len, r) \<and> length r < MGMT_BUFFSIZE"
  by (simp add: snprintf_def MGMT_BUFFSIZE_def)

text \<open>A command that may only appear after authentication.\<close>

lemma executed_trns:
  assumes wf: "lexer_wf (input c)" and t: "in_cond (input c) \<noteq> yycpass" and re: "retouched (input c) i"
    and "tables_ok w'" "settings_changed w w'"
  shows "executed c w (c\<lparr>input := i\<rparr>) w'"
  using assms retouched_lexer [OF wf re] retouched_fields [OF re] by (simp add: executed_def gate_def)

lemma do_token_ok:
  assumes wf: "lexer_wf (input c)" "small (input c)" "tables_ok w" and st: "in_state (input c) = -1" "in_cur (input c) = in_tok (input c)"
    and cmd: "command_ok MGMT_TOKEN arg argLen (input c)"
  shows "\<exists>c' len r. do_token arg argLen c w = Inr (c', w, len, r) \<and> length r < MGMT_BUFFSIZE \<and> executed c w c' w"
proof -
  let ?i = "input c"
  obtain a e i1 t where t: "end_arg arg argLen ?i = Inr (a, i1)" "retouched ?i i1" "arg_text a i1 = Inr t"
    "i1 = ?i\<lparr>in_buf := (in_buf ?i)[e := 0]\<rparr>" "t = cstr (drop a (in_buf i1))"
    by (rule end_arg_ok [OF wf(1,2) cmd arg_members(1)]) (rule that)
  note eqs = retouched_fields [OF t(2)] and wf1 = retouched_lexer [OF wf(1) t(2)]
  have pass: "in_cond ?i = yycpass \<or> in_cond ?i = yyctrns"
    using lexer_wfD(2) [OF wf(1)] by (auto simp: stage_waits_def)
  have cond: "in_cond ?i = yycpass"
    using cmd pass by (auto simp: command_ok_def split: if_splits)
  have nul: "nulled (in_buf ?i) (in_buf i1)" using t(4) nulled_update by simp
  have token: "shows_token ?i w" if "check_token t (w_tokens w)"
  proof -
    have "sublist t (in_buf i1)" "0 \<notin> set t" using t(5) sublist_cstr cstr_nul_free by auto
    then show ?thesis
      using that nulled_sublist [OF nul] by (auto simp: shows_token_def check_token_iff)
  qed
  have "lexer_wf (i1\<lparr>in_cond := yyctrns\<rparr>)"
    using wf1 eqs st by (simp add: lexer_wf_def input_wf_def roomy_def stage_waits_def tag_waits_def progress_waits_def)
  then have "executed c w (c\<lparr>input := i1\<lparr>in_cond := yyctrns\<rparr>\<rparr>) w" if "check_token t (w_tokens w)"
    using token [OF that] nul eqs wf(3) by (simp add: executed_def gate_def)
  moreover have "executed c w (c\<lparr>input := i1\<rparr>) w"
    using wf1 nul eqs wf(3) cond by (simp add: executed_def gate_def yycpass_def yyctrns_def)
  ultimately show ?thesis
    using t(1,3) by (cases "check_token t (w_tokens w)") (auto simp: do_token_def)
qed

lemma do_set_buffsize_ok:
  assumes wf: "lexer_wf (input c)" "small (input c)" "tables_ok w"
    and cmd: "command_ok MGMT_SET_BUFFSIZE arg argLen (input c)" and t: "in_cond (input c) \<noteq> yycpass"
  shows "\<exists>c' w' len r. do_set_buffsize arg argLen c w = Inr (c', w', len, r) \<and> length r < MGMT_BUFFSIZE \<and> executed c w c' w'"
proof -
  obtain a i1 s where s: "end_arg arg argLen (input c) = Inr (a, i1)" "retouched (input c) i1" "arg_text a i1 = Inr s"
    by (rule end_arg_ok [OF wf(1,2) cmd arg_members(2)]) (rule that)
  define sz where "sz = (word_of_int (atoi s) :: 64 word)"
  let ?w = "w\<lparr>w_state := set_buffsize sz (w_state w)\<rparr>"
  show ?thesis
  proof (cases "sz > MIN_SOCKS_BUFFSIZE \<and> sz < MAX_SOCKS_BUFFSIZE")
    case True
    then have rng: "512 < unat sz" "unat sz \<le> 10240"
      by (simp_all add: MIN_SOCKS_BUFFSIZE_def MAX_SOCKS_BUFFSIZE_def word_less_nat_alt)
    then have nz: "sz \<noteq> 0" by auto
    have "tables_ok ?w"
      using wf(3) rng nz by (simp add: tables_ok_def buffsize_ok_def set_buffsize_def)
    moreover have "settings_changed w ?w"
      unfolding settings_changed_def using nz
      by (intro exI [of _ sz] exI [of _ "dissector_state (w_state w)"] exI [of _ "w_users w"]) (simp add: set_buffsize_def)
    ultimately have "executed c w (c\<lparr>input := i1\<rparr>) ?w"
      by (rule executed_trns [OF wf(1) t s(2)])
    then show ?thesis
      using s(1,3) True by (auto simp: do_set_buffsize_def sz_def [symmetric] Let_def)
  next
    case False
    then show ?thesis
      using s(1,3) executed_trns [OF wf(1) t s(2) wf(3) settings_changed_refl]
      by (auto simp: do_set_buffsize_def sz_def [symmetric] Let_def)
  qed
qed

lemma lowered_retouches:
  assumes "a < length (in_buf i)" and t: "t = cstr (drop a (in_buf i))"
  shows "retouched i (i\<lparr>in_buf := overwrite a (map tolower t) (in_buf i)\<rparr>)"
proof (rule retouchedI)
  have len: "a + length t \<le> length (in_buf i)"
    using length_cstr_le [of "drop a (in_buf i)"] assms by simp
  then show "length (overwrite a (map tolower t) (in_buf i)) = length (in_buf i)" by simp
  fix k assume k: "k < length (overwrite a (map tolower t) (in_buf i))" "in_buf i ! k = 0"
  have out: "\<not> (a \<le> k \<and> k < a + length t)"
  proof
    assume r: "a \<le> k \<and> k < a + length t"
    then have "t ! (k - a) = in_buf i ! k"
      using len t takeWhile_nth [of "k - a" "\<lambda>b. b \<noteq> 0" "drop a (in_buf i)"] by (auto simp: cstr_def)
    moreover have "t ! (k - a) \<in> set t" using r by (intro nth_mem) arith
    ultimately show False using k(2) t cstr_nul_free by metis
  qed
  then show "overwrite a (map tolower t) (in_buf i) ! k = 0"
    using k len by (auto simp: overwrite_def nth_append)
qed

lemma do_set_dissector_ok:
  assumes wf: "lexer_wf (input c)" "small (input c)" "tables_ok w"
    and cmd: "command_ok MGMT_SET_DISSECTOR_STATUS arg argLen (input c)" and t: "in_cond (input c) \<noteq> yycpass"
  shows "\<exists>c' w' len r. do_set_dissector arg argLen c w = Inr (c', w', len, r) \<and> length r < MGMT_BUFFSIZE \<and> executed c w c' w'"
proof -
  obtain a i1 s where s: "end_arg arg argLen (input c) = Inr (a, i1)" "retouched (input c) i1" "arg_text a i1 = Inr s"
    "s = cstr (drop a (in_buf i1))" "a \<le> in_bufSize (input c)"
    by (rule end_arg_ok [OF wf(1,2) cmd arg_members(3)]) (rule that)
  let ?i = "i1\<lparr>in_buf := overwrite a (map tolower s) (in_buf i1)\<rparr>"
  have "a < length (in_buf i1)"
    using s(5) lexer_wfD(7) [OF wf(1)] retouched_fields [OF s(2)] by simp
  then have re: "retouched (input c) ?i"
    using retouched_trans [OF s(2) lowered_retouches [OF _ s(4)]] by blast
  have "executed c w (c\<lparr>input := ?i\<rparr>) (w\<lparr>w_state := set_dissector_state d (w_state w)\<rparr>)" for d
  proof (rule executed_trns [OF wf(1) t re])
    show "tables_ok (w\<lparr>w_state := set_dissector_state d (w_state w)\<rparr>)"
      using wf(3) by (simp add: tables_ok_def buffsize_ok_def set_dissector_state_def)
    show "settings_changed w (w\<lparr>w_state := set_dissector_state d (w_state w)\<rparr>)"
      unfolding settings_changed_def
      by (intro exI [of _ "buffsize (w_state w)"] exI [of _ d] exI [of _ "w_users w"]) (simp add: set_dissector_state_def)
  qed
  moreover have "executed c w (c\<lparr>input := ?i\<rparr>) w"
    by (rule executed_trns [OF wf(1) t re wf(3) settings_changed_refl])
  ultimately show ?thesis
    using s(1,3) by (auto simp: do_set_dissector_def Let_def)
qed

lemma do_add_user_ok:
  assumes wf: "lexer_wf (input c)" "small (input c)" "tables_ok w"
    and cmd: "command_ok MGMT_ADD_USER arg argLen (input c)" and t: "in_cond (input c) \<noteq> yycpass"
  shows "\<exists>c' w' len r. do_add_user arg argLen c w = Inr (c', w', len, r) \<and> length r < MGMT_BUFFSIZE \<and> executed c w c' w'"
proof -
  obtain a i1 s where s: "end_arg arg argLen (input c) = Inr (a, i1)" "retouched (input c) i1" "arg_text a i1 = Inr s"
    "s = cstr (drop a (in_buf i1))" "a \<le> in_bufSize (input c)"
    by (rule end_arg_ok [OF wf(1,2) cmd arg_members(4)]) (rule that)
  have users: "users_wf (w_users w)" using wf(3) by (simp add: tables_ok_def)
  obtain ok ut where u: "add_user s (w_users w) = Inr (ok, ut, user_name s)" "users_wf ut"
    using add_user_spec [OF users] by blast
  define b where "b = (if 58 \<in> set s then overwrite (a + length (user_name s)) [0] (in_buf i1) else in_buf i1)"
  have "a + length (user_name s) < length (in_buf i1)" if "58 \<in> set s"
  proof -
    have "length (user_name s) < length s" by (rule user_name_shorter [OF that])
    moreover have "length s \<le> length (in_buf i1) - a" using s(4) length_cstr_le [of "drop a (in_buf i1)"] by simp
    ultimately show ?thesis by simp
  qed
  then have "retouched i1 (i1\<lparr>in_buf := b\<rparr>)"
    using retouched_nul [of "a + length (user_name s)" i1] retouched_refl [of i1] by (simp add: b_def overwrite_single)
  then have re: "retouched (input c) (i1\<lparr>in_buf := b\<rparr>)"
    by (rule retouched_trans [OF s(2)])
  have "executed c w (c\<lparr>input := i1\<lparr>in_buf := b\<rparr>\<rparr>) (w\<lparr>w_users := ut\<rparr>)"
  proof (rule executed_trns [OF wf(1) t re])
    show "tables_ok (w\<lparr>w_users := ut\<rparr>)"
      using wf(3) u(2) by (simp add: tables_ok_def)
    show "settings_changed w (w\<lparr>w_users := ut\<rparr>)"
      unfolding settings_changed_def
      by (intro exI [of _ "buffsize (w_state w)"] exI [of _ "dissector_state (w_state w)"] exI [of _ ut]) simp
  qed
  then show ?thesis
    using s(1,3) u(1) by (cases ok) (auto simp: do_add_user_def Let_def b_def)
qed

text \<open>Twenty names of at most eleven bytes fit in the response buffer.\<close>

lemma list_users_ok:
  assumes "\<forall>u\<in>set us. length (username u) \<le> MAX_USER_LEN + 1"
    and "length buf + length us * (MAX_USER_LEN + 3) + 3 < MGMT_BUFFSIZE"
  shows "list_users us buf = Inr (buf @ concat (map (\<lambda>u. cstr (username u) @ CRLF) us) @ bytes_of ''.'' @ CRLF)
    \<and> length buf + length (concat (map (\<lambda>u. cstr (username u) @ CRLF) us)) + 3 < MGMT_BUFFSIZE"
  using assms
proof (induction us arbitrary: buf)
  case Nil
  then show ?case by (simp add: strcat_def CRLF_def bytes_of_def)
next
  case (Cons u us)
  have "length (cstr (username u)) \<le> MAX_USER_LEN + 1"
    using length_cstr_le [of "username u"] Cons.prems(1) by simp
  then have fits: "length (buf @ cstr (username u) @ CRLF) + length us * (MAX_USER_LEN + 3) + 3 < MGMT_BUFFSIZE"
    using Cons.prems(2) by (simp add: CRLF_def algebra_simps)
  then have "strcat buf (cstr (username u)) = Inr (buf @ cstr (username u))"
    "strcat (buf @ cstr (username u)) CRLF = Inr (buf @ cstr (username u) @ CRLF)"
    by (simp_all add: strcat_def)
  then show ?case
    using Cons.IH [OF _ fits] Cons.prems(1) by simp
qed

definition users_listing :: "user_table \<Rightarrow> byte list" where
  "users_listing ut = users_header @ concat (map (\<lambda>np. fst np @ CRLF) (user_entries ut)) @ bytes_of ''.'' @ CRLF"

lemma do_users_ok:
  assumes "users_wf (w_users w)"
  shows "do_users c w = Inr (c, w, length users_header, users_listing (w_users w))"
    and "length (users_listing (w_users w)) < MGMT_BUFFSIZE"
proof -
  let ?us = "take (user_count (w_users w)) (users (w_users w))"
  have us: "\<forall>u\<in>set ?us. length (username u) \<le> MAX_USER_LEN + 1" "length ?us \<le> MAX_USERS"
    using assms by (auto simp: users_wf_def dest: in_set_takeD)
  have h: "snprintf users_header = (length users_header, users_header)" "length users_header = 23"
    by (simp_all add: snprintf_def users_header_def success_status_def bytes_of_def CRLF_def MGMT_BUFFSIZE_def)
  have "length users_header + length ?us * (MAX_USER_LEN + 3) + 3 < MGMT_BUFFSIZE"
    using us(2) h(2) by (simp add: user_limits MGMT_BUFFSIZE_def)
  note l = list_users_ok [OF us(1) this]
  have "concat (map (\<lambda>u. cstr (username u) @ CRLF) ?us) = concat (map (\<lambda>np. fst np @ CRLF) (user_entries (w_users w)))"
    by (simp add: user_entries_def comp_def)
  with l h(1) show "do_users c w = Inr (c, w, length users_header, users_listing (w_users w))"
    and "length (users_listing (w_users w)) < MGMT_BUFFSIZE"
    by (simp_all add: do_users_def get_users_def users_listing_def CRLF_def bytes_of_def)
qed

text \<open>Every command that the lexer can return is executed without a fault.\<close>

lemma answer_ok:
  assumes wf: "lexer_wf (input c)" "small (input c)" "tables_ok w" and st: "in_state (input c) = -1" "in_cur (input c) = in_tok (input c)"
    and cmd: "command_ok cmd arg argLen (input c)" "cmd \<noteq> MGMT_INCOMPLETE"
  obtains c' w' len r where "answer cmd arg argLen c w = Inr (Some (c', w', len, r))" "length r < MGMT_BUFFSIZE" "executed c w c' w'"
proof -
  have trns: "in_cond (input c) \<noteq> yycpass" if "cmd \<notin> set pass_commands"
    using cmd(1) that by (auto simp: command_ok_def)
  have plain: "\<exists>len r. snprintf s = (len, r) \<and> length r < MGMT_BUFFSIZE" for s
    by simp
  note same = executed_plain [OF wf(1,3)]
  have "\<exists>c' w' len r. answer cmd arg argLen c w = Inr (Some (c', w', len, r)) \<and> length r < MGMT_BUFFSIZE \<and> executed c w c' w'"
  proof (cases cmd)
    case MGMT_TOKEN
    then show ?thesis using do_token_ok [OF wf st, of arg argLen] cmd(1) by (auto simp: answer_def)
  next
    case MGMT_SET_BUFFSIZE
    then show ?thesis using do_set_buffsize_ok [OF wf, of arg argLen] cmd(1) trns by (auto simp: answer_def pass_commands_def)
  next
    case MGMT_SET_DISSECTOR_STATUS
    then show ?thesis using do_set_dissector_ok [OF wf, of arg argLen] cmd(1) trns by (auto simp: answer_def pass_commands_def)
  next
    case MGMT_ADD_USER
    then show ?thesis using do_add_user_ok [OF wf, of arg argLen] cmd(1) trns by (auto simp: answer_def pass_commands_def)
  next
    case MGMT_USERS
    then show ?thesis using do_users_ok(1) [of w c] do_users_ok(2) [of w] wf(3) same(2) by (simp add: answer_def tables_ok_def)
  qed (use cmd(2) same in \<open>auto simp: answer_def\<close>)
  then show thesis using that by blast
qed

section \<open>The command loop\<close>

definition mgmt_wf :: "mgmt_client \<Rightarrow> bool" where
  "mgmt_wf c \<longleftrightarrow> buffer_wf (write_buf c) \<and> buf_limit (write_buf c) = MGMT_BUFFSIZE
     \<and> buffer_wf (pending_buf c) \<and> buf_limit (pending_buf c) = MGMT_BUFFSIZE
     \<and> lexer_wf (input c) \<and> in_bufSize (input c) = MGMT_BUFFSIZE"

lemma mgmt_wfD:
  assumes "mgmt_wf c"
  shows "buffer_wf (write_buf c)" "buf_limit (write_buf c) = MGMT_BUFFSIZE" "buffer_wf (pending_buf c)"
    "buf_limit (pending_buf c) = MGMT_BUFFSIZE" "lexer_wf (input c)" "in_bufSize (input c) = MGMT_BUFFSIZE"
    "input_wf (input c)" "small (input c)"
  using assms lexer_wfD(1) by (auto simp: mgmt_wf_def small_def MGMT_BUFFSIZE_def)

text \<open>What a run of the loop may do: answers are only appended.\<close>

definition processed :: "mgmt_client \<Rightarrow> world \<Rightarrow> mgmt_client \<Rightarrow> world \<Rightarrow> bool" where
  "processed c w c' w' \<longleftrightarrow> mgmt_wf c' \<and> tables_ok w' \<and> mc_fd c' = mc_fd c \<and> settings_changed w w'
     \<and> (\<exists>out. contents (write_buf c') = contents (write_buf c) @ out)
     \<and> (\<exists>late. contents (pending_buf c') = contents (pending_buf c) @ late)
     \<and> (in_cond (input c) = yycpass \<longrightarrow> in_cond (input c') = yycpass \<and> w' = w
          \<or> in_cond (input c') = yyctrns \<and> shows_token (input c) w)
     \<and> (in_cond (input c) = yyctrns \<longrightarrow> in_cond (input c') = yyctrns)"

lemma stage_cond: "lexer_wf i \<Longrightarrow> in_cond i = yycpass \<or> in_cond i = yyctrns"
  using lexer_wfD(2) by (auto simp: stage_waits_def)

lemma nulled_shows: "nulled (in_buf i) (in_buf i') \<Longrightarrow> shows_token i' w \<Longrightarrow> shows_token i w"
  using nulled_sublist by (auto simp: shows_token_def)

lemma processed_trans:
  assumes "gate (input c) w (input c1) w1" "settings_changed w w1" "mc_fd c1 = mc_fd c" "lexer_wf (input c)"
    and "contents (write_buf c1) = contents (write_buf c) @ out" "contents (pending_buf c1) = contents (pending_buf c) @ late"
    and "processed c1 w1 c' w'"
  shows "processed c w c' w'"
proof -
  have tok: "w_tokens w1 = w_tokens w" using assms(2) by (auto simp: settings_changed_def)
  have "in_cond (input c') = yycpass \<and> w' = w \<or> in_cond (input c') = yyctrns \<and> shows_token (input c) w"
    if p: "in_cond (input c) = yycpass"
  proof -
    have g: "w1 = w" "nulled (in_buf (input c)) (in_buf (input c1))"
      "in_cond (input c1) = yycpass \<or> in_cond (input c1) = yyctrns \<and> shows_token (input c) w"
      using assms(1) p by (auto simp: gate_def)
    then show ?thesis
      using assms(7) nulled_shows [OF g(2), of w] by (auto simp: processed_def)
  qed
  moreover have "settings_changed w w'"
    using assms(2,7) settings_changed_trans by (auto simp: processed_def)
  ultimately show ?thesis
    using assms(1,3,5-7) unfolding processed_def gate_def by (auto simp: append_assoc)
qed

text \<open>
  Two kinds of rounds before authentication. A command is answered and neither the stage nor anything of the
  server changes; or the command is \<open>TOKEN\<close>, its argument is the text \<open>tok\<close>, \<open>tok\<close> is in the table, and the stage changes.
\<close>

definition pass_step :: "world \<Rightarrow> mgmt_client \<Rightarrow> mgmt_client \<Rightarrow> bool" where
  "pass_step w c c' \<longleftrightarrow> in_cond (input c) = yycpass \<and> in_cond (input c') = yycpass
     \<and> (\<exists>cmd arg argLen len i c2 rl r n b. parseMgmtRequest (input c) = Inr (Some (cmd, Some (arg, argLen, len), i))
          \<and> answer cmd arg argLen (c\<lparr>input := i\<rparr>) w = Inr (Some (c2, w, rl, r)) \<and> rl \<le> Buffer.space (write_buf c)
          \<and> write_response (write_buf c2) r = Inr (n, b) \<and> c' = c2\<lparr>write_buf := b\<rparr>)"

definition token_step :: "world \<Rightarrow> mgmt_client \<Rightarrow> byte list \<Rightarrow> mgmt_client \<Rightarrow> bool" where
  "token_step w c tok c2 \<longleftrightarrow> in_cond (input c) = yycpass \<and> in_cond (input c2) = yyctrns \<and> check_token tok (w_tokens w)
     \<and> (\<exists>arg argLen len i a i1 rl r. parseMgmtRequest (input c) = Inr (Some (MGMT_TOKEN, Some (arg, argLen, len), i))
          \<and> end_arg arg argLen i = Inr (a, i1) \<and> arg_text a i1 = Inr tok
          \<and> answer MGMT_TOKEN arg argLen (c\<lparr>input := i\<rparr>) w = Inr (Some (c2, w, rl, r)))"

text \<open>Only \<open>TOKEN\<close> with a token of the table ends the first stage.\<close>

lemma answer_opens:
  assumes "answer cmd arg argLen c w = Inr (Some (c2, w2, rl, r))" and "in_cond (input c) = yycpass" "in_cond (input c2) = yyctrns"
    and "command_ok cmd arg argLen (input c)"
  obtains a i1 tok where "cmd = MGMT_TOKEN" "end_arg arg argLen (input c) = Inr (a, i1)" "arg_text a i1 = Inr tok"
    "check_token tok (w_tokens w)"
proof -
  have ne: "yycpass \<noteq> yyctrns" by (simp add: yycpass_def yyctrns_def)
  have "cmd \<in> set pass_commands" using assms(2,4) by (simp add: command_ok_def)
  then have cmd: "cmd = MGMT_TOKEN"
    using assms(1-3) ne by (auto simp: pass_commands_def answer_def)
  then have "do_token arg argLen c w = Inr (c2, w2, rl, r)"
    using assms(1) by (simp add: answer_def bindE_eq_Inr)
  then obtain a i1 tok where t: "end_arg arg argLen (input c) = Inr (a, i1)" "arg_text a i1 = Inr tok"
    "(if check_token tok (w_tokens w) then Inr (c\<lparr>input := i1\<lparr>in_cond := yyctrns\<rparr>\<rparr>, w, snprintf correct_password_text)
      else Inr (c\<lparr>input := i1\<rparr>, w, snprintf incorrect_password_text)) = (Inr (c2, w2, rl, r) :: _ run)"
    by (auto simp: do_token_def bindE_eq_Inr)
  have "in_cond i1 = yycpass"
    using t(1) assms(2) by (auto simp: end_arg_def bindE_eq_Inr split: option.splits)
  then have "check_token tok (w_tokens w)"
    using t(3) assms(3) ne by (auto split: if_splits)
  then show thesis using that cmd t(1,2) by blast
qed

text \<open>What a round in the first stage amounts to: nothing changes, or the token is there.\<close>

definition pass_round :: "mgmt_client \<Rightarrow> world \<Rightarrow> mgmt_client \<Rightarrow> world \<Rightarrow> bool" where
  "pass_round c w c' w' \<longleftrightarrow> (in_cond (input c) = yycpass \<longrightarrow> w' = w \<and> nulled (in_buf (input c)) (in_buf (input c'))
     \<and> (in_cond (input c') = yycpass \<or> in_cond (input c') = yyctrns \<and> (\<exists>tok c2. token_step w c tok c2 \<and> sublist tok (in_buf (input c)))))"

lemma token_text:
  assumes "end_arg arg argLen i = Inr (a, i1)" and "arg_text a i1 = Inr tok"
  shows "sublist tok (in_buf i)"
proof -
  have "nulled (in_buf i) (in_buf i1)"
    using assms(1) nulled_update [of "in_buf i"] by (auto simp: end_arg_def bindE_eq_Inr mem_write_def overwrite_single split: option.splits if_splits)
  moreover have "sublist tok (in_buf i1)" "0 \<notin> set tok"
    using assms(2) sublist_cstr cstr_nul_free by (auto simp: arg_text_def split: if_splits)
  ultimately show ?thesis using nulled_sublist by blast
qed

text \<open>One round of the loop.\<close>

definition consumed :: "mgmt_client \<Rightarrow> mgmt_client \<Rightarrow> bool" where
  "consumed c c' \<longleftrightarrow> length (pending (input c')) < length (pending (input c))"

lemma process_round:
  assumes wf: "mgmt_wf c" and t: "tables_ok w"
  obtains (Ends) c' w' where "\<And>fuel. process_loop (Suc fuel) c w = Inr (Some (True, c', w'))" "processed c w c' w'"
      "pass_round c w c' w'"
  | (Goes_on) c' w' where "\<And>fuel. process_loop (Suc fuel) c w = process_loop fuel c' w'" "mgmt_wf c'" "tables_ok w'"
      "consumed c c'" "\<And>c2 w2. processed c' w' c2 w2 \<Longrightarrow> processed c w c2 w2" "pass_round c w c' w'"
      "in_cond (input c) = yycpass \<Longrightarrow> in_cond (input c') = yycpass \<Longrightarrow> pass_step w c c'"
proof -
  note c = mgmt_wfD [OF wf]
  obtain cmd out i where p: "parseMgmtRequest (input c) = Inr (Some (cmd, out, i))" "lexer_wf i"
    "in_buf i = in_buf (input c)" "in_lim i = in_lim (input c)" "in_bufSize i = in_bufSize (input c)" "in_cond i = in_cond (input c)"
    "cmd \<noteq> MGMT_INCOMPLETE \<Longrightarrow> \<exists>arg argLen len. out = Some (arg, argLen, len) \<and> 0 < len \<and> in_tok i = in_tok (input c) + len
       \<and> in_cur i = in_tok i \<and> in_state i = -1 \<and> command_ok cmd arg argLen i"
    by (rule parse_call [OF c(5)]) (rule that)
  let ?c1 = "c\<lparr>input := i\<rparr>"
  have gate1: "gate (input c) w i w" using p(3,6) stage_cond [OF c(5)] by (auto simp: gate_def)
  have wf1: "mgmt_wf ?c1" using c p(2,5) by (simp add: mgmt_wf_def)
  show thesis
  proof (cases "cmd = MGMT_INCOMPLETE")
    case True
    have "processed c w ?c1 w"
      using wf1 t p(6) stage_cond [OF c(5)] by (auto simp: processed_def yycpass_def yyctrns_def)
    moreover have "pass_round c w ?c1 w"
      using p(3,6) stage_cond [OF c(5)] by (auto simp: pass_round_def)
    ultimately show thesis using Ends p(1) True by simp
  next
    case False
    obtain arg argLen len where l: "out = Some (arg, argLen, len)" "0 < len" "in_tok i = in_tok (input c) + len"
      "in_cur i = in_tok i" "in_state i = -1" "command_ok cmd arg argLen i"
      using p(7) [OF False] by blast
    obtain c2 w2 rl r where a: "answer cmd arg argLen ?c1 w = Inr (Some (c2, w2, rl, r))" "length r < MGMT_BUFFSIZE" "executed ?c1 w c2 w2"
      using answer_ok [of ?c1 w cmd arg argLen] p(2,5) c(8) t l False by (simp add: small_def) blast
    note e = a(3) [unfolded executed_def]
    have bufs: "write_buf c2 = write_buf c" "pending_buf c2 = pending_buf c" "mc_fd c2 = mc_fd c" using e by auto
    have wf2: "mgmt_wf c2" using e wf1 by (simp add: mgmt_wf_def)
    obtain n pb where pb: "write_response (pending_buf c2) r = Inr (n, pb)" "buffer_wf pb" "buf_limit pb = MGMT_BUFFSIZE"
      "\<exists>late. contents pb = contents (pending_buf c) @ late"
      using write_response_ok [OF c(3)] c(4) bufs by metis
    obtain m wb where wb: "write_response (write_buf c2) r = Inr (m, wb)" "buffer_wf wb" "buf_limit wb = MGMT_BUFFSIZE"
      "\<exists>out. contents wb = contents (write_buf c) @ out"
      using write_response_ok [OF c(1)] c(2) bufs by metis
    have step: "process_loop (Suc fuel) c w =
        (if rl > Buffer.space (write_buf c) then Inr (Some (True, c2\<lparr>pending_buf := pb\<rparr>, w2))
         else process_loop fuel (c2\<lparr>write_buf := wb\<rparr>) w2)" for fuel
      using p(1) False l(1) a(1) c(1) pb(1) wb(1) bufs by simp
    have gate2: "gate (input c) w (input c2) w2"
      using e gate1 p(3,6) by (auto simp: gate_def shows_token_def)
    have opens: "\<exists>tok. token_step w c tok c2 \<and> sublist tok (in_buf (input c))"
      if st: "in_cond (input c) = yycpass" "in_cond (input c2) = yyctrns"
    proof -
      have "in_cond (input ?c1) = yycpass" "command_ok cmd arg argLen (input ?c1)" using st p(6) l(6) by simp_all
      then obtain a' i1 tok where t: "cmd = MGMT_TOKEN" "end_arg arg argLen i = Inr (a', i1)" "arg_text a' i1 = Inr tok"
        "check_token tok (w_tokens w)"
        using answer_opens [OF a(1) _ st(2)] by auto
      have "w2 = w" using gate2 st(1) by (simp add: gate_def)
      then have "token_step w c tok c2"
        unfolding token_step_def using st t p(1) l(1) a(1) by blast
      then show ?thesis using token_text [OF t(2,3)] p(3) by auto
    qed
    have round: "pass_round c w c3 w2" if "input c3 = input c2" for c3
      using gate2 opens that unfolding pass_round_def gate_def by auto
    show thesis
    proof (cases "rl > Buffer.space (write_buf c)")
      case True
      have "processed c w (c2\<lparr>pending_buf := pb\<rparr>) w2"
        using e gate2 wf2 pb(2-4) bufs by (auto simp: processed_def mgmt_wf_def gate_def)
      then show thesis using Ends step True round by simp
    next
      case fits: False
      let ?c3 = "c2\<lparr>write_buf := wb\<rparr>"
      have "consumed c ?c3"
      proof -
        have "input_wf (input c2)" using lexer_wfD(1) e by blast
        moreover have "in_tok i \<le> in_lim i" using lexer_wfD(1) [OF p(2)] by (simp add: input_wf_def)
        ultimately show ?thesis
          using e l(2,3) p(4) c(7) by (simp add: consumed_def length_pending)
      qed
      moreover have "processed c w c' w'" if "processed ?c3 w2 c' w'" for c' w'
      proof -
        obtain ot where "contents wb = contents (write_buf c) @ ot" using wb(4) by blast
        with that show ?thesis
          using e gate2 bufs c(5) by (intro processed_trans [of c w ?c3 w2 ot "[]"]) simp_all
      qed
      moreover have "pass_step w c ?c3" if "in_cond (input c) = yycpass" "in_cond (input ?c3) = yycpass"
      proof -
        have "w2 = w" using gate2 that(1) by (simp add: gate_def)
        then show ?thesis
          unfolding pass_step_def using that p(1) l(1) a(1) wb(1) fits
          by (intro conjI exI [of _ cmd] exI [of _ arg] exI [of _ argLen] exI [of _ len] exI [of _ i] exI [of _ c2] exI [of _ rl] exI [of _ r]
              exI [of _ m] exI [of _ wb]) simp_all
      qed
      ultimately show thesis
        using Goes_on [of ?c3 w2] step fits wf2 wb(2,3) e round [of ?c3] by (simp add: mgmt_wf_def)
    qed
  qed
qed

text \<open>One round for each byte in the window and one more are enough.\<close>

lemma process_loop_ok:
  assumes "mgmt_wf c" and "tables_ok w" and "length (pending (input c)) < fuel"
  shows "\<exists>c' w'. process_loop fuel c w = Inr (Some (True, c', w')) \<and> processed c w c' w'"
  using assms
proof (induction fuel arbitrary: c w)
  case 0
  then show ?case by simp
next
  case (Suc fuel)
  show ?case
  proof (cases rule: process_round [OF Suc.prems(1,2), case_names Ends Goes_on])
    case (Ends c' w')
    then show ?thesis by blast
  next
    case (Goes_on c' w')
    then have "length (pending (input c')) < fuel"
      using Suc.prems(3) by (simp add: consumed_def)
    then show ?thesis
      using Suc.IH [OF Goes_on(2,3)] Goes_on(1,5) by auto
  qed
qed

text \<open>The rounds before authentication, up to the token if there is one.\<close>

definition token_met :: "mgmt_client \<Rightarrow> world \<Rightarrow> nat \<Rightarrow> bool" where
  "token_met c w fuel \<longleftrightarrow> (\<exists>c1 tok c2 n. (pass_step w)\<^sup>*\<^sup>* c c1 \<and> process_loop fuel c w = process_loop n c1 w
     \<and> token_step w c1 tok c2 \<and> sublist tok (in_buf (input c)))"

lemma token_met_first:
  assumes "token_step w c tok c2" "sublist tok (in_buf (input c))"
  shows "token_met c w fuel"
  unfolding token_met_def using assms by blast

lemma token_met_later:
  assumes "pass_step w c c'" "nulled (in_buf (input c)) (in_buf (input c'))" "process_loop (Suc fuel) c w = process_loop fuel c' w"
    and "token_met c' w fuel"
  shows "token_met c w (Suc fuel)"
proof -
  obtain c1 tok c2 n where t: "(pass_step w)\<^sup>*\<^sup>* c' c1" "process_loop fuel c' w = process_loop n c1 w" "token_step w c1 tok c2"
    "sublist tok (in_buf (input c'))" using assms(4) unfolding token_met_def by blast
  have "0 \<notin> set tok"
    using t(3) cstr_nul_free by (auto simp: token_step_def arg_text_def split: if_splits)
  then have "sublist tok (in_buf (input c))" using nulled_sublist [OF assms(2) _ t(4)] by blast
  then show ?thesis
    unfolding token_met_def using converse_rtranclp_into_rtranclp [of "pass_step w", OF assms(1) t(1)] assms(3) t(2,3)
    by (intro exI [of _ c1] exI [of _ tok] exI [of _ c2] exI [of _ n]) simp
qed

lemma gate_loop:
  assumes "mgmt_wf c" and "tables_ok w" and "in_cond (input c) = yycpass" and "process_loop fuel c w = Inr (Some (True, c', w'))"
  shows "in_cond (input c') = yycpass \<and> w' = w \<or> token_met c w fuel"
  using assms
proof (induction fuel arbitrary: c)
  case 0
  then show ?case by simp
next
  case (Suc fuel)
  show ?case
  proof (cases rule: process_round [OF Suc.prems(1,2), case_names Ends Goes_on])
    case (Ends d v)
    then have "d = c'" "v = w'" using Suc.prems(4) by simp_all
    with Ends(3) Suc.prems(3) token_met_first show ?thesis by (auto simp: pass_round_def)
  next
    case (Goes_on d v)
    have r: "v = w" "nulled (in_buf (input c)) (in_buf (input d))"
      "in_cond (input d) = yycpass \<or> (\<exists>tok c2. token_step w c tok c2 \<and> sublist tok (in_buf (input c)))"
      using Goes_on(6) Suc.prems(3) unfolding pass_round_def by blast+
    show ?thesis
    proof (cases "in_cond (input d) = yycpass")
      case True
      have eq: "process_loop (Suc fuel) c w = process_loop fuel d w" using Goes_on(1) r(1) by simp
      then have "in_cond (input c') = yycpass \<and> w' = w \<or> token_met d w fuel"
        using Suc.IH [of d] Goes_on(2) Suc.prems(2,4) True by simp
      then show ?thesis using token_met_later [OF Goes_on(7) [OF Suc.prems(3) True] r(2) eq] by blast
    next
      case False
      then show ?thesis using r(3) token_met_first by blast
    qed
  qed
qed

lemma processMgmtClient_ok:
  assumes "mgmt_wf c" and "tables_ok w"
  obtains c' w' where "processMgmtClient c w = Inr (Some (True, c', w'))" "processed c w c' w'"
  using process_loop_ok [OF assms, of "process_fuel c"] by (auto simp: processMgmtClient_def process_fuel_def)

end
