(* ===== verification/Mgmt_Session.thy ===== *)
theory Mgmt_Session
  imports Mgmt_Server
begin

text \<open>
  The management protocol as a service: a session is a sequence of requests, each changing an
  abstract state and giving an answer. The command loop of \<open>src/mgmt.c\<close>, fed with the lines of a
  sequence of requests, gives the answers in their order and ends in the state of the service.
\<close>

section \<open>The service\<close>

datatype request =
    Capa | Quit | Stats | Users_list | Buffsize | Token "byte list" | Add_user "byte list" | Set_buffsize "byte list"
  | Dissector | Dissector_bare | Set_dissector bool

record service =
  sv_auth :: bool
  sv_quit :: bool
  sv_state :: server_state
  sv_users :: "(byte list \<times> byte list) list"

text \<open>
  The number written in decimal. What is stored of it are the low 32 bits, after it was limited to
  the greatest \<open>long\<close>.
\<close>

definition stored_size :: "byte list \<Rightarrow> int" where
  "stored_size ds = signed_take_bit 31 (min (decimal ds) (2 ^ 63 - 1))"

definition listing :: "(byte list \<times> byte list) list \<Rightarrow> byte list" where
  "listing us = users_header @ concat (map (\<lambda>np. fst np @ CRLF) us) @ bytes_of ''.'' @ CRLF"

fun serve :: "byte list list \<Rightarrow> request \<Rightarrow> service \<Rightarrow> byte list \<times> service" where
  "serve toks Capa sv = (capa_message, sv)"
| "serve toks Quit sv = (quit_text, sv\<lparr>sv_quit := True\<rparr>)"
| "serve toks Stats sv = (stats_text (sv_state sv), sv)"
| "serve toks Users_list sv = (listing (sv_users sv), sv)"
| "serve toks Buffsize sv = (buffsize_text (sv_state sv), sv)"
| "serve toks (Token t) sv =
     (if t \<in> set toks then (correct_password_text, sv\<lparr>sv_auth := True\<rparr>) else (incorrect_password_text, sv))"
| "serve toks (Add_user s) sv =
     (if acceptable_user s (sv_users sv)
      then (add_user_text (user_name s), sv\<lparr>sv_users := sv_users sv @ [(user_name s, user_pass s)]\<rparr>)
      else (add_user_error_text (user_name s), sv))"
| "serve toks (Set_buffsize ds) sv =
     (if 512 < stored_size ds \<and> stored_size ds \<le> 10240
      then (set_buffsize_text, sv\<lparr>sv_state := (sv_state sv)\<lparr>buffsize := word_of_int (stored_size ds)\<rparr>\<rparr>)
      else (set_buffsize_error_text, sv))"
| "serve toks Dissector sv = (dissector_status_text (sv_state sv), sv)"
| "serve toks Dissector_bare sv = (invalid_cmd_text, sv)"
| "serve toks (Set_dissector on) sv =
     (set_dissector_status_text, sv\<lparr>sv_state := (sv_state sv)\<lparr>dissector_state := on\<rparr>\<rparr>)"

text \<open>
  The lines of a request: keywords in any case, spaces, the argument. The status of the dissector is
  asked for with at least one space behind the keyword; \<open>Dissector_bare\<close> is the line without one.
\<close>

definition status_text :: "bool \<Rightarrow> byte list" where
  "status_text on = bytes_of (if on then ''on'' else ''off'')"

fun line_of :: "request \<Rightarrow> byte list \<Rightarrow> bool" where
  "line_of (Token t) l \<longleftrightarrow> t \<noteq> [] \<and> (\<forall>c\<in>set t. printable c) \<and> (\<exists>kw a b. letters ''token'' kw \<and> l = arg_line kw a t b)"
| "line_of (Add_user s) l \<longleftrightarrow> s \<noteq> [] \<and> (\<forall>c\<in>set s. printable c) \<and> (\<exists>kw a b. letters ''add-user'' kw \<and> l = arg_line kw a s b)"
| "line_of (Set_buffsize ds) l \<longleftrightarrow> ds \<noteq> [] \<and> (\<forall>c\<in>set ds. digit c) \<and> (\<exists>kw a b. letters ''set-buffsize'' kw \<and> l = arg_line kw a ds b)"
| "line_of Capa l \<longleftrightarrow> (\<exists>kw b. letters ''capa'' kw \<and> l = kw @ replicate b 32 @ [13, 10])"
| "line_of Quit l \<longleftrightarrow> (\<exists>kw b. letters ''quit'' kw \<and> l = kw @ replicate b 32 @ [13, 10])"
| "line_of Stats l \<longleftrightarrow> (\<exists>kw b. letters ''stats'' kw \<and> l = kw @ replicate b 32 @ [13, 10])"
| "line_of Users_list l \<longleftrightarrow> (\<exists>kw b. letters ''users'' kw \<and> l = kw @ replicate b 32 @ [13, 10])"
| "line_of Buffsize l \<longleftrightarrow> (\<exists>kw b. letters ''buffsize'' kw \<and> l = kw @ replicate b 32 @ [13, 10])"
| "line_of Dissector l \<longleftrightarrow> (\<exists>kw b. letters ''dissector-status'' kw \<and> 0 < b \<and> l = kw @ replicate b 32 @ [13, 10])"
| "line_of Dissector_bare l \<longleftrightarrow> (\<exists>kw. letters ''dissector-status'' kw \<and> l = kw @ [13, 10])"
| "line_of (Set_dissector on) l \<longleftrightarrow> (\<exists>kw a. letters ''set-dissector-status'' kw \<and> l = arg_line kw a (status_text on) 0)"

text \<open>Before authentication only three requests are allowed; \<open>TOKEN\<close> is not one of those after it.\<close>

fun allowed :: "bool \<Rightarrow> request \<Rightarrow> bool" where
  "allowed auth Capa = True" | "allowed auth Quit = True" | "allowed auth (Token t) = (\<not> auth)" | "allowed auth r = auth"

text \<open>A session: the requests one after the other, each allowed when its turn comes.\<close>

fun session :: "byte list list \<Rightarrow> request list \<Rightarrow> service \<Rightarrow> (byte list \<times> service) option" where
  "session toks [] sv = Some ([], sv)"
| "session toks (r # rs) sv =
     (if allowed (sv_auth sv) r
      then let (ans, sv1) = serve toks r sv in map_option (\<lambda>(out, sv2). (ans @ out, sv2)) (session toks rs sv1)
      else None)"

section \<open>Arguments in the window\<close>

lemma printable_nonzero: "printable c \<Longrightarrow> c \<noteq> 0" and digit_nonzero: "digit c \<Longrightarrow> c \<noteq> 0"
  by (auto simp: printable_def digit_def)

lemma pending_update: "k < in_tok i \<Longrightarrow> pending (i\<lparr>in_buf := (in_buf i)[k := x]\<rparr>) = pending i"
  by (simp add: pending_def)

lemma argument_text:
  assumes wf: "input_wf i" and line: "pending i = arg_line kw a arg b @ rest" and nul: "0 \<notin> set arg"
  defines "s \<equiv> in_tok i + length kw + Suc a"
  shows "cstr (drop s ((in_buf i)[s + length arg := 0])) = arg" and "s + length arg < length (in_buf i)"
    and "s + length arg < in_tok i + length (arg_line kw a arg b)"
proof -
  define tail where "tail = replicate b 32 @ [13, 10] @ rest @ drop (in_lim i) (in_buf i)"
  have "drop s (in_buf i) = drop (length kw + Suc a) (drop (in_tok i) (in_buf i))"
    by (simp add: s_def add.commute add.left_commute)
  also have "\<dots> = arg @ tail"
    unfolding drop_pending [OF wf] line arg_line_def tail_def by simp
  finally have d: "drop s (in_buf i) = arg @ tail" .
  have "tail \<noteq> []" by (simp add: tail_def)
  then obtain x xs where x: "tail = x # xs" by (cases tail) auto
  have "drop s ((in_buf i)[s + length arg := 0]) = (arg @ tail)[length arg := 0]"
    using d by (simp add: drop_update_swap)
  then show "cstr (drop s ((in_buf i)[s + length arg := 0])) = arg"
    using x nul by simp
  have "length (drop s (in_buf i)) = length arg + length tail" using d by simp
  then show "s + length arg < length (in_buf i)" using x by simp
  show "s + length arg < in_tok i + length (arg_line kw a arg b)"
    by (simp add: s_def arg_line_def)
qed

lemma parse_frame:
  assumes wf: "lexer_wf i" and run: "parseMgmtRequest i = Inr (Some (cmd, out, i'))"
  shows "lexer_wf i'" and "in_buf i' = in_buf i" and "in_bufSize i' = in_bufSize i"
    and "out = Some (arg, argLen, len) \<Longrightarrow> in_tok i' = in_tok i + len"
proof -
  show "lexer_wf i'"
    by (rule parse_call [OF wf]) (use run in simp)
  show "in_buf i' = in_buf i"
    by (rule parse_call [OF wf]) (use run in simp)
  show "in_bufSize i' = in_bufSize i"
    by (rule parse_call [OF wf]) (use run in simp)
  show "in_tok i' = in_tok i + len" if "out = Some (arg, argLen, len)"
    by (rule parse_ok [OF lexer_wfD(1) [OF wf]]) (use run that in simp)
qed

text \<open>The command of a line with an argument, as \<open>answer\<close> finds it.\<close>

lemma lexed_argument:
  assumes wf: "lexer_wf (input c)" and lx: "lexed (input c) cmd kw a arg b rest"
    and line: "pending (input c) = arg_line kw a arg b @ rest" and nul: "0 \<notin> set arg" and sm: "small (input c)"
  obtains i i1 s len where "parseMgmtRequest (input c) = Inr (Some (cmd, Some (Some s, length arg, len), i))"
    "end_arg (Some s) (length arg) i = Inr (s, i1)" "arg_text s i1 = Inr arg" "retouched i i1"
    "lexer_wf i1" "line_start (in_cond (input c)) i1" "pending i1 = rest" "s + length arg < in_tok i1"
    "in_bufSize i1 = in_bufSize (input c)"
proof -
  let ?s = "in_tok (input c) + length kw + Suc a"
  obtain i where i: "parseMgmtRequest (input c) = Inr (Some (cmd, Some (Some ?s, length arg, length (arg_line kw a arg b)), i))"
    "line_start (in_cond (input c)) i" "pending i = rest"
    using lx by (auto simp: lexed_def)
  note i' = parse_frame [OF wf i(1)]
  have tok: "in_tok i = in_tok (input c) + length (arg_line kw a arg b)"
    by (rule i'(4)) simp
  note at = argument_text [OF lexer_wfD(1) [OF wf] line nul]
  let ?i1 = "i\<lparr>in_buf := (in_buf i)[?s + length arg := 0]\<rparr>"
  have e: "?s + length arg < length (in_buf i)" using at(2) i'(2) by simp
  have "?s + length arg < in_bufSize i"
    using at(3) tok lexer_wfD(1) [OF i'(1)] by (simp add: input_wf_def)
  then have small: "?s + length arg < 2 ^ 64"
    using sm i'(3) by (simp add: small_def)
  have cut: "end_arg (Some ?s) (length arg) i = Inr (?s, ?i1)"
    using e mod_less [OF small] unfolding end_arg_def by (simp only: option.simps) (simp add: overwrite_single)
  have "(drop ?s (in_buf ?i1)) ! length arg = 0" "length arg < length (drop ?s (in_buf ?i1))"
    using e by simp_all
  then have "0 \<in> set (drop ?s (in_buf ?i1))" by (metis nth_mem)
  then have str: "arg_text ?s ?i1 = Inr arg"
    using at(1) i'(2) by (simp add: arg_text_def)
  have re: "retouched i ?i1" by (rule retouched_nul [OF e])
  have "line_start (in_cond (input c)) ?i1" "lexer_wf ?i1"
    using i(2) retouched_lexer [OF i'(1) re] lexer_wfD(1) by (auto simp: line_start_def)
  then show thesis
    using that [OF i(1) cut str re] pending_update [of "?s + length arg" i] at(3) tok i(3) i'(3) by simp
qed

section \<open>One request\<close>

text \<open>The client, the world and the rest of the input stand for a state of the service.\<close>

definition stands_for :: "mgmt_client \<Rightarrow> world \<Rightarrow> service \<Rightarrow> byte list \<Rightarrow> bool" where
  "stands_for c w sv rest \<longleftrightarrow> mgmt_wf c \<and> tables_ok w \<and> line_start (if sv_auth sv then yyctrns else yycpass) (input c)
     \<and> pending (input c) = rest \<and> quitted c = sv_quit sv \<and> w_state w = sv_state sv \<and> user_entries (w_users w) = sv_users sv"

text \<open>An answer that fits is queued and the loop goes on.\<close>

lemma answered_round:
  assumes wf: "buffer_wf (write_buf c)" and parse: "parseMgmtRequest (input c) = Inr (Some (cmd, Some (arg, argLen, len), i))"
    and cmd: "cmd \<noteq> MGMT_INCOMPLETE" and ans: "answer cmd arg argLen (c\<lparr>input := i\<rparr>) w = Inr (Some (c2, w2, rl, r))"
    and same: "write_buf c2 = write_buf c" and fits: "rl \<le> length r" "length r \<le> Buffer.space (write_buf c)"
  obtains wb where "\<And>fuel. process_loop (Suc fuel) c w = process_loop fuel (c2\<lparr>write_buf := wb\<rparr>) w2" "buffer_wf wb"
    "buf_limit wb = buf_limit (write_buf c)" "contents wb = contents (write_buf c) @ r"
    "Buffer.space wb = Buffer.space (write_buf c) - length r"
proof -
  obtain n wb where wb: "write_response (write_buf c) r = Inr (n, wb)" "buffer_wf wb" "buf_limit wb = buf_limit (write_buf c)"
    "contents wb = contents (write_buf c) @ r" "Buffer.space wb = Buffer.space (write_buf c) - length r"
    using write_response_ok [OF wf, of r] fits(2) by auto
  have "process_loop (Suc fuel) c w = process_loop fuel (c2\<lparr>write_buf := wb\<rparr>) w2" for fuel
    using parse cmd ans same fits wf wb(1) by simp
  then show thesis using that wb by blast
qed

lemma snprintf_short: "length s < MGMT_BUFFSIZE \<Longrightarrow> snprintf s = (length s, s)"
  by (simp add: snprintf_def)

text \<open>What one round does for a request whose answer is \<open>ans\<close>.\<close>

definition round_ok :: "mgmt_client \<Rightarrow> world \<Rightarrow> byte list \<Rightarrow> service \<Rightarrow> byte list \<Rightarrow> bool" where
  "round_ok c w ans sv rest \<longleftrightarrow> (\<exists>c' w'. (\<forall>fuel. process_loop (Suc fuel) c w = process_loop fuel c' w')
     \<and> stands_for c' w' sv rest \<and> contents (write_buf c') = contents (write_buf c) @ ans
     \<and> Buffer.space (write_buf c') = Buffer.space (write_buf c) - length ans \<and> w_tokens w' = w_tokens w)"

lemma round_okI:
  assumes wf: "mgmt_wf c" and parse: "parseMgmtRequest (input c) = Inr (Some (cmd, Some (arg, argLen, len), i))"
    and cmd: "cmd \<noteq> MGMT_INCOMPLETE" and ans: "answer cmd arg argLen (c\<lparr>input := i\<rparr>) w = Inr (Some (c2, w2, rl, ans))"
    and fits: "rl \<le> length ans" "length ans < Buffer.space (write_buf c)"
    and c2: "write_buf c2 = write_buf c" "pending_buf c2 = pending_buf c" "stands_for c2 w2 sv rest" "w_tokens w2 = w_tokens w"
  shows "round_ok c w ans sv rest"
proof -
  note c = mgmt_wfD [OF wf]
  obtain wb where wb: "\<And>fuel. process_loop (Suc fuel) c w = process_loop fuel (c2\<lparr>write_buf := wb\<rparr>) w2" "buffer_wf wb"
    "buf_limit wb = buf_limit (write_buf c)" "contents wb = contents (write_buf c) @ ans"
    "Buffer.space wb = Buffer.space (write_buf c) - length ans"
    using answered_round [OF c(1) parse cmd ans c2(1) fits(1)] fits(2) by (metis less_imp_le)
  have "stands_for (c2\<lparr>write_buf := wb\<rparr>) w2 sv rest"
    using c2 wb(2,3) c(2) by (simp add: stands_for_def mgmt_wf_def)
  with wb c2(4) show ?thesis unfolding round_ok_def
    by (intro exI [of _ "c2\<lparr>write_buf := wb\<rparr>"] exI [of _ w2]) simp
qed

lemma space_le: "mgmt_wf c \<Longrightarrow> Buffer.space (write_buf c) \<le> MGMT_BUFFSIZE"
  using mgmt_wfD(2) by (simp add: Buffer.space_def)

lemma plain_round:
  assumes st: "stands_for c w sv (l @ rest)" and acc: "accepts_after ok (if sv_auth sv then yyctrns else yycpass) name cmd"
    and line: "letters name kw" "ok b" "l = kw @ replicate b 32 @ [13, 10]" and cmd: "cmd \<noteq> MGMT_INCOMPLETE"
    and ans: "\<And>i. answer cmd None 0 (c\<lparr>input := i\<rparr>) w = Inr (Some (c\<lparr>input := i, quitted := q\<rparr>, w, rl, ans))"
    and fits: "rl \<le> length ans" "length ans < Buffer.space (write_buf c)"
  shows "round_ok c w ans (sv\<lparr>sv_quit := q\<rparr>) rest"
proof -
  have wf: "mgmt_wf c" and ls: "line_start (if sv_auth sv then yyctrns else yycpass) (input c)"
    and p: "pending (input c) = kw @ replicate b 32 @ [13, 10] @ rest"
    using st line(3) by (simp_all add: stands_for_def)
  obtain i where i: "parseMgmtRequest (input c) = Inr (Some (cmd, Some (None, 0, length kw + b + 2), i))"
    "line_start (if sv_auth sv then yyctrns else yycpass) i" "pending i = rest"
    using acceptsD [OF acc ls line(1,2) p] by blast
  note i' = parse_frame [OF mgmt_wfD(5) [OF wf] i(1)]
  have "stands_for (c\<lparr>input := i, quitted := q\<rparr>) w (sv\<lparr>sv_quit := q\<rparr>) rest"
    using st i(2,3) i'(1,3) by (simp add: stands_for_def mgmt_wf_def)
  then show ?thesis
    by (intro round_okI [OF wf i(1) cmd ans fits]) simp_all
qed

text \<open>A request with an argument, once it is known what the command does with it.\<close>

lemma argument_round:
  assumes st: "stands_for c w sv (arg_line kw a arg b @ rest)" and lx: "lexed (input c) cmd kw a arg b rest" and nul: "0 \<notin> set arg"
    and cmd: "cmd \<noteq> MGMT_INCOMPLETE" and fits: "length ans < Buffer.space (write_buf c)"
    and run: "\<And>s i i1. end_arg (Some s) (length arg) i = Inr (s, i1) \<Longrightarrow> arg_text s i1 = Inr arg \<Longrightarrow> lexer_wf i1 \<Longrightarrow>
      line_start (in_cond (input c)) i1 \<Longrightarrow> pending i1 = rest \<Longrightarrow> s + length arg < in_tok i1 \<Longrightarrow> in_bufSize i1 = MGMT_BUFFSIZE \<Longrightarrow>
      \<exists>i2 w2. answer cmd (Some s) (length arg) (c\<lparr>input := i\<rparr>) w = Inr (Some (c\<lparr>input := i2\<rparr>, w2, length ans, ans))
        \<and> stands_for (c\<lparr>input := i2\<rparr>) w2 sv' rest \<and> w_tokens w2 = w_tokens w"
  shows "round_ok c w ans sv' rest"
proof -
  have wf: "mgmt_wf c" and p: "pending (input c) = arg_line kw a arg b @ rest"
    using st by (simp_all add: stands_for_def)
  note c = mgmt_wfD [OF wf]
  obtain i i1 s len where i: "parseMgmtRequest (input c) = Inr (Some (cmd, Some (Some s, length arg, len), i))"
    "end_arg (Some s) (length arg) i = Inr (s, i1)" "arg_text s i1 = Inr arg" "retouched i i1"
    "lexer_wf i1" "line_start (in_cond (input c)) i1" "pending i1 = rest" "s + length arg < in_tok i1"
    "in_bufSize i1 = in_bufSize (input c)"
    by (rule lexed_argument [OF c(5) lx p nul c(8)]) (rule that)
  obtain i2 w2 where r: "answer cmd (Some s) (length arg) (c\<lparr>input := i\<rparr>) w = Inr (Some (c\<lparr>input := i2\<rparr>, w2, length ans, ans))"
    "stands_for (c\<lparr>input := i2\<rparr>) w2 sv' rest" "w_tokens w2 = w_tokens w"
    using run [OF i(2,3,5-8)] i(9) c(6) by auto
  show ?thesis
    by (rule round_okI [OF wf i(1) cmd r(1) order_refl fits _ _ r(2,3)]) simp_all
qed

lemma token_round:
  assumes st: "stands_for c w sv (l @ rest)" and auth: "\<not> sv_auth sv" and line: "line_of (Token t) l"
    and sv: "serve (token_entries (w_tokens w)) (Token t) sv = (ans, sv')" and fits: "length ans < Buffer.space (write_buf c)"
  shows "round_ok c w ans sv' rest"
proof -
  obtain kw a b where l: "letters ''token'' kw" "l = arg_line kw a t b" and t: "t \<noteq> []" "\<forall>c\<in>set t. printable c"
    using line by auto
  have wf: "mgmt_wf c" and ls: "line_start yycpass (input c)" and p: "pending (input c) = arg_line kw a t b @ rest"
    using st auth l(2) by (simp_all add: stands_for_def)
  have short: "length ans < MGMT_BUFFSIZE" using fits space_le [OF wf] by simp
  have nul: "0 \<notin> set t" using t(2) printable_nonzero by blast
  show ?thesis
  proof (rule argument_round [OF st [unfolded l(2)] lex_token [OF ls p l(1) t] nul _ fits])
    fix s i i1
    assume i: "end_arg (Some s) (length t) i = Inr (s, i1)" "arg_text s i1 = Inr t" "lexer_wf i1"
      "line_start (in_cond (input c)) i1" "pending i1 = rest" "in_bufSize i1 = MGMT_BUFFSIZE"
    have pass: "line_start yycpass i1" using i(4) ls by (simp add: line_start_def)
    let ?i2 = "if t \<in> set (token_entries (w_tokens w)) then i1\<lparr>in_cond := yyctrns\<rparr> else i1"
    have "lexer_wf ?i2" "in_bufSize ?i2 = MGMT_BUFFSIZE" "pending ?i2 = rest"
      using i pass by (auto simp: lexer_wf_def line_start_def input_wf_def roomy_def stage_waits_def tag_waits_def progress_waits_def pending_def)
    moreover have "line_start (if sv_auth sv' then yyctrns else yycpass) ?i2"
      using pass sv auth by (auto simp: line_start_def input_wf_def split: if_splits)
    ultimately have "stands_for (c\<lparr>input := ?i2\<rparr>) w sv' rest"
      using st sv by (auto simp: stands_for_def mgmt_wf_def split: if_splits)
    moreover have "answer MGMT_TOKEN (Some s) (length t) (c\<lparr>input := i\<rparr>) w = Inr (Some (c\<lparr>input := ?i2\<rparr>, w, length ans, ans))"
      using i(1,2) sv snprintf_short [OF short] by (auto simp: answer_def do_token_def check_token_iff split: if_splits)
    ultimately show "\<exists>i2 w2. answer MGMT_TOKEN (Some s) (length t) (c\<lparr>input := i\<rparr>) w
          = Inr (Some (c\<lparr>input := i2\<rparr>, w2, length ans, ans))
        \<and> stands_for (c\<lparr>input := i2\<rparr>) w2 sv' rest \<and> w_tokens w2 = w_tokens w"
      by blast
  qed simp
qed

text \<open>Numbers.\<close>

lemma digit_isdigit: "digit c \<Longrightarrow> isdigit c"
  by (simp add: digit_def isdigit_def word_le_nat_alt)

lemma atoi_digits:
  assumes "\<forall>c\<in>set ds. digit c" and "ds \<noteq> []"
  shows "atoi ds = stored_size ds"
  using strtol_digits [OF _ assms(2)] assms(1) digit_isdigit by (simp add: atoi_def stored_size_def)

lemma stored_size_range: "- (2 ^ 31) \<le> stored_size ds" "stored_size ds < 2 ^ 31"
  unfolding stored_size_def by (rule signed_take_bit_int_greater_eq_minus_exp, rule signed_take_bit_int_less_exp)

lemma size_in_range:
  "(MIN_SOCKS_BUFFSIZE < (word_of_int (stored_size ds) :: 64 word) \<and> (word_of_int (stored_size ds) :: 64 word) < MAX_SOCKS_BUFFSIZE)
    \<longleftrightarrow> 512 < stored_size ds \<and> stored_size ds \<le> 10240"
proof -
  let ?x = "stored_size ds"
  have "uint (word_of_int ?x :: 64 word) = (if 0 \<le> ?x then ?x else ?x + 2 ^ 64)"
  proof (cases "0 \<le> ?x")
    case True
    then show ?thesis using stored_size_range(2) [of ds] by (simp add: uint_word_of_int)
  next
    case False
    then have "(?x + 2 ^ 64) mod 2 ^ 64 = ?x + 2 ^ 64"
      using stored_size_range(1) [of ds] by (intro mod_pos_pos_trivial) simp_all
    with False show ?thesis by (simp add: uint_word_of_int)
  qed
  then show ?thesis
    using stored_size_range [of ds] by (auto simp: word_less_def MIN_SOCKS_BUFFSIZE_def MAX_SOCKS_BUFFSIZE_def)
qed

text \<open>Printed numbers are read back; a number too large for an \<open>int\<close> is read modulo \<open>2 ^ 32\<close>.\<close>

lemma digit_of_nat: "n < 10 \<Longrightarrow> digit (of_nat (48 + n)) \<and> uint (of_nat (48 + n) :: byte) - 48 = int n"
proof -
  assume n: "n < 10"
  have u: "unat (of_nat (48 + n) :: byte) = 48 + n"
    using n by (simp add: unat_of_nat del: of_nat_add)
  then have "uint (of_nat (48 + n) :: byte) = int (48 + n)" by (metis uint_nat)
  with u n show "digit (of_nat (48 + n)) \<and> uint (of_nat (48 + n) :: byte) - 48 = int n"
    by (simp add: digit_def del: of_nat_add)
qed

lemma show_nat_digits: "\<forall>c\<in>set (show_nat n). digit c"
proof (induction n rule: show_nat.induct)
  case (1 n)
  then show ?case
    using digit_of_nat [of n] digit_of_nat [of "n mod 10"] by (subst show_nat.simps) auto
qed

lemma show_nat_nonempty: "show_nat n \<noteq> []"
  by (subst show_nat.simps) simp

lemma decimal_snoc: "decimal (ds @ [c]) = 10 * decimal ds + (uint c - 48)"
  by (simp add: decimal_def)

lemma decimal_show: "decimal (show_nat n) = int n"
proof (induction n rule: show_nat.induct)
  case (1 n)
  show ?case
  proof (cases "n < 10")
    case True
    then have "show_nat n = [of_nat (48 + n)]" by (subst show_nat.simps) (simp only: if_True)
    with digit_of_nat [OF True] show ?thesis by (simp add: decimal_def)
  next
    case False
    then have "show_nat n = show_nat (n div 10) @ [of_nat (48 + n mod 10)]" by (subst show_nat.simps) (simp only: if_False)
    then have "decimal (show_nat n) = 10 * int (n div 10) + int (n mod 10)"
      using 1 [OF False] digit_of_nat [of "n mod 10"] by (simp only: decimal_snoc)
    then show ?thesis by (simp add: zdiv_int zmod_int)
  qed
qed

lemma atoi_show:
  assumes "n < 2 ^ 31" and "n + k * 2 ^ 32 < 2 ^ 63"
  shows "atoi (show_nat (n + k * 2 ^ 32)) = int n"
proof -
  let ?x = "int (n + k * 2 ^ 32)"
  have "int (n + k * 2 ^ 32) \<le> int (2 ^ 63 - 1)" using assms(2) by (simp only: of_nat_le_iff)
  then have "min ?x (2 ^ 63 - 1) = ?x" by simp
  then have "atoi (show_nat (n + k * 2 ^ 32)) = signed_take_bit 31 ?x"
    by (simp only: atoi_digits [OF show_nat_digits show_nat_nonempty] stored_size_def decimal_show)
  also have "\<dots> = signed_take_bit 31 (take_bit 32 ?x)"
    by (simp add: signed_take_bit_take_bit)
  also have "take_bit 32 ?x = int n"
    using assms(1) by (simp add: take_bit_eq_mod)
  also have "signed_take_bit 31 (int n) = int n"
    using assms(1) by (intro signed_take_bit_int_eq_self) simp_all
  finally show ?thesis .
qed

lemma buffsize_text_set:
  assumes "n \<noteq> 0" and "n < 2 ^ 31"
  shows "buffsize_text (set_buffsize (of_nat n) s)
    = success_status @ bytes_of '' '' @ CRLF @ show_nat n @ CRLF @ bytes_of ''.'' @ CRLF"
proof -
  have nz: "(of_nat n :: 64 word) \<noteq> 0"
    using assms by (simp add: word_of_nat_eq_0_iff) (auto dest!: dvd_imp_le)
  have "(ucast (of_nat n :: 64 word) :: 32 word) = of_nat n"
    by (simp add: unsigned_of_nat take_bit_nat_eq_self assms) (use assms in \<open>simp add: take_bit_nat_eq_self\<close>)
  moreover have "sint (of_nat n :: 32 word) = int n"
    using assms by (simp add: signed_of_nat signed_take_bit_int_eq_self)
  ultimately show ?thesis
    using nz by (simp add: buffsize_text_def get_buffsize_def set_buffsize_def show_int_def)
qed

lemma buffsize_round:
  assumes st: "stands_for c w sv (l @ rest)" and auth: "sv_auth sv" and line: "line_of (Set_buffsize ds) l"
    and sv: "serve toks (Set_buffsize ds) sv = (ans, sv')" and fits: "length ans < Buffer.space (write_buf c)"
  shows "round_ok c w ans sv' rest"
proof -
  obtain kw a b where l: "letters ''set-buffsize'' kw" "l = arg_line kw a ds b" and t: "ds \<noteq> []" "\<forall>c\<in>set ds. digit c"
    using line by auto
  have wf: "mgmt_wf c" and ls: "line_start yyctrns (input c)" and p: "pending (input c) = arg_line kw a ds b @ rest"
    using st auth l(2) by (simp_all add: stands_for_def)
  have short: "length ans < MGMT_BUFFSIZE" using fits space_le [OF wf] by simp
  have nul: "0 \<notin> set ds" using t(2) digit_nonzero by blast
  define x where "x = (word_of_int (stored_size ds) :: 64 word)"
  define ok where "ok \<longleftrightarrow> 512 < stored_size ds \<and> stored_size ds \<le> 10240"
  have ok: "MIN_SOCKS_BUFFSIZE < x \<and> x < MAX_SOCKS_BUFFSIZE \<longleftrightarrow> ok"
    unfolding x_def ok_def by (rule size_in_range)
  let ?w2 = "if ok then w\<lparr>w_state := set_buffsize x (w_state w)\<rparr> else w"
  have x: "ok \<Longrightarrow> x \<noteq> 0 \<and> 512 < unat x \<and> unat x \<le> 10240"
    using ok by (auto simp: MIN_SOCKS_BUFFSIZE_def MAX_SOCKS_BUFFSIZE_def word_less_nat_alt)
  show ?thesis
  proof (rule argument_round [OF st [unfolded l(2)] lex_set_buffsize [OF ls p l(1) t] nul _ fits])
    fix s i i1
    assume i: "end_arg (Some s) (length ds) i = Inr (s, i1)" "arg_text s i1 = Inr ds" "lexer_wf i1"
      "line_start (in_cond (input c)) i1" "pending i1 = rest" "in_bufSize i1 = MGMT_BUFFSIZE"
    have trns: "line_start yyctrns i1" using i(4) ls by (simp add: line_start_def)
    have "tables_ok ?w2"
      using st x by (auto simp: stands_for_def tables_ok_def buffsize_ok_def set_buffsize_def)
    then have "stands_for (c\<lparr>input := i1\<rparr>) ?w2 sv' rest"
      using st sv auth i(3,5,6) trns x
      by (auto simp: stands_for_def mgmt_wf_def set_buffsize_def ok_def [symmetric] x_def [symmetric] split: if_splits)
    moreover have "answer MGMT_SET_BUFFSIZE (Some s) (length ds) (c\<lparr>input := i\<rparr>) w
        = Inr (Some (c\<lparr>input := i1\<rparr>, ?w2, length ans, ans))"
      using i(1,2) sv snprintf_short [OF short] ok
      by (auto simp: answer_def do_set_buffsize_def atoi_digits [OF t(2,1)] x_def [symmetric] ok_def [symmetric] Let_def split: if_splits)
    ultimately show "\<exists>i2 w2. answer MGMT_SET_BUFFSIZE (Some s) (length ds) (c\<lparr>input := i\<rparr>) w
          = Inr (Some (c\<lparr>input := i2\<rparr>, w2, length ans, ans))
        \<and> stands_for (c\<lparr>input := i2\<rparr>) w2 sv' rest \<and> w_tokens w2 = w_tokens w"
      by (intro exI [of _ i1] exI [of _ ?w2]) simp
  qed simp
qed

lemma add_user_round:
  assumes st: "stands_for c w sv (l @ rest)" and auth: "sv_auth sv" and line: "line_of (Add_user u) l"
    and sv: "serve toks (Add_user u) sv = (ans, sv')" and fits: "length ans < Buffer.space (write_buf c)"
  shows "round_ok c w ans sv' rest"
proof -
  obtain kw a b where l: "letters ''add-user'' kw" "l = arg_line kw a u b" and t: "u \<noteq> []" "\<forall>c\<in>set u. printable c"
    using line by auto
  have wf: "mgmt_wf c" and ls: "line_start yyctrns (input c)" and p: "pending (input c) = arg_line kw a u b @ rest"
    and us: "users_wf (w_users w)" "user_entries (w_users w) = sv_users sv"
    using st auth l(2) by (simp_all add: stands_for_def tables_ok_def)
  have short: "length ans < MGMT_BUFFSIZE" using fits space_le [OF wf] by simp
  have nul: "0 \<notin> set u" using t(2) printable_nonzero by blast
  obtain ut where ut: "add_user u (w_users w) = Inr (acceptable_user u (sv_users sv), ut, user_name u)" "users_wf ut"
    "user_entries ut = sv_users sv @ (if acceptable_user u (sv_users sv) then [(user_name u, user_pass u)] else [])"
    using add_user_spec [OF us(1), of u] us(2) by metis
  let ?w2 = "w\<lparr>w_users := ut\<rparr>"
  show ?thesis
  proof (rule argument_round [OF st [unfolded l(2)] lex_add_user [OF ls p l(1) t] nul _ fits])
    fix s i i1
    assume i: "end_arg (Some s) (length u) i = Inr (s, i1)" "arg_text s i1 = Inr u" "lexer_wf i1"
      "line_start (in_cond (input c)) i1" "pending i1 = rest" "s + length u < in_tok i1" "in_bufSize i1 = MGMT_BUFFSIZE"
    define i2 where "i2 = i1\<lparr>in_buf := if 58 \<in> set u then overwrite (s + length (user_name u)) [0] (in_buf i1) else in_buf i1\<rparr>"
    have at: "58 \<in> set u \<Longrightarrow> s + length (user_name u) < in_tok i1" "in_tok i1 < length (in_buf i1)"
      using i(6) user_name_shorter [of u] lexer_wfD(1) [OF i(3)] by (auto simp: input_wf_def)
    then have re: "retouched i1 i2"
      using retouched_nul [of "s + length (user_name u)" i1] by (auto simp: i2_def overwrite_single)
    have pend: "pending i2 = rest"
      using at pending_update [of "s + length (user_name u)" i1] i(5) by (auto simp: i2_def overwrite_single)
    have "line_start yyctrns i2"
      using i(4) ls retouched_lexer [OF i(3) re] lexer_wfD(1) retouched_fields [OF re] by (simp add: line_start_def)
    then have "stands_for (c\<lparr>input := i2\<rparr>) ?w2 sv' rest"
      using st sv auth ut(2,3) pend retouched_lexer [OF i(3) re] retouched_fields(1) [OF re] i(7)
      by (auto simp: stands_for_def mgmt_wf_def tables_ok_def split: if_splits)
    moreover have "answer MGMT_ADD_USER (Some s) (length u) (c\<lparr>input := i\<rparr>) w
        = Inr (Some (c\<lparr>input := i2\<rparr>, ?w2, length ans, ans))"
      using i(1,2) sv ut(1) snprintf_short [OF short]
      by (auto simp: answer_def do_add_user_def i2_def Let_def split: if_splits)
    ultimately show "\<exists>i2 w2. answer MGMT_ADD_USER (Some s) (length u) (c\<lparr>input := i\<rparr>) w
          = Inr (Some (c\<lparr>input := i2\<rparr>, w2, length ans, ans))
        \<and> stands_for (c\<lparr>input := i2\<rparr>) w2 sv' rest \<and> w_tokens w2 = w_tokens w"
      by (intro exI [of _ i2] exI [of _ ?w2]) simp
  qed simp
qed

text \<open>The argument is lowered in place, which leaves a word in lower case as it is.\<close>

lemma overwrite_argument:
  assumes "arg_text s i = Inr arg" and "map tolower arg = arg"
  shows "i\<lparr>in_buf := overwrite s (map tolower arg) (in_buf i)\<rparr> = i"
proof -
  have arg: "arg = takeWhile (\<lambda>c. c \<noteq> 0) (drop s (in_buf i))"
    using assms(1) by (simp add: arg_text_def cstr_def split: if_splits)
  define r where "r = dropWhile (\<lambda>c. c \<noteq> 0) (drop s (in_buf i))"
  have d: "drop s (in_buf i) = arg @ r" by (simp add: arg r_def)
  have "drop (s + length arg) (in_buf i) = r"
    using drop_drop [of "length arg" s "in_buf i"] by (simp add: d add.commute)
  then have "overwrite s arg (in_buf i) = in_buf i"
    using append_take_drop_id [of s "in_buf i"] d by (simp add: overwrite_def)
  then show ?thesis by (simp add: assms(2))
qed

lemma status_text_facts:
  "map tolower (status_text on) = status_text on" "0 \<notin> set (status_text on)" "status_word (status_text on)"
  "status_text on = bytes_of ''on'' \<longleftrightarrow> on" "status_text on = bytes_of ''off'' \<longleftrightarrow> \<not> on"
  by (simp_all add: status_text_def status_word_def bytes_of_def tolower_def)

lemma dissector_round:
  assumes st: "stands_for c w sv (l @ rest)" and auth: "sv_auth sv" and line: "line_of (Set_dissector on) l"
    and sv: "serve toks (Set_dissector on) sv = (ans, sv')" and fits: "length ans < Buffer.space (write_buf c)"
  shows "round_ok c w ans sv' rest"
proof -
  obtain kw a where l: "letters ''set-dissector-status'' kw" "l = arg_line kw a (status_text on) 0" using line by auto
  have wf: "mgmt_wf c" and ls: "line_start yyctrns (input c)" and p: "pending (input c) = arg_line kw a (status_text on) 0 @ rest"
    using st auth l(2) by (simp_all add: stands_for_def)
  have short: "length ans < MGMT_BUFFSIZE" using fits space_le [OF wf] by simp
  note word = status_text_facts [of on]
  let ?w2 = "w\<lparr>w_state := set_dissector_state on (w_state w)\<rparr>"
  show ?thesis
  proof (rule argument_round [OF st [unfolded l(2)] lex_set_dissector [OF ls p l(1) word(3)] word(2) _ fits])
    fix s i i1
    assume i: "end_arg (Some s) (length (status_text on)) i = Inr (s, i1)" "arg_text s i1 = Inr (status_text on)" "lexer_wf i1"
      "line_start (in_cond (input c)) i1" "pending i1 = rest" "in_bufSize i1 = MGMT_BUFFSIZE"
    have trns: "line_start yyctrns i1" using i(4) ls by (simp add: line_start_def)
    have "tables_ok ?w2"
      using st by (auto simp: stands_for_def tables_ok_def buffsize_ok_def set_dissector_state_def)
    then have "stands_for (c\<lparr>input := i1\<rparr>) ?w2 sv' rest"
      using st sv auth i(3,5,6) trns by (auto simp: stands_for_def mgmt_wf_def set_dissector_state_def)
    moreover have "answer MGMT_SET_DISSECTOR_STATUS (Some s) (length (status_text on)) (c\<lparr>input := i\<rparr>) w
        = Inr (Some (c\<lparr>input := i1\<rparr>, ?w2, length ans, ans))"
      using i(1,2) sv snprintf_short [OF short] overwrite_argument [OF i(2) word(1)] word(1,4,5)
      by (cases on) (auto simp: answer_def do_set_dissector_def Let_def)
    ultimately show "\<exists>i2 w2. answer MGMT_SET_DISSECTOR_STATUS (Some s) (length (status_text on)) (c\<lparr>input := i\<rparr>) w
          = Inr (Some (c\<lparr>input := i2\<rparr>, w2, length ans, ans))
        \<and> stands_for (c\<lparr>input := i2\<rparr>) w2 sv' rest \<and> w_tokens w2 = w_tokens w"
      by (intro exI [of _ i1] exI [of _ ?w2]) simp
  qed simp
qed

section \<open>Sessions\<close>

lemma quit_same: "quitted c = sv_quit sv \<Longrightarrow> c\<lparr>input := i, quitted := sv_quit sv\<rparr> = c\<lparr>input := i\<rparr>"
  by (cases c) simp

lemma serve_round:
  assumes st: "stands_for c w sv (l @ rest)" and line: "line_of r l" and al: "allowed (sv_auth sv) r"
    and sv: "serve (token_entries (w_tokens w)) r sv = (ans, sv')" and fits: "length ans < Buffer.space (write_buf c)"
  shows "round_ok c w ans sv' rest"
proof -
  have wf: "mgmt_wf c" and q: "quitted c = sv_quit sv" "w_state w = sv_state sv" and t: "users_wf (w_users w)"
    and us: "user_entries (w_users w) = sv_users sv"
    using st by (simp_all add: stands_for_def tables_ok_def)
  have short: "snprintf ans = (length ans, ans)" using fits space_le [OF wf] by (intro snprintf_short) simp
  have sv_same: "sv\<lparr>sv_quit := sv_quit sv\<rparr> = sv" by simp
  show ?thesis
  proof (cases r)
    case Capa
    then show ?thesis
      using plain_round [OF st _ _ _ _ _ _ order_refl fits, of "\<lambda>_. True" "''capa''" MGMT_CAPA _ _ "sv_quit sv"] plain_accepted(4,6) line sv short
      by (auto simp: answer_def accepts_def quit_same [OF q(1)])
  next
    case Quit
    then show ?thesis
      using plain_round [OF st _ _ _ _ _ _ order_refl fits, of "\<lambda>_. True" "''quit''" MGMT_QUIT _ _ True] plain_accepted(5,7) line sv short
      by (auto simp: answer_def accepts_def)
  next
    case Stats
    then show ?thesis
      using plain_round [OF st _ _ _ _ _ _ order_refl fits, of "\<lambda>_. True" "''stats''" MGMT_STATS _ _ "sv_quit sv"] plain_accepted(1) line sv short al q
      by (auto simp: answer_def accepts_def quit_same [OF q(1)])
  next
    case Buffsize
    then show ?thesis
      using plain_round [OF st _ _ _ _ _ _ order_refl fits, of "\<lambda>_. True" "''buffsize''" MGMT_GET_BUFFSIZE _ _ "sv_quit sv"] plain_accepted(3) line sv short al q
      by (auto simp: answer_def accepts_def quit_same [OF q(1)])
  next
    case Users_list
    have "ans = users_listing (w_users w)" using sv Users_list us by (auto simp: listing_def users_listing_def)
    moreover have "length users_header \<le> length ans" using calculation by (simp add: users_listing_def)
    ultimately show ?thesis
      using plain_round [OF st _ _ _ _ _ _ _ fits, of "\<lambda>_. True" "''users''" MGMT_USERS _ _ "sv_quit sv" "length users_header"] plain_accepted(2)
        line sv al do_users_ok(1) [OF t] Users_list
      by (auto simp: answer_def accepts_def quit_same [OF q(1)])
  next
    case (Token x)
    then show ?thesis using token_round [OF st _ _ _ fits] line sv al by simp
  next
    case (Add_user x)
    then show ?thesis using add_user_round [OF st _ _ _ fits] line sv al by simp
  next
    case (Set_buffsize x)
    then show ?thesis using buffsize_round [OF st _ _ _ fits] line sv al by simp
  next
    case Dissector
    then show ?thesis
      using plain_round [OF st _ _ _ _ _ _ order_refl fits, of "\<lambda>b. 0 < b" "''dissector-status''" MGMT_GET_DISSECTOR_STATUS _ _ "sv_quit sv"]
        dissector_accepted(1) line sv short al q
      by (auto simp: answer_def quit_same [OF q(1)])
  next
    case Dissector_bare
    then show ?thesis
      using plain_round [OF st _ _ _ _ _ _ order_refl fits, of "\<lambda>b. b = 0" "''dissector-status''" MGMT_INVALID_CMD _ 0 "sv_quit sv"]
        dissector_accepted(2) line sv short al q
      by (auto simp: answer_def quit_same [OF q(1)])
  next
    case (Set_dissector on)
    then show ?thesis using dissector_round [OF st _ _ _ fits, of on] line sv al by auto
  qed
qed

text \<open>A listing for whose header there is room, but not for all of it, is lost.\<close>

lemma listing_lost:
  assumes st: "stands_for c w sv (l @ rest)" and auth: "sv_auth sv" and line: "line_of Users_list l"
    and room: "length users_header \<le> Buffer.space (write_buf c)" "Buffer.space (write_buf c) < length (listing (sv_users sv))"
  shows "\<exists>i. (\<forall>fuel. process_loop (Suc fuel) c w = process_loop fuel (c\<lparr>input := i\<rparr>) w) \<and> stands_for (c\<lparr>input := i\<rparr>) w sv rest"
proof -
  obtain kw b where l: "letters ''users'' kw" "l = kw @ replicate b 32 @ [13, 10]" using line by auto
  have wf: "mgmt_wf c" and ls: "line_start yyctrns (input c)" and p: "pending (input c) = kw @ replicate b 32 @ [13, 10] @ rest"
    and us: "users_wf (w_users w)" "user_entries (w_users w) = sv_users sv"
    using st auth l(2) by (simp_all add: stands_for_def tables_ok_def)
  obtain i where i: "parseMgmtRequest (input c) = Inr (Some (MGMT_USERS, Some (None, 0, length kw + b + 2), i))"
    "line_start yyctrns i" "pending i = rest"
    using acceptsD [OF plain_accepted(2) [unfolded accepts_def] ls l(1) _ p] by blast
  note i' = parse_frame [OF mgmt_wfD(5) [OF wf] i(1)]
  have "length (users_listing (w_users w)) > Buffer.space (write_buf c)"
    using room(2) us(2) by (simp add: listing_def users_listing_def)
  then have wr: "write_response (write_buf c) (users_listing (w_users w)) = Inr (-1, write_buf c)"
    by (simp add: write_response_put [OF mgmt_wfD(1) [OF wf]])
  have same: "c\<lparr>input := i, write_buf := write_buf c\<rparr> = c\<lparr>input := i\<rparr>" by (cases c) simp
  have "process_loop (Suc fuel) c w = process_loop fuel (c\<lparr>input := i\<rparr>) w" for fuel
    using i(1) do_users_ok(1) [OF us(1), of "c\<lparr>input := i\<rparr>"] room(1) wr mgmt_wfD(1) [OF wf] same by (simp add: answer_def)
  moreover have "stands_for (c\<lparr>input := i\<rparr>) w sv rest"
    using st auth i(2,3) i'(1,3) by (simp add: stands_for_def mgmt_wf_def)
  ultimately show ?thesis by blast
qed

text \<open>At the end of the input the loop stops.\<close>

lemma lex_empty:
  assumes st: "line_start cond i" and e: "pending i = []"
  shows "\<exists>k. parseMgmtRequest i = Inr (Some (MGMT_INCOMPLETE, None, i\<lparr>in_state := k\<rparr>))"
proof -
  have wf: "input_wf i" and tok: "in_cur i = in_tok i" "in_state i = -1" using st by (simp_all add: line_start_def)
  have lim: "in_cur i = in_lim i"
    using length_pending [OF wf] e wf tok by (simp add: input_wf_def)
  have "is_stay (yytable ! yy0 i)" using entry_blocks by (simp add: yy0_def)
  then obtain f cs d where b: "yytable ! yy0 i = Scan Stay f cs d"
    by (auto elim: is_stay.elims(2))
  have n: "yy0 i < 208" by (simp add: yy0_def)
  have "is_fill (yylook cs d 0)" using table_at(2) [OF n] b by simp
  then obtain m where m: "yylook cs d 0 = Fill_go m" by (auto elim: is_fill.elims(2))
  have "in_lim i < length (in_buf i)" "in_buf i ! in_lim i = 0" using wf by (auto simp: input_wf_def)
  then have enter: "yy_enter (yytable ! yy0 i) i = Inr (Final Need_input (i\<lparr>in_state := int f\<rparr>))"
    using b m lim by (simp add: yy_enter_def yy_scan_def yy_pre_def)
  have "\<exists>k. parse_fuel i = Suc k" by (simp add: parse_fuel_def)
  then obtain k where k: "parse_fuel i = Suc k" by blast
  have "yy_loop (parse_fuel i) (Next (yy0 i) i) = Inr (Some (Need_input, i\<lparr>in_state := int f\<rparr>))"
    unfolding k using enter table_at(1) [OF n] by simp
  then show ?thesis
    using tok(2) by (auto simp: parseMgmtRequest_def yy_start_def)
qed

text \<open>The client stands for the service and has read everything.\<close>

definition at_rest :: "mgmt_client \<Rightarrow> world \<Rightarrow> service \<Rightarrow> bool" where
  "at_rest c w sv \<longleftrightarrow> mgmt_wf c \<and> tables_ok w \<and> in_cond (input c) = (if sv_auth sv then yyctrns else yycpass)
     \<and> pending (input c) = [] \<and> quitted c = sv_quit sv \<and> w_state w = sv_state sv \<and> user_entries (w_users w) = sv_users sv"

lemma session_loop:
  assumes "stands_for c w sv (concat ls)" and "list_all2 line_of rs ls"
    and "session (token_entries (w_tokens w)) rs sv = Some (out, sv')" and "length out < Buffer.space (write_buf c)"
    and "length rs < fuel"
  shows "\<exists>c' w'. process_loop fuel c w = Inr (Some (True, c', w')) \<and> at_rest c' w' sv'
    \<and> contents (write_buf c') = contents (write_buf c) @ out"
  using assms
proof (induction rs arbitrary: ls c w sv out fuel)
  case Nil
  then have st: "stands_for c w sv []" and fin: "out = []" "sv' = sv" by auto
  obtain k where k: "parseMgmtRequest (input c) = Inr (Some (MGMT_INCOMPLETE, None, (input c)\<lparr>in_state := k\<rparr>))"
    using st lex_empty unfolding stands_for_def by blast
  obtain f where f: "fuel = Suc f" using Nil.prems(5) by (cases fuel) auto
  have "process_loop fuel c w = Inr (Some (True, c\<lparr>input := (input c)\<lparr>in_state := k\<rparr>\<rparr>, w))"
    unfolding f using k by simp
  moreover have "lexer_wf ((input c)\<lparr>in_state := k\<rparr>)"
    using parse_frame(1) [OF _ k] st by (simp add: stands_for_def mgmt_wf_def)
  then have "at_rest (c\<lparr>input := (input c)\<lparr>in_state := k\<rparr>\<rparr>) w sv'"
    using st fin by (simp add: stands_for_def at_rest_def mgmt_wf_def line_start_def pending_def)
  ultimately show ?case using fin by auto
next
  case (Cons r rs)
  obtain l ls' where ls: "ls = l # ls'" "line_of r l" "list_all2 line_of rs ls'"
    using Cons.prems(2) by (auto simp: list_all2_Cons1)
  obtain ans sv1 where sv1: "serve (token_entries (w_tokens w)) r sv = (ans, sv1)" by fastforce
  have al: "allowed (sv_auth sv) r" using Cons.prems(3) by (simp split: if_splits)
  obtain out2 where out2: "session (token_entries (w_tokens w)) rs sv1 = Some (out2, sv')" "out = ans @ out2"
    using Cons.prems(3) al sv1 by auto
  obtain c1 w1 where c1: "\<And>fuel. process_loop (Suc fuel) c w = process_loop fuel c1 w1" "stands_for c1 w1 sv1 (concat ls')"
    "contents (write_buf c1) = contents (write_buf c) @ ans" "Buffer.space (write_buf c1) = Buffer.space (write_buf c) - length ans"
    "w_tokens w1 = w_tokens w"
    using serve_round [OF _ ls(2) al sv1, of c "concat ls'"] Cons.prems(1,4) out2(2) ls(1)
    by (auto simp: round_ok_def)
  obtain f where f: "fuel = Suc f" using Cons.prems(5) by (cases fuel) auto
  show ?case
    using Cons.IH [OF c1(2) ls(3) _ _, of out2 f] out2 c1 Cons.prems(4,5) f by auto
qed

lemma line_nonempty: "line_of r l \<Longrightarrow> 0 < length l"
  by (cases r) (auto simp: arg_line_def)

lemma lines_length: "list_all2 line_of rs ls \<Longrightarrow> length rs \<le> length (concat ls)"
proof (induction rule: list_all2_induct)
  case (Cons r rs l ls)
  then show ?case using line_nonempty [of r l] by (cases l) simp_all
qed simp

lemma session_run:
  assumes "stands_for c w sv (concat ls)" and "list_all2 line_of rs ls"
    and "session (token_entries (w_tokens w)) rs sv = Some (out, sv')" and "length out < Buffer.space (write_buf c)"
  shows "\<exists>c' w'. processMgmtClient c w = Inr (Some (True, c', w')) \<and> at_rest c' w' sv'
    \<and> contents (write_buf c') = contents (write_buf c) @ out"
  unfolding processMgmtClient_def
  using assms lines_length [OF assms(2)] by (intro session_loop [OF assms]) (simp add: process_fuel_def stands_for_def)

end
