(* ===== verification/Event_Loop.thy ===== *)
theory Event_Loop
  imports Selector
begin

text \<open>
  One round of the selector with callbacks that keep an invariant. The locale \<open>event_loop\<close> says what the callbacks
  of a handler table owe the selector; inside it a round of \<open>selector_select\<close> is shown to end without a
  fault and to keep the invariant.
\<close>

section \<open>What callbacks may do to the selector\<close>

text \<open>An item that is not in use asks for nothing; the loop relies on that when a callback wipes its own item.\<close>

definition blank_items :: "('h, 'd, 'z) fdselector_scheme \<Rightarrow> bool" where
  "blank_items s \<longleftrightarrow> (case fds s of None \<Rightarrow> True | Some xs \<Rightarrow> \<forall>it\<in>set xs. \<not> ITEM_USED it \<longrightarrow> it_interest it = 0)"

text \<open>What stays while callbacks run: the answer of \<open>pselect\<close>, the jobs, the size of the table.\<close>

definition sel_kept :: "('h, 'd, 'z) fdselector_scheme \<Rightarrow> ('h, 'd, 'z) fdselector_scheme \<Rightarrow> bool" where
  "sel_kept s s' \<longleftrightarrow> slave_r s' = slave_r s \<and> slave_w s' = slave_w s \<and> resolution_jobs s' = resolution_jobs s
     \<and> same_table s s' \<and> (blank_items s \<longrightarrow> blank_items s')"

lemma sel_kept_refl [simp]: "sel_kept s s"
  by (simp add: sel_kept_def same_table_def)

lemma sel_kept_trans: "sel_kept s s1 \<Longrightarrow> sel_kept s1 s2 \<Longrightarrow> sel_kept s s2"
  by (simp add: sel_kept_def same_table_def)

lemma blank_items_put:
  assumes "blank_items s" and "ITEM_USED it \<or> it_interest it = 0"
  shows "blank_items (put_item fd it s)"
proof (cases "fds s")
  case (Some xs)
  have "set (xs[nat fd := it]) \<subseteq> insert it (set xs)" by (rule set_update_subset_insert)
  then show ?thesis using assms Some by (auto simp: blank_items_def put_item_def)
qed (use assms in \<open>simp add: blank_items_def put_item_def\<close>)

lemma put_item_kept:
  assumes "ITEM_USED it \<or> it_interest it = 0"
  shows "sel_kept s (put_item fd it s)"
proof -
  have "slave_r (put_item fd it s) = slave_r s" "slave_w (put_item fd it s) = slave_w s"
    "resolution_jobs (put_item fd it s) = resolution_jobs s" by (simp_all add: put_item_def)
  then show ?thesis using blank_items_put [OF _ assms, of s fd] by (simp add: sel_kept_def same_table_def)
qed

lemma update_fdset_kept: "sel_kept s (items_update_fdset_for_fd it s)"
  by (simp add: sel_kept_def same_table_def blank_items_def items_update_fdset_for_fd_def Let_def)

lemma max_fd_kept: "sel_kept s (s\<lparr>max_fd := m\<rparr>)"
  by (simp add: sel_kept_def same_table_def blank_items_def)

lemma rewrite_kept:
  assumes "ITEM_USED it \<or> it_interest it = 0"
  shows "sel_kept s (items_update_fdset_for_fd it (put_item fd it s))"
  by (rule sel_kept_trans [OF put_item_kept [OF assms] update_fdset_kept])

lemma change_item_kept:
  assumes "change_item f fd s = Inr (st, s')" and "\<And>it. ITEM_USED (f it) = ITEM_USED it"
  shows "sel_kept s s'"
proof (cases "s' = s")
  case False
  then obtain it where "ITEM_USED it" "s' = items_update_fdset_for_fd (f it) (put_item fd (f it) s)"
    using assms(1) by (auto simp: change_item_def bindE_eq_Inr split: if_splits)
  then show ?thesis using rewrite_kept [of "f it"] assms(2) by simp
qed simp

lemma selector_set_interest_kept:
  "selector_set_interest fd i s = Inr (st, s') \<Longrightarrow> sel_kept s s'"
  unfolding selector_set_interest_def by (erule change_item_kept) (simp add: ITEM_USED_def)

lemma selector_register_kept:
  assumes "sel_wf s" and "selector_register alloc junk fd h interest data s = Inr (st, s')"
  shows "sel_kept s s'"
proof (cases "INVALID_FD fd \<or> h = None")
  case True
  then show ?thesis using assms(2) by (simp add: selector_register_def)
next
  case False
  then have grow: "\<not> nat fd > fd_size s" using register_no_growth [OF assms(1)] by blast
  have used: "ITEM_USED (it\<lparr>it_fd := fd, it_handler := h, it_interest := interest, it_mask := NOT 0, it_data := data\<rparr>)" for it :: "('a, 'b) item"
    using False by (simp add: ITEM_USED_def FD_UNUSED_def INVALID_FD_def)
  have "sel_kept s (items_update_fdset_for_fd it' (if fd > max_fd (put_item fd it' s) then (put_item fd it' s)\<lparr>max_fd := fd\<rparr> else put_item fd it' s))"
    if "ITEM_USED it'" for it'
    by (rule sel_kept_trans [OF put_item_kept [OF disjI1 [OF that], of s fd] sel_kept_trans [OF _ update_fdset_kept]]) (simp add: max_fd_kept)
  note kept = this [OF used]
  show ?thesis
  proof (cases "s' = s")
    case moved: False
    let ?new = "\<lambda>it. it\<lparr>it_fd := fd, it_handler := h, it_interest := interest, it_mask := NOT 0, it_data := data\<rparr>"
    obtain it where "s' = items_update_fdset_for_fd (?new it) (if fd > max_fd (put_item fd (?new it) s)
        then (put_item fd (?new it) s)\<lparr>max_fd := fd\<rparr> else put_item fd (?new it) s)"
      using assms(2) False grow moved by (auto simp: selector_register_def bindE_eq_Inr Let_def split: if_splits)
    then show ?thesis using kept by simp
  qed simp
qed

text \<open>For unregistering, the close callback has to keep it, too.\<close>

lemma selector_unregister_kept:
  assumes "selector_unregister_fd H fd s = Inr (st, s')"
    and "\<And>h k f s1. handle_close (H h) = Some f \<Longrightarrow> f k s = Inr s1 \<Longrightarrow> sel_kept s s1"
  shows "sel_kept s s'"
proof -
  define wiped where "wiped s1 it m = put_item fd (item_init zero_item) (items_update_fdset_for_fd (it\<lparr>it_interest := OP_NOOP\<rparr>)
      (put_item fd (it\<lparr>it_interest := OP_NOOP\<rparr>) s1))\<lparr>max_fd := m\<rparr>" for s1 :: "('a, 'b, 'c) fdselector_scheme" and it m
  have wipe: "sel_kept s1 (wiped s1 it m)" for s1 it m
  proof -
    have "sel_kept s1 (items_update_fdset_for_fd (it\<lparr>it_interest := OP_NOOP\<rparr>) (put_item fd (it\<lparr>it_interest := OP_NOOP\<rparr>) s1))"
      by (rule rewrite_kept) (simp add: OP_NOOP_def)
    then show ?thesis unfolding wiped_def
      by (rule sel_kept_trans [OF _ sel_kept_trans [OF put_item_kept max_fd_kept]]) (simp add: item_init_def zero_item_def)
  qed
  show ?thesis
  proof (cases "s' = s")
    case False
    have "\<exists>s1 it m. sel_kept s s1 \<and> s' = wiped s1 it m"
      using assms(1) False unfolding selector_unregister_fd_def wiped_def Let_def
      by (auto simp: bindE_eq_Inr split: if_splits option.splits) (use assms(2) sel_kept_refl in blast)+
    then show ?thesis using wipe sel_kept_trans by metis
  qed simp
qed

text \<open>A new selector has nothing in it.\<close>

lemma selector_new_blank:
  assumes "alloc (ITEMS_MAX_SIZE + 1)" and "selector_new H conf True alloc junk 1024 s = Inr (Some s')"
  shows "blank_items s'" and "resolution_jobs s' = []"
  using assms next_capacity_1024
  by (auto simp: selector_new_def ensure_capacity_def items_init_def Let_def ITEMS_MAX_SIZE_def map_replicate blank_items_def
      item_init_def zero_item_def simp del: replicate_Suc)

text \<open>A round in which \<open>pselect\<close> is interrupted and no job waits does nothing.\<close>

lemma selector_select_interrupted:
  assumes "psel (master_r s) (master_w s) = Psel_err e" and "e = EAGAIN_sel \<or> e = EINTR" and "resolution_jobs s = []"
  shows "selector_select H psel s = Inr (SELECTOR_SUCCESS, s\<lparr>slave_r := master_r s, slave_w := master_w s, slave_t := master_t s\<rparr>)"
  using assms by (simp add: selector_select_def Let_def handle_block_notifications_def)

section \<open>The contract of a handler table\<close>

locale event_loop =
  fixes H :: "'h \<Rightarrow> ('d, ('h, 'd, 'z) fdselector_scheme) fd_handler" and I :: "('h, 'd, 'z) fdselector_scheme \<Rightarrow> bool"
  assumes sound: "I s \<Longrightarrow> sel_wf s" and blank: "I s \<Longrightarrow> blank_items s" and no_jobs: "I s \<Longrightarrow> resolution_jobs s = []"
    and on_read: "I s \<Longrightarrow> registered s fd = Some it \<Longrightarrow> it_handler it = Some h \<Longrightarrow> fd \<in> slave_r s \<Longrightarrow> hasFlag OP_READ (it_interest it) \<Longrightarrow>
      \<exists>f s'. handle_read (H h) = Some f \<and> f \<lparr>key_fd = fd, key_data = it_data it\<rparr> s = Inr s' \<and> I s' \<and> same_table s s'
        \<and> (\<forall>it'. registered s' fd = Some it' \<longrightarrow> it_data it' = it_data it)"
    and on_write: "I s \<Longrightarrow> registered s fd = Some it \<Longrightarrow> it_handler it = Some h \<Longrightarrow> fd \<in> slave_w s \<Longrightarrow> hasFlag OP_WRITE (it_interest it) \<Longrightarrow>
      \<exists>f s'. handle_write (H h) = Some f \<and> f \<lparr>key_fd = fd, key_data = it_data it\<rparr> s = Inr s' \<and> I s'"
begin

lemma item_in_use:
  assumes "I s" and "\<not> INVALID_FD i"
  obtains it where "item_at s i = Inr it" "\<not> ITEM_USED it" "it_interest it = 0"
    | it h where "item_at s i = Inr it" "ITEM_USED it" "registered s i = Some it" "it_handler it = Some h" "it_fd it = i"
proof -
  obtain it where it: "item_at s i = Inr it" "registered s i = (if ITEM_USED it then Some it else None)"
    using item_at_valid [OF sound [OF assms(1)] assms(2)] by metis
  show thesis
  proof (cases "ITEM_USED it")
    case True
    then have "item_ok (max_fd s) i it" using sel_wf_item [OF sound [OF assms(1)], of i it] it(2) by simp
    then show thesis using that(2) [OF it(1) True] it(2) True by (auto simp: item_ok_def)
  next
    case False
    have "\<exists>xs. fds s = Some xs \<and> it \<in> set xs"
      using it(1) by (auto simp: item_at_def fault_simps split: option.splits if_splits)
    then have "it_interest it = 0" using blank [OF assms(1)] False by (auto simp: blank_items_def)
    then show thesis using that(1) [OF it(1) False] by blast
  qed
qed

lemma write_ok:
  assumes "I s" and "\<not> INVALID_FD i" and "\<forall>it'. registered s i = Some it' \<longrightarrow> it_data it' = d"
  shows "\<exists>s'. (if i \<in> slave_w s
      then bindE (item_at s i) (\<lambda>it1. if hasFlag OP_WRITE (it_interest it1)
             then (case it_handler it1 of None \<Rightarrow> Inl Null_deref | Some h1 \<Rightarrow> fire (handle_write (H h1)) \<lparr>key_fd = i, key_data = d\<rparr> s)
             else Inr s)
      else Inr s) = Inr s' \<and> I s'"
  using assms(1,2)
proof (cases rule: item_in_use)
  case (1 it)
  then show ?thesis using assms(1) by simp
next
  case (2 it h)
  show ?thesis
  proof (cases "i \<in> slave_w s \<and> hasFlag OP_WRITE (it_interest it)")
    case True
    then obtain f s' where "handle_write (H h) = Some f" "f \<lparr>key_fd = i, key_data = it_data it\<rparr> s = Inr s'" "I s'"
      using on_write [OF assms(1) 2(3,4)] by blast
    then show ?thesis using 2 True assms(3) by (auto simp: fire_def)
  next
    case False
    then show ?thesis using 2 assms(1) by auto
  qed
qed

lemma handle_item_ok:
  assumes "I s" and "\<not> INVALID_FD i"
  shows "\<exists>s'. handle_item H i s = Inr s' \<and> I s'"
  using assms
proof (cases rule: item_in_use)
  case (1 it)
  then show ?thesis using assms(1) by (simp add: handle_item_def)
next
  case (2 it h)
  let ?key = "\<lparr>key_fd = i, key_data = it_data it\<rparr>"
  obtain s1 where s1: "(if i \<in> slave_r s \<and> hasFlag OP_READ (it_interest it) then fire (handle_read (H h)) ?key s else Inr s) = Inr s1"
    "I s1" "same_table s s1" "\<forall>it'. registered s1 i = Some it' \<longrightarrow> it_data it' = it_data it"
  proof (cases "i \<in> slave_r s \<and> hasFlag OP_READ (it_interest it)")
    case True
    then obtain f s' where "handle_read (H h) = Some f" "f ?key s = Inr s'" "I s'" "same_table s s'"
      "\<forall>it'. registered s' i = Some it' \<longrightarrow> it_data it' = it_data it"
      using on_read [OF assms(1) 2(3,4)] by blast
    then show thesis using that [of s'] True by (simp add: fire_def)
  next
    case False
    then show thesis using that [of s] assms(1) 2(3) by (auto simp: same_table_def)
  qed
  show ?thesis
    using write_ok [OF s1(2) assms(2) s1(4)] 2 s1(1,3) by (simp add: handle_item_def Let_def)
qed

lemma handle_items_ok:
  assumes "I s" and "0 \<le> i" and "i + int n \<le> int ITEMS_MAX_SIZE"
  shows "\<exists>s'. handle_items H i n s = Inr s' \<and> I s'"
  using assms
proof (induction n arbitrary: i s)
  case (Suc n)
  have "\<not> INVALID_FD i" using Suc.prems(2,3) by (simp add: INVALID_FD_def)
  then obtain s1 where "handle_item H i s = Inr s1" "I s1" using handle_item_ok [OF Suc.prems(1)] by blast
  then show ?case using Suc.IH [of s1 "i + 1"] Suc.prems(2,3) by simp
qed simp

lemma handle_iteration_ok:
  assumes "I s" shows "\<exists>s'. handle_iteration H s = Inr s' \<and> I s'"
proof -
  have "0 \<le> max_fd s" "max_fd s < int ITEMS_MAX_SIZE" using sound [OF assms] by (simp_all add: sel_wf_def)
  then show ?thesis using handle_items_ok [OF assms, of 0 "nat (max_fd s + 1)"] by (simp add: handle_iteration_def)
qed

lemma no_notifications:
  assumes "I s" shows "handle_block_notifications H s = Inr s"
  using no_jobs [OF assms] by (simp add: handle_block_notifications_def)

text \<open>The invariant may depend on what \<open>pselect\<close> answers; it has to hold when the answer is there.\<close>

lemma selector_select_ok:
  assumes "psel (master_r s) (master_w s) = Psel_ready rs ws" and "I (s\<lparr>slave_t := master_t s, slave_r := rs, slave_w := ws\<rparr>)"
  shows "\<exists>s'. selector_select H psel s = Inr (SELECTOR_SUCCESS, s') \<and> I s'"
proof -
  obtain s' where "handle_iteration H (s\<lparr>slave_t := master_t s, slave_r := rs, slave_w := ws\<rparr>) = Inr s'" "I s'"
    using handle_iteration_ok [OF assms(2)] by blast
  then show ?thesis using assms(1) no_notifications by (simp add: selector_select_def Let_def)
qed

end

end
