(* ===== verification/Mgmt_Handlers.thy ===== *)
theory Mgmt_Handlers
  imports Mgmt_Session Event_Loop
begin

text \<open>
  The event handlers of \<open>src/mgmt.c\<close> on the whole server: accepting, reading, writing and closing
  keep the management connections and the selector consistent, never fault and always return.
\<close>

section \<open>Connections and their descriptors\<close>

text \<open>
  Every management client is registered under its own descriptor with itself as attachment, and
  every descriptor with the management handler belongs to a live client.
\<close>

definition links :: "(nat \<Rightarrow> mgmt_client option) \<Rightarrow> (int \<Rightarrow> (handler_id, attachment) item option) \<Rightarrow> nat \<Rightarrow> bool" where
  "links m reg n \<longleftrightarrow>
     (\<forall>mid c. m mid = Some c \<longrightarrow> mgmt_wf c \<and> mid < n
        \<and> (\<exists>it. reg (mc_fd c) = Some it \<and> it_handler it = Some mgmt_handler \<and> it_data it = Some (A_mgmt mid)))
     \<and> (\<forall>fd it. reg fd = Some it \<and> it_handler it = Some mgmt_handler \<longrightarrow>
          (\<exists>mid c. it_data it = Some (A_mgmt mid) \<and> m mid = Some c \<and> mc_fd c = fd))"

definition mgmt_inv :: "world \<Rightarrow> bool" where
  "mgmt_inv w \<longleftrightarrow> sel_wf w \<and> tables_ok w \<and> env_ok (w_env w) \<and> links (w_mgmt w) (registered w) (w_next w)"

lemma links_client:
  assumes "links m reg n" and "m mid = Some c"
  shows "mgmt_wf c" and "mid < n" and "\<exists>it. reg (mc_fd c) = Some it \<and> it_handler it = Some mgmt_handler \<and> it_data it = Some (A_mgmt mid)"
  using assms by (auto simp: links_def)

lemma links_item:
  assumes "links m reg n" and "reg fd = Some it" and "it_handler it = Some mgmt_handler"
  obtains mid c where "it_data it = Some (A_mgmt mid)" "m mid = Some c" "mc_fd c = fd"
  using assms unfolding links_def by blast

lemma linksI:
  assumes "\<And>mid c. m mid = Some c \<Longrightarrow> mgmt_wf c \<and> mid < n
      \<and> (\<exists>it. reg (mc_fd c) = Some it \<and> it_handler it = Some mgmt_handler \<and> it_data it = Some (A_mgmt mid))"
    and "\<And>fd it. reg fd = Some it \<Longrightarrow> it_handler it = Some mgmt_handler \<Longrightarrow>
      \<exists>mid c. it_data it = Some (A_mgmt mid) \<and> m mid = Some c \<and> mc_fd c = fd"
  shows "links m reg n"
  using assms unfolding links_def by simp

lemma links_put:
  assumes l: "links m reg n" and c: "m mid = Some c" and c': "mgmt_wf c'" "mc_fd c' = mc_fd c"
  shows "links (m(mid \<mapsto> c')) reg n"
proof (rule linksI)
  fix x y assume xy: "(m(mid \<mapsto> c')) x = Some y"
  then show "mgmt_wf y \<and> x < n \<and> (\<exists>it. reg (mc_fd y) = Some it \<and> it_handler it = Some mgmt_handler \<and> it_data it = Some (A_mgmt x))"
    using c' links_client [OF l c] links_client [OF l, of x y] by (cases "x = mid") auto
next
  fix fd it assume "reg fd = Some it" "it_handler it = Some mgmt_handler"
  then obtain x y where "it_data it = Some (A_mgmt x)" "m x = Some y" "mc_fd y = fd"
    using links_item [OF l] by blast
  then show "\<exists>x y. it_data it = Some (A_mgmt x) \<and> (m(mid \<mapsto> c')) x = Some y \<and> mc_fd y = fd"
    using c c' by (cases "x = mid") auto
qed

lemma links_update:
  assumes l: "links m reg n" and f: "\<And>it. it_handler (f it) = it_handler it \<and> it_data (f it) = it_data it"
  shows "links m (reg(fd := map_option f (reg fd))) n"
proof (rule linksI)
  fix x y assume xy: "m x = Some y"
  obtain it where it: "reg (mc_fd y) = Some it" "it_handler it = Some mgmt_handler" "it_data it = Some (A_mgmt x)"
    using links_client(3) [OF l xy] by blast
  have "\<exists>it. (reg(fd := map_option f (reg fd))) (mc_fd y) = Some it \<and> it_handler it = Some mgmt_handler \<and> it_data it = Some (A_mgmt x)"
    using it f by (cases "mc_fd y = fd") auto
  then show "mgmt_wf y \<and> x < n \<and> (\<exists>it. (reg(fd := map_option f (reg fd))) (mc_fd y) = Some it
      \<and> it_handler it = Some mgmt_handler \<and> it_data it = Some (A_mgmt x))"
    using links_client [OF l xy] by simp
next
  fix fd' it assume r: "(reg(fd := map_option f (reg fd))) fd' = Some it" "it_handler it = Some mgmt_handler"
  then obtain it0 where "reg fd' = Some it0" "it_handler it0 = Some mgmt_handler" "it_data it0 = it_data it"
    using f by (cases "fd' = fd") auto
  then show "\<exists>x y. it_data it = Some (A_mgmt x) \<and> m x = Some y \<and> mc_fd y = fd'"
    using links_item [OF l] by metis
qed

lemma links_remove:
  assumes l: "links m reg n" and c: "m mid = Some c"
  shows "links (m(mid := None)) (reg(mc_fd c := None)) n"
proof (rule linksI)
  fix x y assume "(m(mid := None)) x = Some y"
  then have xy: "m x = Some y" "x \<noteq> mid" by (auto split: if_splits)
  then have "mc_fd y \<noteq> mc_fd c"
    using links_client(3) [OF l xy(1)] links_client(3) [OF l c] by auto
  then show "mgmt_wf y \<and> x < n \<and> (\<exists>it. (reg(mc_fd c := None)) (mc_fd y) = Some it \<and> it_handler it = Some mgmt_handler
      \<and> it_data it = Some (A_mgmt x))"
    using links_client [OF l xy(1)] by simp
next
  fix fd it assume r: "(reg(mc_fd c := None)) fd = Some it" "it_handler it = Some mgmt_handler"
  then have fd: "reg fd = Some it" "fd \<noteq> mc_fd c" by (auto split: if_splits)
  then obtain x y where "it_data it = Some (A_mgmt x)" "m x = Some y" "mc_fd y = fd"
    using links_item [OF l _ r(2)] by blast
  then show "\<exists>x y. it_data it = Some (A_mgmt x) \<and> (m(mid := None)) x = Some y \<and> mc_fd y = fd"
    using c fd(2) by (cases "x = mid") auto
qed

lemma links_add:
  assumes l: "links m reg n" and c: "mgmt_wf c" and free: "reg (mc_fd c) = None"
    and it: "it_handler it = Some mgmt_handler" "it_data it = Some (A_mgmt n)"
  shows "links (m(n \<mapsto> c)) (reg(mc_fd c \<mapsto> it)) (n + 1)"
proof (rule linksI)
  fix x y assume xy: "(m(n \<mapsto> c)) x = Some y"
  show "mgmt_wf y \<and> x < n + 1 \<and> (\<exists>i. (reg(mc_fd c \<mapsto> it)) (mc_fd y) = Some i \<and> it_handler i = Some mgmt_handler
      \<and> it_data i = Some (A_mgmt x))"
    using xy c it free links_client [OF l, of x y] by (cases "x = n") auto
next
  fix fd i assume r: "(reg(mc_fd c \<mapsto> it)) fd = Some i" "it_handler i = Some mgmt_handler"
  show "\<exists>x y. it_data i = Some (A_mgmt x) \<and> (m(n \<mapsto> c)) x = Some y \<and> mc_fd y = fd"
  proof (cases "fd = mc_fd c")
    case True
    then show ?thesis using r it by auto
  next
    case False
    then obtain x y where x: "it_data i = Some (A_mgmt x)" "m x = Some y" "mc_fd y = fd"
      using links_item [OF l _ r(2)] r(1) by auto
    then have "x \<noteq> n" using links_client(2) [OF l x(2)] by simp
    with x show ?thesis by auto
  qed
qed

section \<open>Frames\<close>

lemma put_mgmt_fields [simp]:
  "w_mgmt (put_mgmt mid c w) = (w_mgmt w)(mid \<mapsto> c)" "w_next (put_mgmt mid c w) = w_next w" "w_env (put_mgmt mid c w) = w_env w"
  "w_state (put_mgmt mid c w) = w_state w" "w_users (put_mgmt mid c w) = w_users w" "w_tokens (put_mgmt mid c w) = w_tokens w"
  "registered (put_mgmt mid c w) = registered w" "sel_wf (put_mgmt mid c w) = sel_wf w" "tables_ok (put_mgmt mid c w) = tables_ok w"
  by (simp_all add: put_mgmt_def tables_ok_def)

text \<open>
  What the management side leaves alone: the bookkeeping of the selector while callbacks run, every descriptor of
  another handler, and the answers the system will give.
\<close>

definition keeps :: "world \<Rightarrow> world \<Rightarrow> bool" where
  "keeps w w' \<longleftrightarrow> sel_kept w w' \<and> w_envs w' = w_envs w \<and> w_tick w' = w_tick w
     \<and> (\<forall>fd it. it_handler it \<noteq> Some mgmt_handler \<longrightarrow> (registered w' fd = Some it \<longleftrightarrow> registered w fd = Some it))"

lemma keeps_refl [simp]: "keeps w w"
  by (simp add: keeps_def)

lemma keeps_trans: "keeps w w1 \<Longrightarrow> keeps w1 w2 \<Longrightarrow> keeps w w2"
  using sel_kept_trans [of w w1 w2] by (simp add: keeps_def)

lemma sel_kept_fields [simp]:
  "sel_kept w (put_mgmt mid c w')  = sel_kept w w'" "sel_kept w (w'\<lparr>w_state := s\<rparr>) = sel_kept w w'"
  "sel_kept w (w'\<lparr>w_users := us\<rparr>) = sel_kept w w'" "sel_kept w (w'\<lparr>w_next := n\<rparr>) = sel_kept w w'"
  "sel_kept w (w'\<lparr>w_mgmt := ms\<rparr>) = sel_kept w w'" "sel_kept w (w'\<lparr>w_trace := t\<rparr>) = sel_kept w w'"
  "sel_kept w (w'\<lparr>w_env := e\<rparr>) = sel_kept w w'" "sel_kept w (w'\<lparr>w_tick := k\<rparr>) = sel_kept w w'"
  by (simp_all add: sel_kept_def same_table_def blank_items_def put_mgmt_def)

lemma keeps_put [simp]: "keeps w (put_mgmt mid c w') = keeps w w'"
  by (simp add: keeps_def) (simp add: put_mgmt_def)

lemma keeps_fields [simp]:
  "keeps w (w'\<lparr>w_state := s\<rparr>) = keeps w w'" "keeps w (w'\<lparr>w_users := us\<rparr>) = keeps w w'" "keeps w (w'\<lparr>w_next := n\<rparr>) = keeps w w'"
  "keeps w (w'\<lparr>w_mgmt := ms\<rparr>) = keeps w w'" "keeps w (emit ev w') = keeps w w'"
  "keeps w (w'\<lparr>w_trace := t\<rparr>) = keeps w w'"
  by (simp_all add: keeps_def emit_def)

lemma keeps_settings: "settings_changed w w' \<Longrightarrow> keeps w w'"
  by (auto simp: settings_changed_def)

lemma keeps_registry:
  assumes "sel_kept w w'" and "fdselector.more w' = fdselector.more w" and "registered w' = (registered w)(fd := x)"
    and "\<forall>it. registered w fd = Some it \<longrightarrow> it_handler it = Some mgmt_handler" and "\<forall>it. x = Some it \<longrightarrow> it_handler it = Some mgmt_handler"
  shows "keeps w w'"
  using assms(1,4,5) more_eq_fields [OF assms(2)] by (auto simp: keeps_def assms(3))

text \<open>Reading and writing register nothing new, and no descriptor changes its attachment.\<close>

definition narrows :: "world \<Rightarrow> world \<Rightarrow> bool" where
  "narrows w w' \<longleftrightarrow> (\<forall>fd it'. registered w' fd = Some it' \<longrightarrow> (\<exists>it. registered w fd = Some it \<and> it_data it' = it_data it))"

lemma narrows_refl [simp]: "narrows w w"
  by (simp add: narrows_def)

lemma narrows_trans: "narrows w w1 \<Longrightarrow> narrows w1 w2 \<Longrightarrow> narrows w w2"
  unfolding narrows_def by metis

lemma narrows_put [simp]: "narrows w (put_mgmt mid c w') = narrows w w'" "narrows (put_mgmt mid c w) w' = narrows w w'"
  by (simp_all add: narrows_def)

lemma narrows_settings: "settings_changed w w' \<Longrightarrow> narrows w w'"
  by (auto simp: settings_changed_def narrows_def)

lemma narrows_remove: "registered w' = (registered w)(fd := None) \<Longrightarrow> narrows w w'"
  by (simp add: narrows_def)

lemma mgmt_inv_put:
  "mgmt_inv w \<Longrightarrow> w_mgmt w mid = Some c \<Longrightarrow> mgmt_wf c' \<Longrightarrow> mc_fd c' = mc_fd c \<Longrightarrow> mgmt_inv (put_mgmt mid c' w)"
  using links_put by (auto simp: mgmt_inv_def)

lemma mgmt_inv_settings:
  assumes "mgmt_inv w" and "settings_changed w w'" and "tables_ok w'"
  shows "mgmt_inv w'" and "w_mgmt w' = w_mgmt w" and "w_env w' = w_env w"
proof -
  obtain s us where w': "w' = w\<lparr>w_state := s, w_users := us\<rparr>"
    using assms(2) by (auto simp: settings_changed_def)
  then show "w_mgmt w' = w_mgmt w" and "w_env w' = w_env w" by simp_all
  show "mgmt_inv w'" using assms(1,3) by (simp add: mgmt_inv_def w')
qed

lemma mgmt_inv_interest:
  assumes inv: "mgmt_inv w"
  obtains st w' where "selector_set_interest fd i w = Inr (st, w')" "mgmt_inv w'"
    "\<forall>it. registered w fd = Some it \<longrightarrow> it_handler it = Some mgmt_handler \<Longrightarrow> keeps w w'" "narrows w w'"
    "w_mgmt w' = w_mgmt w" "w_state w' = w_state w"
proof -
  have wf: "sel_wf w" using inv by (simp add: mgmt_inv_def)
  obtain st w' where w': "selector_set_interest fd i w = Inr (st, w')" "sel_wf w'"
    "registered w' = (registered w)(fd := map_option (\<lambda>it. it\<lparr>it_interest := i\<rparr>) (registered w fd))"
    using updates_item(1) [OF wf] by (fastforce simp: updates_item_def)
  have more: "fdselector.more w' = fdselector.more w"
    using change_item_frame(1) w'(1) by (simp only: selector_set_interest_def)
  have "mgmt_inv w'"
    using inv w'(2) links_update [of "w_mgmt w" "registered w" "w_next w" "\<lambda>it. it\<lparr>it_interest := i\<rparr>" fd]
    by (simp add: mgmt_inv_def w'(3) tables_ok_def more_eq_fields [OF more])
  moreover have "keeps w w'" if "\<forall>it. registered w fd = Some it \<longrightarrow> it_handler it = Some mgmt_handler"
    by (rule keeps_registry [OF selector_set_interest_kept [OF w'(1)] more w'(3) that]) (use that in auto)
  moreover have "narrows w w'" by (auto simp: narrows_def w'(3))
  moreover have "w_mgmt w' = w_mgmt w" "w_state w' = w_state w" using more_eq_fields [OF more] by simp_all
  ultimately show thesis using that w'(1) by blast
qed

lemma mgmt_close_kept: "handle_mgmt_close k w = Inr w' \<Longrightarrow> sel_kept w w'"
  by (auto simp: handle_mgmt_close_def emit_def Let_def split: option.splits attachment.splits)

text \<open>Closing a connection: the descriptor and the client are gone, and it was counted out once.\<close>

lemma mgmt_unregister:
  assumes inv: "mgmt_inv w" and c: "w_mgmt w mid = Some c"
  obtains st w' where "unregister (mc_fd c) w = Inr (st, w')" "mgmt_inv w'" "w_mgmt w' = (w_mgmt w)(mid := None)"
    "registered w' = (registered w)(mc_fd c := None)" "w_state w' = rm_mgmt_client (w_state w)" "keeps w w'"
proof -
  let ?fd = "mc_fd c"
  have wf: "sel_wf w" and l: "links (w_mgmt w) (registered w) (w_next w)" using inv by (simp_all add: mgmt_inv_def)
  obtain it where it: "registered w ?fd = Some it" "it_handler it = Some mgmt_handler" "it_data it = Some (A_mgmt mid)"
    using links_client(3) [OF l c] by blast
  define w1 where "w1 = (emit (Close ?fd) w)\<lparr>w_mgmt := (w_mgmt w)(mid := None), w_state := rm_mgmt_client (w_state w)\<rparr>"
  have close: "handle_mgmt_close \<lparr>key_fd = ?fd, key_data = it_data it\<rparr> w = Inr w1"
    using it(3) by (simp add: handle_mgmt_close_def w1_def emit_def Let_def)
  have w1: "sel_wf w1" "registered w1 = registered w" using wf by (simp_all add: w1_def)
  obtain w' where w': "unregister ?fd w = Inr (SELECTOR_SUCCESS, w')" "sel_wf w'"
    "registered w' = (registered w1)(?fd := None)" "fdselector.more w' = fdselector.more w1"
    using selector_unregister_ok [OF wf it(1,2), of close_table w1 it] close w1 it(1)
    by (auto simp: unregister_def close_table_def)
  note f = more_eq_fields [OF w'(4)]
  have "mgmt_inv w'"
    using inv w'(2) links_remove [OF l c]
    by (simp add: mgmt_inv_def w'(3) w1(2) f) (simp add: w1_def emit_def tables_ok_def rm_mgmt_client_def buffsize_ok_def f)
  moreover have "sel_kept w w'"
    using w'(1) unfolding unregister_def by (rule selector_unregister_kept) (auto simp: close_table_def split: handler_id.splits intro: mgmt_close_kept)
  then have "keeps w w'" using it f by (simp add: keeps_def w'(3) w1(2)) (auto simp: w1_def emit_def)
  ultimately show thesis
    using that w'(1,3) w1(2) f by (simp add: w1_def emit_def)
qed

section \<open>Reading\<close>

text \<open>The key with which the selector calls a handler.\<close>

definition mgmt_key :: "key \<Rightarrow> nat \<Rightarrow> mgmt_client \<Rightarrow> world \<Rightarrow> bool" where
  "mgmt_key k mid c w \<longleftrightarrow> key_data k = Some (A_mgmt mid) \<and> w_mgmt w mid = Some c \<and> key_fd k = mc_fd c"

lemma get_mgmt_key: "mgmt_key k mid c w \<Longrightarrow> get_mgmt k w = Inr (mid, c)"
  by (simp add: mgmt_key_def get_mgmt_def)

lemma mgmt_invD:
  assumes "mgmt_inv w" and "mgmt_key k mid c w"
  shows "mgmt_wf c" "tables_ok w" "env_ok (w_env w)" "read_ok (env_read (w_env w))" "send_ok (env_send (w_env w))" "w_mgmt w mid = Some c"
    "read_ok (env_reread (w_env w))"
  using assms links_client(1) by (auto simp: mgmt_inv_def mgmt_key_def env_ok_def)

lemma mgmt_descriptor:
  assumes "mgmt_inv w" and "w_mgmt w mid = Some c"
  shows "\<forall>it. registered w (mc_fd c) = Some it \<longrightarrow> it_handler it = Some mgmt_handler"
  using assms links_client(3) by (fastforce simp: mgmt_inv_def)

text \<open>Storing what \<open>processMgmtClient\<close> leaves.\<close>

lemma mgmt_inv_processed:
  assumes inv: "mgmt_inv w" and c: "w_mgmt w mid = Some c" and p: "processed c1 w c2 w2" and fd: "mc_fd c1 = mc_fd c"
  shows "mgmt_inv (put_mgmt mid c2 w2)" and "w_env w2 = w_env w" and "w_mgmt w2 mid = Some c" and "mgmt_inv w2" and "keeps w w2"
    and "narrows w w2"
proof -
  have q: "mgmt_wf c2" "tables_ok w2" "mc_fd c2 = mc_fd c" "settings_changed w w2"
    using p fd by (simp_all add: processed_def)
  note i = mgmt_inv_settings [OF inv q(4,2)]
  show "w_env w2 = w_env w" "w_mgmt w2 mid = Some c" "mgmt_inv w2" using i c by simp_all
  show "keeps w w2" "narrows w w2" using keeps_settings [OF q(4)] narrows_settings [OF q(4)] by simp_all
  show "mgmt_inv (put_mgmt mid c2 w2)" using mgmt_inv_put [OF i(1) _ q(1,3)] i(2) c by simp
qed

text \<open>
  The end of the input, as the two calls of \<open>read\<close> tell it: the first returns 0, or the second fails. An error of
  the first alone is not one; a full window counts as one, since \<open>read\<close> is asked for nothing.
\<close>

definition read_fails :: "read_res \<Rightarrow> bool" where
  "read_fails r \<longleftrightarrow> (case r of Read_ok _ \<Rightarrow> False | Read_err err \<Rightarrow> err \<noteq> EAGAIN)"

definition hangs_up :: "Input \<Rightarrow> sysenv \<Rightarrow> bool" where
  "hangs_up i e \<longleftrightarrow>
     (let free = in_bufSize i - length (pending i) in
      case env_read e free of
        Read_ok bs \<Rightarrow> bs = [] \<or> read_fails (env_reread e (free - length bs))
      | Read_err _ \<Rightarrow> read_fails (env_reread e free))"

lemma fillBuffer_count:
  assumes "input_wf i" and "fillBuffer rd i = Inr (n, e, i')"
  shows "case rd (in_bufSize i - length (pending i)) of Read_ok bs \<Rightarrow> n = int (length bs) | Read_err err \<Rightarrow> n = -1 \<and> e = err"
  using assms(2) by (auto simp: length_pending [OF assms(1)] fillBuffer_def Let_def bindE_eq_Inr split: read_res.splits)

lemma checkEOF_fillBuffer_ok:
  assumes wf: "lexer_wf i" and rd: "read_ok (env_read e)" "read_ok (env_reread e)"
  obtains i' bs where "checkEOF_fillBuffer (env_read e) (env_reread e) i = Inr (hangs_up i e, i')" "lexer_wf i'"
    "in_bufSize i' = in_bufSize i" "in_cond i' = in_cond i" "pending i' = pending i @ bs"
proof -
  let ?free = "in_bufSize i - length (pending i)"
  obtain n err i1 bs where f: "fillBuffer (env_read e) i = Inr (n, err, i1)" "lexer_wf i1" "in_bufSize i1 = in_bufSize i"
    "in_cond i1 = in_cond i" "pending i1 = pending i @ bs" "0 \<le> n \<Longrightarrow> n = int (length bs)" "n < 0 \<Longrightarrow> bs = []"
    by (rule fillBuffer_lexer [OF wf rd(1)]) (rule that)
  note n = fillBuffer_count [OF lexer_wfD(1) [OF wf] f(1)]
  show thesis
  proof (cases "n = 0")
    case True
    with n have "env_read e ?free = Read_ok []" by (simp split: read_res.splits)
    then show thesis using that [of i1] f True by (simp add: checkEOF_fillBuffer_def hangs_up_def)
  next
    case False
    obtain m err' i2 bs' where g: "fillBuffer (env_reread e) i1 = Inr (m, err', i2)" "lexer_wf i2" "in_bufSize i2 = in_bufSize i1"
      "in_cond i2 = in_cond i1" "pending i2 = pending i1 @ bs'"
      by (rule fillBuffer_lexer [OF f(2) rd(2)]) (rule that)
    note m = fillBuffer_count [OF lexer_wfD(1) [OF f(2)] g(1)]
    have free: "in_bufSize i1 - length (pending i1) = ?free - length bs" using f(3,5) by simp
    have "hangs_up i e = read_fails (env_reread e (?free - length bs))"
      using n f(6,7) False by (cases "env_read e ?free") (auto simp: hangs_up_def Let_def)
    also have "\<dots> = (m < 0 \<and> err' \<noteq> EAGAIN)"
      using m unfolding free read_fails_def by (auto split: read_res.splits)
    finally have "(m < 0 \<and> err' \<noteq> EAGAIN) = hangs_up i e" ..
    then show thesis
      using that [of i2 "bs @ bs'"] f g False by (simp add: checkEOF_fillBuffer_def)
  qed
qed

lemma settings_counters: "settings_changed w w' \<Longrightarrow> mgmt_client_count (w_state w') = mgmt_client_count (w_state w) \<and> w_mgmt w' = w_mgmt w"
  by (auto simp: settings_changed_def)

text \<open>A client whose input has ended is counted out; any other keeps its place.\<close>

definition read_outcome :: "nat \<Rightarrow> mgmt_client \<Rightarrow> world \<Rightarrow> world \<Rightarrow> bool" where
  "read_outcome mid c w w' \<longleftrightarrow>
     (if hangs_up (input c) (w_env w)
      then w_mgmt w' = (w_mgmt w)(mid := None) \<and> registered w' = (registered w)(mc_fd c := None) \<and> w_state w' = rm_mgmt_client (w_state w)
      else \<exists>c'. w_mgmt w' = (w_mgmt w)(mid \<mapsto> c') \<and> mc_fd c' = mc_fd c \<and> registered w' (mc_fd c) \<noteq> None
        \<and> mgmt_client_count (w_state w') = mgmt_client_count (w_state w))"

lemma handle_mgmt_read_ok:
  assumes inv: "mgmt_inv w" and k: "mgmt_key k mid c w"
  obtains w' where "handle_mgmt_read k w = Inr (Some w')" "mgmt_inv w'" "keeps w w'" "narrows w w'"
    "\<not> buffer_can_read (pending_buf c) \<Longrightarrow> read_outcome mid c w w'"
proof (cases "buffer_can_read (pending_buf c)")
  case True
  then show thesis using that inv get_mgmt_key [OF k] by (simp add: handle_mgmt_read_def)
next
  case False
  note w = mgmt_invD [OF inv k] and wf = mgmt_wfD [OF mgmt_invD(1) [OF inv k]]
  obtain i where f: "checkEOF_fillBuffer (env_read (w_env w)) (env_reread (w_env w)) (input c) = Inr (hangs_up (input c) (w_env w), i)"
    "lexer_wf i" "in_bufSize i = in_bufSize (input c)"
    by (rule checkEOF_fillBuffer_ok [OF wf(5) w(4,7)]) (rule that)
  let ?c1 = "c\<lparr>input := i\<rparr>"
  let ?w1 = "put_mgmt mid ?c1 w"
  have c1: "mgmt_wf ?c1" "mc_fd ?c1 = mc_fd c" using w(1) f(2,3) by (simp_all add: mgmt_wf_def)
  have inv1: "mgmt_inv ?w1" by (rule mgmt_inv_put [OF inv w(6) c1])
  have at1: "w_mgmt ?w1 mid = Some ?c1" by simp
  show thesis
  proof (cases "hangs_up (input c) (w_env w)")
    case True
    obtain st w2 where u: "unregister (mc_fd c) ?w1 = Inr (st, w2)" "mgmt_inv w2" "keeps ?w1 w2" "narrows w w2" "w_mgmt w2 = (w_mgmt ?w1)(mid := None)"
      "registered w2 = (registered ?w1)(mc_fd c := None)" "w_state w2 = rm_mgmt_client (w_state ?w1)"
      using mgmt_unregister [OF inv1 at1] c1(2) narrows_remove [of _ ?w1] narrows_put(2) by metis
    have "read_outcome mid c w w2" using True u(5-7) by (simp add: read_outcome_def)
    then show thesis
      using that u(1,2,4) keeps_trans [of w ?w1 w2] u(3) True False f(1) get_mgmt_key [OF k] by (simp add: handle_mgmt_read_def Let_def)
  next
    case more: False
    obtain c2 w2 where p: "processMgmtClient ?c1 ?w1 = Inr (Some (True, c2, w2))" "processed ?c1 ?w1 c2 w2"
      using processMgmtClient_ok [OF c1(1)] w(2) put_mgmt_fields(9) by blast
    note q = mgmt_inv_processed [OF inv1 at1 p(2) refl]
    have fd2: "mc_fd c2 = mc_fd c" and set: "settings_changed ?w1 w2" using p(2) by (simp_all add: processed_def)
    then have own: "\<forall>it. registered (put_mgmt mid c2 w2) (mc_fd c) = Some it \<longrightarrow> it_handler it = Some mgmt_handler"
      using mgmt_descriptor [OF q(1), of mid c2] by simp
    obtain st w3 where w3: "selector_set_interest (mc_fd c) (OP_WRITE OR OP_READ) (put_mgmt mid c2 w2) = Inr (st, w3)" "mgmt_inv w3"
      "keeps (put_mgmt mid c2 w2) w3" "narrows (put_mgmt mid c2 w2) w3" "w_mgmt w3 = w_mgmt (put_mgmt mid c2 w2)"
      "w_state w3 = w_state (put_mgmt mid c2 w2)"
      by (rule mgmt_inv_interest [OF q(1)]) (use own in blast)
    have "narrows w w3" using narrows_trans [OF q(6), of w3] w3(4) by simp
    moreover
    have "keeps w w3" using keeps_trans [of w w2 w3] keeps_trans [of w ?w1 w2] keeps_trans [of w "put_mgmt mid c2 w2" w3] q(5) w3(3) by simp
    moreover have "read_outcome mid c w w3"
    proof -
      have m: "w_mgmt w3 = (w_mgmt w)(mid \<mapsto> c2)" "mgmt_client_count (w_state w3) = mgmt_client_count (w_state w)"
        using settings_counters [OF set] w3(5,6) by (simp_all add: put_mgmt_def)
      then have "registered w3 (mc_fd c) \<noteq> None"
        using links_client(3) [of "w_mgmt w3" "registered w3" "w_next w3" mid c2] w3(2) fd2 by (auto simp: mgmt_inv_def)
      with m fd2 more show ?thesis by (auto simp: read_outcome_def)
    qed
    ultimately show thesis
      using w3(1,2) that more False f(1) p(1) get_mgmt_key [OF k] by (simp add: handle_mgmt_read_def Let_def)
  qed
qed

section \<open>Writing\<close>

lemma move_pending_ok:
  assumes inv: "mgmt_inv w" and k: "mgmt_key k mid c w"
  obtains c1 w1 where "move_pending c w = Inr (Some (c1, w1))" "mgmt_inv w1" "w_mgmt w1 mid = Some c" "mgmt_wf c1" "mc_fd c1 = mc_fd c"
    "w_env w1 = w_env w" "keeps w w1" "narrows w w1"
proof (cases "buffer_can_read (pending_buf c)")
  case False
  then show thesis using that [of c w] inv mgmt_invD [OF inv k] by (simp add: move_pending_def)
next
  case True
  note w = mgmt_invD [OF inv k] and wf = mgmt_wfD [OF mgmt_invD(1) [OF inv k]]
  obtain n wb pb where b: "copy_from_buf (write_buf c) (pending_buf c) = Inr (n, wb, pb)" "buffer_wf wb" "buffer_wf pb"
    "buf_limit wb = buf_limit (write_buf c)" "buf_limit pb = buf_limit (pending_buf c)"
    using copy_from_buf_ok [OF wf(1,3)] by metis
  let ?c1 = "c\<lparr>write_buf := wb, pending_buf := pb\<rparr>"
  have c1: "mgmt_wf ?c1" "mc_fd ?c1 = mc_fd c" using w(1) b by (simp_all add: mgmt_wf_def)
  obtain c2 w2 where p: "processMgmtClient ?c1 w = Inr (Some (True, c2, w2))" "processed ?c1 w c2 w2"
    using processMgmtClient_ok [OF c1(1) w(2)] by blast
  note q = mgmt_inv_processed [OF inv w(6) p(2) c1(2)]
  have c2: "mgmt_wf c2" "mc_fd c2 = mc_fd c" using p(2) by (simp_all add: processed_def)
  show thesis
  proof (cases "n > 0")
    case pos: True
    then show thesis using that [of c2 w2] True b(1) p(1) q c2 by (simp add: move_pending_def Let_def)
  next
    case neg: False
    then show thesis using that [of ?c1 w] True b(1) inv w(6) c1 by (simp add: move_pending_def Let_def)
  qed
qed

lemma handle_mgmt_write_ok:
  assumes inv: "mgmt_inv w" and k: "mgmt_key k mid c w"
  obtains w' where "handle_mgmt_write k w = Inr (Some w')" "mgmt_inv w'" "keeps w w'" "narrows w w'"
proof (cases "\<not> buffer_can_read (write_buf c) \<and> \<not> buffer_can_read (pending_buf c)")
  case True
  have own: "\<forall>it. registered w (key_fd k) = Some it \<longrightarrow> it_handler it = Some mgmt_handler"
    using mgmt_descriptor [OF inv, of mid c] k by (simp add: mgmt_key_def)
  obtain st w1 where "selector_set_interest (key_fd k) OP_READ w = Inr (st, w1)" "mgmt_inv w1" "keeps w w1" "narrows w w1"
    by (rule mgmt_inv_interest [OF inv]) (use own in blast)
  then show thesis using that True get_mgmt_key [OF k] by (simp add: handle_mgmt_write_def)
next
  case False
  obtain c1 w1 where m: "move_pending c w = Inr (Some (c1, w1))" "mgmt_inv w1" "w_mgmt w1 mid = Some c" "mgmt_wf c1"
    "mc_fd c1 = mc_fd c" "w_env w1 = w_env w" "keeps w w1" "narrows w w1"
    by (rule move_pending_ok [OF inv k])
  have sd: "send_ok (env_send (w_env w1))" using mgmt_invD(5) [OF inv k] m(6) by simp
  obtain left e b where s: "write_to_sock (env_send (w_env w1)) (write_buf c1) = Inr (left, e, b)" "buffer_wf b"
    "buf_limit b = buf_limit (write_buf c1)"
    using write_to_sock_ok [OF mgmt_wfD(1) [OF m(4)] sd] by metis
  let ?w2 = "put_mgmt mid (c1\<lparr>write_buf := b\<rparr>) w1"
  have "mgmt_wf (c1\<lparr>write_buf := b\<rparr>)" using m(4) s(2,3) by (simp add: mgmt_wf_def)
  then have inv2: "mgmt_inv ?w2" using mgmt_inv_put [OF m(2,3)] m(5) by simp
  have at2: "w_mgmt ?w2 mid = Some (c1\<lparr>write_buf := b\<rparr>)" by simp
  have kept: "keeps w ?w2" using m(7) by simp
  obtain st w3 where u: "unregister (mc_fd c) ?w2 = Inr (st, w3)" "mgmt_inv w3" "keeps ?w2 w3" "registered w3 = (registered ?w2)(mc_fd c := None)"
    using mgmt_unregister [OF inv2 at2] m(5) by (metis mgmt_client.select_convs(1) mgmt_client.surjective mgmt_client.update_convs(2))
  show thesis
  proof (cases "left < 0 \<or> (left = 0 \<and> quitted c1)")
    case True
    then show thesis
      using that [of w3] keeps_trans [OF kept u(3)] narrows_trans [OF m(8)] narrows_remove [OF u(4)] False get_mgmt_key [OF k] m(1) s(1) u by (simp add: handle_mgmt_write_def Let_def)
  next
    case stay: False
    then have "handle_mgmt_write k w = Inr (Some ?w2)"
      using False get_mgmt_key [OF k] m(1) s(1) by (auto simp: handle_mgmt_write_def Let_def)
    then show thesis using that inv2 kept m(8) narrows_put(1) by blast
  qed
qed

section \<open>Accepting\<close>

lemma hello_short: "snprintf hello_text = (length hello_text, hello_text)" "length hello_text < MGMT_BUFFSIZE"
  by (simp_all add: snprintf_def hello_text_def success_status_def bytes_of_def CRLF_def MGMT_BUFFSIZE_def)

text \<open>A new client greets, before it has read anything.\<close>

lemma create_mgmt_client_ok:
  assumes "env_ok e" and "env_malloc e 0"
  obtains c b where "create_mgmt_client sock e = Inr (Some c)" "buffer_put hello_text (write_buf c) = Inr b"
    "mgmt_wf (c\<lparr>write_buf := b\<rparr>)" "contents b = hello_text" "mc_fd c = sock" "in_cond (input c) = yycpass" "pending (input c) = []"
    "contents (pending_buf c) = []" "\<not> quitted c"
proof -
  have junk: "length (env_junk e n) = n" for n using assms(1) by (simp add: env_ok_def)
  let ?inp = "\<lparr>in_buf = env_junk e (MGMT_BUFFSIZE + read_buf_padding), in_lim = env_wild e, in_cur = env_wild e,
                in_mar = env_wild e, in_tok = env_wild e, in_yyt1 = env_wild e, in_yyt2 = env_wild e,
                in_state = 0, in_cond = 0, in_bufSize = MGMT_BUFFSIZE\<rparr>"
  obtain i where i: "initState ?inp = Inr i" "lexer_wf i" "pending i = []" "in_cond i = yycpass" "in_bufSize i = MGMT_BUFFSIZE"
    using initState_lexer [of ?inp] junk by (auto simp: roomy_def)
  let ?b = "buffer_init MGMT_BUFFSIZE (env_junk e MGMT_BUFFSIZE)"
  let ?c = "\<lparr>mc_fd = sock, write_buf = ?b, pending_buf = ?b, input = i, quitted = False\<rparr>"
  have b: "buffer_wf ?b" "buf_limit ?b = MGMT_BUFFSIZE" "contents ?b = []" "Buffer.space ?b = MGMT_BUFFSIZE"
    using junk by (simp_all add: buffer_init_def buffer_reset_def)
      (simp_all add: buffer_wf_def contents_def Buffer.space_def)
  have "length hello_text \<le> Buffer.space ?b" using b(4) hello_short(2) by simp
  then obtain b' where b': "buffer_put hello_text ?b = Inr b'" "buffer_wf b'" "contents b' = hello_text" "buf_limit b' = MGMT_BUFFSIZE"
    using buffer_put_ok [OF b(1)] b(2,3) by (metis append_Nil)
  have "create_mgmt_client sock e = Inr (Some ?c)"
    using assms(2) i(1) by (simp add: create_mgmt_client_def Let_def)
  then show thesis
    using that [of ?c b'] b b' i by (simp add: mgmt_wf_def)
qed

text \<open>The window of a new client is full of nothing, with its sentinel behind the array.\<close>

lemma create_mgmt_client_sentinel:
  assumes "env_ok e \<and> env_malloc e 0"
  shows "\<exists>c. create_mgmt_client sock e = Inr (Some c) \<and> in_lim (input c) = MGMT_BUFFSIZE
    \<and> in_buf (input c) ! MGMT_BUFFSIZE = 0 \<and> length (in_buf (input c)) = MGMT_BUFFSIZE + read_buf_padding"
proof -
  have "length (env_junk e n) = n" for n using assms by (simp add: env_ok_def)
  then show ?thesis
    using assms by (simp add: create_mgmt_client_def initState_def Let_def mem_write_def nth_overwrite_single)
qed

lemma mgmt_inv_state:
  assumes "mgmt_inv w" and "buffsize s = buffsize (w_state w)"
  shows "mgmt_inv (w\<lparr>w_state := s\<rparr>)"
  using assms by (simp add: mgmt_inv_def tables_ok_def buffsize_ok_def)

lemma counter_settings [simp]:
  "buffsize (rm_mgmt_client s) = buffsize s" "buffsize (snd (add_mgmt_client s)) = buffsize s"
  by (simp_all add: rm_mgmt_client_def add_mgmt_client_def)

lemma give_up_new:
  assumes inv: "mgmt_inv w" and fresh: "w_mgmt w mid = None"
  shows "\<exists>w'. mgmt_give_up sock (Some mid) (put_mgmt mid c (w\<lparr>w_next := mid + 1\<rparr>)) = Inr w'
    \<and> w_mgmt w' = w_mgmt w \<and> registered w' = registered w \<and> sel_wf w' \<and> w_next w' = mid + 1
    \<and> w_state w' = rm_mgmt_client (rm_mgmt_client (w_state w)) \<and> w_users w' = w_users w \<and> w_tokens w' = w_tokens w \<and> w_env w' = w_env w
    \<and> keeps w w'"
  using assms by (simp add: mgmt_give_up_def handle_mgmt_close_def emit_def put_mgmt_def Let_def mgmt_inv_def fun_upd_idem)

lemma mgmt_give_up_none:
  "\<exists>w'. mgmt_give_up sock None w = Inr w' \<and> w_mgmt w' = w_mgmt w \<and> registered w' = registered w \<and> sel_wf w' = sel_wf w
    \<and> w_next w' = w_next w \<and> w_state w' = rm_mgmt_client (rm_mgmt_client (w_state w)) \<and> w_users w' = w_users w
    \<and> w_tokens w' = w_tokens w \<and> w_env w' = w_env w \<and> keeps w w'"
  by (simp add: mgmt_give_up_def handle_mgmt_close_def Let_def) (simp add: emit_def)

lemma links_mono: "links m reg n \<Longrightarrow> n \<le> n' \<Longrightarrow> links m reg n'"
  unfolding links_def by (meson less_le_trans)

lemma links_fresh: "links m reg n \<Longrightarrow> m n = None"
  using links_client(2) [of m reg n n] by (cases "m n") auto

lemma mgmt_inv_frame:
  assumes "mgmt_inv w" and "w_mgmt w' = w_mgmt w" "registered w' = registered w" "sel_wf w'" "w_next w \<le> w_next w'"
    "buffsize (w_state w') = buffsize (w_state w)" "w_users w' = w_users w" "w_tokens w' = w_tokens w" "w_env w' = w_env w"
  shows "mgmt_inv w'"
  using assms links_mono by (auto simp: mgmt_inv_def tables_ok_def buffsize_ok_def)

text \<open>The new client is registered, or given up because its descriptor cannot be watched.\<close>

lemma enrol_ok:
  assumes inv: "mgmt_inv w" and c: "mgmt_wf c" "mc_fd c = sock"
  shows "\<exists>w'. bindE (selector_register (\<lambda>_. True) zero_item sock (Some mgmt_handler) (OP_WRITE OR OP_READ) (Some (A_mgmt (w_next w)))
      (put_mgmt (w_next w) c (w\<lparr>w_next := w_next w + 1\<rparr>)))
    (\<lambda>(st, w3). if st \<noteq> SELECTOR_SUCCESS then mgmt_give_up sock (Some (w_next w)) w3 else Inr w3) = Inr w' \<and> mgmt_inv w' \<and> keeps w w'"
proof -
  let ?mid = "w_next w"
  let ?w2 = "put_mgmt ?mid c (w\<lparr>w_next := ?mid + 1\<rparr>)"
  let ?reg = "selector_register (\<lambda>_. True) zero_item sock (Some mgmt_handler) (OP_WRITE OR OP_READ) (Some (A_mgmt ?mid)) ?w2"
  have l: "links (w_mgmt w) (registered w) ?mid" and wf: "sel_wf w" using inv by (simp_all add: mgmt_inv_def)
  have wf2: "sel_wf ?w2" "registered ?w2 = registered w" using wf by simp_all
  show ?thesis
  proof (cases "INVALID_FD sock \<or> registered ?w2 sock \<noteq> None")
    case True
    obtain s where s: "s \<noteq> SELECTOR_SUCCESS" "?reg = Inr (s, ?w2)"
      using selector_register_refused [OF wf2(1) True] by blast
    obtain w' where g: "mgmt_give_up sock (Some ?mid) ?w2 = Inr w'" "w_mgmt w' = w_mgmt w" "registered w' = registered w" "sel_wf w'"
      "w_next w' = ?mid + 1" "w_state w' = rm_mgmt_client (rm_mgmt_client (w_state w))" "w_users w' = w_users w"
      "w_tokens w' = w_tokens w" "w_env w' = w_env w" "keeps w w'"
      using give_up_new [OF inv links_fresh [OF l], of sock c] by blast
    have "mgmt_inv w'" by (rule mgmt_inv_frame [OF inv g(2-4) _ _ g(7-9)]) (simp_all add: g(5,6))
    then show ?thesis using s g(1,10) by simp
  next
    case False
    let ?it = "new_item sock (OP_WRITE OR OP_READ) mgmt_handler (Some (A_mgmt ?mid))"
    obtain w3 where w3: "?reg = Inr (SELECTOR_SUCCESS, w3)" "sel_wf w3" "registered w3 = (registered ?w2)(sock \<mapsto> ?it)"
      "fdselector.more w3 = fdselector.more ?w2"
      using selector_register_fresh [OF wf2(1), of sock] False by blast
    have "links ((w_mgmt w)(?mid \<mapsto> c)) ((registered w)(mc_fd c \<mapsto> ?it)) (?mid + 1)"
      using False c(2) by (intro links_add [OF l c(1)]) (simp_all add: new_item_def)
    then have "mgmt_inv w3"
      using w3(2,3) inv c(2) by (simp add: mgmt_inv_def more_eq_fields [OF w3(4)] tables_ok_def)
    moreover have "keeps ?w2 w3"
      by (rule keeps_registry [OF selector_register_kept [OF wf2(1) w3(1)] w3(4,3)]) (use False in \<open>auto simp: new_item_def\<close>)
    then have "keeps w w3" using keeps_trans [of w ?w2 w3] by simp
    ultimately show ?thesis using w3(1) by simp
  qed
qed

lemma mgmt_accept_ok:
  assumes inv: "mgmt_inv w"
  shows "\<exists>w'. mgmt_master_read_handler k w = Inr w' \<and> mgmt_inv w' \<and> keeps w w'"
proof -
  obtain ok st where st: "add_mgmt_client (w_state w) = (ok, st)" by fastforce
  let ?w1 = "w\<lparr>w_state := st\<rparr>"
  have "buffsize st = buffsize (w_state w)" using counter_settings(2) [of "w_state w"] st by simp
  then have inv1: "mgmt_inv ?w1" by (rule mgmt_inv_state [OF inv])
  show ?thesis
  proof (cases "ok")
    case False
    then show ?thesis using st inv1 by (simp add: mgmt_master_read_handler_def)
  next
    case ok: True
    show ?thesis
    proof (cases "env_accept (w_env w)")
      case Accept_err
      have "mgmt_inv (?w1\<lparr>w_state := rm_mgmt_client st\<rparr>)"
        by (rule mgmt_inv_state [OF inv1]) simp
      then show ?thesis using st ok Accept_err by (simp add: mgmt_master_read_handler_def)
    next
      case (Accept_ok sock addr len)
      show ?thesis
      proof (cases "env_malloc (w_env w) 0")
        case False
        obtain w' where g: "mgmt_give_up sock None ?w1 = Inr w'" "w_mgmt w' = w_mgmt ?w1" "registered w' = registered ?w1"
          "sel_wf w' = sel_wf ?w1" "w_next w' = w_next ?w1" "w_state w' = rm_mgmt_client (rm_mgmt_client (w_state ?w1))"
          "w_users w' = w_users ?w1" "w_tokens w' = w_tokens ?w1" "w_env w' = w_env ?w1" "keeps ?w1 w'"
          using mgmt_give_up_none [of sock ?w1] by blast
        have "mgmt_inv w'"
          using inv1 by (intro mgmt_inv_frame [OF inv1 g(2,3) _ _ _ g(7-9)]) (simp_all add: g(4-6) mgmt_inv_def)
        then show ?thesis
          using st ok Accept_ok False g(1) keeps_trans [of w ?w1 w'] g(10) by (simp add: mgmt_master_read_handler_def create_mgmt_client_def)
      next
        case True
        have e: "env_ok (w_env w)" using inv by (simp add: mgmt_inv_def)
        obtain c b where c: "create_mgmt_client sock (w_env w) = Inr (Some c)" "buffer_put hello_text (write_buf c) = Inr b"
          "mgmt_wf (c\<lparr>write_buf := b\<rparr>)" "mc_fd c = sock"
          by (rule create_mgmt_client_ok [OF e True, of sock]) (rule that)
        have nx: "w_next ?w1 = w_next w" by simp
        show ?thesis
          using enrol_ok [OF inv1 c(3), of sock, unfolded nx] c st ok Accept_ok hello_short(1) keeps_trans [of w ?w1]
          by (auto simp add: mgmt_master_read_handler_def Let_def)
      qed
    qed
  qed
qed

text \<open>What an accepted connection looks like.\<close>

lemma mgmt_greets:
  assumes inv: "mgmt_inv w" and adm: "add_mgmt_client (w_state w) = (True, st)" and acc: "env_accept (w_env w) = Accept_ok sock addr len"
    and mem: "env_malloc (w_env w) 0" and fd: "\<not> INVALID_FD sock" "registered w sock = None"
  shows "\<exists>w' c. mgmt_master_read_handler k w = Inr w' \<and> w_mgmt w' = (w_mgmt w)(w_next w \<mapsto> c) \<and> mc_fd c = sock
    \<and> contents (write_buf c) = hello_text \<and> in_cond (input c) = yycpass \<and> pending (input c) = [] \<and> w_state w' = st
    \<and> registered w' = (registered w)(sock \<mapsto> new_item sock (OP_WRITE OR OP_READ) mgmt_handler (Some (A_mgmt (w_next w))))"
proof -
  have e: "env_ok (w_env w)" and wf: "sel_wf w" using inv by (simp_all add: mgmt_inv_def)
  obtain c b where c: "create_mgmt_client sock (w_env w) = Inr (Some c)" "buffer_put hello_text (write_buf c) = Inr b"
    "contents b = hello_text" "mc_fd c = sock" "in_cond (input c) = yycpass" "pending (input c) = []"
    by (rule create_mgmt_client_ok [OF e mem, of sock]) (rule that)
  let ?w2 = "put_mgmt (w_next w) (c\<lparr>write_buf := b\<rparr>) (w\<lparr>w_state := st, w_next := w_next w + 1\<rparr>)"
  have wf2: "sel_wf ?w2" "registered ?w2 sock = None" using wf fd(2) by simp_all
  obtain w3 where w3: "selector_register (\<lambda>_. True) zero_item sock (Some mgmt_handler) (OP_WRITE OR OP_READ) (Some (A_mgmt (w_next w))) ?w2
      = Inr (SELECTOR_SUCCESS, w3)" "fdselector.more w3 = fdselector.more ?w2"
    "registered w3 = (registered ?w2)(sock \<mapsto> new_item sock (OP_WRITE OR OP_READ) mgmt_handler (Some (A_mgmt (w_next w))))"
    using selector_register_fresh [OF wf2(1) fd(1) wf2(2)] by blast
  have "mgmt_master_read_handler k w = Inr w3"
    using adm acc c(1,2) hello_short(1) w3(1) by (simp add: mgmt_master_read_handler_def Let_def)
  then show ?thesis
    using c w3(3) more_eq_fields [OF w3(2)] by (intro exI [of _ w3] exI [of _ "c\<lparr>write_buf := b\<rparr>"]) simp
qed

text \<open>A connection that cannot be served for want of memory is counted out twice.\<close>

lemma counted_out_twice:
  assumes "add_mgmt_client s = (True, st)"
  shows "rm_mgmt_client (rm_mgmt_client st) = (rm_mgmt_client s)\<lparr>all_connections := all_connections st\<rparr>"
  using assms by (auto simp: rm_mgmt_client_def add_mgmt_client_def split: if_splits)

lemma mgmt_miscount:
  assumes "add_mgmt_client (w_state w) = (True, st)" and "env_accept (w_env w) = Accept_ok sock addr len" and "\<not> env_malloc (w_env w) 0"
  shows "\<exists>w'. mgmt_master_read_handler k w = Inr w' \<and> w_mgmt w' = w_mgmt w
    \<and> mgmt_client_count (w_state w') = mgmt_client_count (w_state w) - 1
    \<and> (mgmt_client_count (w_state w) = 0 \<and> proxy_client_count (w_state w) = 0 \<longrightarrow>
        \<not> fst (add_proxy_client (w_state w')) \<and> \<not> fst (add_mgmt_client (w_state w')))"
proof -
  let ?st = "(rm_mgmt_client (w_state w))\<lparr>all_connections := all_connections st\<rparr>"
  obtain w' where "mgmt_master_read_handler k w = Inr w'" "w_mgmt w' = w_mgmt w" "w_state w' = ?st"
    using assms counted_out_twice [OF assms(1)] mgmt_give_up_none [of sock "w\<lparr>w_state := st\<rparr>"]
    by (auto simp: mgmt_master_read_handler_def create_mgmt_client_def)
  moreover have "fst (add_proxy_client ?st) = fst (add_proxy_client (rm_mgmt_client (w_state w)))"
    "fst (add_mgmt_client ?st) = fst (add_mgmt_client (rm_mgmt_client (w_state w)))"
    by (simp_all add: add_proxy_client_def add_mgmt_client_def)
  moreover have "mgmt_client_count ?st = mgmt_client_count (w_state w) - 1" by (simp add: rm_mgmt_client_def)
  ultimately show ?thesis using rm_mgmt_underflow [of "w_state w"] by metis
qed

section \<open>Runs\<close>

text \<open>
  The management side of the server as a transition system: the selector reports an event on the
  listening socket or on a registered management descriptor, and between events the system
  changes what it will answer.
\<close>

inductive mgmt_step :: "world \<Rightarrow> world \<Rightarrow> bool" where
  step_accept: "mgmt_master_read_handler k w = Inr w' \<Longrightarrow> mgmt_step w w'"
| step_read: "registered w fd = Some it \<Longrightarrow> it_handler it = Some mgmt_handler \<Longrightarrow>
    handle_mgmt_read \<lparr>key_fd = fd, key_data = it_data it\<rparr> w = Inr (Some w') \<Longrightarrow> mgmt_step w w'"
| step_write: "registered w fd = Some it \<Longrightarrow> it_handler it = Some mgmt_handler \<Longrightarrow>
    handle_mgmt_write \<lparr>key_fd = fd, key_data = it_data it\<rparr> w = Inr (Some w') \<Longrightarrow> mgmt_step w w'"
| step_env: "env_ok e \<Longrightarrow> mgmt_step w (w\<lparr>w_env := e\<rparr>)"

lemma item_key:
  assumes "mgmt_inv w" and "registered w fd = Some it" and "it_handler it = Some mgmt_handler"
  obtains mid c where "mgmt_key \<lparr>key_fd = fd, key_data = it_data it\<rparr> mid c w"
  using assms by (auto simp: mgmt_inv_def mgmt_key_def elim: links_item)

lemma mgmt_step_inv: "mgmt_step w w' \<Longrightarrow> mgmt_inv w \<Longrightarrow> mgmt_inv w'"
proof (induction rule: mgmt_step.induct)
  case (step_accept k w w')
  then show ?case using mgmt_accept_ok [of w k] by auto
next
  case (step_read w fd it w')
  then show ?case by (metis item_key handle_mgmt_read_ok Inr_inject option.inject)
next
  case (step_write w fd it w')
  then show ?case by (metis item_key handle_mgmt_write_ok Inr_inject option.inject)
next
  case (step_env e w)
  then show ?case by (simp add: mgmt_inv_def tables_ok_def)
qed

text \<open>Every event of such a run is handled to its end without a fault.\<close>

definition handled :: "world \<Rightarrow> bool" where
  "handled w \<longleftrightarrow> (\<forall>k. \<exists>w'. mgmt_master_read_handler k w = Inr w')
     \<and> (\<forall>fd it. registered w fd = Some it \<and> it_handler it = Some mgmt_handler \<longrightarrow>
          (\<exists>w'. handle_mgmt_read \<lparr>key_fd = fd, key_data = it_data it\<rparr> w = Inr (Some w'))
          \<and> (\<exists>w'. handle_mgmt_write \<lparr>key_fd = fd, key_data = it_data it\<rparr> w = Inr (Some w')))"

lemma mgmt_inv_handled: "mgmt_inv w \<Longrightarrow> handled w"
  unfolding handled_def
proof (intro conjI allI impI)
  assume inv: "mgmt_inv w"
  show "\<exists>w'. mgmt_master_read_handler k w = Inr w'" for k
    using mgmt_accept_ok [OF inv] by blast
  fix fd it assume "registered w fd = Some it \<and> it_handler it = Some mgmt_handler"
  then obtain mid c where k: "mgmt_key \<lparr>key_fd = fd, key_data = it_data it\<rparr> mid c w"
    using item_key [OF inv] by blast
  show "\<exists>w'. handle_mgmt_read \<lparr>key_fd = fd, key_data = it_data it\<rparr> w = Inr (Some w')"
    using handle_mgmt_read_ok [OF inv k] by blast
  show "\<exists>w'. handle_mgmt_write \<lparr>key_fd = fd, key_data = it_data it\<rparr> w = Inr (Some w')"
    using handle_mgmt_write_ok [OF inv k] by blast
qed

lemma mgmt_run_inv: "mgmt_step\<^sup>*\<^sup>* w w' \<Longrightarrow> mgmt_inv w \<Longrightarrow> mgmt_inv w'"
  by (induction rule: rtranclp_induct) (auto intro: mgmt_step_inv)

end
