(* ===== verification/Startup.thy ===== *)
theory Startup
  imports Args Mgmt_Handlers
begin

text \<open>
  \<open>main\<close> of \<open>src/proxy.c\<close> up to its loop, with \<open>setUpMasterSocket\<close> of \<open>src/tcpServerUtil.c\<close>: the
  command line, the token of the environment, the passive sockets, the selector with the
  listening descriptors registered. The endless loop itself is \<open>selector_select\<close>.
\<close>

section \<open>Passive sockets\<close>

text \<open>The answers of the system to one call of \<open>setUpMasterSocket\<close>.\<close>

record listen_env =
  le_socket :: "int \<Rightarrow> int"
  le_setsockopt :: bool
  le_pton :: "int \<Rightarrow> byte list \<Rightarrow> byte list option"
  le_bind :: "sockaddr \<Rightarrow> bool"
  le_listen :: bool

definition htons :: "16 word \<Rightarrow> byte list" where
  "htons p = [ucast (drop_bit 8 p), ucast p]"

text \<open>The results: the descriptor or \<open>-1\<close>, the address it is bound to, and what was done to the system.\<close>

definition setUpMasterSocket ::
  "listen_env \<Rightarrow> byte list \<Rightarrow> 16 word \<Rightarrow> bool \<Rightarrow> int \<times> sockaddr option \<times> os_event list" where
  "setUpMasterSocket e ip p ipv6 =
     (let fam = (if ipv6 then AF_INET6 else AF_INET);
          sock = le_socket e fam in
      if sock < 0 then (-1, None, [])
      else if \<not> le_setsockopt e then (-1, None, [Close sock])
      else case le_pton e fam ip of
        None \<Rightarrow> (-1, None, [Close sock])
      | Some a \<Rightarrow>
          let addr = \<lparr>sa_family = fam, sa_addr = a, sa_port = htons p\<rparr> in
          if \<not> le_bind e addr then (-1, None, [Close sock])
          else if \<not> le_listen e then (-1, None, [Close sock])
          else (sock, Some addr, []))"

text \<open>A passive socket that was set up: its descriptor and address.\<close>

type_synonym listener = "int \<times> sockaddr"

definition try_listen :: "listen_env \<Rightarrow> byte list \<Rightarrow> 16 word \<Rightarrow> bool \<Rightarrow> listener list" where
  "try_listen e ip p ipv6 =
     (case setUpMasterSocket e ip p ipv6 of (s, Some a, _) \<Rightarrow> if s \<ge> 0 then [(s, a)] else [] | _ \<Rightarrow> [])"

definition SOCKS_ADDR4 :: "byte list" where "SOCKS_ADDR4 = bytes_of ''0.0.0.0''"
definition SOCKS_ADDR6 :: "byte list" where "SOCKS_ADDR6 = bytes_of ''::''"
definition MGMT_ADDR4 :: "byte list" where "MGMT_ADDR4 = bytes_of ''127.0.0.1''"
definition MGMT_ADDR6 :: "byte list" where "MGMT_ADDR6 = bytes_of ''::1''"

text \<open>Both families at the default addresses, or the one address given; \<open>':'\<close> in it makes it IPv6.\<close>

definition listen_at :: "listen_env \<Rightarrow> listen_env \<Rightarrow> byte list option \<Rightarrow> byte list \<Rightarrow> byte list \<Rightarrow> 16 word \<Rightarrow> listener list" where
  "listen_at e4 e6 addr dflt4 dflt6 p =
     (case addr of
        None \<Rightarrow> try_listen e4 dflt4 p False @ try_listen e6 dflt6 p True
      | Some a \<Rightarrow> try_listen (if 58 \<in> set a then e6 else e4) a p (58 \<in> set a))"

section \<open>\<open>main\<close>\<close>

record main_env =
  me_signal :: bool
  me_token :: "byte list option"
  me_socks4 :: listen_env
  me_socks6 :: listen_env
  me_mgmt4 :: listen_env
  me_mgmt6 :: listen_env
  me_sigprocmask :: int
  me_sigaction :: int
  me_malloc :: bool
  me_alloc :: "nat \<Rightarrow> bool"
  me_relisten :: "int \<Rightarrow> bool"

definition selector_conf :: selector_init where
  "selector_conf = \<lparr>conf_signal = 14, conf_tv_sec = 10, conf_tv_nsec = 0\<rparr>"

fun register_all :: "handler_id \<Rightarrow> int list \<Rightarrow> world \<Rightarrow> world run" where
  "register_all h [] w = Inr w"
| "register_all h (s # ss) w =
     bindE (selector_register (\<lambda>_. True) zero_item s (Some h) OP_READ None w) (\<lambda>(_, w1). register_all h ss w1)"

text \<open>\<open>blank\<close> is the memory of the process: the tables empty, no clients.\<close>

definition main_setup :: "main_env \<Rightarrow> byte list list \<Rightarrow> world \<Rightarrow> (listener list \<times> listener list \<times> world) outcome run" where
  "main_setup e argv blank =
     (if \<not> me_signal e then Inr (Stop 1)
      else
      bindE (parse_args argv \<lparr>su_args = default_args, su_state = w_state blank, su_users = w_users blank,
                              su_tokens = w_tokens blank, su_nusers = 0\<rparr>) (\<lambda>r.
      case r of
        Stop n \<Rightarrow> Inr (Stop n)
      | Done su \<Rightarrow>
          bindE (case me_token e of None \<Rightarrow> Inr (False, su_tokens su) | Some t \<Rightarrow> add_token t (su_tokens su)) (\<lambda>(_, tt).
          let args = su_args su;
              master = listen_at (me_socks4 e) (me_socks6 e) (socks_addr args) SOCKS_ADDR4 SOCKS_ADDR6 (socks_port args);
              monitor = (if get_token_count tt = 0 then []
                         else listen_at (me_mgmt4 e) (me_mgmt6 e) (mng_addr args) MGMT_ADDR4 MGMT_ADDR6 (mng_port args));
              w1 = blank\<lparr>w_state := su_state su, w_users := su_users su, w_tokens := tt\<rparr> in
          if master = [] then Inr (Stop 2)
          else
          bindE (selector_new close_table (snd (selector_init_lib selector_conf (me_sigprocmask e) (me_sigaction e)))
                   (me_malloc e) (me_alloc e) zero_item 1024 w1) (\<lambda>sel.
          case sel of
            None \<Rightarrow> Inr (Stop 3)
          | Some w2 \<Rightarrow>
              bindE (register_all master_handler (map fst master) w2) (\<lambda>w3.
              bindE (register_all monitor_handler (map fst (filter (\<lambda>(s, _). me_relisten e s) monitor)) w3) (\<lambda>w4.
              Inr (Done (master, monitor, w4))))))))"

section \<open>What it leaves\<close>

lemma try_listen_bound:
  assumes "(s, a) \<in> set (try_listen e ip p ipv6)"
  shows "le_pton e (if ipv6 then AF_INET6 else AF_INET) ip = Some (sa_addr a)" and "sa_family a = (if ipv6 then AF_INET6 else AF_INET)"
    and "sa_port a = htons p" and "0 \<le> s"
  using assms by (auto simp: try_listen_def setUpMasterSocket_def Let_def split: option.splits if_splits)

text \<open>Registering the listening descriptors keeps the selector sound and adds no management client.\<close>

lemma register_all_ok:
  assumes "sel_wf w" and "h \<noteq> mgmt_handler" and "\<forall>fd it. registered w fd = Some it \<longrightarrow> it_handler it \<noteq> Some mgmt_handler"
  shows "\<exists>w'. register_all h ss w = Inr w' \<and> sel_wf w' \<and> fdselector.more w' = fdselector.more w
    \<and> (\<forall>fd it. registered w' fd = Some it \<longrightarrow> it_handler it \<noteq> Some mgmt_handler)
    \<and> (\<forall>fd. registered w fd \<noteq> None \<longrightarrow> registered w' fd = registered w fd)
    \<and> (\<forall>s\<in>set ss. \<not> INVALID_FD s \<longrightarrow> registered w' s \<noteq> None)
    \<and> sel_kept w w' \<and> (\<forall>fd it. registered w' fd = Some it \<longrightarrow> registered w fd = Some it \<or> fd \<in> set ss \<and> it = new_item fd OP_READ h None)"
  using assms(1,3)
proof (induction ss arbitrary: w)
  case Nil
  then show ?case by simp
next
  case (Cons s ss)
  show ?case
  proof (cases "INVALID_FD s \<or> registered w s \<noteq> None")
    case True
    obtain st where "selector_register (\<lambda>_. True) zero_item s (Some h) OP_READ None w = Inr (st, w)"
      using selector_register_refused [OF Cons.prems(1) True] by blast
    moreover obtain w' where "register_all h ss w = Inr w' \<and> sel_wf w' \<and> fdselector.more w' = fdselector.more w
      \<and> (\<forall>fd it. registered w' fd = Some it \<longrightarrow> it_handler it \<noteq> Some mgmt_handler)
      \<and> (\<forall>fd. registered w fd \<noteq> None \<longrightarrow> registered w' fd = registered w fd)
      \<and> (\<forall>s\<in>set ss. \<not> INVALID_FD s \<longrightarrow> registered w' s \<noteq> None)
      \<and> sel_kept w w' \<and> (\<forall>fd it. registered w' fd = Some it \<longrightarrow> registered w fd = Some it \<or> fd \<in> set ss \<and> it = new_item fd OP_READ h None)"
      using Cons.IH [OF Cons.prems] by blast
    ultimately show ?thesis using True by (intro exI [of _ w']) auto
  next
    case False
    obtain w1 where w1: "selector_register (\<lambda>_. True) zero_item s (Some h) OP_READ None w = Inr (SELECTOR_SUCCESS, w1)"
      "sel_wf w1" "registered w1 = (registered w)(s \<mapsto> new_item s OP_READ h None)" "fdselector.more w1 = fdselector.more w"
      using selector_register_fresh [OF Cons.prems(1), of s] False by blast
    have "\<forall>fd it. registered w1 fd = Some it \<longrightarrow> it_handler it \<noteq> Some mgmt_handler"
      using Cons.prems(2) assms(2) by (simp add: w1(3) new_item_def)
    from Cons.IH [OF w1(2) this] obtain w' where w': "register_all h ss w1 = Inr w'" "sel_wf w'" "fdselector.more w' = fdselector.more w1"
      "\<forall>fd it. registered w' fd = Some it \<longrightarrow> it_handler it \<noteq> Some mgmt_handler"
      "\<forall>fd. registered w1 fd \<noteq> None \<longrightarrow> registered w' fd = registered w1 fd"
      "\<forall>s\<in>set ss. \<not> INVALID_FD s \<longrightarrow> registered w' s \<noteq> None" "sel_kept w1 w'"
      "\<forall>fd it. registered w' fd = Some it \<longrightarrow> registered w1 fd = Some it \<or> fd \<in> set ss \<and> it = new_item fd OP_READ h None"
      by blast
    have "sel_kept w w'" by (rule sel_kept_trans [OF selector_register_kept [OF Cons.prems(1) w1(1)] w'(7)])
    moreover have "\<forall>fd it. registered w' fd = Some it \<longrightarrow> registered w fd = Some it \<or> fd \<in> set (s # ss) \<and> it = new_item fd OP_READ h None"
      using w'(8) unfolding w1(3) by (auto split: if_splits)
    moreover have "registered w' s \<noteq> None" using w'(5) w1(3) by simp
    moreover have "\<forall>fd. registered w fd \<noteq> None \<longrightarrow> registered w' fd = registered w fd"
      using w'(5) w1(3) False by auto
    ultimately show ?thesis using w1(1,4) w'(1-4,6) by (intro exI [of _ w']) simp
  qed
qed

text \<open>The memory of a process that has just started.\<close>

definition fresh_world :: "world \<Rightarrow> bool" where
  "fresh_world w \<longleftrightarrow> w_state w = initial_state \<and> w_users w = empty_users \<and> w_tokens w = empty_tokens
     \<and> w_mgmt w = Map.empty \<and> env_ok (w_env w) \<and> (\<forall>n. env_ok (w_envs w n))"

lemma no_clients_linked:
  assumes "\<forall>fd it. reg fd = Some it \<longrightarrow> it_handler it \<noteq> Some mgmt_handler"
  shows "links Map.empty reg n"
  using assms by (intro linksI) auto

text \<open>
  The state in which the server enters its loop: only the listening sockets are registered, each for reading and under
  the handler of its kind.
\<close>

definition listening :: "listener list \<Rightarrow> listener list \<Rightarrow> world \<Rightarrow> bool" where
  "listening master monitor w \<longleftrightarrow> (\<forall>fd it. registered w fd = Some it \<longrightarrow>
     fd \<in> fst ` set master \<and> it = new_item fd OP_READ master_handler None \<or> fd \<in> fst ` set monitor \<and> it = new_item fd OP_READ monitor_handler None)"

definition ready :: "listener list \<Rightarrow> listener list \<Rightarrow> world \<Rightarrow> bool" where
  "ready master monitor w \<longleftrightarrow> mgmt_inv w \<and> w_mgmt w = Map.empty \<and> master \<noteq> []
     \<and> (\<forall>s\<in>fst ` set master. \<not> INVALID_FD s \<longrightarrow> registered w s \<noteq> None)
     \<and> (token_entries (w_tokens w) = [] \<longrightarrow> monitor = []) \<and> blank_items w \<and> resolution_jobs w = [] \<and> (\<forall>n. env_ok (w_envs w n))
     \<and> listening master monitor w"

text \<open>
  The conditions under which the server starts: the command line is accepted, some socket for the
  proxy can be opened, and there is memory for the selector.
\<close>

definition socks_listeners :: "main_env \<Rightarrow> startup \<Rightarrow> listener list" where
  "socks_listeners e su =
     listen_at (me_socks4 e) (me_socks6 e) (socks_addr (su_args su)) SOCKS_ADDR4 SOCKS_ADDR6 (socks_port (su_args su))"

definition started :: "main_env \<Rightarrow> byte list list \<Rightarrow> startup \<Rightarrow> bool" where
  "started e argv su \<longleftrightarrow> me_signal e \<and> parse_args argv initial_startup = Inr (Done su) \<and> socks_listeners e su \<noteq> []
     \<and> me_malloc e \<and> me_alloc e (ITEMS_MAX_SIZE + 1)"

lemma environment_token:
  assumes "tokens_wf tt"
  obtains ok tt' where "(case t of None \<Rightarrow> Inr (False, tt) | Some t \<Rightarrow> add_token t tt) = Inr (ok, tt')" "tokens_wf tt'"
  using assms ts.add_total [OF assms] by (cases t) (auto, metis)

lemma main_setup_ok:
  assumes fresh: "fresh_world blank"
  shows "\<exists>r. main_setup e argv blank = Inr r \<and> (\<forall>master monitor w. r = Done (master, monitor, w) \<longrightarrow> ready master monitor w)
    \<and> (\<forall>su. started e argv su \<longrightarrow> (\<exists>monitor w. r = Done (socks_listeners e su, monitor, w)))"
proof (cases "me_signal e")
  case False
  then show ?thesis by (simp add: main_setup_def started_def)
next
  case sig: True
  let ?su = "\<lparr>su_args = default_args, su_state = w_state blank, su_users = w_users blank, su_tokens = w_tokens blank, su_nusers = 0\<rparr>"
  have "startup_ok ?su"
    using fresh users_wf_empty tokens_wf_empty by (simp add: startup_ok_def fresh_world_def)
  from parse_args_ok [OF this, of argv] obtain r where r: "parse_args argv ?su = Inr r"
    "\<And>su'. r = Done su' \<Longrightarrow> startup_ok su' \<and> (\<exists>d. su_state su' = (su_state ?su)\<lparr>dissector_state := d\<rparr>)"
    by (auto simp: option_done_def)
  have su0: "?su = initial_startup" using fresh by (simp add: initial_startup_def fresh_world_def)
  show ?thesis
  proof (cases r)
    case (Stop n)
    then show ?thesis using sig r(1) by (simp add: main_setup_def started_def su0)
  next
    case (Done su)
    have su: "users_wf (su_users su)" "tokens_wf (su_tokens su)" "buffsize_ok (su_state su)"
      using r(2) [OF Done] fresh by (auto simp: startup_ok_def fresh_world_def initial_state_def buffsize_ok_def)
    obtain ok tt where tt: "(case me_token e of None \<Rightarrow> Inr (False, su_tokens su) | Some t \<Rightarrow> add_token t (su_tokens su)) = Inr (ok, tt)"
      "tokens_wf tt"
      by (rule environment_token [OF su(2)])
    define w1 where "w1 = blank\<lparr>w_state := su_state su, w_users := su_users su, w_tokens := tt\<rparr>"
    define master where "master = listen_at (me_socks4 e) (me_socks6 e) (socks_addr (su_args su)) SOCKS_ADDR4 SOCKS_ADDR6 (socks_port (su_args su))"
    define monitor where "monitor = (if get_token_count tt = 0 then []
        else listen_at (me_mgmt4 e) (me_mgmt6 e) (mng_addr (su_args su)) MGMT_ADDR4 MGMT_ADDR6 (mng_port (su_args su)))"
    let ?conf = "snd (selector_init_lib selector_conf (me_sigprocmask e) (me_sigaction e))"
    have run: "main_setup e argv blank = (if master = [] then Inr (Stop 2) else
        bindE (selector_new close_table ?conf (me_malloc e) (me_alloc e) zero_item 1024 w1) (\<lambda>sel.
          case sel of
            None \<Rightarrow> Inr (Stop 3)
          | Some w2 \<Rightarrow>
              bindE (register_all master_handler (map fst master) w2) (\<lambda>w3.
              bindE (register_all monitor_handler (map fst (filter (\<lambda>(s, _). me_relisten e s) monitor)) w3) (\<lambda>w4.
              Inr (Done (master, monitor, w4))))))"
      using sig r(1) Done tt(1) unfolding main_setup_def by (simp add: Let_def w1_def master_def monitor_def)
    show ?thesis
    proof (cases "me_malloc e \<and> me_alloc e (ITEMS_MAX_SIZE + 1)")
      case False
      then have "selector_new close_table ?conf (me_malloc e) (me_alloc e) zero_item 1024 w1 = Inr None"
        using selector_new_fails [of "me_alloc e"] by (cases "me_malloc e") (simp_all add: selector_new_def)
      then show ?thesis using run False by (simp add: started_def)
    next
      case True
      then obtain w2 where w2: "selector_new close_table ?conf (me_malloc e) (me_alloc e) zero_item 1024 w1 = Inr (Some w2)"
        "sel_wf w2" "registered w2 = Map.empty" "fdselector.more w2 = fdselector.more w1"
        using selector_new_ok [of "me_alloc e" close_table ?conf zero_item w1] by auto
      have w2b: "blank_items w2" "resolution_jobs w2 = []"
        using selector_new_blank [of "me_alloc e" close_table ?conf zero_item w1 w2] w2(1) True by auto
      obtain w3 where w3: "register_all master_handler (map fst master) w2 = Inr w3" "sel_wf w3" "fdselector.more w3 = fdselector.more w2"
        "\<forall>fd it. registered w3 fd = Some it \<longrightarrow> it_handler it \<noteq> Some mgmt_handler"
        "\<forall>s\<in>set (map fst master). \<not> INVALID_FD s \<longrightarrow> registered w3 s \<noteq> None" "sel_kept w2 w3"
        "\<forall>fd it. registered w3 fd = Some it \<longrightarrow> fd \<in> set (map fst master) \<and> it = new_item fd OP_READ master_handler None"
        using register_all_ok [OF w2(2), of master_handler "map fst master"] w2(3) by auto
      let ?ms = "map fst (filter (\<lambda>(s, _). me_relisten e s) monitor)"
      obtain w4 where w4: "register_all monitor_handler ?ms w3 = Inr w4" "sel_wf w4" "fdselector.more w4 = fdselector.more w3"
        "\<forall>fd it. registered w4 fd = Some it \<longrightarrow> it_handler it \<noteq> Some mgmt_handler"
        "\<forall>fd. registered w3 fd \<noteq> None \<longrightarrow> registered w4 fd = registered w3 fd" "sel_kept w3 w4"
        "\<forall>fd it. registered w4 fd = Some it \<longrightarrow> registered w3 fd = Some it \<or> fd \<in> set ?ms \<and> it = new_item fd OP_READ monitor_handler None"
        using register_all_ok [OF w3(2), of monitor_handler ?ms] w3(4) by auto
      have f: "fdselector.more w4 = fdselector.more w1" using w2(4) w3(3) w4(3) by simp
      note fields = more_eq_fields [OF f]
      have "mgmt_inv w4"
        using w4(2) no_clients_linked [OF w4(4)] su tt(2) fresh
        by (simp add: mgmt_inv_def fields) (simp add: w1_def tables_ok_def fresh_world_def fields)
      moreover have "token_entries (w_tokens w4) = [] \<longrightarrow> monitor = []"
        using length_token_entries [OF tt(2)] by (auto simp: fields w1_def monitor_def get_token_count_def)
      moreover have "blank_items w4 \<and> resolution_jobs w4 = []"
        using w2b sel_kept_trans [OF w3(6) w4(6)] by (simp add: sel_kept_def)
      moreover have "listening master monitor w4" using w3(7) w4(7) unfolding listening_def by fastforce
      moreover have "\<forall>n. env_ok (w_envs w4 n)" using fresh by (simp add: fields w1_def fresh_world_def)
      ultimately have "ready master monitor w4" if "master \<noteq> []"
        using that w3(5) w4(5) fresh by (auto simp: ready_def fields w1_def fresh_world_def)
      moreover have "socks_listeners e su' = master" if "started e argv su'" for su'
        using that r(1) Done by (simp add: started_def su0 socks_listeners_def master_def)
      ultimately show ?thesis using run w2(1) w3(1) w4(1) by (auto simp: started_def)
    qed
  qed
qed

text \<open>Without an address for it, the management service is bound to the loopback addresses only.\<close>

lemma listen_at_default:
  assumes "(s, a) \<in> set (listen_at e4 e6 None d4 d6 p)"
  shows "le_pton e4 AF_INET d4 = Some (sa_addr a) \<and> sa_family a = AF_INET \<or> le_pton e6 AF_INET6 d6 = Some (sa_addr a) \<and> sa_family a = AF_INET6"
  using assms try_listen_bound by (fastforce simp: listen_at_def)

end
