(* ===== verification/Main_Loop.thy ===== *)
theory Main_Loop
  imports Startup Clients
begin

text \<open>
  The loop of \<open>main\<close> in \<open>src/proxy.c\<close> around \<open>selector_select\<close>, with the four handler tables of the server, and the
  whole program from its command line to its exit. The management service is shown to run without faults for as
  long as only its descriptors become ready.
\<close>

section \<open>The handler tables\<close>

text \<open>Each callback runs against the next record of answers of the system.\<close>

definition tick :: "world \<Rightarrow> world" where
  "tick w = w\<lparr>w_env := w_envs w (w_tick w), w_tick := w_tick w + 1\<rparr>"

text \<open>
  A management callback whose command loop would not end has no result; there is none, and any fault stands for it.
\<close>

definition ended :: "world option run \<Rightarrow> world run" where
  "ended m = bindE m (\<lambda>r. case r of None \<Rightarrow> Inl Abort_called | Some w \<Rightarrow> Inr w)"

fun handler_table :: "handler_id \<Rightarrow> (attachment, world) fd_handler" where
  "handler_table socks5_handler =
     \<lparr>handle_read = Some (\<lambda>k w. socksv5_read k (tick w)), handle_write = Some (\<lambda>k w. socksv5_write k (tick w)),
      handle_block = Some (\<lambda>k w. socksv5_block k (tick w)), handle_close = None\<rparr>"
| "handler_table mgmt_handler =
     \<lparr>handle_read = Some (\<lambda>k w. ended (handle_mgmt_read k (tick w))), handle_write = Some (\<lambda>k w. ended (handle_mgmt_write k (tick w))),
      handle_block = None, handle_close = Some handle_mgmt_close\<rparr>"
| "handler_table master_handler =
     \<lparr>handle_read = Some (\<lambda>k w. master_read_handler k (tick w)), handle_write = None, handle_block = None, handle_close = None\<rparr>"
| "handler_table monitor_handler =
     \<lparr>handle_read = Some (\<lambda>k w. mgmt_master_read_handler k (tick w)), handle_write = None, handle_block = None, handle_close = None\<rparr>"

lemma handler_table_close: "handle_close (handler_table h) = handle_close (close_table h)"
  by (cases h) (simp_all add: close_table_def)

section \<open>The loop\<close>

text \<open>
  One answer of \<open>pselect\<close> for each round; the signal that sets \<open>done\<close> arrives in the last of them. The result is the
  exit status and the memory at the end.
\<close>

fun main_loop :: "(int set \<Rightarrow> int set \<Rightarrow> psel_res) list \<Rightarrow> world \<Rightarrow> (nat \<times> world) run" where
  "main_loop [] w = bindE (selector_destroy handler_table w) (\<lambda>w1. Inr (0, w1))"
| "main_loop (psel # psels) w =
     bindE (selector_select handler_table psel w) (\<lambda>(ss, w1).
     if ss \<noteq> SELECTOR_SUCCESS then Inr (1, w1) else main_loop psels w1)"

definition main :: "main_env \<Rightarrow> byte list list \<Rightarrow> (int set \<Rightarrow> int set \<Rightarrow> psel_res) list \<Rightarrow> world \<Rightarrow> (nat \<times> world) run" where
  "main e argv psels w =
     bindE (main_setup e argv w) (\<lambda>r.
     case r of Stop n \<Rightarrow> Inr (n, w) | Done (_, _, w1) \<Rightarrow> main_loop psels w1)"

section \<open>The invariant of the management service\<close>

text \<open>
  Between rounds: \<open>M\<close> has the descriptors of everybody else, that is of the proxy. While a round runs, none of them
  is reported as ready.
\<close>

definition others_in :: "int set \<Rightarrow> world \<Rightarrow> bool" where
  "others_in M w \<longleftrightarrow> (\<forall>fd it. registered w fd = Some it \<longrightarrow>
     it_handler it = Some mgmt_handler \<or> it_handler it = Some monitor_handler \<and> \<not> hasFlag OP_WRITE (it_interest it) \<or> fd \<in> M)"

definition resting :: "int set \<Rightarrow> world \<Rightarrow> bool" where
  "resting M w \<longleftrightarrow> mgmt_inv w \<and> (\<forall>n. env_ok (w_envs w n)) \<and> blank_items w \<and> resolution_jobs w = [] \<and> others_in M w"

definition serving_mgmt :: "int set \<Rightarrow> world \<Rightarrow> bool" where
  "serving_mgmt M w \<longleftrightarrow> resting M w \<and> M \<inter> slave_r w = {} \<and> M \<inter> slave_w w = {}"

lemma serving_resting [simp]: "serving_mgmt M w \<Longrightarrow> resting M w"
  by (simp add: serving_mgmt_def)

lemma sparedD:
  assumes "serving_mgmt M w" and "registered w fd = Some it" "it_handler it = Some h" and "fd \<in> slave_r w \<or> fd \<in> slave_w w"
  shows "h = mgmt_handler \<or> h = monitor_handler \<and> \<not> hasFlag OP_WRITE (it_interest it)"
proof -
  have "others_in M w" "fd \<notin> M" using assms(1,4) by (auto simp: serving_mgmt_def resting_def)
  with assms(2,3) show ?thesis unfolding others_in_def by (metis option.inject)
qed

lemma tick_inv:
  assumes "mgmt_inv w" and "\<forall>n. env_ok (w_envs w n)"
  shows "mgmt_inv (tick w)"
  using assms by (simp add: mgmt_inv_def tick_def tables_ok_def)

lemma tick_fields [simp]:
  "registered (tick w) = registered w" "w_mgmt (tick w) = w_mgmt w" "sel_kept w (tick w)" "w_envs (tick w) = w_envs w"
  by (simp_all add: tick_def)

lemma serving_tick: "serving_mgmt M w \<Longrightarrow> mgmt_inv (tick w)"
  by (rule tick_inv) (simp_all add: serving_mgmt_def resting_def)

lemma serving_kept:
  assumes "serving_mgmt M w" and "mgmt_inv w'" and "keeps (tick w) w'"
  shows "serving_mgmt M w'" and "same_table w w'"
    and "\<And>fd it. it_handler it \<noteq> Some mgmt_handler \<Longrightarrow> registered w' fd = Some it \<longleftrightarrow> registered w fd = Some it"
proof -
  have k: "sel_kept w w'" using assms(3) sel_kept_trans [of w "tick w" w'] by (simp add: keeps_def)
  show other: "registered w' fd = Some it \<longleftrightarrow> registered w fd = Some it" if "it_handler it \<noteq> Some mgmt_handler" for fd it
    using assms(3) that by (simp add: keeps_def)
  show "same_table w w'" using k by (simp add: sel_kept_def)
  have "others_in M w" using assms(1) by (simp add: serving_mgmt_def resting_def)
  then have "others_in M w'" unfolding others_in_def using other by metis
  then show "serving_mgmt M w'" using assms k by (simp add: serving_mgmt_def resting_def sel_kept_def keeps_def)
qed

text \<open>The callbacks of the two tables of the service.\<close>

lemma serve_accept:
  assumes "serving_mgmt M w" and "registered w fd = Some it" "it_handler it = Some monitor_handler"
  obtains w' where "mgmt_master_read_handler k (tick w) = Inr w'" "serving_mgmt M w'" "same_table w w'" "registered w' fd = Some it"
proof -
  have "mgmt_inv (tick w)" by (rule serving_tick [OF assms(1)])
  then obtain w' where w': "mgmt_master_read_handler k (tick w) = Inr w'" "mgmt_inv w'" "keeps (tick w) w'"
    using mgmt_accept_ok by blast
  note s = serving_kept [OF assms(1) w'(2,3)]
  have "registered w' fd = Some it" using s(3) [of it fd] assms(2,3) by simp
  with w'(1) s(1,2) show thesis using that by blast
qed

lemma serve_read:
  assumes "serving_mgmt M w" and "registered w fd = Some it" "it_handler it = Some mgmt_handler"
  obtains w' where "handle_mgmt_read \<lparr>key_fd = fd, key_data = it_data it\<rparr> (tick w) = Inr (Some w')" "serving_mgmt M w'" "same_table w w'"
    "\<forall>it'. registered w' fd = Some it' \<longrightarrow> it_data it' = it_data it"
proof -
  have inv: "mgmt_inv (tick w)" by (rule serving_tick [OF assms(1)])
  obtain mid c where k: "mgmt_key \<lparr>key_fd = fd, key_data = it_data it\<rparr> mid c (tick w)"
    by (rule item_key [OF inv]) (use assms(2,3) in simp_all)
  obtain w' where "handle_mgmt_read \<lparr>key_fd = fd, key_data = it_data it\<rparr> (tick w) = Inr (Some w')" "mgmt_inv w'" "keeps (tick w) w'"
    "narrows (tick w) w'"
    by (rule handle_mgmt_read_ok [OF inv k])
  moreover from this(4) have "\<forall>it'. registered w' fd = Some it' \<longrightarrow> it_data it' = it_data it"
    using assms(2) by (fastforce simp: narrows_def)
  ultimately show thesis using that serving_kept [OF assms(1)] by blast
qed

lemma serve_write:
  assumes "serving_mgmt M w" and "registered w fd = Some it" "it_handler it = Some mgmt_handler"
  obtains w' where "handle_mgmt_write \<lparr>key_fd = fd, key_data = it_data it\<rparr> (tick w) = Inr (Some w')" "serving_mgmt M w'"
proof -
  have inv: "mgmt_inv (tick w)" by (rule serving_tick [OF assms(1)])
  obtain mid c where k: "mgmt_key \<lparr>key_fd = fd, key_data = it_data it\<rparr> mid c (tick w)"
    by (rule item_key [OF inv]) (use assms(2,3) in simp_all)
  obtain w' where "handle_mgmt_write \<lparr>key_fd = fd, key_data = it_data it\<rparr> (tick w) = Inr (Some w')" "mgmt_inv w'" "keeps (tick w) w'"
    by (rule handle_mgmt_write_ok [OF inv k])
  with serving_kept [OF assms(1)] show thesis using that by blast
qed

section \<open>Rounds of the loop\<close>

interpretation ml: event_loop handler_table "serving_mgmt M" for M
proof
  fix w :: world and fd it h
  assume w: "serving_mgmt M w"
  then show "sel_wf w" "blank_items w" "resolution_jobs w = []" by (simp_all add: serving_mgmt_def resting_def mgmt_inv_def)
  assume it: "registered w fd = Some it" "it_handler it = Some h"
  { assume r: "fd \<in> slave_r w"
    have h: "h = mgmt_handler \<or> h = monitor_handler" using sparedD [OF w it] r by blast
    show "\<exists>f w'. handle_read (handler_table h) = Some f \<and> f \<lparr>key_fd = fd, key_data = it_data it\<rparr> w = Inr w' \<and> serving_mgmt M w'
        \<and> same_table w w' \<and> (\<forall>it'. registered w' fd = Some it' \<longrightarrow> it_data it' = it_data it)"
    proof (cases "h = mgmt_handler")
      case True
      obtain w' where "handle_mgmt_read \<lparr>key_fd = fd, key_data = it_data it\<rparr> (tick w) = Inr (Some w')" "serving_mgmt M w'" "same_table w w'"
        "\<forall>it'. registered w' fd = Some it' \<longrightarrow> it_data it' = it_data it"
        by (rule serve_read [OF w it(1)]) (use it(2) True in simp)
      then show ?thesis using True by (simp add: ended_def)
    next
      case False
      obtain w' where "mgmt_master_read_handler \<lparr>key_fd = fd, key_data = it_data it\<rparr> (tick w) = Inr w'" "serving_mgmt M w'" "same_table w w'"
        "registered w' fd = Some it"
        by (rule serve_accept [OF w it(1)]) (use it(2) False h in simp)
      then show ?thesis using False h by simp
    qed }
  { assume r: "fd \<in> slave_w w" "hasFlag OP_WRITE (it_interest it)"
    have h: "h = mgmt_handler" using sparedD [OF w it] r by blast
    obtain w' where "handle_mgmt_write \<lparr>key_fd = fd, key_data = it_data it\<rparr> (tick w) = Inr (Some w')" "serving_mgmt M w'"
      by (rule serve_write [OF w it(1)]) (use it(2) h in simp)
    then show "\<exists>f w'. handle_write (handler_table h) = Some f \<and> f \<lparr>key_fd = fd, key_data = it_data it\<rparr> w = Inr w' \<and> serving_mgmt M w'"
      using h by (simp add: ended_def) }
qed

text \<open>The answers of \<open>pselect\<close>: no descriptor of \<open>M\<close>, no error but an interruption.\<close>

definition spares :: "int set \<Rightarrow> (int set \<Rightarrow> int set \<Rightarrow> psel_res) \<Rightarrow> bool" where
  "spares M psel \<longleftrightarrow> (\<forall>r w. case psel r w of
     Psel_ready rs ws \<Rightarrow> M \<inter> rs = {} \<and> M \<inter> ws = {} | Psel_err e \<Rightarrow> e = EAGAIN_sel \<or> e = EINTR)"

lemma resting_slaves [simp]:
  "resting M (w\<lparr>slave_r := rs\<rparr>) = resting M w" "resting M (w\<lparr>slave_w := ws\<rparr>) = resting M w" "resting M (w\<lparr>slave_t := t\<rparr>) = resting M w"
  by (simp_all add: resting_def mgmt_inv_def others_in_def blank_items_def tables_ok_def sel_wf_def)

lemma round_ok:
  assumes "resting M w" and "spares M psel"
  shows "\<exists>w'. selector_select handler_table psel w = Inr (SELECTOR_SUCCESS, w') \<and> resting M w'"
proof -
  have ans: "case psel (master_r w) (master_w w) of
      Psel_ready rs ws \<Rightarrow> M \<inter> rs = {} \<and> M \<inter> ws = {} | Psel_err e \<Rightarrow> e = EAGAIN_sel \<or> e = EINTR"
    using assms(2) by (simp only: spares_def)
  show ?thesis
  proof (cases "psel (master_r w) (master_w w)")
    case (Psel_err e)
    then have "e = EAGAIN_sel \<or> e = EINTR" "resolution_jobs w = []" using ans assms(1) by (simp_all add: resting_def)
    then show ?thesis
      using selector_select_interrupted [where H = handler_table and s = w and psel = psel and e = e] Psel_err assms(1) by simp
  next
    case (Psel_ready rs ws)
    then have "serving_mgmt M (w\<lparr>slave_t := master_t w, slave_r := rs, slave_w := ws\<rparr>)" using assms(1) ans by (simp add: serving_mgmt_def)
    then show ?thesis using ml.selector_select_ok [where psel = psel and s = w and rs = rs and ws = ws] Psel_ready serving_resting by blast
  qed
qed

section \<open>The end\<close>

lemma links_forget:
  assumes l: "links m reg n" and it: "reg fd = Some it" "it_handler it \<noteq> Some mgmt_handler"
  shows "links m (reg(fd := None)) n"
proof (rule linksI)
  fix x y assume xy: "m x = Some y"
  obtain i where i: "reg (mc_fd y) = Some i" "it_handler i = Some mgmt_handler" "it_data i = Some (A_mgmt x)"
    using links_client(3) [OF l xy] by blast
  then have "mc_fd y \<noteq> fd" using it by auto
  then show "mgmt_wf y \<and> x < n \<and> (\<exists>i. (reg(fd := None)) (mc_fd y) = Some i \<and> it_handler i = Some mgmt_handler \<and> it_data i = Some (A_mgmt x))"
    using i links_client(1,2) [OF l xy] by simp
next
  fix fd' i assume "(reg(fd := None)) fd' = Some i" "it_handler i = Some mgmt_handler"
  then show "\<exists>x y. it_data i = Some (A_mgmt x) \<and> m x = Some y \<and> mc_fd y = fd'"
    using links_item [OF l] by (metis fun_upd_apply option.distinct(1))
qed

lemma unregister_kept: "unregister fd w = Inr (st, w') \<Longrightarrow> sel_kept w w'"
  unfolding unregister_def
  by (erule selector_unregister_kept) (auto simp: close_table_def split: handler_id.splits intro: mgmt_close_kept)

lemma close_one:
  assumes "mgmt_inv w" and "registered w fd = Some it"
  obtains st w' where "selector_unregister_fd handler_table fd w = Inr (st, w')" "mgmt_inv w'" "registered w' = (registered w)(fd := None)"
    "fd_size w' = fd_size w"
proof -
  have wf: "sel_wf w" and l: "links (w_mgmt w) (registered w) (w_next w)" using assms(1) by (simp_all add: mgmt_inv_def)
  obtain h where h: "it_handler it = Some h" using sel_wf_item [OF wf assms(2)] by (auto simp: item_ok_def)
  have un: "selector_unregister_fd handler_table fd w = unregister fd w" by (rule unregister_any_table [OF handler_table_close])
  have "\<exists>st w'. unregister fd w = Inr (st, w') \<and> mgmt_inv w' \<and> registered w' = (registered w)(fd := None)"
  proof (cases "h = mgmt_handler")
    case True
    obtain mid c where k: "it_data it = Some (A_mgmt mid)" "w_mgmt w mid = Some c" "mc_fd c = fd"
      by (rule links_item [OF l assms(2)]) (use h True in simp)
    show ?thesis by (rule mgmt_unregister [OF assms(1) k(2)]) (use k(3) in blast)
  next
    case False
    then have "handle_close (close_table h) = None" by (cases h) (simp_all add: close_table_def)
    then obtain w' where w': "unregister fd w = Inr (SELECTOR_SUCCESS, w')" "sel_wf w'" "registered w' = (registered w)(fd := None)"
      "fdselector.more w' = fdselector.more w"
      using selector_unregister_ok [OF wf assms(2) h, of close_table w it] wf assms(2) by (auto simp: unregister_def)
    have "links (w_mgmt w) ((registered w)(fd := None)) (w_next w)" by (rule links_forget [OF l assms(2)]) (use h False in simp)
    then have "mgmt_inv w'" using w'(2,3) assms(1) more_eq_fields [OF w'(4)] by (simp add: mgmt_inv_def tables_ok_def)
    then show ?thesis using w'(1,3) by blast
  qed
  then obtain st w' where w': "unregister fd w = Inr (st, w')" "mgmt_inv w'" "registered w' = (registered w)(fd := None)" by blast
  have "same_table w w'" using unregister_kept [OF w'(1)] by (simp add: sel_kept_def)
  moreover have "sel_wf w'" using w'(2) by (simp add: mgmt_inv_def)
  ultimately have "fd_size w' = fd_size w" using wf by (auto simp: same_table_def sel_wf_def)
  then show thesis using that w' un by simp
qed

lemma unregister_all_ok:
  assumes "mgmt_inv w" and "0 \<le> i" and "i + int n \<le> int (fd_size w)"
  shows "\<exists>w'. unregister_all handler_table i n w = Inr w' \<and> mgmt_inv w'
    \<and> (\<forall>fd. registered w' fd = (if i \<le> fd \<and> fd < i + int n then None else registered w fd))"
  using assms
proof (induction n arbitrary: i w)
  case (Suc n)
  have wf: "sel_wf w" using Suc.prems(1) by (simp add: mgmt_inv_def)
  obtain xs where xs: "fds w = Some xs" "length xs = fd_size w" using sel_wf_table [OF wf] by blast
  have "nat i < length xs" using Suc.prems(2,3) xs(2) by simp
  then have at: "item_at w i = Inr (xs ! nat i)" "registered w i = (if ITEM_USED (xs ! nat i) then Some (xs ! nat i) else None)"
    using Suc.prems(2) xs(1) by (simp_all add: item_at_def registered_def)
  obtain st w1 where w1: "(if ITEM_USED (xs ! nat i) then selector_unregister_fd handler_table i w else Inr (SELECTOR_SUCCESS, w)) = Inr (st, w1)"
    "mgmt_inv w1" "registered w1 = (registered w)(i := None)" "fd_size w1 = fd_size w"
  proof (cases "ITEM_USED (xs ! nat i)")
    case True
    then have "registered w i = Some (xs ! nat i)" using at(2) by simp
    from close_one [OF Suc.prems(1) this] show thesis using that True by (metis (full_types))
  next
    case False
    then have "registered w = (registered w)(i := None)" using at(2) by auto
    then show thesis using that [of SELECTOR_SUCCESS w] Suc.prems(1) False by simp
  qed
  obtain w' where w': "unregister_all handler_table (i + 1) n w1 = Inr w'" "mgmt_inv w'"
    "\<forall>fd. registered w' fd = (if i + 1 \<le> fd \<and> fd < i + 1 + int n then None else registered w1 fd)"
    using Suc.IH [OF w1(2), of "i + 1"] Suc.prems(2,3) w1(4) by auto
  have "unregister_all handler_table i (Suc n) w = Inr w'" using at(1) w1(1) w'(1) by simp
  moreover have "\<forall>fd. registered w' fd = (if i \<le> fd \<and> fd < i + int (Suc n) then None else registered w fd)"
    using w'(3) unfolding w1(3) by auto
  ultimately show ?case using w'(2) by blast
qed auto

text \<open>At the end every management connection has been closed.\<close>

lemma destroy_ok:
  assumes "mgmt_inv w"
  shows "\<exists>w'. selector_destroy handler_table w = Inr w' \<and> w_mgmt w' = Map.empty \<and> fds w' = None"
proof -
  have wf: "sel_wf w" using assms by (simp add: mgmt_inv_def)
  obtain xs where xs: "fds w = Some xs" "length xs = fd_size w" by (rule sel_wf_table [OF wf])
  obtain w1 where w1: "unregister_all handler_table 0 (fd_size w) w = Inr w1" "mgmt_inv w1"
    "\<forall>fd. registered w1 fd = (if 0 \<le> fd \<and> fd < 0 + int (fd_size w) then None else registered w fd)"
    using unregister_all_ok [OF assms, of 0 "fd_size w"] by auto
  have "registered w fd = None" if "\<not> (0 \<le> fd \<and> fd < int (fd_size w))" for fd
    using that xs by (auto simp: registered_def)
  then have none: "registered w1 fd = None" for fd using w1(3) by (cases "0 \<le> fd \<and> fd < int (fd_size w)") auto
  have "w_mgmt w1 mid = None" for mid
  proof (rule ccontr)
    assume "w_mgmt w1 mid \<noteq> None"
    then obtain c where c: "w_mgmt w1 mid = Some c" by blast
    have "links (w_mgmt w1) (registered w1) (w_next w1)" using w1(2) by (simp add: mgmt_inv_def)
    from links_client(3) [OF this c] none show False by simp
  qed
  then have "w_mgmt w1 = Map.empty" by (simp add: fun_eq_iff)
  then show ?thesis using xs(1) w1(1) by (simp add: selector_destroy_def)
qed

lemma main_loop_ok:
  assumes "resting M w" and "\<forall>psel\<in>set psels. spares M psel"
  shows "\<exists>w'. main_loop psels w = Inr (0, w') \<and> w_mgmt w' = Map.empty \<and> fds w' = None"
  using assms
proof (induction psels arbitrary: w)
  case Nil
  then show ?case using destroy_ok [of w] by (auto simp: resting_def)
next
  case (Cons psel psels)
  obtain w1 where "selector_select handler_table psel w = Inr (SELECTOR_SUCCESS, w1)" "resting M w1"
    using round_ok [OF Cons.prems(1)] Cons.prems(2) by auto
  then show ?case using Cons.IH [of w1] Cons.prems(2) by simp
qed

text \<open>The state that \<open>main\<close> sets up is one between rounds, with the listening sockets of the proxy in \<open>M\<close>.\<close>

lemma ready_resting:
  assumes "ready master monitor w"
  shows "resting (fst ` set master) w"
proof -
  have op: "\<not> hasFlag OP_WRITE OP_READ" by (simp add: hasFlag_def OP_WRITE_def OP_READ_def)
  have "listening master monitor w" using assms by (simp add: ready_def)
  then have "others_in (fst ` set master) w"
    using op by (fastforce simp: others_in_def listening_def new_item_def)
  then show ?thesis using assms by (simp add: resting_def ready_def)
qed

end
