(* ===== verification/Client_Tool.thy ===== *)
theory Client_Tool
  imports Args Mgmt_Session
begin

text \<open>
  The administration tool of \<open>client/\<close>: \<open>conf.c\<close> reads its command line, \<open>mgmt_client_util.c\<close> sends one
  request at a time and waits for the answer, \<open>mgmt_client.c\<close> logs in and runs the requests of the
  command line. The socket is the sequence of the answers of \<open>read\<close> and one function for \<open>send\<close>.
\<close>

section \<open>Requests and answers\<close>

definition MAX_RESPONSE_LEN :: nat where "MAX_RESPONSE_LEN = 512"
definition EOL :: "byte list" where "EOL = [13, 10]"
definition EOM :: "byte list" where "EOM = EOL @ [46] @ EOL"

fun strstr :: "byte list \<Rightarrow> byte list \<Rightarrow> bool" where
  "strstr [] p \<longleftrightarrow> p = []"
| "strstr (c # cs) p \<longleftrightarrow> take (length p) (c # cs) = p \<or> strstr cs p"

definition finished :: "byte list \<Rightarrow> bool \<Rightarrow> bool" where
  "finished buff multiline = strstr (cstr buff) (if multiline \<and> buff ! 0 \<noteq> 45 then EOM else EOL)"

record tool =
  t_reads :: nat
  t_sent :: "byte list"
  t_buf :: "byte list"
  t_out :: "byte list list"

type_synonym peer = "(nat \<Rightarrow> sys_read) \<times> sys_send"

text \<open>
  The loop of \<open>get_response\<close>. The result of \<open>read\<close> is stored in a \<open>uint8_t\<close>: an error, \<open>-1\<close>, becomes
  255, and 256 bytes become none.
\<close>

function get_loop :: "(nat \<Rightarrow> sys_read) \<Rightarrow> bool \<Rightarrow> nat \<Rightarrow> nat \<Rightarrow> byte list \<Rightarrow> (bool \<times> nat \<times> byte list) run" where
  "get_loop rds multiline off n buff =
     bindE (case rds n (MAX_RESPONSE_LEN - off) of
              Read_err e \<Rightarrow> Inr (255, buff)
            | Read_ok bs \<Rightarrow> bindE (mem_write off bs buff) (\<lambda>b. Inr (length bs mod 256, b))) (\<lambda>(bytes_read, buff1).
     if bytes_read = 0 then Inr (False, Suc n, buff1)
     else bindE (mem_write (off + bytes_read) [0] buff1) (\<lambda>buff2.
          if finished buff2 multiline then Inr (True, Suc n, buff2)
          else get_loop rds multiline (off + bytes_read) (Suc n) buff2))"
  by pat_completeness auto
termination
  by (relation "measure (\<lambda>(rds, multiline, off, n, buff). length buff - off)")
    (auto simp: mem_write_def bindE_eq_Inr split: if_splits read_res.splits)

declare get_loop.simps [simp del]

definition get_response :: "peer \<Rightarrow> bool \<Rightarrow> tool \<Rightarrow> (bool \<times> tool) run" where
  "get_response p multiline t =
     bindE (get_loop (fst p) multiline 0 (t_reads t) (t_buf t)) (\<lambda>(ok, n, b).
     Inr (ok, t\<lparr>t_reads := n, t_buf := b\<rparr>))"

definition send_text :: "peer \<Rightarrow> byte list \<Rightarrow> tool \<Rightarrow> bool \<times> tool" where
  "send_text p s t =
     (case snd p s of Send_ok k \<Rightarrow> (True, t\<lparr>t_sent := t_sent t @ take k s\<rparr>) | Send_err e \<Rightarrow> (False, t))"

text \<open>\<open>snprintf(request_buf, BUFFSIZE, ...)\<close>.\<close>

definition format_request :: "string \<Rightarrow> byte list \<Rightarrow> byte list" where
  "format_request name arg = take (MAX_RESPONSE_LEN - 1) (bytes_of name @ [32] @ arg @ EOL)"

text \<open>
  What every command does: send, wait for the answer, stop at an error answer, else show it. The
  lines printed to \<open>stdout\<close> are collected, the messages on \<open>stderr\<close> are not; a show function may fault
  and gives back the buffer it cut into pieces.
\<close>

type_synonym show_fn = "byte list \<Rightarrow> (byte list list \<times> byte list) run"

definition exchange :: "peer \<Rightarrow> byte list \<Rightarrow> bool \<Rightarrow> show_fn \<Rightarrow> tool \<Rightarrow> (bool \<times> tool) run" where
  "exchange p req multiline show_answer t =
     (let (ok, t1) = send_text p req t in
      if \<not> ok then Inr (False, t1)
      else bindE (get_response p multiline t1) (\<lambda>(got, t2).
           if \<not> got \<or> t_buf t2 ! 0 = 45 then Inr (False, t2)
           else bindE (show_answer (t_buf t2)) (\<lambda>(out, b). Inr (True, t2\<lparr>t_buf := b, t_out := t_out t2 @ out\<rparr>))))"

section \<open>Showing answers\<close>

definition is_eol :: "byte \<Rightarrow> bool" where
  "is_eol c \<longleftrightarrow> c = 13 \<or> c = 10"

text \<open>
  \<open>strtok(s, EOL)\<close> with its saved position: line ends are skipped, the piece up to the next line end
  or NUL is the token, and the line end after it becomes a NUL.
\<close>

definition strtok :: "nat \<Rightarrow> byte list \<Rightarrow> (byte list option \<times> nat \<times> byte list) run" where
  "strtok pos buff =
     (let start = pos + length (takeWhile is_eol (drop pos buff));
          tok = takeWhile (\<lambda>c. c \<noteq> 0 \<and> \<not> is_eol c) (drop start buff);
          stop = start + length tok in
      if length buff \<le> stop then Inl Out_of_bounds
      else if tok = [] then Inr (None, start, buff)
      else if buff ! stop = 0 then Inr (Some tok, stop, buff)
      else Inr (Some tok, Suc stop, buff[stop := 0]))"

lemma strtok_advances:
  assumes "strtok pos buff = Inr (Some l, pos1, b1)"
  shows "length b1 - pos1 < length buff - pos"
proof -
  have "length b1 = length buff \<and> pos < pos1 \<and> pos1 \<le> length buff"
    using assms by (auto simp: strtok_def Let_def split: if_splits)
  then show ?thesis by arith
qed

text \<open>The loop over the lines after the first, up to one that starts with a dot.\<close>

function each_line :: "(nat \<Rightarrow> byte list \<Rightarrow> byte list list) \<Rightarrow> nat \<Rightarrow> nat \<Rightarrow> show_fn" where
  "each_line f i pos buff =
     bindE (strtok pos buff) (\<lambda>(tok, pos1, b1).
     case tok of
       None \<Rightarrow> Inr ([], b1)
     | Some l \<Rightarrow>
         if hd l = 46 then Inr ([], b1)
         else bindE (each_line f (Suc i) pos1 b1) (\<lambda>(out, b2). Inr (f i l @ out, b2)))"
  by pat_completeness auto
termination
  by (relation "measure (\<lambda>(f, i, pos, buff). length buff - pos)")
    (auto simp: bindE_eq_Inr dest: strtok_advances)

declare each_line.simps [simp del]

definition lines_after_first :: "(nat \<Rightarrow> byte list \<Rightarrow> byte list list) \<Rightarrow> show_fn" where
  "lines_after_first f buff = bindE (strtok 0 buff) (\<lambda>(_, pos, b). each_line f 0 pos b)"

definition ruler :: "byte list" where
  "ruler = replicate 28 45"

definition framed :: "byte list list \<Rightarrow> byte list list" where
  "framed out = [ruler] @ out @ [ruler, []]"

definition simple_iteration :: "string \<Rightarrow> show_fn" where
  "simple_iteration line_header = lines_after_first (\<lambda>i tok.
     [bytes_of line_header @ bytes_of '' #'' @ show_nat i @ bytes_of '': '' @ tok])"

definition show_list :: "string \<Rightarrow> show_fn \<Rightarrow> show_fn" where
  "show_list title f buff = bindE (f buff) (\<lambda>(out, b). Inr (framed (bytes_of title # out), b))"

text \<open>\<open>strtoull(s, NULL, 10)\<close>.\<close>

definition strtoull :: "byte list \<Rightarrow> nat" where
  "strtoull s =
     (let s1 = dropWhile isspace s;
          neg = (s1 \<noteq> [] \<and> hd s1 = 45);
          s2 = (if s1 \<noteq> [] \<and> (hd s1 = 45 \<or> hd s1 = 43) then tl s1 else s1);
          v = decimal (takeWhile isdigit s2)
      in if v > 2 ^ 64 - 1 then 2 ^ 64 - 1 else if neg then nat ((- v) mod 2 ^ 64) else nat v)"

definition show_stat :: "byte list \<Rightarrow> byte list list" where
  "show_stat tok =
     (let stat = show_nat (strtoull (tl tok)) in
      if hd tok = 66 then [bytes_of ''Bytes transferred: '' @ stat]
      else if hd tok = 72 then [bytes_of ''Historical connections: '' @ stat]
      else if hd tok = 67 then [bytes_of ''Concurrent connections: '' @ stat]
      else [])"

text \<open>The second line is used without looking whether there is one.\<close>

definition second_line :: "byte list \<Rightarrow> (byte list \<times> byte list) run" where
  "second_line buff =
     bindE (strtok 0 buff) (\<lambda>(_, pos, b).
     bindE (strtok pos b) (\<lambda>(tok, _, b1). case tok of None \<Rightarrow> Inl Null_deref | Some l \<Rightarrow> Inr (l, b1)))"

definition show_buffsize :: show_fn where
  "show_buffsize buff = bindE (second_line buff) (\<lambda>(l, b).
     Inr (framed [bytes_of ''Current size of the buffer: '' @ show_nat (strtoull l)], b))"

definition show_dissector :: show_fn where
  "show_dissector buff = bindE (second_line buff) (\<lambda>(l, b).
     Inr (framed [bytes_of ''We are '' @ (if l = bytes_of ''off'' then bytes_of ''not '' else []) @ bytes_of ''sniffing''], b))"

text \<open>A fixed text.\<close>

definition show_text :: "byte list list \<Rightarrow> show_fn" where
  "show_text ls buff = Inr (ls, buff)"

section \<open>The commands\<close>

definition read_hello :: "peer \<Rightarrow> tool \<Rightarrow> (bool \<times> tool) run" where
  "read_hello p t =
     bindE (get_response p False t) (\<lambda>(got, t1).
     if \<not> got \<or> t_buf t1 ! 0 = 45 then Inr (False, t1)
     else Inr (True, t1\<lparr>t_out := t_out t1 @ [bytes_of ''Connection successful! Server is ready.'']\<rparr>))"

definition authenticate :: "peer \<Rightarrow> byte list \<Rightarrow> tool \<Rightarrow> (bool \<times> tool) run" where
  "authenticate p token = exchange p (format_request ''TOKEN'' token) False
     (show_text [bytes_of ''Authentication with token: '' @ [34] @ token @ [34] @ bytes_of '' successful!''])"

definition tool_capa :: "peer \<Rightarrow> tool \<Rightarrow> (bool \<times> tool) run" where
  "tool_capa p = exchange p (bytes_of ''CAPA'' @ EOL) True (show_list ''List of capabilities:'' (simple_iteration ''CAPA''))"

definition tool_stats :: "peer \<Rightarrow> tool \<Rightarrow> (bool \<times> tool) run" where
  "tool_stats p = exchange p (bytes_of ''STATS'' @ EOL) True (show_list ''List of statistics:'' (lines_after_first (\<lambda>_. show_stat)))"

definition tool_users :: "peer \<Rightarrow> tool \<Rightarrow> (bool \<times> tool) run" where
  "tool_users p = exchange p (bytes_of ''USERS'' @ EOL) True (show_list ''List of users:'' (simple_iteration ''USER''))"

definition tool_buffsize :: "peer \<Rightarrow> tool \<Rightarrow> (bool \<times> tool) run" where
  "tool_buffsize p = exchange p (bytes_of ''BUFFSIZE'' @ EOL) True show_buffsize"

definition dissector_status :: "peer \<Rightarrow> tool \<Rightarrow> (bool \<times> tool) run" where
  "dissector_status p = exchange p (bytes_of ''DISSECTOR-STATUS'' @ EOL) True show_dissector"

definition tool_set_buffsize :: "peer \<Rightarrow> byte list \<Rightarrow> tool \<Rightarrow> (bool \<times> tool) run" where
  "tool_set_buffsize p size_arg = exchange p (format_request ''SET-BUFFSIZE'' size_arg) False
     (show_text (framed [bytes_of ''Buffer size updated to '' @ size_arg]))"

definition set_dissector_status :: "peer \<Rightarrow> byte list \<Rightarrow> tool \<Rightarrow> (bool \<times> tool) run" where
  "set_dissector_status p status = exchange p (format_request ''SET-DISSECTOR-STATUS'' status) False
     (show_text (framed [bytes_of ''Dissector is now '' @ status]))"

definition tool_add_user :: "peer \<Rightarrow> byte list \<Rightarrow> tool \<Rightarrow> (bool \<times> tool) run" where
  "tool_add_user p up = exchange p (format_request ''ADD-USER'' up) False
     (show_text (framed [bytes_of ''Successfully added user to the list of users.'']))"

section \<open>The command line\<close>

record mnmt_conf =
  conf_addr :: "byte list"
  conf_port :: "byte list"
  conf_token :: "byte list"
  conf_sock :: int

definition client_options :: "byte list" where
  "client_options = bytes_of '':hvL:P:012345:6:7:''"

text \<open>The loop of \<open>parse_conf\<close>; \<open>None\<close> is its \<open>return false\<close>.\<close>

fun conf_options :: "optres list \<Rightarrow> mnmt_conf \<Rightarrow> mnmt_conf option outcome" where
  "conf_options [] conf = Done (Some conf)"
| "conf_options (Bad c # os) conf = Done None"
| "conf_options (Opt c optarg # os) conf =
     (if c = 104 \<or> c = 118 then Stop 0
      else if c = 76 then if take 1 optarg = [45] then Done None else conf_options os (conf\<lparr>conf_addr := optarg\<rparr>)
      else if c = 80 then if take 1 optarg = [45] then Done None else conf_options os (conf\<lparr>conf_port := optarg\<rparr>)
      else if 48 \<le> c \<and> c \<le> 55 then conf_options os conf
      else Done None)"

definition parse_conf :: "byte list list \<Rightarrow> byte list option \<Rightarrow> mnmt_conf \<Rightarrow> mnmt_conf option outcome" where
  "parse_conf argv env_token conf =
     (let (os, operands) = getopt_scan client_options [] 58 None argv in
      bindX (conf_options os conf) (\<lambda>r.
      case r of
        None \<Rightarrow> Done None
      | Some c1 \<Rightarrow>
          (case (env_token, operands) of
             (Some t, _) \<Rightarrow> Done (Some (c1\<lparr>conf_token := t\<rparr>))
           | (None, t # _) \<Rightarrow> Done (Some (c1\<lparr>conf_token := t\<rparr>))
           | (None, []) \<Rightarrow> Done None)))"

section \<open>The program\<close>

text \<open>
  The second pass over the options, in \<open>main\<close>: the results of the commands are not looked at. The
  first component is the exit status.
\<close>

definition tool_command :: "peer \<Rightarrow> nat \<Rightarrow> byte list \<Rightarrow> tool \<Rightarrow> (bool \<times> tool) run" where
  "tool_command p c optarg t =
     (if c = 48 then tool_capa p t
      else if c = 49 then tool_stats p t
      else if c = 50 then tool_users p t
      else if c = 51 then tool_buffsize p t
      else if c = 52 then dissector_status p t
      else if c = 53 then tool_set_buffsize p optarg t
      else if c = 54 then set_dissector_status p optarg t
      else if c = 55 then tool_add_user p optarg t
      else Inr (True, t))"

fun run_options :: "peer \<Rightarrow> optres list \<Rightarrow> tool \<Rightarrow> (nat \<times> tool) run" where
  "run_options p [] t = Inr (0, t)"
| "run_options p (Bad c # os) t = run_options p os t"
| "run_options p (Opt c optarg # os) t =
     (if 53 \<le> c \<and> c \<le> 55 \<and> take 1 optarg = [45] then Inr (1, t)
      else bindE (tool_command p c optarg t) (\<lambda>(_, t1). run_options p os t1))"

definition default_conf :: mnmt_conf where
  "default_conf = \<lparr>conf_addr = bytes_of ''127.0.0.1'', conf_port = bytes_of ''8080'', conf_token = [], conf_sock = 0\<rparr>"

text \<open>
  \<open>tcpClientSocket\<close>: the candidate addresses in their order, each tried with the descriptor that
  \<open>socket\<close> gives for it; a refused descriptor is closed. An address is its number in the list.
\<close>

record dial_env =
  de_resolve :: "byte list \<Rightarrow> byte list \<Rightarrow> nat option"
  de_socket :: "nat \<Rightarrow> int"
  de_connect :: "nat \<Rightarrow> bool"

fun dial :: "dial_env \<Rightarrow> nat list \<Rightarrow> int \<times> int list" where
  "dial e [] = (-1, [])"
| "dial e (a # as) =
     (let sock = de_socket e a in
      if sock < 0 then (if sock = -1 then dial e as else (sock, []))
      else if de_connect e a then (sock, [])
      else (let (r, closed) = dial e as in (r, sock # closed)))"

definition tcpClientSocket :: "dial_env \<Rightarrow> byte list \<Rightarrow> byte list \<Rightarrow> int \<times> int list" where
  "tcpClientSocket e host service =
     (case de_resolve e host service of None \<Rightarrow> (-1, []) | Some n \<Rightarrow> dial e [0..<n])"

definition banner :: "string \<Rightarrow> byte list list" where
  "banner title = [ruler, bytes_of title]"

definition tool_say :: "byte list list \<Rightarrow> tool \<Rightarrow> tool" where
  "tool_say ls t = t\<lparr>t_out := t_out t @ ls\<rparr>"

definition tool_main :: "dial_env \<Rightarrow> peer \<Rightarrow> byte list option \<Rightarrow> byte list list \<Rightarrow> (nat \<times> tool) run" where
  "tool_main e p env_token argv =
     (let t = \<lparr>t_reads = 0, t_sent = [], t_buf = replicate MAX_RESPONSE_LEN 0, t_out = []\<rparr> in
      case parse_conf argv env_token default_conf of
        Stop n \<Rightarrow> Inr (n, t)
      | Done None \<Rightarrow> Inr (1, t)
      | Done (Some conf) \<Rightarrow>
          if fst (tcpClientSocket e (conf_addr conf) (conf_port conf)) < 0 then Inr (1, t)
          else
          bindE (read_hello p (tool_say (banner ''CONNECTING TO SERVER'') t)) (\<lambda>(greeted, t1).
          if \<not> greeted then Inr (1, t1)
          else
          bindE (authenticate p (conf_token conf)
                   (tool_say ([ruler, []] @ banner ''AUTHENTICATING WITH TOKEN'') t1)) (\<lambda>(auth, t2).
          if \<not> auth then Inr (1, t2)
          else
          bindE (run_options p (fst (getopt_scan client_options [] 58 None argv)) (tool_say [ruler, []] t2)) (\<lambda>(st, t3).
          Inr (st, if st = 0 then tool_say [bytes_of ''OK!'', []] t3 else t3)))))"

section \<open>Answers in pieces\<close>

text \<open>
  The peer delivers \<open>ps\<close>, one piece for each read from the \<open>n\<close>-th on; a piece has between 1 and 255
  bytes.
\<close>

definition delivers :: "(nat \<Rightarrow> sys_read) \<Rightarrow> nat \<Rightarrow> byte list list \<Rightarrow> bool" where
  "delivers rds n ps \<longleftrightarrow> (\<forall>k < length ps. \<forall>m \<ge> length (ps ! k). rds (n + k) m = Read_ok (ps ! k))
     \<and> (\<forall>q\<in>set ps. 0 < length q \<and> length q < 256)"

lemma delivers_Cons:
  assumes "delivers rds n (q # ps)"
  shows "delivers rds (Suc n) ps" and "0 < length q" "length q < 256" and "length q \<le> m \<Longrightarrow> rds n m = Read_ok q"
proof -
  have at: "rds (n + k) m = Read_ok ((q # ps) ! k)" if "k < Suc (length ps)" "length ((q # ps) ! k) \<le> m" for k m
    using assms that by (simp add: delivers_def)
  have "rds (Suc n + k) m = Read_ok (ps ! k)" if "k < length ps" "length (ps ! k) \<le> m" for k m
    using at [of "Suc k" m] that by simp
  moreover have sizes: "\<forall>x\<in>set (q # ps). 0 < length x \<and> length x < 256"
    using assms unfolding delivers_def by blast
  ultimately show "delivers rds (Suc n) ps"
    unfolding delivers_def by simp
  show "0 < length q" "length q < 256" using sizes by simp_all
  show "rds n m = Read_ok q" if "length q \<le> m"
    using at [of 0 m] that by simp
qed

text \<open>What has arrived, NUL-terminated at the front of the buffer.\<close>

definition holds :: "byte list \<Rightarrow> byte list \<Rightarrow> bool" where
  "holds buff s \<longleftrightarrow> length buff = MAX_RESPONSE_LEN \<and> take (Suc (length s)) buff = s @ [0]"

lemma holds_cstr: "holds buff s \<Longrightarrow> 0 \<notin> set s \<Longrightarrow> cstr buff = s"
proof -
  assume h: "holds buff s" and z: "0 \<notin> set s"
  have "buff = s @ 0 # drop (Suc (length s)) buff"
    using h append_take_drop_id [of "Suc (length s)" buff] by (simp add: holds_def)
  then show ?thesis using cstr_append_nul [OF z] by metis
qed

lemma holds_take: "holds buff s \<Longrightarrow> take (length s) buff = s"
  using take_take [of "length s" "Suc (length s)" buff] by (simp add: holds_def min_def)

lemma holds_first:
  assumes "holds buff s" and "s \<noteq> []"
  shows "buff ! 0 = hd s"
  using holds_take [OF assms(1)] assms by (cases s; cases buff) (auto simp: holds_def MAX_RESPONSE_LEN_def)

lemma store_piece:
  assumes "length buff = MAX_RESPONSE_LEN" and "take off buff = s" "length s = off" and "off + length q < MAX_RESPONSE_LEN"
  obtains b1 b2 where "mem_write off q buff = Inr b1" "mem_write (off + length q) [0] b1 = Inr b2" "holds b2 (s @ q)"
proof -
  let ?b1 = "overwrite off q buff"
  let ?b2 = "overwrite (off + length q) [0] ?b1"
  have b1: "mem_write off q buff = Inr ?b1" "length ?b1 = MAX_RESPONSE_LEN"
    using assms by simp_all
  have b2: "mem_write (off + length q) [0] ?b1 = Inr ?b2" "length ?b2 = MAX_RESPONSE_LEN"
    using assms b1 by simp_all
  have "take (Suc (off + length q)) ?b2 = s @ q @ [0]"
    using assms by (simp add: overwrite_def)
  then have "holds ?b2 (s @ q)"
    using b2(2) assms(3) by (simp add: holds_def)
  then show thesis using that b1(1) b2(1) by blast
qed

text \<open>
  An answer with its end marker only at the end, shorter than the buffer and without NULs, arrives
  complete, however it is cut.
\<close>

definition ends_once :: "byte list \<Rightarrow> bool \<Rightarrow> bool" where
  "ends_once s multiline \<longleftrightarrow> s \<noteq> [] \<and> 0 \<notin> set s
     \<and> (let m = (if multiline \<and> hd s \<noteq> 45 then EOM else EOL) in strstr s m \<and> \<not> strstr (butlast s) m)"

lemma strstr_append: "strstr s m \<Longrightarrow> strstr (s @ s') m"
proof (induction s m rule: strstr.induct)
  case (1 p)
  then show ?case by (cases s') auto
next
  case (2 c cs p)
  then show ?case
  proof (cases "take (length p) (c # cs) = p")
    case True
    then have "take (length p) ((c # cs) @ s') = p"
      by (metis append_Nil2 diff_is_0_eq length_take min_def nat_le_linear take_append take_eq_Nil)
    then show ?thesis by simp
  next
    case False
    with 2 show ?thesis by simp
  qed
qed

lemma get_loop_pieces:
  assumes "delivers rds n ps" and "ps \<noteq> []" and "length buff = MAX_RESPONSE_LEN" and "take off buff = s" "length s = off"
    and "ends_once (s @ concat ps) ml" and "length (s @ concat ps) < MAX_RESPONSE_LEN"
  shows "\<exists>b. get_loop rds ml off n buff = Inr (True, n + length ps, b) \<and> holds b (s @ concat ps)"
  using assms
proof (induction ps arbitrary: n buff off s)
  case Nil
  then show ?case by simp
next
  case (Cons q ps)
  note q = delivers_Cons [OF Cons.prems(1)]
  have fits: "off + length q < MAX_RESPONSE_LEN" using Cons.prems(5,7) by simp
  obtain b1 b2 where b: "mem_write off q buff = Inr b1" "mem_write (off + length q) [0] b1 = Inr b2" "holds b2 (s @ q)"
    using store_piece [OF Cons.prems(3-5) fits] by blast
  have rd: "rds n (MAX_RESPONSE_LEN - off) = Read_ok q" by (rule q(4)) (use fits in simp)
  have z: "0 \<notin> set (s @ q)" using Cons.prems(6) by (auto simp: ends_once_def)
  have h0: "b2 ! 0 = hd (s @ q)" using holds_first [OF b(3)] q(2) by simp
  define m where "m = (if ml \<and> hd (s @ q) \<noteq> 45 then EOM else EOL)"
  have fin: "finished b2 ml \<longleftrightarrow> strstr (s @ q) m"
    unfolding finished_def holds_cstr [OF b(3) z] h0 m_def by simp
  have hd_eq: "hd (s @ concat (q # ps)) = hd (s @ q)" using q(2) by (cases s; cases q) auto
  have once: "strstr (s @ concat (q # ps)) m" "\<not> strstr (butlast (s @ concat (q # ps))) m"
    using Cons.prems(6) unfolding ends_once_def hd_eq m_def by (simp_all add: Let_def)
  have step: "get_loop rds ml off n buff = (if finished b2 ml then Inr (True, Suc n, b2) else get_loop rds ml (off + length q) (Suc n) b2)"
    using rd b(1,2) q(2,3) by (subst get_loop.simps) simp
  show ?case
  proof (cases "ps = []")
    case True
    then have "finished b2 ml" using fin once(1) by simp
    then show ?thesis using step b(3) True by simp
  next
    case False
    have "concat ps \<noteq> []"
      using False q(1) by (cases ps) (auto simp: delivers_def)
    then have "butlast (s @ concat (q # ps)) = (s @ q) @ butlast (concat ps)"
      using butlast_append [of "s @ q" "concat ps"] by (simp only: concat.simps append_assoc if_False)
    then have "\<not> finished b2 ml" using fin once(2) strstr_append by metis
    moreover have "\<exists>b. get_loop rds ml (off + length q) (Suc n) b2 = Inr (True, Suc n + length ps, b) \<and> holds b ((s @ q) @ concat ps)"
      using Cons.IH [OF q(1) False, of b2 "off + length q" "s @ q"] b(3) holds_take [OF b(3)] Cons.prems(5,6,7)
      by (simp add: holds_def)
    ultimately show ?thesis using step by simp
  qed
qed

lemma get_response_pieces:
  assumes "delivers (fst p) (t_reads t) ps" and "length (t_buf t) = MAX_RESPONSE_LEN" and "ends_once (concat ps) ml"
    and "length (concat ps) < MAX_RESPONSE_LEN"
  shows "\<exists>b. get_response p ml t = Inr (True, t\<lparr>t_reads := t_reads t + length ps, t_buf := b\<rparr>) \<and> holds b (concat ps)"
proof -
  have "ps \<noteq> []" using assms(3) by (auto simp: ends_once_def)
  then obtain b where "get_loop (fst p) ml 0 (t_reads t) (t_buf t) = Inr (True, t_reads t + length ps, b)" "holds b (concat ps)"
    using get_loop_pieces [OF assms(1), of "t_buf t" 0 "[]" ml] assms(2-4) by auto
  then show ?thesis by (intro exI [of _ b]) (simp add: get_response_def)
qed

end
