(* ===== verification/Client_Session.thy ===== *)
theory Client_Session
  imports Client_Tool
begin

text \<open>
  The administration tool and the server together: what the tool sends is a line of the protocol,
  and from the server's answer, in whatever pieces it arrives, the tool learns whether the request
  was accepted and prints what the answer says.
\<close>

section \<open>Where answers end\<close>

text \<open>A line of an answer, and the answers of several lines.\<close>

definition plain_line :: "byte list \<Rightarrow> bool" where
  "plain_line l \<longleftrightarrow> l \<noteq> [] \<and> hd l \<noteq> 46 \<and> (\<forall>c\<in>set l. c \<noteq> 0 \<and> \<not> is_eol c)"

definition multi :: "byte list \<Rightarrow> byte list list \<Rightarrow> byte list" where
  "multi h ls = h @ EOL @ concat (map (\<lambda>l. l @ EOL) ls) @ [46] @ EOL"

lemma strstr_EOL: "13 \<notin> set l \<Longrightarrow> strstr (l @ EOL) EOL \<and> \<not> strstr (l @ [13]) EOL"
  by (induction l) (auto simp: EOL_def)

lemma strstr_EOM: "13 \<notin> set l \<Longrightarrow> strstr (l @ EOL @ r) EOM \<longleftrightarrow> take 3 r = [46, 13, 10] \<or> strstr r EOM"
  by (induction l) (auto simp: EOL_def EOM_def numeral_3_eq_3)

lemma single_line_ends:
  assumes "l \<noteq> []" and "\<forall>c\<in>set l. c \<noteq> 0 \<and> \<not> is_eol c"
  shows "ends_once (l @ EOL) False"
proof -
  have "13 \<notin> set l" "0 \<notin> set l" using assms(2) by (auto simp: is_eol_def)
  moreover have "butlast (l @ EOL) = l @ [13]" by (simp add: EOL_def butlast_append)
  ultimately show ?thesis using strstr_EOL [of l] by (simp add: ends_once_def EOL_def)
qed

lemma no_dot_line:
  assumes "\<forall>l\<in>set ls. plain_line l"
  shows "take 3 (concat (map (\<lambda>l. l @ EOL) ls) @ [46, 13]) \<noteq> [46, 13, 10]"
    and "\<not> strstr (concat (map (\<lambda>l. l @ EOL) ls) @ [46, 13]) EOM"
proof -
  have first: "take 3 (concat (map (\<lambda>l. l @ EOL) ls) @ [46, 13]) \<noteq> [46, 13, 10]" if "\<forall>l\<in>set ls. plain_line l" for ls
  proof (cases ls)
    case (Cons l ls')
    then show ?thesis using that by (cases l) (auto simp: plain_line_def)
  qed simp
  show "take 3 (concat (map (\<lambda>l. l @ EOL) ls) @ [46, 13]) \<noteq> [46, 13, 10]" by (rule first [OF assms])
  show "\<not> strstr (concat (map (\<lambda>l. l @ EOL) ls) @ [46, 13]) EOM"
    using assms
  proof (induction ls)
    case Nil
    then show ?case by (simp add: EOM_def EOL_def)
  next
    case (Cons l ls)
    have "13 \<notin> set l" using Cons.prems by (auto simp: plain_line_def is_eol_def)
    then show ?case using Cons.IH Cons.prems first [of ls] by (simp add: strstr_EOM)
  qed
qed

lemma multi_ends:
  assumes h: "h \<noteq> []" "hd h \<noteq> 45" "\<forall>c\<in>set h. c \<noteq> 0 \<and> \<not> is_eol c" and ls: "\<forall>l\<in>set ls. plain_line l"
  shows "ends_once (multi h ls) True"
proof -
  have h13: "13 \<notin> set h" using h(3) by (auto simp: is_eol_def)
  have bl: "butlast (multi h ls) = h @ EOL @ concat (map (\<lambda>l. l @ EOL) ls) @ [46, 13]"
    by (simp add: multi_def EOL_def butlast_append)
  have fin: "strstr (concat (map (\<lambda>l. l @ EOL) ls) @ [46] @ EOL) EOM
      \<or> take 3 (concat (map (\<lambda>l. l @ EOL) ls) @ [46] @ EOL) = [46, 13, 10]"
    using ls
  proof (induction ls)
    case (Cons l ls)
    have "13 \<notin> set l" using Cons.prems by (auto simp: plain_line_def is_eol_def)
    then show ?case using Cons.IH Cons.prems strstr_EOM [of l "concat (map (\<lambda>l. l @ EOL) ls) @ [46] @ EOL"]
      by (simp only: concat.simps list.map append_assoc list.set ball_simps) blast
  qed (simp add: EOL_def)
  have "strstr (multi h ls) EOM" unfolding multi_def strstr_EOM [OF h13] using fin by blast
  moreover have "\<not> strstr (butlast (multi h ls)) EOM"
    unfolding bl strstr_EOM [OF h13] using no_dot_line [OF ls] by blast
  moreover have "0 \<notin> set (multi h ls)" using h(3) ls by (auto simp: multi_def EOL_def plain_line_def)
  moreover have "hd (multi h ls) = hd h" "multi h ls \<noteq> []" using h(1) by (simp_all add: multi_def)
  ultimately show ?thesis using h(2) by (simp add: ends_once_def)
qed

section \<open>Cutting the answer into lines\<close>

lemma strtok_piece:
  assumes buf: "drop pos buff = d @ l @ c # r" and d: "\<forall>x\<in>set d. is_eol x"
    and l: "l \<noteq> []" "\<forall>x\<in>set l. x \<noteq> 0 \<and> \<not> is_eol x" and c: "is_eol c"
  defines "e \<equiv> pos + length d + length l"
  shows "strtok pos buff = Inr (Some l, Suc e, buff[e := 0])" and "drop (Suc e) (buff[e := 0]) = r"
proof -
  have skip: "takeWhile is_eol (drop pos buff) = d"
    unfolding buf using d l by (cases l) (auto simp: takeWhile_append)
  have at: "drop (pos + length d) buff = l @ c # r"
    using drop_drop [of "length d" pos buff] by (simp add: buf add.commute)
  have tok: "takeWhile (\<lambda>x. x \<noteq> 0 \<and> \<not> is_eol x) (l @ c # r) = l"
    using l(2) c by (simp add: takeWhile_append)
  have "drop e buff = c # r"
    using drop_drop [of "length l" "pos + length d" buff] by (simp add: at e_def add.commute)
  then have "e < length buff" "buff ! e = c" "drop (Suc e) buff = r"
    by (metis drop_eq_Nil2 linorder_not_less list.distinct(1), metis hd_drop_conv_nth drop_eq_Nil2 linorder_not_less list.distinct(1) list.sel(1), metis drop_Suc list.sel(3) tl_drop)
  moreover have "c \<noteq> 0" using c by (auto simp: is_eol_def)
  ultimately show "strtok pos buff = Inr (Some l, Suc e, buff[e := 0])" "drop (Suc e) (buff[e := 0]) = r"
    using l(1) by (simp_all add: strtok_def Let_def skip at tok e_def)
qed

lemma each_line_lines:
  assumes "drop pos buff = d @ concat (map (\<lambda>l. l @ EOL) ls) @ [46] @ EOL @ r"
    and "\<forall>x\<in>set d. is_eol x" and "\<forall>l\<in>set ls. plain_line l"
  shows "\<exists>b. each_line f i pos buff = Inr (concat (map (\<lambda>(k, l). f k l) (enumerate i ls)), b) \<and> length b = length buff"
  using assms
proof (induction ls arbitrary: i pos buff d)
  case Nil
  then show ?case
    using strtok_piece(1) [of pos buff d "[46]" 13 "10 # r"] by (subst each_line.simps) (simp add: EOL_def is_eol_def)
next
  case (Cons l ls)
  let ?rest = "concat (map (\<lambda>l. l @ EOL) ls) @ [46] @ EOL @ r"
  have buf: "drop pos buff = d @ l @ 13 # 10 # ?rest" using Cons.prems(1) by (simp add: EOL_def)
  have l: "l \<noteq> []" "\<forall>x\<in>set l. x \<noteq> 0 \<and> \<not> is_eol x" "hd l \<noteq> 46" using Cons.prems(3) by (auto simp: plain_line_def)
  let ?e = "pos + length d + length l"
  note cut = strtok_piece [OF buf Cons.prems(2) l(1,2)]
  have e13: "is_eol 13" "is_eol 10" by (simp_all add: is_eol_def)
  obtain b where "each_line f (Suc i) (Suc ?e) (buff[?e := 0]) = Inr (concat (map (\<lambda>(k, l). f k l) (enumerate (Suc i) ls)), b)" "length b = length buff"
    using Cons.IH [of "Suc ?e" "buff[?e := 0]" "[10]" "Suc i"] cut(2) [OF e13(1)] e13(2) Cons.prems(3) by auto
  then show ?case
    using cut(1) [OF e13(1)] l(3) by (subst each_line.simps) simp
qed

text \<open>The first line and all that follow it.\<close>

lemma lines_of_multi:
  assumes b: "holds b (multi h ls)" and h: "h \<noteq> []" "\<forall>c\<in>set h. c \<noteq> 0 \<and> \<not> is_eol c" and ls: "\<forall>l\<in>set ls. plain_line l"
  shows "\<exists>b'. lines_after_first f b = Inr (concat (map (\<lambda>(k, l). f k l) (enumerate 0 ls)), b') \<and> length b' = length b"
    and "ls = l # ls' \<Longrightarrow> \<exists>b'. second_line b = Inr (l, b') \<and> length b' = length b"
proof -
  let ?tail = "concat (map (\<lambda>l. l @ EOL) ls) @ [46] @ EOL @ 0 # drop (Suc (length (multi h ls))) b"
  have "b = multi h ls @ 0 # drop (Suc (length (multi h ls))) b"
    using b append_take_drop_id [of "Suc (length (multi h ls))" b] by (simp add: holds_def)
  then have "drop 0 b = [] @ h @ 13 # 10 # ?tail"
    by (simp add: multi_def EOL_def)
  note cut = strtok_piece [OF this _ h, simplified]
  have e: "is_eol 13" "is_eol 10" by (simp_all add: is_eol_def)
  let ?b = "b[length h := 0]"
  have rest: "drop (Suc (length h)) ?b = [10] @ ?tail" using cut(2) [OF e(1)] by simp
  show "\<exists>b'. lines_after_first f b = Inr (concat (map (\<lambda>(k, l). f k l) (enumerate 0 ls)), b') \<and> length b' = length b"
    using each_line_lines [of "Suc (length h)" ?b "[10]" ls _ f 0] rest e(2) ls cut(1) [OF e(1)]
    by (auto simp: lines_after_first_def)
  show "\<exists>b'. second_line b = Inr (l, b') \<and> length b' = length b" if "ls = l # ls'"
  proof -
    have l: "l \<noteq> []" "\<forall>c\<in>set l. c \<noteq> 0 \<and> \<not> is_eol c" using ls that by (auto simp: plain_line_def)
    have "drop (Suc (length h)) ?b = [10] @ l @ 13 # 10 # concat (map (\<lambda>l. l @ EOL) ls') @ [46] @ EOL
        @ 0 # drop (Suc (length (multi h ls))) b"
      unfolding rest that by (simp add: EOL_def)
    from strtok_piece(1) [OF this _ l e(1)] show ?thesis
      using e(2) cut(1) [OF e(1)] by (simp add: second_line_def)
  qed
qed

text \<open>Numbers that the server prints are read back.\<close>

lemma strtoull_show: "n < 2 ^ 64 \<Longrightarrow> strtoull (show_nat n) = n"
proof -
  assume n: "n < 2 ^ 64"
  have ds: "\<forall>c\<in>set (show_nat n). isdigit c" using show_nat_digits digit_isdigit by blast
  have no: "\<not> isspace c \<and> c \<noteq> 45 \<and> c \<noteq> 43" if "isdigit c" for c
    using that by (auto simp: isdigit_def isspace_def word_le_nat_alt)
  have "dropWhile isspace (show_nat n) = show_nat n" "hd (show_nat n) \<noteq> 45 \<and> hd (show_nat n) \<noteq> 43"
    using ds no show_nat_nonempty [of n] by (cases "show_nat n"; simp)+
  moreover have "takeWhile isdigit (show_nat n) = show_nat n" using ds by simp
  ultimately show "strtoull (show_nat n) = n"
    using n by (simp add: strtoull_def Let_def decimal_show del: takeWhile_eq_all_conv)
qed

lemma show_nat_plain: "plain_line (show_nat n)"
proof -
  have "\<forall>c\<in>set (show_nat n). digit c" by (rule show_nat_digits)
  then have c: "\<forall>c\<in>set (show_nat n). c \<noteq> 0 \<and> c \<noteq> 46 \<and> \<not> is_eol c" by (auto simp: digit_def is_eol_def)
  moreover have "hd (show_nat n) \<in> set (show_nat n)" using show_nat_nonempty by (rule hd_in_set)
  ultimately show ?thesis using show_nat_nonempty [of n] by (auto simp: plain_line_def)
qed

lemma show_small_size:
  assumes "unat (x :: 64 word) < 2 ^ 31"
  shows "show_int (sint (ucast x :: 32 word)) = show_nat (unat x)"
proof -
  define n where "n = unat x"
  have x: "x = of_nat n" and n: "n < 2 ^ 31" using assms by (simp_all add: n_def)
  have "(ucast (of_nat n :: 64 word) :: 32 word) = of_nat n"
    by (simp add: unsigned_of_nat take_bit_nat_eq_self n) (use n in \<open>simp add: take_bit_nat_eq_self\<close>)
  moreover have "sint (of_nat n :: 32 word) = int n"
    using n by (simp add: signed_of_nat signed_take_bit_int_eq_self)
  moreover have "unat (of_nat n :: 64 word) = n" using x n_def by simp
  ultimately show ?thesis by (simp add: x show_int_def)
qed

section \<open>The requests of the tool\<close>

text \<open>
  The call that makes a request and the text it sends. There is none for \<open>QUIT\<close>, and none that sends the
  space which the server wants behind \<open>DISSECTOR-STATUS\<close>.
\<close>

fun tool_run :: "request \<Rightarrow> peer \<Rightarrow> tool \<Rightarrow> (bool \<times> tool) run" where
  "tool_run Capa p t = tool_capa p t"
| "tool_run Stats p t = tool_stats p t"
| "tool_run Users_list p t = tool_users p t"
| "tool_run Buffsize p t = tool_buffsize p t"
| "tool_run (Token tok) p t = authenticate p tok t"
| "tool_run (Add_user up) p t = tool_add_user p up t"
| "tool_run (Set_buffsize n) p t = tool_set_buffsize p n t"
| "tool_run Dissector_bare p t = dissector_status p t"
| "tool_run (Set_dissector on) p t = set_dissector_status p (status_text on) t"
| "tool_run Quit p t = Inr (True, t)"
| "tool_run Dissector p t = Inr (True, t)"

fun tool_text :: "request \<Rightarrow> byte list" where
  "tool_text Capa = bytes_of ''CAPA'' @ EOL"
| "tool_text Stats = bytes_of ''STATS'' @ EOL"
| "tool_text Users_list = bytes_of ''USERS'' @ EOL"
| "tool_text Buffsize = bytes_of ''BUFFSIZE'' @ EOL"
| "tool_text (Token tok) = format_request ''TOKEN'' tok"
| "tool_text (Add_user up) = format_request ''ADD-USER'' up"
| "tool_text (Set_buffsize n) = format_request ''SET-BUFFSIZE'' n"
| "tool_text Dissector_bare = bytes_of ''DISSECTOR-STATUS'' @ EOL"
| "tool_text (Set_dissector on) = format_request ''SET-DISSECTOR-STATUS'' (status_text on)"
| "tool_text Quit = []"
| "tool_text Dissector = []"

text \<open>Arguments that the tool can send and the protocol can express.\<close>

fun sendable :: "request \<Rightarrow> bool" where
  "sendable (Token s) \<longleftrightarrow> s \<noteq> [] \<and> (\<forall>c\<in>set s. printable c) \<and> length s \<le> 480"
| "sendable (Add_user s) \<longleftrightarrow> s \<noteq> [] \<and> (\<forall>c\<in>set s. printable c) \<and> length s \<le> 480"
| "sendable (Set_buffsize s) \<longleftrightarrow> s \<noteq> [] \<and> (\<forall>c\<in>set s. digit c) \<and> length s \<le> 480"
| "sendable Quit \<longleftrightarrow> False"
| "sendable Dissector \<longleftrightarrow> False"
| "sendable r \<longleftrightarrow> True"

text \<open>Whether the service grants a request, and what the tool prints then.\<close>

fun granted :: "byte list list \<Rightarrow> request \<Rightarrow> service \<Rightarrow> bool" where
  "granted toks (Token t) sv \<longleftrightarrow> t \<in> set toks"
| "granted toks (Add_user s) sv \<longleftrightarrow> acceptable_user s (sv_users sv)"
| "granted toks (Set_buffsize ds) sv \<longleftrightarrow> 512 < stored_size ds \<and> stored_size ds \<le> 10240"
| "granted toks Dissector_bare sv \<longleftrightarrow> False"
| "granted toks r sv \<longleftrightarrow> True"

definition numbered :: "string \<Rightarrow> byte list list \<Rightarrow> byte list list" where
  "numbered header ls = map (\<lambda>(k, l). bytes_of header @ bytes_of '' #'' @ show_nat k @ bytes_of '': '' @ l) (enumerate 0 ls)"

fun shown :: "request \<Rightarrow> service \<Rightarrow> byte list list" where
  "shown Capa sv = framed (bytes_of ''List of capabilities:'' # numbered ''CAPA''
     (map bytes_of [''TOKEN'', ''USERS'', ''STATS'', ''BUFFSIZE'', ''SET-BUFFSIZE'', ''DISSECTOR-STATUS'', ''SET-DISSECTOR-STATUS'']))"
| "shown Stats sv = framed [bytes_of ''List of statistics:'',
     bytes_of ''Bytes transferred: '' @ show_nat (unat (get_transferred_bytes (sv_state sv))),
     bytes_of ''Historical connections: '' @ show_nat (unat (get_all_connections (sv_state sv))),
     bytes_of ''Concurrent connections: '' @ show_nat (unat (get_current_clients (sv_state sv)))]"
| "shown Users_list sv = framed (bytes_of ''List of users:'' # numbered ''USER'' (map fst (sv_users sv)))"
| "shown Buffsize sv = framed [bytes_of ''Current size of the buffer: '' @ show_nat (unat (get_buffsize (sv_state sv)))]"
| "shown (Token t) sv = [bytes_of ''Authentication with token: '' @ [34] @ t @ [34] @ bytes_of '' successful!'']"
| "shown (Add_user s) sv = framed [bytes_of ''Successfully added user to the list of users.'']"
| "shown (Set_buffsize ds) sv = framed [bytes_of ''Buffer size updated to '' @ ds]"
| "shown (Set_dissector on) sv = framed [bytes_of ''Dissector is now '' @ status_text on]"
| "shown r sv = []"

text \<open>What the tool sends is a line of the request.\<close>

lemma request_line: "length arg \<le> 480 \<Longrightarrow> length name \<le> 20 \<Longrightarrow> format_request name arg = arg_line (bytes_of name) 0 arg 0"
  by (simp add: format_request_def arg_line_def MAX_RESPONSE_LEN_def EOL_def bytes_of_def)

lemma upper_letters:
  "letters ''token'' (bytes_of ''TOKEN'')" "letters ''add-user'' (bytes_of ''ADD-USER'')"
  "letters ''set-buffsize'' (bytes_of ''SET-BUFFSIZE'')" "letters ''capa'' (bytes_of ''CAPA'')"
  "letters ''stats'' (bytes_of ''STATS'')" "letters ''users'' (bytes_of ''USERS'')"
  "letters ''buffsize'' (bytes_of ''BUFFSIZE'')" "letters ''dissector-status'' (bytes_of ''DISSECTOR-STATUS'')"
  "letters ''set-dissector-status'' (bytes_of ''SET-DISSECTOR-STATUS'')"
  by (simp_all add: letters_def bytes_of_def tolower_def)

lemma tool_line: "sendable r \<Longrightarrow> line_of r (tool_text r)"
proof (cases r)
  case Capa
  then show ?thesis using upper_letters(4) by (auto simp: EOL_def intro!: exI [of _ 0])
next
  case Stats
  then show ?thesis using upper_letters(5) by (auto simp: EOL_def intro!: exI [of _ 0])
next
  case Users_list
  then show ?thesis using upper_letters(6) by (auto simp: EOL_def intro!: exI [of _ 0])
next
  case Buffsize
  then show ?thesis using upper_letters(7) by (auto simp: EOL_def intro!: exI [of _ 0])
next
  case Dissector_bare
  then show ?thesis using upper_letters(8) by (auto simp: EOL_def)
next
  case (Set_dissector on)
  have "length (status_text on) \<le> 480" by (simp add: status_text_def bytes_of_def)
  then show ?thesis using upper_letters(9) request_line Set_dissector by auto
qed (use upper_letters(1-3) request_line in auto)

section \<open>One exchange\<close>

text \<open>The tool has asked, read \<open>n\<close> pieces and printed \<open>out\<close>.\<close>

definition asked :: "tool \<Rightarrow> byte list \<Rightarrow> nat \<Rightarrow> byte list list \<Rightarrow> tool \<Rightarrow> bool" where
  "asked t req n out t' \<longleftrightarrow> t_sent t' = t_sent t @ req \<and> t_reads t' = t_reads t + n \<and> t_out t' = t_out t @ out
     \<and> length (t_buf t') = MAX_RESPONSE_LEN"

text \<open>The peer takes the whole request and delivers the answer \<open>ans\<close> in pieces.\<close>

definition answers :: "peer \<Rightarrow> tool \<Rightarrow> byte list \<Rightarrow> byte list list \<Rightarrow> byte list \<Rightarrow> bool" where
  "answers p t req ps ans \<longleftrightarrow> snd p req = Send_ok (length req) \<and> delivers (fst p) (t_reads t) ps \<and> concat ps = ans
     \<and> length (t_buf t) = MAX_RESPONSE_LEN \<and> length ans < MAX_RESPONSE_LEN"

lemma exchange_answers:
  assumes a: "answers p t req ps ans" and e: "ends_once ans ml"
    and shows_it: "\<And>b. holds b ans \<Longrightarrow> hd ans \<noteq> 45 \<Longrightarrow> \<exists>b'. f b = Inr (out, b') \<and> length b' = length b"
  shows "\<exists>t'. exchange p req ml f t = Inr (hd ans \<noteq> 45, t') \<and> asked t req (length ps) (if hd ans = 45 then [] else out) t'"
proof -
  let ?t = "t\<lparr>t_sent := t_sent t @ req\<rparr>"
  obtain b where b: "get_response p ml ?t = Inr (True, ?t\<lparr>t_reads := t_reads t + length ps, t_buf := b\<rparr>)" "holds b ans"
    using get_response_pieces [of p ?t ps ml] a e by (auto simp: answers_def)
  have "send_text p req t = (True, ?t)" using a by (simp add: send_text_def answers_def)
  moreover have "b ! 0 = hd ans" using holds_first [OF b(2)] e by (simp add: ends_once_def)
  moreover have "length b = MAX_RESPONSE_LEN" using b(2) by (simp add: holds_def)
  ultimately show ?thesis
    using b shows_it [OF b(2)] by (cases "hd ans = 45") (auto simp: exchange_def asked_def)
qed

text \<open>Answers of several lines.\<close>

definition ok_head :: "byte list \<Rightarrow> bool" where
  "ok_head h \<longleftrightarrow> h \<noteq> [] \<and> hd h = 43 \<and> (\<forall>c\<in>set h. c \<noteq> 0 \<and> \<not> is_eol c)"

lemma multi_exchange:
  assumes a: "answers p t req ps (multi h ls)" and h: "ok_head h" and ls: "\<forall>l\<in>set ls. plain_line l"
    and f: "\<And>b. holds b (multi h ls) \<Longrightarrow> \<exists>b'. f b = Inr (out, b') \<and> length b' = length b"
  shows "\<exists>t'. exchange p req True f t = Inr (True, t') \<and> asked t req (length ps) out t'"
proof -
  have hd: "hd (multi h ls) = 43" using h by (simp add: ok_head_def multi_def)
  have "ends_once (multi h ls) True" using h by (intro multi_ends ls) (simp_all add: ok_head_def)
  from exchange_answers [OF a this, of f out] f hd show ?thesis by simp
qed

lemma listed_exchange:
  assumes "answers p t req ps (multi h ls)" and h: "ok_head h" and ls: "\<forall>l\<in>set ls. plain_line l"
  shows "\<exists>t'. exchange p req True (show_list title (lines_after_first g)) t = Inr (True, t')
    \<and> asked t req (length ps) (framed (bytes_of title # concat (map (\<lambda>(k, l). g k l) (enumerate 0 ls)))) t'"
proof (rule multi_exchange [OF assms])
  fix b
  assume "holds b (multi h ls)"
  then show "\<exists>b'. show_list title (lines_after_first g) b
      = Inr (framed (bytes_of title # concat (map (\<lambda>(k, l). g k l) (enumerate 0 ls))), b') \<and> length b' = length b"
    using lines_of_multi(1) [of b h ls g] h ls by (auto simp: show_list_def ok_head_def)
qed

lemma concat_single: "concat (map (\<lambda>(k, l). [g k l]) xs) = map (\<lambda>(k, l). g k l) xs"
  by (induction xs) auto

lemma numbered_exchange:
  assumes "answers p t req ps (multi h ls)" and "ok_head h" and "\<forall>l\<in>set ls. plain_line l"
  shows "\<exists>t'. exchange p req True (show_list title (simple_iteration header)) t = Inr (True, t')
    \<and> asked t req (length ps) (framed (bytes_of title # numbered header ls)) t'"
  using listed_exchange [OF assms, of title "\<lambda>k l. [bytes_of header @ bytes_of '' #'' @ show_nat k @ bytes_of '': '' @ l]"]
  by (simp only: simple_iteration_def numbered_def concat_single)

text \<open>Answers of one line.\<close>

lemma single_exchange:
  assumes a: "answers p t req ps ans" and l: "ans = l @ EOL" "l \<noteq> []" "hd l \<noteq> 45 \<longleftrightarrow> ok" "\<forall>c\<in>set l. c \<noteq> 0 \<and> \<not> is_eol c"
  shows "\<exists>t'. exchange p req False (show_text out) t = Inr (ok, t') \<and> asked t req (length ps) (if ok then out else []) t'"
proof -
  have "hd ans = hd l" using l(1,2) by simp
  then have "(hd ans \<noteq> 45) = ok" "(if hd ans = 45 then [] else out) = (if ok then out else [])" using l(3) by auto
  then show ?thesis
    using exchange_answers [OF a, of False "show_text out" out] single_line_ends [OF l(2,4)] l(1)
    by (simp add: show_text_def)
qed

lemmas answer_texts = correct_password_text_def incorrect_password_text_def set_buffsize_text_def set_buffsize_error_text_def
  add_user_text_def add_user_error_text_def set_dissector_status_text_def invalid_cmd_text_def success_status_def error_status_def bytes_of_def CRLF_def EOL_def

lemma clean_line: "(\<forall>c\<in>set l. c \<noteq> 0 \<and> \<not> is_eol c) \<longleftrightarrow> 0 \<notin> set l \<and> 13 \<notin> set l \<and> 10 \<notin> set l"
  by (auto simp: is_eol_def)

lemma granted_answers:
  "fst (serve toks Capa sv) = multi (bytes_of ''+OK '')
     (map bytes_of [''TOKEN'', ''USERS'', ''STATS'', ''BUFFSIZE'', ''SET-BUFFSIZE'', ''DISSECTOR-STATUS'', ''SET-DISSECTOR-STATUS''])"
  "fst (serve toks Stats sv) = multi (bytes_of ''+OK Showing stats (B)yte (H)istorical connections (C)urrent connections...'')
     [66 # show_nat (unat (get_transferred_bytes (sv_state sv))), 72 # show_nat (unat (get_all_connections (sv_state sv))),
      67 # show_nat (unat (get_current_clients (sv_state sv)))]"
  "fst (serve toks Users_list sv) = multi (bytes_of ''+OK Listing users... '') (map fst (sv_users sv))"
  "unat (get_buffsize (sv_state sv)) < 2 ^ 31 \<Longrightarrow>
     fst (serve toks Buffsize sv) = multi (bytes_of ''+OK '') [show_nat (unat (get_buffsize (sv_state sv)))]"
  by (simp add: capa_message_def multi_def EOL_def CRLF_def bytes_of_def,
      simp add: stats_text_def success_status_def multi_def EOL_def CRLF_def bytes_of_def,
      simp add: listing_def users_header_def success_status_def multi_def EOL_def CRLF_def bytes_of_def comp_def,
      simp add: buffsize_text_def show_small_size success_status_def multi_def EOL_def CRLF_def bytes_of_def)

lemma ok_heads:
  "ok_head (bytes_of ''+OK '')" "ok_head (bytes_of ''+OK Listing users... '')"
  "ok_head (bytes_of ''+OK Showing stats (B)yte (H)istorical connections (C)urrent connections...'')"
  by (simp_all add: ok_head_def bytes_of_def is_eol_def)

lemma stat_line: "plain_line (x # show_nat n) \<longleftrightarrow> x \<noteq> 0 \<and> x \<noteq> 46 \<and> \<not> is_eol x"
  using show_nat_plain [of n] by (auto simp: plain_line_def)

lemma shown_stats:
  fixes b h k :: "64 word"
  shows "concat (map (\<lambda>(k, l). show_stat l) (enumerate 0 [66 # show_nat (unat b), 72 # show_nat (unat h), 67 # show_nat (unat k)]))
    = [bytes_of ''Bytes transferred: '' @ show_nat (unat b), bytes_of ''Historical connections: '' @ show_nat (unat h),
       bytes_of ''Concurrent connections: '' @ show_nat (unat k)]"
proof -
  have "unat (x :: 64 word) < 2 ^ LENGTH(64)" for x by (rule unsigned_less)
  then have n: "strtoull (show_nat (unat x)) = unat x" for x :: "64 word" by (simp add: strtoull_show)
  show ?thesis by (simp add: show_stat_def n)
qed

text \<open>A refusal is one line also where several are expected, and nothing of it is printed.\<close>

lemma refused_exchange:
  assumes a: "answers p t req ps (fst (serve toks Dissector_bare sv))"
  shows "\<exists>t'. exchange p req ml f t = Inr (False, t') \<and> asked t req (length ps) [] t'"
proof -
  let ?ans = "fst (serve toks Dissector_bare sv)"
  define l where "l = butlast (butlast ?ans)"
  have l: "?ans = l @ EOL" "l \<noteq> []" "hd ?ans = 45" "\<forall>c\<in>set l. c \<noteq> 0 \<and> \<not> is_eol c"
    unfolding clean_line by (simp_all add: l_def answer_texts)
  have "ends_once ?ans False"
    using single_line_ends [OF l(2,4)] by (simp only: l(1))
  with l(3) have "ends_once ?ans ml" by (simp add: ends_once_def)
  from exchange_answers [OF a this, of f "[]"] l(3) show ?thesis by auto
qed

text \<open>From the answer of the service the tool learns whether the request was granted, and prints it.\<close>

lemma tool_round:
  assumes a: "answers p t (tool_text r) ps (fst (serve toks r sv))" and r: "sendable r"
    and names: "r = Users_list \<Longrightarrow> \<forall>u\<in>set (sv_users sv). plain_line (fst u)" and size: "buffsize_ok (sv_state sv)"
  shows "\<exists>t'. tool_run r p t = Inr (granted toks r sv, t')
    \<and> asked t (tool_text r) (length ps) (if granted toks r sv then shown r sv else []) t'"
proof (cases r)
  case Capa
  show ?thesis
    using numbered_exchange [OF a [unfolded Capa granted_answers] ok_heads(1), of "''List of capabilities:''" "''CAPA''"]
    by (simp add: Capa tool_capa_def plain_line_def bytes_of_def is_eol_def)
next
  case Stats
  show ?thesis
    using listed_exchange [OF a [unfolded Stats granted_answers] ok_heads(3), of "''List of statistics:''" "\<lambda>_. show_stat"]
    by (simp only: Stats tool_run.simps tool_text.simps tool_stats_def shown_stats shown.simps granted.simps if_True)
      (simp add: stat_line is_eol_def)
next
  case Users_list
  show ?thesis
    using numbered_exchange [OF a [unfolded Users_list granted_answers] ok_heads(2), of "''List of users:''" "''USER''"]
      names [OF Users_list]
    by (simp add: Users_list tool_users_def)
next
  case Buffsize
  have sz: "unat (get_buffsize (sv_state sv)) < 2 ^ 31" using size by (simp add: buffsize_ok_def get_buffsize_def)
  have f: "\<exists>b'. show_buffsize b = Inr (shown Buffsize sv, b') \<and> length b' = length b"
    if "holds b (multi (bytes_of ''+OK '') [show_nat (unat (get_buffsize (sv_state sv)))])" for b
    using lines_of_multi(2) [OF that] ok_heads(1) show_nat_plain strtoull_show sz
    by (fastforce simp: ok_head_def show_buffsize_def)
  show ?thesis
    using multi_exchange [OF a [unfolded Buffsize granted_answers(4) [OF sz]] ok_heads(1) _ f] show_nat_plain
    by (simp add: Buffsize tool_buffsize_def)
next
  case (Token tok)
  define l where "l = butlast (butlast (fst (serve toks r sv)))"
  have "fst (serve toks r sv) = l @ EOL" "l \<noteq> []" "hd l \<noteq> 45 \<longleftrightarrow> granted toks r sv" "\<forall>c\<in>set l. c \<noteq> 0 \<and> \<not> is_eol c"
    unfolding clean_line by (simp_all add: l_def Token answer_texts)
  from single_exchange [OF a this, of "shown r sv"] show ?thesis by (simp only: Token tool_run.simps tool_text.simps shown.simps authenticate_def)
next
  case (Set_buffsize n)
  define l where "l = butlast (butlast (fst (serve toks r sv)))"
  have "fst (serve toks r sv) = l @ EOL" "l \<noteq> []" "hd l \<noteq> 45 \<longleftrightarrow> granted toks r sv" "\<forall>c\<in>set l. c \<noteq> 0 \<and> \<not> is_eol c"
    unfolding clean_line by (simp_all add: l_def Set_buffsize answer_texts)
  from single_exchange [OF a this, of "shown r sv"] show ?thesis by (simp only: Set_buffsize tool_run.simps tool_text.simps shown.simps tool_set_buffsize_def)
next
  case (Add_user up)
  define l where "l = (if granted toks r sv then success_status @ bytes_of '' Added user '' else error_status @ bytes_of '' Error adding user '') @ user_name up"
  have "\<forall>c\<in>set (user_name up). printable c" using r Add_user by (auto simp: user_name_def dest: set_takeWhileD)
  then have "\<forall>c\<in>set (user_name up). c \<noteq> 0 \<and> \<not> is_eol c" by (auto simp: printable_def is_eol_def)
  then have "fst (serve toks r sv) = l @ EOL" "l \<noteq> []" "hd l \<noteq> 45 \<longleftrightarrow> granted toks r sv" "\<forall>c\<in>set l. c \<noteq> 0 \<and> \<not> is_eol c"
    unfolding clean_line by (simp_all add: l_def Add_user answer_texts)
  from single_exchange [OF a this, of "shown r sv"] show ?thesis by (simp only: Add_user tool_run.simps tool_text.simps shown.simps tool_add_user_def)
next
  case (Set_dissector on)
  define l where "l = butlast (butlast (fst (serve toks r sv)))"
  have "fst (serve toks r sv) = l @ EOL" "l \<noteq> []" "hd l \<noteq> 45 \<longleftrightarrow> granted toks r sv" "\<forall>c\<in>set l. c \<noteq> 0 \<and> \<not> is_eol c"
    unfolding clean_line by (simp_all add: l_def Set_dissector answer_texts)
  from single_exchange [OF a this, of "shown r sv"] show ?thesis by (simp only: Set_dissector tool_run.simps tool_text.simps shown.simps set_dissector_status_def)
next
  case Dissector_bare
  show ?thesis using refused_exchange [OF a [unfolded Dissector_bare], of True show_dissector]
    by (simp add: Dissector_bare dissector_status_def)
qed (use r in simp_all)

section \<open>Tool and server\<close>

text \<open>
  The line of the tool is in the window of a server connection with nothing queued: the server
  executes it, and when what it queued has reached the tool, the tool knows and prints the result.
\<close>

lemma tool_meets_server:
  assumes st: "stands_for c w sv (tool_text r)" and empty: "contents (write_buf c) = []" and r: "sendable r" "allowed (sv_auth sv) r"
    and names: "r = Users_list \<Longrightarrow> \<forall>u\<in>set (sv_users sv). plain_line (fst u)"
    and room: "length (fst (serve (token_entries (w_tokens w)) r sv)) < Buffer.space (write_buf c)"
  obtains c' w' where "processMgmtClient c w = Inr (Some (True, c', w'))"
    "at_rest c' w' (snd (serve (token_entries (w_tokens w)) r sv))"
    "contents (write_buf c') = fst (serve (token_entries (w_tokens w)) r sv)"
    "\<And>p t ps. answers p t (tool_text r) ps (contents (write_buf c')) \<Longrightarrow>
       \<exists>t'. tool_run r p t = Inr (granted (token_entries (w_tokens w)) r sv, t')
         \<and> asked t (tool_text r) (length ps) (if granted (token_entries (w_tokens w)) r sv then shown r sv else []) t'"
proof -
  let ?toks = "token_entries (w_tokens w)"
  have one: "session ?toks [r] sv = Some (serve ?toks r sv)" using r(2) by (simp split: prod.splits)
  have line: "list_all2 line_of [r] [tool_text r]" using tool_line [OF r(1)] by simp
  have size: "buffsize_ok (sv_state sv)" using st by (auto simp: stands_for_def tables_ok_def)
  obtain c' w' where run: "processMgmtClient c w = Inr (Some (True, c', w'))" "at_rest c' w' (snd (serve ?toks r sv))"
    "contents (write_buf c') = fst (serve ?toks r sv)"
    using session_run [OF _ line, of c w sv "fst (serve ?toks r sv)" "snd (serve ?toks r sv)"] st one room empty by auto
  show thesis
    using that [OF run] run(3) tool_round [OF _ r(1) names size] by simp
qed

text \<open>
  A read that keeps failing: the result \<open>-1\<close> counts as 255 bytes, so the tool steps through its buffer
  and writes behind its end, unless an old answer in it happens to look complete.
\<close>

lemma failing_reads:
  assumes err: "\<And>n m. fst p n m = Read_err e" and len: "length (t_buf t) = MAX_RESPONSE_LEN" and stale: "t_buf t ! 0 = 0"
  shows "get_response p ml t = Inl Out_of_bounds"
proof -
  obtain xs where b: "t_buf t = 0 # xs" using len stale by (cases "t_buf t") (auto simp: MAX_RESPONSE_LEN_def)
  have unfinished: "\<not> finished (overwrite k [0] (0 # ys)) ml'" if "0 < k" "k \<le> length ys" for k ml' ys
  proof -
    have "overwrite k [0] (0 # ys) = 0 # ys[k - 1 := 0]"
      using that overwrite_single [of k "0 # ys" 0] by (cases k) simp_all
    then show ?thesis by (simp add: finished_def cstr_def EOL_def EOM_def)
  qed
  let ?b1 = "overwrite 255 [0] (t_buf t)" and ?b2 = "overwrite 510 [0] (overwrite 255 [0] (t_buf t))"
  have l: "length xs = 511" using len b by (simp add: MAX_RESPONSE_LEN_def)
  have b1: "?b1 = 0 # xs[254 := 0]" using overwrite_single [of 255 "0 # xs" 0] l by (simp add: b)
  have f1: "\<not> finished ?b1 ml" using unfinished [of 255 xs ml] l by (simp add: b)
  have f2: "\<not> finished ?b2 ml" using unfinished [of 510 "xs[254 := 0]" ml] l by (simp add: b1)
  have w1: "mem_write 255 [0] (t_buf t) = Inr ?b1" and w2: "mem_write 510 [0] ?b1 = Inr ?b2"
    and w3: "mem_write 765 [0] ?b2 = Inl Out_of_bounds"
    using l by (simp_all add: b b1 mem_write_def)
  have "get_loop (fst p) ml 0 (t_reads t) (t_buf t) = get_loop (fst p) ml 255 (Suc (t_reads t)) ?b1"
    using err w1 f1 by (subst get_loop.simps) simp
  also have "\<dots> = get_loop (fst p) ml 510 (Suc (Suc (t_reads t))) ?b2"
    using err w2 f2 by (subst get_loop.simps) simp
  also have "\<dots> = Inl Out_of_bounds"
    using err w3 by (subst get_loop.simps) simp
  finally show ?thesis by (simp add: get_response_def)
qed

end
