(* ===== verification/Net_Utils.thy ===== *)
theory Net_Utils
  imports Handshake
begin

text \<open>
  What the program prints: the addresses of \<open>src/util.c\<close> and \<open>src/netutils.c\<close>, written into fixed arrays
  with the string functions of C, the lines of the access and sniffer logs, and \<open>src/logger.c\<close>. And the
  two blocking transfers of \<open>src/netutils.c\<close>.
\<close>

section \<open>Strings in arrays\<close>

text \<open>
  Beside \<open>strcpy\<close>: \<open>sprintf(dst + strlen(dst), ...)\<close> of the text \<open>s\<close>. \<open>strlen\<close> of an array without a NUL
  reads behind its end.
\<close>

definition sprintf_end :: "byte list \<Rightarrow> byte list \<Rightarrow> byte list run" where
  "sprintf_end dst s = (if 0 \<notin> set dst then Inl Out_of_bounds else mem_write (length (cstr dst)) (s @ [0]) dst)"

text \<open>\<open>strncpy(dst, s, n)\<close>: at most \<open>n\<close> bytes of \<open>s\<close>, filled up with NULs.\<close>

definition strncpy :: "byte list \<Rightarrow> byte list \<Rightarrow> nat \<Rightarrow> byte list run" where
  "strncpy dst s n = mem_write 0 (take n s @ replicate (n - length s) 0) dst"

text \<open>\<open>strncat(dst, s, n)\<close>: at most \<open>n\<close> bytes of \<open>s\<close> and a NUL behind the string in \<open>dst\<close>.\<close>

definition strncat :: "byte list \<Rightarrow> byte list \<Rightarrow> nat \<Rightarrow> byte list run" where
  "strncat dst s n = sprintf_end dst (take n s)"

text \<open>\<open>snprintf(dst + off, n, ...)\<close>: what fits in \<open>n\<close> bytes with its NUL.\<close>

definition snprintf_at :: "byte list \<Rightarrow> nat \<Rightarrow> nat \<Rightarrow> byte list \<Rightarrow> byte list run" where
  "snprintf_at dst off n s = (if n = 0 then Inr dst else mem_write off (take (n - 1) s @ [0]) dst)"

text \<open>An array with a string in it.\<close>

definition text_in :: "nat \<Rightarrow> byte list \<Rightarrow> byte list \<Rightarrow> bool" where
  "text_in n s b \<longleftrightarrow> length b = n \<and> 0 \<notin> set s \<and> length s < n \<and> take (Suc (length s)) b = s @ [0]"

lemma text_in_split:
  assumes "text_in n s b"
  obtains r where "b = s @ 0 # r" "n = length s + Suc (length r)"
proof -
  have "b = s @ 0 # drop (Suc (length s)) b"
    using assms append_take_drop_id [of "Suc (length s)" b] by (simp add: text_in_def)
  moreover from this have "n = length s + Suc (length (drop (Suc (length s)) b))" using assms by (simp add: text_in_def)
  ultimately show thesis using that by blast
qed

lemma text_in_cstr: "text_in n s b \<Longrightarrow> cstr b = s"
proof -
  assume h: "text_in n s b"
  obtain r where "b = s @ 0 # r" by (rule text_in_split [OF h])
  with h show ?thesis by (simp add: text_in_def)
qed

lemma strcpy_text:
  assumes "length dst = n" and "length s < n" and "0 \<notin> set s"
  obtains b where "strcpy dst s = Inr b" "text_in n s b"
proof -
  let ?b = "overwrite 0 (s @ [0]) dst"
  have "strcpy dst s = Inr ?b" using assms by (simp add: strcpy_def)
  moreover have "text_in n s ?b" using assms by (simp add: text_in_def overwrite_def)
  ultimately show thesis using that by blast
qed

lemma sprintf_end_text:
  assumes "text_in n s b" and "length s + length s' < n" and "0 \<notin> set s'"
  obtains b' where "sprintf_end b s' = Inr b'" "text_in n (s @ s') b'"
proof -
  obtain r where b: "b = s @ 0 # r" "n = length s + Suc (length r)" by (rule text_in_split [OF assms(1)])
  let ?b = "overwrite (length s) (s' @ [0]) b"
  have "sprintf_end b s' = Inr ?b"
    using assms b text_in_cstr [OF assms(1)] by (simp add: sprintf_end_def)
  moreover have "text_in n (s @ s') ?b"
    using assms b by (simp add: text_in_def overwrite_def)
  ultimately show thesis using that by blast
qed

lemma strncpy_text:
  assumes "length dst = m" and "length s < n" "n \<le> m" and "0 \<notin> set s"
  obtains b where "strncpy dst s n = Inr b" "text_in m s b"
proof -
  let ?pad = "replicate (n - length s) 0"
  let ?b = "overwrite 0 (s @ ?pad) dst"
  have "strncpy dst s n = Inr ?b" using assms by (simp add: strncpy_def)
  moreover have "?pad = 0 # replicate (n - Suc (length s)) 0" using assms(2) by (metis Suc_diff_Suc replicate_Suc)
  then have "text_in m s ?b" using assms by (simp add: text_in_def overwrite_def)
  ultimately show thesis using that by blast
qed

lemma strncat_text:
  assumes "text_in m s b" and "length s + length s' < m" and "length s' \<le> n" and "0 \<notin> set s'"
  obtains b' where "strncat b s' n = Inr b'" "text_in m (s @ s') b'"
  using sprintf_end_text [OF assms(1,2,4)] assms(3) that by (auto simp: strncat_def)

lemma snprintf_at_text:
  assumes "text_in n s b" and "length s + length s' < n" and "0 \<notin> set s'"
  obtains b' where "snprintf_at b (length s) (n - length s) s' = Inr b'" "text_in n (s @ s') b'"
proof -
  obtain r where b: "b = s @ 0 # r" "n = length s + Suc (length r)" by (rule text_in_split [OF assms(1)])
  let ?b = "overwrite (length s) (s' @ [0]) b"
  have "snprintf_at b (length s) (n - length s) s' = Inr ?b" using assms b by (simp add: snprintf_at_def)
  moreover have "text_in n (s @ s') ?b" using assms b by (simp add: text_in_def overwrite_def)
  ultimately show thesis using that by blast
qed

section \<open>Addresses as text\<close>

text \<open>
  \<open>inet_ntop(af, addr, dst, size)\<close> is a function of the C library: the text it stores, or \<open>None\<close> for NULL. The
  code relies on what is documented of it: a string that fits the size given, and never longer than
  \<open>INET6_ADDRSTRLEN\<close>.
\<close>

type_synonym inet_ntop = "int \<Rightarrow> byte list \<Rightarrow> nat \<Rightarrow> byte list option"

definition INET_ADDRSTRLEN :: nat where "INET_ADDRSTRLEN = 16"
definition INET6_ADDRSTRLEN :: nat where "INET6_ADDRSTRLEN = 46"
definition SOCKADDR_TO_HUMAN_MIN :: nat where "SOCKADDR_TO_HUMAN_MIN = INET6_ADDRSTRLEN + 5 + 1"

definition ntop_ok :: "inet_ntop \<Rightarrow> bool" where
  "ntop_ok ntop \<longleftrightarrow> (\<forall>af a n s. ntop af a n = Some s \<longrightarrow> 0 \<notin> set s \<and> length s < n \<and> length s < INET6_ADDRSTRLEN)"

lemma ntop_okD:
  "ntop_ok ntop \<Longrightarrow> ntop af a n = Some s \<Longrightarrow> 0 \<notin> set s \<and> length s < n \<and> length s < INET6_ADDRSTRLEN"
  unfolding ntop_ok_def by blast

definition colon_port :: "byte list \<Rightarrow> byte list" where
  "colon_port p = bytes_of '':'' @ show_nat (ntohs p)"

definition printAddressPort :: "inet_ntop \<Rightarrow> addrinfo \<Rightarrow> byte list \<Rightarrow> byte list run" where
  "printAddressPort ntop aip addr =
     (let sinp = ai_addr aip;
          with_port = (\<lambda>addrAux.
            bindE (strcpy addr (case addrAux of None \<Rightarrow> bytes_of ''unknown'' | Some s \<Rightarrow> s)) (\<lambda>addr1.
            if sa_port sinp \<noteq> [0, 0] then sprintf_end addr1 (colon_port (sa_port sinp)) else Inr addr1))
      in if ai_family aip = AF_INET then with_port (ntop AF_INET (sa_addr sinp) INET_ADDRSTRLEN)
         else if ai_family aip = AF_INET6 then with_port (ntop AF_INET6 (sa_addr sinp) INET6_ADDRSTRLEN)
         else strcpy addr (bytes_of ''unknown''))"

text \<open>
  \<open>room\<close> is the size of the object that \<open>address\<close> points to: the IPv6 address is read from offset 8 to 24, whatever
  the object is. The result is the return value and the array.
\<close>

definition printSocketAddress :: "inet_ntop \<Rightarrow> nat \<Rightarrow> sockaddr \<Rightarrow> byte list \<Rightarrow> (int \<times> byte list) run" where
  "printSocketAddress ntop room address addrBuffer =
     (if sa_family address = AF_INET6 \<and> room < SIN6_ADDR_END then Inl Out_of_bounds
      else if sa_family address = AF_INET \<or> sa_family address = AF_INET6
      then let prt = ntohs (sa_port address) in
           bindE (case ntop (sa_family address) (sa_addr address) INET6_ADDRSTRLEN of
                    None \<Rightarrow> strcpy addrBuffer (bytes_of ''[invalid address]'')
                  | Some s \<Rightarrow>
                      bindE (strcpy addrBuffer s) (\<lambda>b.
                      if prt \<noteq> 0 then sprintf_end b (colon_port (sa_port address)) else Inr b))
             (\<lambda>b. Inr (1, b))
      else bindE (strcpy addrBuffer (bytes_of ''[unknown type]'')) (\<lambda>b. Inr (0, b)))"

text \<open>\<open>None\<close> is a NULL address. The last byte is set in any case, which ends the string there.\<close>

definition end_string :: "byte list \<Rightarrow> nat \<Rightarrow> byte list run" where
  "end_string buff bsize = mem_write (bsize - 1) [0] buff"

definition sockaddr_to_human :: "inet_ntop \<Rightarrow> byte list \<Rightarrow> nat \<Rightarrow> sockaddr option \<Rightarrow> byte list run" where
  "sockaddr_to_human ntop buff bsize addr =
     (case addr of
        None \<Rightarrow> strncpy buff (bytes_of ''null'') bsize
      | Some a \<Rightarrow>
          let handled = (sa_family a = AF_INET \<or> sa_family a = AF_INET6) in
          bindE (if handled
                 then case ntop (sa_family a) (sa_addr a) bsize of
                        None \<Rightarrow> bindE (strncpy buff (bytes_of ''unknown ip'') bsize) (\<lambda>b. end_string b bsize)
                      | Some s \<Rightarrow> strcpy buff s
                 else strncpy buff (bytes_of ''unknown'') bsize) (\<lambda>b1.
          bindE (strncat b1 (bytes_of '':'') bsize) (\<lambda>b2.
          bindE (end_string b2 bsize) (\<lambda>b3.
          let len = length (cstr b3) in
          bindE (if handled then snprintf_at b3 len (bsize - len) (show_nat (ntohs (sa_port a))) else Inr b3) (\<lambda>b4.
          end_string b4 bsize)))))"

text \<open>\<open>None\<close> is a null pointer; two pointers are compared only when one of them is null.\<close>

definition sockAddrsEqual :: "sockaddr option \<Rightarrow> sockaddr option \<Rightarrow> bool" where
  "sockAddrsEqual addr1 addr2 =
     (case (addr1, addr2) of
        (Some a1, Some a2) \<Rightarrow>
          if sa_family a1 \<noteq> sa_family a2 then False
          else if sa_family a1 = AF_INET then sa_addr a1 = sa_addr a2 \<and> sa_port a1 = sa_port a2
          else if sa_family a1 = AF_INET6 then sa_addr a1 = sa_addr a2 \<and> sa_port a1 = sa_port a2
          else False
      | (None, None) \<Rightarrow> True
      | _ \<Rightarrow> False)"

section \<open>The fields of an \<open>addrinfo\<close>\<close>

definition printFamily :: "int \<Rightarrow> string" where
  "printFamily f =
     (if f = AF_INET then ''inet'' else if f = AF_INET6 then ''inet6'' else if f = 1 then ''unix''
      else if f = 0 then ''unspecified'' else ''unknown'')"

definition printType :: "int \<Rightarrow> string" where
  "printType t =
     (if t = SOCK_STREAM then ''stream'' else if t = 2 then ''datagram'' else if t = 5 then ''seqpacket''
      else if t = 3 then ''raw'' else ''unknown '')"

definition printProtocol :: "int \<Rightarrow> string" where
  "printProtocol p =
     (if p = 0 then ''default'' else if p = 6 then ''TCP'' else if p = 17 then ''UDP''
      else if p = 255 then ''raw'' else ''unkown'')"

text \<open>The names of the flags, in the order they are tested.\<close>

definition ai_flag_names :: "(32 word \<times> string) list" where
  "ai_flag_names = [(1, '' passive''), (2, '' canon''), (4, '' numhost''), (0x400, '' numserv''),
     (8, '' v4mapped''), (0x10, '' all'')]"

definition printFlags :: "32 word \<Rightarrow> string" where
  "printFlags flags =
     ''flags'' @ (if flags = 0 then '' 0''
                  else concat (map snd (filter (\<lambda>(f, _). flags AND f \<noteq> 0) ai_flag_names)))"

section \<open>The text they are to produce\<close>

text \<open>The same strings without arrays, and the proof that the arrays in the program hold them.\<close>

definition port_text :: "byte list \<Rightarrow> byte list" where
  "port_text p = (if ntohs p = 0 then [] else colon_port p)"

definition address_text :: "inet_ntop \<Rightarrow> sockaddr \<Rightarrow> byte list" where
  "address_text ntop a =
     (if sa_family a = AF_INET \<or> sa_family a = AF_INET6
      then case ntop (sa_family a) (sa_addr a) INET6_ADDRSTRLEN of
             None \<Rightarrow> bytes_of ''[invalid address]'' | Some s \<Rightarrow> s @ port_text (sa_port a)
      else bytes_of ''[unknown type]'')"

definition addrinfo_text :: "inet_ntop \<Rightarrow> addrinfo \<Rightarrow> byte list" where
  "addrinfo_text ntop ai =
     (let host = (\<lambda>n. case ntop (ai_family ai) (sa_addr (ai_addr ai)) n of None \<Rightarrow> bytes_of ''unknown'' | Some s \<Rightarrow> s) in
      if ai_family ai = AF_INET then host INET_ADDRSTRLEN @ port_text (sa_port (ai_addr ai))
      else if ai_family ai = AF_INET6 then host INET6_ADDRSTRLEN @ port_text (sa_port (ai_addr ai))
      else bytes_of ''unknown'')"

definition human_text :: "inet_ntop \<Rightarrow> nat \<Rightarrow> sockaddr option \<Rightarrow> byte list" where
  "human_text ntop n addr =
     (case addr of
        None \<Rightarrow> bytes_of ''null''
      | Some a \<Rightarrow>
          if sa_family a = AF_INET \<or> sa_family a = AF_INET6
          then (case ntop (sa_family a) (sa_addr a) n of None \<Rightarrow> bytes_of ''unknown ip'' | Some s \<Rightarrow> s) @ colon_port (sa_port a)
          else bytes_of ''unknown:'')"

lemma ntohs_bound: "ntohs p < 65536"
proof (cases "\<exists>hi lo. p = [hi, lo]")
  case True
  then obtain hi lo where p: "p = [hi, lo]" by blast
  show ?thesis using unsigned_less [of hi, where 'a = nat] unsigned_less [of lo, where 'a = nat] by (simp add: p ntohs_def)
next
  case False
  then show ?thesis by (auto simp: ntohs_def split: list.split)
qed

lemma ntohs_zero: "length p = 2 \<Longrightarrow> ntohs p = 0 \<longleftrightarrow> p = [0, 0]"
  by (auto simp: ntohs_def numeral_2_eq_2 length_Suc_conv unat_eq_zero)

lemma length_show_port: "length (show_nat (ntohs p)) \<le> 5"
  using length_show_nat [of "ntohs p" 5] ntohs_bound [of p] by simp

lemma colon_port_text: "0 \<notin> set (colon_port p)" "length (colon_port p) \<le> 6"
  using show_nat_no_nul [of "ntohs p"] length_show_port [of p] by (simp_all add: colon_port_def bytes_of_def)

lemma host_text:
  assumes "ntop_ok ntop" and "0 \<notin> set d" "length d < INET6_ADDRSTRLEN"
  shows "0 \<notin> set (case ntop f a n of None \<Rightarrow> d | Some s \<Rightarrow> s)"
    "length (case ntop f a n of None \<Rightarrow> d | Some s \<Rightarrow> s) < INET6_ADDRSTRLEN"
  using assms ntop_okD [OF assms(1), of f a n] by (auto split: option.split)

text \<open>A host followed by its port, the way both routines build it.\<close>

lemma host_and_port:
  assumes "length b = n" and "52 \<le> n" and "0 \<notin> set h" "length h < INET6_ADDRSTRLEN"
  obtains b' where "bindE (strcpy b h) (\<lambda>b1. if ntohs p \<noteq> 0 then sprintf_end b1 (colon_port p) else Inr b1) = Inr b'"
    "text_in n (h @ port_text p) b'"
proof -
  have h: "length h < n" using assms(2,4) by (simp add: INET6_ADDRSTRLEN_def)
  obtain b1 where b1: "strcpy b h = Inr b1" "text_in n h b1" by (rule strcpy_text [OF assms(1) h assms(3)])
  have fits: "length h + length (colon_port p) < n"
    using assms(2,4) colon_port_text(2) [of p] by (simp add: INET6_ADDRSTRLEN_def)
  obtain b2 where "sprintf_end b1 (colon_port p) = Inr b2" "text_in n (h @ colon_port p) b2"
    by (rule sprintf_end_text [OF b1(2) fits colon_port_text(1)])
  with b1 show thesis using that [of "if ntohs p = 0 then b1 else b2"] by (simp add: port_text_def)
qed

lemma plain_text:
  "0 \<notin> set (bytes_of ''unknown'')" "0 \<notin> set (bytes_of ''[invalid address]'')" "0 \<notin> set (bytes_of ''[unknown type]'')"
  "0 \<notin> set (bytes_of ''unknown ip'')" "0 \<notin> set (bytes_of ''null'')" "0 \<notin> set (bytes_of '':'')"
  "0 \<notin> set (bytes_of ''Address unkown'')"
  by (simp_all add: bytes_of_def)

lemma printSocketAddress_text:
  assumes "ntop_ok ntop" and "length b = n" "52 \<le> n"
    and size: "sa_family a = AF_INET6 \<Longrightarrow> SIN6_ADDR_END \<le> room"
  obtains r b' where "printSocketAddress ntop room a b = Inr (r, b')" "text_in n (address_text ntop a) b'"
proof -
  have fits_in: "(sa_family a = AF_INET6 \<and> room < SIN6_ADDR_END) = False" using size by auto
  show thesis
proof (cases "sa_family a = AF_INET \<or> sa_family a = AF_INET6")
  case False
  have fits: "length (bytes_of ''[unknown type]'') < n" using assms(3) by (simp add: bytes_of_def)
  obtain b' where "strcpy b (bytes_of ''[unknown type]'') = Inr b'" "text_in n (bytes_of ''[unknown type]'') b'"
    by (rule strcpy_text [OF assms(2) fits plain_text(3)])
  with False show thesis using that fits_in by (simp add: printSocketAddress_def address_text_def)
next
  case fam: True
  show thesis
  proof (cases "ntop (sa_family a) (sa_addr a) INET6_ADDRSTRLEN")
    case None
    have fits: "length (bytes_of ''[invalid address]'') < n" using assms(3) by (simp add: bytes_of_def)
    obtain b' where "strcpy b (bytes_of ''[invalid address]'') = Inr b'" "text_in n (bytes_of ''[invalid address]'') b'"
      by (rule strcpy_text [OF assms(2) fits plain_text(2)])
    with None fam show thesis using that fits_in by (simp add: printSocketAddress_def address_text_def)
  next
    case (Some h)
    have h: "0 \<notin> set h" "length h < INET6_ADDRSTRLEN" using ntop_okD [OF assms(1) Some] by blast+
    obtain b' where "bindE (strcpy b h) (\<lambda>b1. if ntohs (sa_port a) \<noteq> 0 then sprintf_end b1 (colon_port (sa_port a)) else Inr b1) = Inr b'"
      "text_in n (h @ port_text (sa_port a)) b'"
      by (rule host_and_port [OF assms(2,3) h])
    with Some fam show thesis using that fits_in by (simp add: printSocketAddress_def address_text_def)
  qed
qed
qed

lemma printAddressPort_text:
  assumes "ntop_ok ntop" and "length b = n" "52 \<le> n" and "length (sa_port (ai_addr ai)) = 2"
  obtains b' where "printAddressPort ntop ai b = Inr b'" "text_in n (addrinfo_text ntop ai) b'"
proof -
  let ?h = "\<lambda>af m. case ntop af (sa_addr (ai_addr ai)) m of None \<Rightarrow> bytes_of ''unknown'' | Some s \<Rightarrow> s"
  have u: "0 \<notin> set (bytes_of ''unknown'')" "length (bytes_of ''unknown'') < INET6_ADDRSTRLEN"
    by (simp_all add: bytes_of_def INET6_ADDRSTRLEN_def)
  have p: "sa_port (ai_addr ai) \<noteq> [0, 0] \<longleftrightarrow> ntohs (sa_port (ai_addr ai)) \<noteq> 0" using ntohs_zero [OF assms(4)] by simp
  have len: "length (bytes_of ''unknown'') < n" using assms(3) by (simp add: bytes_of_def)
  obtain b0 where "strcpy b (bytes_of ''unknown'') = Inr b0" "text_in n (bytes_of ''unknown'') b0"
    by (rule strcpy_text [OF assms(2) len u(1)])
  moreover obtain b4 where "bindE (strcpy b (?h AF_INET INET_ADDRSTRLEN)) (\<lambda>b1. if ntohs (sa_port (ai_addr ai)) \<noteq> 0
      then sprintf_end b1 (colon_port (sa_port (ai_addr ai))) else Inr b1) = Inr b4"
    "text_in n (?h AF_INET INET_ADDRSTRLEN @ port_text (sa_port (ai_addr ai))) b4"
    by (rule host_and_port [OF assms(2,3) host_text [OF assms(1) u]])
  moreover obtain b6 where "bindE (strcpy b (?h AF_INET6 INET6_ADDRSTRLEN)) (\<lambda>b1. if ntohs (sa_port (ai_addr ai)) \<noteq> 0
      then sprintf_end b1 (colon_port (sa_port (ai_addr ai))) else Inr b1) = Inr b6"
    "text_in n (?h AF_INET6 INET6_ADDRSTRLEN @ port_text (sa_port (ai_addr ai))) b6"
    by (rule host_and_port [OF assms(2,3) host_text [OF assms(1) u]])
  ultimately show thesis
    using that [of "if ai_family ai = AF_INET then b4 else if ai_family ai = AF_INET6 then b6 else b0"]
    by (simp add: printAddressPort_def addrinfo_text_def Let_def p)
qed

lemma end_string_text:
  assumes "text_in n s b" obtains b' where "end_string b n = Inr b'" "text_in n s b'"
proof -
  obtain r where b: "b = s @ 0 # r" "n = length s + Suc (length r)" by (rule text_in_split [OF assms])
  have "end_string b n = Inr (b[n - 1 := 0])" using b by (simp add: end_string_def overwrite_single)
  moreover have "text_in n s (b[n - 1 := 0])"
  proof (cases "length s = n - 1")
    case True
    then show ?thesis using assms b by (simp add: text_in_def list_update_append)
  next
    case False
    then have "n - 1 \<ge> Suc (length s)" using b(2) by linarith
    then show ?thesis using assms by (simp add: text_in_def)
  qed
  ultimately show thesis using that by blast
qed

lemma human_host:
  assumes "ntop_ok ntop" and "length b = n" "52 \<le> n"
  obtains b' where "(case ntop f a n of
        None \<Rightarrow> bindE (strncpy b (bytes_of ''unknown ip'') n) (\<lambda>b1. end_string b1 n) | Some s \<Rightarrow> strcpy b s) = Inr b'"
    "text_in n (case ntop f a n of None \<Rightarrow> bytes_of ''unknown ip'' | Some s \<Rightarrow> s) b'"
proof (cases "ntop f a n")
  case None
  have fits: "length (bytes_of ''unknown ip'') < n" using assms(3) by (simp add: bytes_of_def)
  obtain b1 where b1: "strncpy b (bytes_of ''unknown ip'') n = Inr b1" "text_in n (bytes_of ''unknown ip'') b1"
    by (rule strncpy_text [OF assms(2) fits order.refl plain_text(4)])
  obtain b2 where "end_string b1 n = Inr b2" "text_in n (bytes_of ''unknown ip'') b2" by (rule end_string_text [OF b1(2)])
  with None b1 show thesis using that by simp
next
  case (Some s)
  have s: "length s < n" "0 \<notin> set s" using ntop_okD [OF assms(1) Some] by blast+
  obtain b1 where "strcpy b s = Inr b1" "text_in n s b1" by (rule strcpy_text [OF assms(2) s])
  with Some show thesis using that by simp
qed

text \<open>\<open>sockaddr_to_human\<close> gives the whole text in an array of the size the header asks for.\<close>

lemma sockaddr_to_human_text:
  assumes "ntop_ok ntop" and "length b = n" "SOCKADDR_TO_HUMAN_MIN \<le> n"
  obtains b' where "sockaddr_to_human ntop b n addr = Inr b'" "text_in n (human_text ntop n addr) b'"
proof (cases addr)
  case None
  have fits: "length (bytes_of ''null'') < n" using assms(3) by (simp add: bytes_of_def SOCKADDR_TO_HUMAN_MIN_def)
  obtain b' where "strncpy b (bytes_of ''null'') n = Inr b'" "text_in n (bytes_of ''null'') b'"
    by (rule strncpy_text [OF assms(2) fits order.refl plain_text(5)])
  with None show thesis using that by (simp add: sockaddr_to_human_def human_text_def)
next
  case (Some a)
  have n: "52 \<le> n" using assms(3) by (simp add: SOCKADDR_TO_HUMAN_MIN_def INET6_ADDRSTRLEN_def)
  let ?handled = "sa_family a = AF_INET \<or> sa_family a = AF_INET6"
  let ?h = "if ?handled then case ntop (sa_family a) (sa_addr a) n of None \<Rightarrow> bytes_of ''unknown ip'' | Some s \<Rightarrow> s
    else bytes_of ''unknown''"
  have h: "0 \<notin> set ?h" "length ?h < INET6_ADDRSTRLEN"
    using host_text [OF assms(1) plain_text(4)] plain_text(1) by (simp_all add: bytes_of_def INET6_ADDRSTRLEN_def)
  have lens: "length ?h + length (bytes_of '':'') < n" "length ?h < n" "length (bytes_of '':'') \<le> n"
    "length (?h @ bytes_of '':'') + length (show_nat (ntohs (sa_port a))) < n"
    using h(2) n length_show_port [of "sa_port a"] by (simp_all add: INET6_ADDRSTRLEN_def bytes_of_def)
  obtain b4 where b4: "(case ntop (sa_family a) (sa_addr a) n of
        None \<Rightarrow> bindE (strncpy b (bytes_of ''unknown ip'') n) (\<lambda>b1. end_string b1 n) | Some s \<Rightarrow> strcpy b s) = Inr b4"
    "text_in n (case ntop (sa_family a) (sa_addr a) n of None \<Rightarrow> bytes_of ''unknown ip'' | Some s \<Rightarrow> s) b4"
    by (rule human_host [OF assms(1,2) n])
  have u: "length (bytes_of ''unknown'') < n" using n by (simp add: bytes_of_def)
  obtain b6 where b6: "strncpy b (bytes_of ''unknown'') n = Inr b6" "text_in n (bytes_of ''unknown'') b6"
    by (rule strncpy_text [OF assms(2) u order.refl plain_text(1)])
  define b1 where "b1 = (if ?handled then b4 else b6)"
  have b1: "text_in n ?h b1" using b4(2) b6(2) by (simp add: b1_def)
  obtain b2 where b2: "strncat b1 (bytes_of '':'') n = Inr b2" "text_in n (?h @ bytes_of '':'') b2"
    by (rule strncat_text [OF b1 lens(1,3) plain_text(6)])
  obtain b3 where b3: "end_string b2 n = Inr b3" "text_in n (?h @ bytes_of '':'') b3" by (rule end_string_text [OF b2(2)])
  obtain b5 where b5: "snprintf_at b3 (length (?h @ bytes_of '':'')) (n - length (?h @ bytes_of '':'')) (show_nat (ntohs (sa_port a))) = Inr b5"
    "text_in n ((?h @ bytes_of '':'') @ show_nat (ntohs (sa_port a))) b5"
    by (rule snprintf_at_text [OF b3(2) lens(4) show_nat_no_nul])
  obtain c5 where c5: "end_string b5 n = Inr c5" "text_in n ((?h @ bytes_of '':'') @ show_nat (ntohs (sa_port a))) c5"
    by (rule end_string_text [OF b5(2)])
  obtain c3 where c3: "end_string b3 n = Inr c3" "text_in n (?h @ bytes_of '':'') c3" by (rule end_string_text [OF b3(2)])
  note run = b4(1) b6(1) b2(1) b3(1) b5(1) c5(1) c3(1) text_in_cstr [OF b3(2)]
  show thesis
  proof (cases ?handled)
    case True
    then have "sockaddr_to_human ntop b n addr = Inr c5" using run by (simp add: sockaddr_to_human_def Some b1_def Let_def)
    moreover have "human_text ntop n addr = (?h @ bytes_of '':'') @ show_nat (ntohs (sa_port a))"
      using True by (simp add: human_text_def Some colon_port_def)
    ultimately show thesis using that c5(2) by simp
  next
    case False
    then have "sockaddr_to_human ntop b n addr = Inr c3" using run by (simp add: sockaddr_to_human_def Some b1_def Let_def)
    moreover have "human_text ntop n addr = ?h @ bytes_of '':''" using False by (simp add: human_text_def Some bytes_of_def)
    ultimately show thesis using that c3(2) by simp
  qed
qed

end
