(* ===== verification/Logger.thy ===== *)
theory Logger
  imports Net_Utils
begin

text \<open>
  \<open>src/logger.c\<close>, the lines of the access and sniffer logs that \<open>src/util.c\<close> sends through it, and the two
  helpers of \<open>src/tcpServerUtil.c\<close> and \<open>src/tcpClientUtil.c\<close> that report to it. The entries of \<open>w_log\<close>, which the
  handlers of the server append, are related here to the bytes that reach the standard output.
\<close>

section \<open>The logger\<close>

text \<open>The enumeration is an unsigned C integer, so a level may lie outside of the four constants.\<close>

type_synonym log_level = "32 word"

definition LOG_DEBUG :: log_level where "LOG_DEBUG = 0"
definition LOG_INFO :: log_level where "LOG_INFO = 1"
definition LOG_ERROR :: log_level where "LOG_ERROR = 2"
definition LOG_FATAL :: log_level where "LOG_FATAL = 3"

lemmas log_levels = LOG_DEBUG_def LOG_INFO_def LOG_ERROR_def LOG_FATAL_def

definition setLogLevel :: "log_level \<Rightarrow> log_level \<Rightarrow> log_level" where
  "setLogLevel newLevel current_level =
     (if newLevel \<ge> LOG_DEBUG \<and> newLevel \<le> LOG_FATAL then newLevel else current_level)"

definition levelDescription :: "log_level \<Rightarrow> string run" where
  "levelDescription level =
     (if level < LOG_DEBUG \<or> level > LOG_FATAL then Inr ''''
      else arr_get [''DEBUG'', ''INFO'', ''ERROR'', ''FATAL''] (unat level))"

text \<open>\<open>struct tm\<close>, as \<open>localtime\<close> fills it: \<open>tm_mon\<close> counts from 0.\<close>

record tm =
  tm_year :: int
  tm_mon :: int
  tm_mday :: int
  tm_hour :: int
  tm_min :: int
  tm_sec :: int

text \<open>\<open>%02d\<close>.\<close>

definition two_digits :: "int \<Rightarrow> byte list" where
  "two_digits n = (if 0 \<le> n \<and> n < 10 then 48 # show_int n else show_int n)"

definition stamp :: "tm \<Rightarrow> byte list" where
  "stamp t = show_int (tm_year t + 1900) @ bytes_of ''-'' @ two_digits (tm_mon t) @ bytes_of ''-'' @ two_digits (tm_mday t)
     @ bytes_of ''T'' @ two_digits (tm_hour t) @ bytes_of '':'' @ two_digits (tm_min t) @ bytes_of '':'' @ two_digits (tm_sec t)
     @ bytes_of ''Z'' @ [9]"

record streams =
  st_stdout :: "byte list"
  st_stderr :: "byte list"

text \<open>\<open>msg\<close> is the format with its arguments filled in; the second result is the argument of \<open>exit\<close>, if it is called.\<close>

definition logger :: "log_level \<Rightarrow> tm \<Rightarrow> log_level \<Rightarrow> byte list \<Rightarrow> streams \<Rightarrow> streams \<times> int option" where
  "logger current_level t level msg st =
     (let line = stamp t @ msg @ [10];
          st1 = (if level \<ge> current_level
                 then if level \<ge> LOG_ERROR then st\<lparr>st_stderr := st_stderr st @ line\<rparr> else st\<lparr>st_stdout := st_stdout st @ line\<rparr>
                 else st)
      in (st1, if level = LOG_FATAL then Some 1 else None))"

lemma levelDescription_ok: "\<exists>d. levelDescription level = Inr d \<and> (d = '''' \<longleftrightarrow> LOG_FATAL < level)"
proof (cases "LOG_FATAL < level")
  case False
  then have "level \<le> 3" by (simp add: log_levels)
  then have "unat level \<le> 3" by (simp add: word_le_nat_alt)
  then have "unat level \<in> {0, 1, 2, 3}" by auto
  with False show ?thesis by (auto simp: levelDescription_def log_levels)
qed (simp add: levelDescription_def log_levels)

section \<open>Log lines\<close>

definition tab :: "byte list" where "tab = [9]"

text \<open>\<open>%d\<close> of an unsigned integer.\<close>

definition show_signed :: "nat \<Rightarrow> byte list" where
  "show_signed n = show_int (sint (of_nat n :: 32 word))"

text \<open>
  The destination in \<open>origin_addr_buf\<close>. \<open>null_check\<close> is the test of \<open>curr_addr\<close> against NULL, which only
  \<open>log_access_info\<close> makes. The contents of the arrays when the function starts are arguments.
\<close>

definition print_dest :: "inet_ntop \<Rightarrow> bool \<Rightarrow> client \<Rightarrow> byte list \<Rightarrow> byte list \<Rightarrow> byte list run" where
  "print_dest ntop null_check c origin_addr_buf port_buf =
     (if atyp c = ATYP_DOMAIN_NAME
      then case dest_fqdn c of
             None \<Rightarrow> Inl Null_deref
           | Some name \<Rightarrow>
               bindE (strncpy origin_addr_buf (cstr name) 255) (\<lambda>b.
               bindE (snprintf_at port_buf 0 7 (colon_port (dest_port c))) (\<lambda>p.
               strncat b (cstr p) 6))
      else if curr_freed c then Inl Use_after_free
      else case curr_addr c of
             [] \<Rightarrow> if null_check then strncpy origin_addr_buf (bytes_of ''Address unkown'') (length origin_addr_buf) else Inl Null_deref
           | a # _ \<Rightarrow> printAddressPort ntop a origin_addr_buf)"

text \<open>
  The local arrays: \<open>client_addr_buf\<close>, \<open>origin_addr_buf\<close> and \<open>port_buf\<close>. The member \<open>client_addr\<close> is a plain \<open>struct sockaddr\<close>; that an
  IPv6 address does not fit there is already a fault of \<open>master_read_handler\<close>, which stores it.
\<close>

record log_arrays =
  client_addr_buf :: "byte list"
  origin_addr_buf :: "byte list"
  port_buf :: "byte list"

definition log_arrays_ok :: "log_arrays \<Rightarrow> bool" where
  "log_arrays_ok j \<longleftrightarrow> length (client_addr_buf j) = 64 \<and> length (origin_addr_buf j) = 262 \<and> length (port_buf j) = 7"

definition access_message :: "inet_ntop \<Rightarrow> client \<Rightarrow> nat \<Rightarrow> log_arrays \<Rightarrow> byte list run" where
  "access_message ntop c reply j =
     bindE (printSocketAddress ntop SOCKADDR_SIZE (client_addr c) (client_addr_buf j)) (\<lambda>(_, cbuf).
     bindE (print_dest ntop True c (origin_addr_buf j) (port_buf j)) (\<lambda>obuf.
     Inr (bytes_of ''<'' @ cstr (socks_user c) @ bytes_of ''>'' @ tab @ bytes_of ''A'' @ tab @ cstr cbuf @ tab @ cstr obuf
          @ tab @ bytes_of ''status:'' @ show_signed reply)))"

definition sniffer_message :: "inet_ntop \<Rightarrow> client \<Rightarrow> byte list \<Rightarrow> byte list \<Rightarrow> log_arrays \<Rightarrow> byte list run" where
  "sniffer_message ntop c user pass j =
     bindE (printSocketAddress ntop SOCKADDR_SIZE (client_addr c) (client_addr_buf j)) (\<lambda>(_, cbuf).
     bindE (print_dest ntop False c (origin_addr_buf j) (port_buf j)) (\<lambda>obuf.
     Inr (bytes_of ''<'' @ cstr (socks_user c) @ bytes_of ''>'' @ tab @ bytes_of ''P'' @ tab @ cstr cbuf @ tab @ cstr obuf
          @ tab @ cstr user @ bytes_of '':'' @ cstr pass)))"

text \<open>The line of an entry of \<open>w_log\<close>.\<close>

fun dest_text :: "inet_ntop \<Rightarrow> dest_log \<Rightarrow> byte list" where
  "dest_text ntop (Log_name name p) = name @ bytes_of '':'' @ show_nat p"
| "dest_text ntop (Log_addr a) = addrinfo_text ntop a"
| "dest_text ntop Log_unknown = bytes_of ''Address unkown''"

fun entry_text :: "inet_ntop \<Rightarrow> log_entry \<Rightarrow> byte list" where
  "entry_text ntop (Access_log user a d reply) =
     bytes_of ''<'' @ user @ bytes_of ''>'' @ tab @ bytes_of ''A'' @ tab @ address_text ntop a @ tab @ dest_text ntop d
     @ tab @ bytes_of ''status:'' @ show_nat reply"
| "entry_text ntop (Sniffer_log user a d u p) =
     bytes_of ''<'' @ user @ bytes_of ''>'' @ tab @ bytes_of ''P'' @ tab @ address_text ntop a @ tab @ dest_text ntop d
     @ tab @ u @ bytes_of '':'' @ p"

lemma show_signed_small:
  assumes "n < 2 ^ 31" shows "show_signed n = show_nat n"
proof -
  have "sint (of_nat n :: 32 word) = int n"
    using assms by (simp add: sint_uint unsigned_of_nat take_bit_nat_eq_self signed_take_bit_int_eq_self take_bit_int_eq_self)
  then show ?thesis by (simp add: show_signed_def show_int_def)
qed

definition dest_ports_ok :: "client \<Rightarrow> bool" where
  "dest_ports_ok c \<longleftrightarrow> (\<forall>a \<in> set (curr_addr c). length (sa_port (ai_addr a)) = 2)"

lemma print_dest_text:
  assumes "ntop_ok ntop" and "log_dest z c = Inr d" and "dest_ports_ok c" and "length ob = 262" "length pb = 7"
  obtains b where "print_dest ntop z c ob pb = Inr b" "cstr b = dest_text ntop d"
proof (cases "atyp c = ATYP_DOMAIN_NAME")
  case True
  then obtain name where name: "dest_fqdn c = Some name" "length (cstr name) < 255" "d = Log_name (cstr name) (ntohs (dest_port c))"
    using assms(2) by (auto simp: log_dest_def split: option.splits if_splits)
  obtain b where b: "strncpy ob (cstr name) 255 = Inr b" "text_in 262 (cstr name) b"
    by (rule strncpy_text [OF assms(4) name(2) _ cstr_nul_free]) simp
  let ?cp = "colon_port (dest_port c)"
  have "take 6 ?cp = ?cp" using colon_port_text(2) [of "dest_port c"] by simp
  then have p: "snprintf_at pb 0 7 ?cp = Inr (overwrite 0 (?cp @ [0]) pb)" "cstr (overwrite 0 (?cp @ [0]) pb) = ?cp"
    using assms(5) colon_port_text [of "dest_port c"] by (simp_all add: snprintf_at_def overwrite_def)
  have fits: "length (cstr name) + length ?cp < 262" using name(2) colon_port_text(2) [of "dest_port c"] by simp
  obtain b' where b': "strncat b ?cp 6 = Inr b'" "text_in 262 (cstr name @ ?cp) b'"
    by (rule strncat_text [OF b(2) fits colon_port_text(2,1)])
  have "print_dest ntop z c ob pb = Inr b'" using True name(1) b(1) p b'(1) by (simp add: print_dest_def)
  moreover have "cstr b' = dest_text ntop d" using text_in_cstr [OF b'(2)] name(3) by (simp add: colon_port_def)
  ultimately show thesis using that by blast
next
  case at: False
  then have nf: "\<not> curr_freed c" using assms(2) by (auto simp: log_dest_def split: if_splits)
  show thesis
  proof (cases "curr_addr c")
    case Nil
    then have z: "z" "d = Log_unknown" using assms(2) at nf by (auto simp: log_dest_def split: if_splits)
    have fits: "length (bytes_of ''Address unkown'') < 262" by (simp add: bytes_of_def)
    obtain b where b: "strncpy ob (bytes_of ''Address unkown'') 262 = Inr b" "text_in 262 (bytes_of ''Address unkown'') b"
      by (rule strncpy_text [OF assms(4) fits order.refl plain_text(7)])
    have "print_dest ntop z c ob pb = Inr b" using at nf Nil z b(1) assms(4) by (simp add: print_dest_def)
    then show thesis using that text_in_cstr [OF b(2)] z(2) by simp
  next
    case (Cons a as)
    have pl: "length (sa_port (ai_addr a)) = 2" using assms(3) Cons by (simp add: dest_ports_ok_def)
    obtain b where b: "printAddressPort ntop a ob = Inr b" "text_in 262 (addrinfo_text ntop a) b"
      by (rule printAddressPort_text [OF assms(1,4) _ pl]) simp
    have "print_dest ntop z c ob pb = Inr b" using at nf Cons b(1) by (simp add: print_dest_def)
    moreover have "d = Log_addr a" using assms(2) at nf Cons by (simp add: log_dest_def)
    ultimately show thesis using that text_in_cstr [OF b(2)] by simp
  qed
qed

lemma printed_client:
  assumes "ntop_ok ntop" and "length b = 64" and "sa_family a \<noteq> AF_INET6"
  obtains r b' where "printSocketAddress ntop SOCKADDR_SIZE a b = Inr (r, b')" "cstr b' = address_text ntop a"
proof -
  obtain r b' where "printSocketAddress ntop SOCKADDR_SIZE a b = Inr (r, b')" "text_in 64 (address_text ntop a) b'"
    by (rule printSocketAddress_text [OF assms(1,2), where room = SOCKADDR_SIZE]) (use assms(3) in auto)
  with that text_in_cstr show thesis by blast
qed

lemma printed_client_6: "sa_family a = AF_INET6 \<Longrightarrow> printSocketAddress ntop SOCKADDR_SIZE a b = Inl Out_of_bounds"
  by (simp add: printSocketAddress_def sockaddr_sizes)

text \<open>What a message is to be: the text of the entry, unless the client's address is read behind its end.\<close>

definition message_of :: "inet_ntop \<Rightarrow> client \<Rightarrow> log_entry \<Rightarrow> byte list run" where
  "message_of ntop c e = (if sa_family (client_addr c) = AF_INET6 then Inl Out_of_bounds else Inr (entry_text ntop e))"

lemma access_message_text:
  assumes "ntop_ok ntop" and "log_arrays_ok j" and "dest_ports_ok c" and "reply < 2 ^ 31"
    and "log_access_info c reply w = Inr w'"
  obtains e where "w' = w\<lparr>w_log := w_log w @ [e]\<rparr>" "access_message ntop c reply j = message_of ntop c e"
proof (cases "sa_family (client_addr c) = AF_INET6")
  case True
  then show thesis
    using that assms(5) by (auto simp: log_access_info_def bindE_eq_Inr message_of_def access_message_def printed_client_6)
next
  case False
  obtain d where d: "log_dest True c = Inr d" "w' = w\<lparr>w_log := w_log w @ [Access_log (cstr (socks_user c)) (client_addr c) d reply]\<rparr>"
    using assms(5) by (auto simp: log_access_info_def bindE_eq_Inr)
  have j: "length (client_addr_buf j) = 64" "length (origin_addr_buf j) = 262" "length (port_buf j) = 7"
    using assms(2) by (simp_all add: log_arrays_ok_def)
  obtain r b' where p: "printSocketAddress ntop SOCKADDR_SIZE (client_addr c) (client_addr_buf j) = Inr (r, b')"
    "cstr b' = address_text ntop (client_addr c)" by (rule printed_client [OF assms(1) j(1) False])
  obtain b where b: "print_dest ntop True c (origin_addr_buf j) (port_buf j) = Inr b" "cstr b = dest_text ntop d"
    by (rule print_dest_text [OF assms(1) d(1) assms(3) j(2,3)])
  show thesis using that [OF d(2)] p b show_signed_small [OF assms(4)] False by (simp add: access_message_def message_of_def)
qed

lemma sniffer_message_text:
  assumes "ntop_ok ntop" and "log_arrays_ok j" and "dest_ports_ok c"
    and "log_sniffer_info c user pass w = Inr w'"
  obtains e where "w' = w\<lparr>w_log := w_log w @ [e]\<rparr>" "sniffer_message ntop c user pass j = message_of ntop c e"
proof (cases "sa_family (client_addr c) = AF_INET6")
  case True
  then show thesis
    using that assms(4) by (auto simp: log_sniffer_info_def bindE_eq_Inr message_of_def sniffer_message_def printed_client_6)
next
  case False
  obtain d where d: "log_dest False c = Inr d"
    "w' = w\<lparr>w_log := w_log w @ [Sniffer_log (cstr (socks_user c)) (client_addr c) d (cstr user) (cstr pass)]\<rparr>"
    using assms(4) by (auto simp: log_sniffer_info_def bindE_eq_Inr)
  have j: "length (client_addr_buf j) = 64" "length (origin_addr_buf j) = 262" "length (port_buf j) = 7"
    using assms(2) by (simp_all add: log_arrays_ok_def)
  obtain r b' where p: "printSocketAddress ntop SOCKADDR_SIZE (client_addr c) (client_addr_buf j) = Inr (r, b')"
    "cstr b' = address_text ntop (client_addr c)" by (rule printed_client [OF assms(1) j(1) False])
  obtain b where b: "print_dest ntop False c (origin_addr_buf j) (port_buf j) = Inr b" "cstr b = dest_text ntop d"
    by (rule print_dest_text [OF assms(1) d(1) assms(3) j(2,3)])
  show thesis using that [OF d(2)] p b False by (simp add: sniffer_message_def message_of_def)
qed

text \<open>The two functions with the logger behind them.\<close>

definition print_access :: "inet_ntop \<Rightarrow> tm \<Rightarrow> log_level \<Rightarrow> client \<Rightarrow> nat \<Rightarrow> log_arrays \<Rightarrow> streams \<Rightarrow> (streams \<times> int option) run" where
  "print_access ntop t current_level c reply j st =
     bindE (access_message ntop c reply j) (\<lambda>msg. Inr (logger current_level t LOG_INFO msg st))"

definition print_sniffer ::
  "inet_ntop \<Rightarrow> tm \<Rightarrow> log_level \<Rightarrow> client \<Rightarrow> byte list \<Rightarrow> byte list \<Rightarrow> log_arrays \<Rightarrow> streams \<Rightarrow> (streams \<times> int option) run" where
  "print_sniffer ntop t current_level c user pass j st =
     bindE (sniffer_message ntop c user pass j) (\<lambda>msg. Inr (logger current_level t LOG_INFO msg st))"

text \<open>At the level \<open>main\<close> sets, a message of level INFO is a line of the standard output.\<close>

definition log_line :: "inet_ntop \<Rightarrow> tm \<Rightarrow> log_entry \<Rightarrow> byte list" where
  "log_line ntop t e = stamp t @ entry_text ntop e @ [10]"

lemma logger_info: "logger (setLogLevel LOG_INFO l) t LOG_INFO msg st = (st\<lparr>st_stdout := st_stdout st @ stamp t @ msg @ [10]\<rparr>, None)"
  by (simp add: logger_def setLogLevel_def log_levels Let_def word_le_nat_alt)

section \<open>Helpers that log\<close>

text \<open>
  \<open>acceptTCPConnection\<close>: the descriptor or \<open>-1\<close>, the static \<open>addrBuffer\<close> of 128 bytes, and the message logged.
\<close>

definition acceptTCPConnection :: "inet_ntop \<Rightarrow> accept_res \<Rightarrow> byte list \<Rightarrow> (int \<times> byte list \<times> (log_level \<times> byte list) list) run" where
  "acceptTCPConnection ntop acc addrBuffer =
     (case acc of
        Accept_err \<Rightarrow> Inr (-1, addrBuffer, [(LOG_ERROR, bytes_of ''accept() failed'')])
      | Accept_ok clntSock clntAddr _ \<Rightarrow>
          bindE (printSocketAddress ntop SOCKADDR_STORAGE_SIZE clntAddr addrBuffer) (\<lambda>(_, b). Inr (clntSock, b, [])))"

lemma acceptTCPConnection_ok:
  assumes "ntop_ok ntop" and "length b = 128"
  shows "\<exists>b' l. acceptTCPConnection ntop acc b = Inr ((case acc of Accept_err \<Rightarrow> -1 | Accept_ok fd _ _ \<Rightarrow> fd), b', l) \<and> length b' = 128"
proof (cases acc)
  case (Accept_ok fd a n)
  obtain r b' where "printSocketAddress ntop SOCKADDR_STORAGE_SIZE a b = Inr (r, b')" "text_in 128 (address_text ntop a) b'"
    by (rule printSocketAddress_text [OF assms, where room = SOCKADDR_STORAGE_SIZE]) (auto simp: sockaddr_sizes)
  with Accept_ok show ?thesis by (simp add: acceptTCPConnection_def text_in_def)
qed (simp add: acceptTCPConnection_def assms(2))

text \<open>
  \<open>tcpClientSocket\<close> of the server. \<open>gai\<close> is \<open>getaddrinfo\<close> on the family, type and protocol asked for (with
  \<open>0\<close> for \<open>AF_UNSPEC\<close> and \<open>6\<close> for \<open>IPPROTO_TCP\<close>), \<open>why\<close> is \<open>gai_strerror\<close>.
\<close>

definition tcpClientSocket_server ::
  "(int \<Rightarrow> int \<Rightarrow> int \<Rightarrow> byte list \<Rightarrow> byte list \<Rightarrow> int \<times> addrinfo list) \<Rightarrow> (int \<Rightarrow> byte list) \<Rightarrow> byte list \<Rightarrow> byte list
    \<Rightarrow> addrinfo list option \<times> (log_level \<times> byte list) list" where
  "tcpClientSocket_server gai why host service =
     (case gai 0 SOCK_STREAM 6 host service of (rtnVal, servAddr) \<Rightarrow>
        if rtnVal \<noteq> 0 then (None, [(LOG_ERROR, bytes_of ''getaddrinfo() failed '' @ why rtnVal)])
        else (Some servAddr, []))"

end
