(* ===== verification/Blocking_IO.thy ===== *)
theory Blocking_IO
  imports SocketsIO
begin

text \<open>
  The two blocking transfers of \<open>src/netutils.c\<close>. Both send with the same loop, once out of a buffer and once out of a
  local array; \<open>send_all\<close> is the loop over the bytes themselves. A loop is run against the answers of the
  successive \<open>recv\<close> and \<open>send\<close> calls, given as lists; \<open>None\<close> is a run that is still waiting when the answers
  given so far are used up. \<open>err\<close> is the value \<open>errno\<close> has before the call.
\<close>

section \<open>The loops\<close>

text \<open>The bytes sent; \<open>Some e\<close> as the first result is the exit with \<open>ret = e\<close>.\<close>

fun send_all :: "int \<Rightarrow> sys_send list \<Rightarrow> byte list \<Rightarrow> (int option \<times> byte list \<times> sys_send list) option" where
  "send_all err [] bs = None"
| "send_all err (sd # sds) bs =
     (case sd bs of
        Send_err e \<Rightarrow> Some (Some e, [], sds)
      | Send_ok nwritten \<Rightarrow>
          if nwritten > 0
          then if drop nwritten bs \<noteq> []
               then map_option (\<lambda>(e, out, r). (e, take nwritten bs @ out, r)) (send_all err sds (drop nwritten bs))
               else Some (None, take nwritten bs, sds)
          else Some (Some err, [], sds))"

fun sock_blocking_write :: "int \<Rightarrow> sys_send list \<Rightarrow> buffer \<Rightarrow> (int \<times> byte list \<times> buffer) option run" where
  "sock_blocking_write err [] b = Inr None"
| "sock_blocking_write err (sd # sds) b =
     bindE (buffer_read_ptr b) (\<lambda>(ptr, n).
     let bs = take n (drop ptr (buf_data b)) in
     case sd bs of
       Send_err e \<Rightarrow> Inr (Some (e, [], b))
     | Send_ok nwritten \<Rightarrow>
         if nwritten > 0
         then bindE (buffer_read_adv b (int nwritten)) (\<lambda>b1.
              if buffer_can_read b1
              then bindE (sock_blocking_write err sds b1) (\<lambda>r.
                   Inr (map_option (\<lambda>(ret, out, b2). (ret, take nwritten bs @ out, b2)) r))
              else Inr (Some (0, take nwritten bs, b1)))
         else Inr (Some (err, [], b)))"

definition COPY_BUF :: nat where "COPY_BUF = 4096"

text \<open>The return value and the bytes that reached \<open>dest\<close>.\<close>

fun sock_blocking_copy :: "int \<Rightarrow> sys_read list \<Rightarrow> sys_send list \<Rightarrow> (int \<times> byte list) option" where
  "sock_blocking_copy err [] sds = None"
| "sock_blocking_copy err (rd # rds) sds =
     (case rd COPY_BUF of
        Read_err _ \<Rightarrow> Some (0, [])
      | Read_ok bs \<Rightarrow>
          if bs = [] then Some (0, [])
          else case send_all err sds bs of
                 None \<Rightarrow> None
               | Some (Some e, out, _) \<Rightarrow> Some (e, out)
               | Some (None, out, sds1) \<Rightarrow> map_option (\<lambda>(ret, rest). (ret, out @ rest)) (sock_blocking_copy err rds sds1))"

section \<open>What they send\<close>

text \<open>A socket that takes at least one byte of what it is offered, as a blocking one does when it does not fail.\<close>

definition progressing :: "sys_send \<Rightarrow> bool" where
  "progressing sd \<longleftrightarrow> send_ok sd \<and> (\<forall>bs. bs \<noteq> [] \<longrightarrow> (\<exists>k > 0. sd bs = Send_ok k))"

lemma send_all_prefix:
  assumes "\<forall>sd \<in> set sds. send_ok sd" and "send_all err sds bs = Some (e, out, r)"
  shows "out = take (length out) bs \<and> (e = None \<longrightarrow> out = bs)"
  using assms
proof (induction sds arbitrary: bs e out r)
  case (Cons sd sds)
  show ?case
  proof (cases "sd bs")
    case (Send_ok k)
    show ?thesis
    proof (cases "k > 0 \<and> drop k bs \<noteq> []")
      case True
      then obtain out' where out': "send_all err sds (drop k bs) = Some (e, out', r)" "out = take k bs @ out'"
        using Cons.prems(2) Send_ok by auto
      have k: "k < length bs" using True by simp
      have "out' = take (length out') (drop k bs) \<and> (e = None \<longrightarrow> out' = drop k bs)"
        using Cons.IH [OF _ out'(1)] Cons.prems(1) by simp
      moreover have "take (k + length out') bs = take k bs @ take (length out') (drop k bs)" by (rule take_add)
      ultimately show ?thesis using k out'(2) by (auto simp: min_def)
    next
      case False
      then show ?thesis using Cons.prems(2) Send_ok by (auto split: if_splits)
    qed
  qed (use Cons.prems(2) in auto)
qed simp

lemma send_all_progress:
  assumes "\<forall>sd \<in> set sds. progressing sd" and "bs \<noteq> []" and "length bs \<le> length sds"
  obtains r where "send_all err sds bs = Some (None, bs, r)" "set r \<subseteq> set sds" "length sds \<le> length bs + length r"
  using assms
proof (induction sds arbitrary: bs thesis)
  case (Cons sd sds)
  obtain k where k: "k > 0" "sd bs = Send_ok k" using Cons.prems(2,3) by (auto simp: progressing_def)
  have "send_ok sd" using Cons.prems(2) by (simp add: progressing_def)
  then have le: "k \<le> length bs" using k(2) by (simp add: send_ok_def)
  show ?case
  proof (cases "drop k bs = []")
    case True
    then have "send_all err (sd # sds) bs = Some (None, bs, sds)" using k by simp
    then show ?thesis by (rule Cons.prems(1)) (use k(1) le in auto)
  next
    case False
    have len: "length (drop k bs) \<le> length sds" using Cons.prems(4) k(1) by simp
    obtain r where r: "send_all err sds (drop k bs) = Some (None, drop k bs, r)" "set r \<subseteq> set sds"
      "length sds \<le> length (drop k bs) + length r"
      by (rule Cons.IH [OF _ _ False len]) (use Cons.prems(2) in auto)
    then have "send_all err (sd # sds) bs = Some (None, bs, r)" using k False by simp
    then show ?thesis by (rule Cons.prems(1)) (use r k(1) le in auto)
  qed
qed simp

text \<open>Out of a buffer: the loop over its contents, and the buffer is left with what was not sent.\<close>

lemma sock_blocking_write_send_all:
  assumes "buffer_wf b" and "\<forall>sd \<in> set sds. send_ok sd"
  shows "\<exists>res. sock_blocking_write err sds b = Inr res
    \<and> map_option (\<lambda>(ret, out, _). (ret, out)) res
        = map_option (\<lambda>(e, out, _). (case e of None \<Rightarrow> 0 | Some x \<Rightarrow> x, out)) (send_all err sds (contents b))
    \<and> (\<forall>ret out b'. res = Some (ret, out, b') \<longrightarrow> buffer_wf b' \<and> contents b' = drop (length out) (contents b))"
  using assms
proof (induction sds arbitrary: b)
  case (Cons sd sds)
  have c: "take (length (contents b)) (drop (buf_read b) (buf_data b)) = contents b"
    using length_contents [OF Cons.prems(1)] by (simp add: contents_def)
  show ?case
  proof (cases "sd (contents b)")
    case (Send_err e)
    with Cons.prems(1) c show ?thesis by simp
  next
    case (Send_ok k)
    have "send_ok sd" using Cons.prems(2) by simp
    then have le: "k \<le> length (contents b)" using Send_ok by (simp add: send_ok_def)
    obtain b1 where b1: "buffer_read_adv b (int k) = Inr b1" "buffer_wf b1" "contents b1 = drop k (contents b)"
      by (rule buffer_read_adv_ok [OF Cons.prems(1) le])
    obtain res where res: "sock_blocking_write err sds b1 = Inr res"
      "map_option (\<lambda>(ret, out, _). (ret, out)) res
         = map_option (\<lambda>(e, out, _). (case e of None \<Rightarrow> 0 | Some x \<Rightarrow> x, out)) (send_all err sds (drop k (contents b)))"
      "\<forall>ret out b'. res = Some (ret, out, b') \<longrightarrow> buffer_wf b' \<and> contents b' = drop (length out) (drop k (contents b))"
      using Cons.IH [OF b1(2)] Cons.prems(2) b1(3) by auto
    show ?thesis
    proof (cases "k > 0 \<and> drop k (contents b) \<noteq> []")
      case True
      then have "sock_blocking_write err (sd # sds) b = Inr (map_option (\<lambda>(ret, out, b2). (ret, take k (contents b) @ out, b2)) res)"
        using Cons.prems(1) c Send_ok b1 res(1) by (simp add: buffer_can_read_iff Let_def)
      moreover have "map_option (\<lambda>(ret, out, _). (ret, out)) (map_option (\<lambda>(ret, out, b2). (ret, take k (contents b) @ out, b2)) res)
          = map_option (\<lambda>(e, out, _). (case e of None \<Rightarrow> 0 | Some x \<Rightarrow> x, out)) (send_all err (sd # sds) (contents b))"
        using True Send_ok res(2) by (cases res; cases "send_all err sds (drop k (contents b))") auto
      ultimately show ?thesis using res(3) le by (auto simp: min_def add.commute)
    next
      case False
      with Cons.prems(1) c Send_ok b1 show ?thesis by (auto simp: buffer_can_read_iff Let_def)
    qed
  qed
qed simp

lemma sock_blocking_copy_all:
  assumes "\<forall>sd \<in> set sds. progressing sd" and "length (concat chunks) \<le> length sds"
    and "list_all2 (\<lambda>rd bs. rd COPY_BUF = Read_ok bs \<and> bs \<noteq> []) rds chunks" and "eof COPY_BUF = Read_ok []"
  shows "sock_blocking_copy err (rds @ eof # later) sds = Some (0, concat chunks)"
  using assms(3,1,2)
proof (induction rds chunks arbitrary: sds rule: list_all2_induct)
  case Nil
  then show ?case using assms(4) by simp
next
  case (Cons rd rds bs chunks)
  have bs: "rd COPY_BUF = Read_ok bs" "bs \<noteq> []" using Cons.hyps(1) by auto
  have len: "length bs \<le> length sds" using Cons.prems(2) by simp
  obtain r where r: "send_all err sds bs = Some (None, bs, r)" "set r \<subseteq> set sds" "length sds \<le> length bs + length r"
    by (rule send_all_progress [OF Cons.prems(1) bs(2) len])
  have "sock_blocking_copy err (rds @ eof # later) r = Some (0, concat chunks)"
    by (rule Cons.IH) (use Cons.prems r in auto)
  with bs r(1) show ?case by simp
qed

lemma sock_blocking_write_all:
  assumes "buffer_wf b" and "contents b \<noteq> []" and "\<forall>sd \<in> set sds. progressing sd" and "length (contents b) \<le> length sds"
  obtains b' where "sock_blocking_write err sds b = Inr (Some (0, contents b, b'))" "buffer_wf b'" "contents b' = []"
proof -
  obtain r where r: "send_all err sds (contents b) = Some (None, contents b, r)"
    by (rule send_all_progress [OF assms(3,2,4)])
  have "\<forall>sd \<in> set sds. send_ok sd" using assms(3) by (simp add: progressing_def)
  from sock_blocking_write_send_all [OF assms(1) this, of err] r
  obtain res where "sock_blocking_write err sds b = Inr res" "map_option (\<lambda>(ret, out, _). (ret, out)) res = Some (0, contents b)"
    "\<forall>ret out b'. res = Some (ret, out, b') \<longrightarrow> buffer_wf b' \<and> contents b' = drop (length out) (contents b)" by auto
  then show thesis using that by (cases res) auto
qed

text \<open>
  With nothing in the buffer the loop still calls \<open>send\<close> once, which returns 0, and the result is what \<open>errno\<close> held
  before.
\<close>

lemma sock_blocking_write_empty:
  assumes "buffer_wf b" and "contents b = []" and "sd [] = Send_ok 0"
  shows "sock_blocking_write err (sd # sds) b = Inr (Some (err, [], b))"
  using assms length_contents [OF assms(1)] by simp

text \<open>A \<open>recv\<close> that fails is reported as 0, like the end of the input.\<close>

lemma sock_blocking_copy_recv_error:
  assumes "rd COPY_BUF = Read_err e"
  shows "sock_blocking_copy err (rd # rds) sds = Some (0, [])"
  using assms by simp

end
