(* ===== verification/Demo_World.thy ===== *)
theory Demo_World
  imports Lifetime Main_Loop Client_Session Logger Blocking_IO
begin

text \<open>
  A concrete server on which the properties of the handlers are instantiated: a selector made for
  1024 descriptors with one proxied connection on descriptor 5 and a management connection on
  descriptor 7, one user \<open>foo:bar\<close>, one token \<open>s3cret\<close>. What the system answers to \<open>read\<close> is a
  parameter.
\<close>

definition demo_users :: user_table where
  "demo_users = \<lparr>users = (replicate MAX_USERS no_user)[0 :=
      \<lparr>username = bytes_of ''foo'' @ replicate 8 0, password = bytes_of ''bar'' @ replicate 18 0\<rparr>],
     user_count = 1\<rparr>"

definition demo_tokens :: token_table where
  "demo_tokens = empty_tokens\<lparr>tokens := (tokens empty_tokens)[0 := bytes_of ''s3cret'' @ replicate 26 0], token_count := 1\<rparr>"

definition demo_env :: "byte list \<Rightarrow> sysenv" where
  "demo_env bs =
     \<lparr>env_read = (\<lambda>n. Read_ok (take n bs)), env_reread = (\<lambda>n. Read_err EAGAIN), env_send = (\<lambda>xs. Send_ok (length xs)), env_socket = 6, env_connect = 0,
      env_so_error = 0, env_sockname = \<lparr>sa_family = AF_INET, sa_addr = [127, 0, 0, 1], sa_port = [4, 56]\<rparr>,
      env_malloc = (\<lambda>_. True), env_junk = (\<lambda>n. replicate n 0), env_wild = 0, env_thread = True,
      env_accept = Accept_ok 8 \<lparr>sa_family = AF_INET, sa_addr = [127, 0, 0, 1], sa_port = [200, 1]\<rparr> 16\<rparr>"

definition demo_client :: "nat \<Rightarrow> client" where
  "demo_client st = fresh_client 5 64 (replicate 64 0) (replicate 64 0) (Some st)"

definition demo_mgmt :: mgmt_client where
  "demo_mgmt =
     \<lparr>mc_fd = 7, write_buf = buffer_init MGMT_BUFFSIZE (replicate MGMT_BUFFSIZE 0),
      pending_buf = buffer_init MGMT_BUFFSIZE (replicate MGMT_BUFFSIZE 0),
      input = \<lparr>in_buf = replicate (MGMT_BUFFSIZE + read_buf_padding) 0, in_lim = MGMT_BUFFSIZE, in_cur = MGMT_BUFFSIZE,
               in_mar = MGMT_BUFFSIZE, in_tok = MGMT_BUFFSIZE, in_yyt1 = 0, in_yyt2 = 0,
               in_state = -1, in_cond = yycpass, in_bufSize = MGMT_BUFFSIZE\<rparr>,
      quitted = False\<rparr>"

definition demo_table :: "(handler_id, attachment) item list" where
  "demo_table = (replicate (ITEMS_MAX_SIZE + 1) (item_init zero_item))
     [5 := new_item 5 OP_READ socks5_handler (Some (A_client 0)),
      7 := new_item 7 OP_READ mgmt_handler (Some (A_mgmt 0))]"

definition demo_world :: "client \<Rightarrow> byte list \<Rightarrow> world" where
  "demo_world c bs =
     \<lparr>fds = Some demo_table, fd_size = ITEMS_MAX_SIZE + 1, max_fd = 7, master_r = {5, 7}, master_w = {},
      slave_r = {}, slave_w = {}, master_t = (10, 0), slave_t = (0, 0), resolution_jobs = [],
      w_state = initial_state\<lparr>proxy_client_count := 1, mgmt_client_count := 1, all_connections := 2\<rparr>,
      w_users = demo_users, w_tokens = demo_tokens, w_clients = [0 \<mapsto> c], w_mgmt = [0 \<mapsto> demo_mgmt], w_next = 1,
      w_threads = [], w_trace = [], w_log = [], w_env = demo_env bs, w_envs = (\<lambda>_. demo_env bs), w_tick = 0\<rparr>"

definition demo_key :: key where
  "demo_key = \<lparr>key_fd = 5, key_data = Some (A_client 0)\<rparr>"

definition demo_mgmt_key :: key where
  "demo_mgmt_key = \<lparr>key_fd = 7, key_data = Some (A_mgmt 0)\<rparr>"

lemma demo_table_nth:
  assumes "n < ITEMS_MAX_SIZE + 1"
  shows "demo_table ! n = (if n = 5 then new_item 5 OP_READ socks5_handler (Some (A_client 0))
    else if n = 7 then new_item 7 OP_READ mgmt_handler (Some (A_mgmt 0)) else item_init zero_item)"
  using assms by (simp add: demo_table_def nth_list_update ITEMS_MAX_SIZE_def)

lemma demo_registered:
  "registered (demo_world c bs) =
     [5 \<mapsto> new_item 5 OP_READ socks5_handler (Some (A_client 0)), 7 \<mapsto> new_item 7 OP_READ mgmt_handler (Some (A_mgmt 0))]"
proof
  fix fd
  have len: "length demo_table = ITEMS_MAX_SIZE + 1"
    by (simp add: demo_table_def)
  show "registered (demo_world c bs) fd =
     [5 \<mapsto> new_item 5 OP_READ socks5_handler (Some (A_client 0)), 7 \<mapsto> new_item 7 OP_READ mgmt_handler (Some (A_mgmt 0))] fd"
  proof (cases "0 \<le> fd \<and> nat fd < ITEMS_MAX_SIZE + 1")
    case True
    then show ?thesis
      using demo_table_nth [of "nat fd"] len
      by (auto simp: registered_def demo_world_def new_item_def ITEM_USED_def item_init_def FD_UNUSED_def)
  next
    case False
    then have "fd \<noteq> 5" "fd \<noteq> 7" by (auto simp: ITEMS_MAX_SIZE_def)
    with False len show ?thesis by (auto simp: registered_def demo_world_def)
  qed
qed

lemma demo_sel_wf [simp]: "sel_wf (demo_world c bs)"
  unfolding sel_wf_def demo_registered
  by (auto simp: demo_world_def item_ok_def new_item_def ITEMS_MAX_SIZE_def demo_table_def interested_def
      wants_def hasFlag_def OP_READ_def OP_WRITE_def split: if_splits)

lemma demo_fields [simp]:
  "w_clients (demo_world c bs) = [0 \<mapsto> c]" "w_env (demo_world c bs) = demo_env bs"
  "w_users (demo_world c bs) = demo_users" "w_tokens (demo_world c bs) = demo_tokens"
  "w_mgmt (demo_world c bs) = [0 \<mapsto> demo_mgmt]"
  by (simp_all add: demo_world_def)

lemma demo_env_ok [simp]: "env_ok (demo_env bs)"
  by (simp add: env_ok_def demo_env_def read_ok_def send_ok_def AF_INET_def)

lemma demo_client_wf [simp]: "client_wf (demo_client st)"
  by (simp add: demo_client_def fresh_client_def client_wf_def MAX_CREDENTIALS_def)

lemma demo_client_fields [simp]:
  "client_sock (demo_client st) = 5" "origin_sock (demo_client st) = -1" "client_state (demo_client st) = st"
  "contents (origin_buf (demo_client st)) = []" "Buffer.space (origin_buf (demo_client st)) = 64"
  "contents (client_buf (demo_client st)) = []" "Buffer.space (client_buf (demo_client st)) = 64"
  "dest_fqdn (demo_client st) = None" "active_ends (demo_client st) = CLIENT" "atyp (demo_client st) = 0"
  "curr_addr (demo_client st) = []" "curr_freed (demo_client st) = False" "client_addr (demo_client st) = no_addr"
  "stm_current (demo_client st) = Some st" "cstr (socks_user (demo_client st)) = [63]"
  by (simp_all add: demo_client_def fresh_client_def client_state_def cstr_def)

lemma demo_serving [simp]: "serving demo_key 0 (demo_client st) (demo_world (demo_client st) bs)"
  by (simp add: serving_def demo_key_def proxy_fd_def demo_registered new_item_def)

lemma demo_received:
  "received (demo_client st) (demo_world (demo_client st) bs) = take 64 bs"
  "hung_up (demo_client st) (demo_world (demo_client st) bs) \<longleftrightarrow> bs = []"
  by (simp_all add: received_def hung_up_def rd_bytes_def rd_eof_def demo_env_def BUFFSIZE_def)

lemma demo_closing: "closing (demo_client st) = (WRITE_REMAINING, CLIENT_WRITE)"
proof -
  have "ends_after CLIENT_READ CLIENT = CLIENT_WRITE" "CLIENT_WRITE \<noteq> 0" "\<not> hasFlag CLIENT_WRITE (CLIENT_READ OR ORIGIN_READ)"
    by (code_simp)+
  then show ?thesis by (simp add: closing_def close_state_def Let_def)
qed

lemma demo_key_fd [simp]: "key_fd demo_key = 5"
  by (simp add: demo_key_def)

lemma take_update_first: "xs \<noteq> [] \<Longrightarrow> take (Suc 0) (xs[0 := y]) = [y]"
  by (cases xs) simp_all

lemma demo_user_entries [simp]: "user_entries demo_users = [(bytes_of ''foo'', bytes_of ''bar'')]" "user_count demo_users = 1"
  by (simp_all add: user_entries_def demo_users_def bytes_of_def cstr_def MAX_USERS_def take_update_first)

section \<open>A login\<close>

definition demo_credentials :: "byte list" where
  "demo_credentials = [1, 3, 102, 111, 111, 3, 98, 97, 114]"

lemma demo_parse_auth: "parse_auth (take 64 demo_credentials) = Some (1, bytes_of ''foo'', bytes_of ''bar'', [])"
  by (simp add: demo_credentials_def parse_auth_def bytes_of_def)

lemma demo_authentic: "authentic 1 (bytes_of ''foo'') (bytes_of ''bar'') demo_users"
  by (simp add: authentic_def cstr_def bytes_of_def)

lemma demo_not_filled: "length bs < 64 \<Longrightarrow> \<not> filled_up (demo_client st) (demo_world (demo_client st) bs)"
  by (simp add: filled_up_def rd_bytes_def demo_env_def BUFFSIZE_def)

lemma demo_login:
  "\<exists>w'. stm_handler_read proxy_machine client_stm demo_key (demo_world (demo_client PLAIN_AUTH) demo_credentials) = Inr (REQUEST, w')"
proof -
  let ?c = "demo_client PLAIN_AUTH" and ?bs = demo_credentials
  let ?w = "demo_world ?c ?bs"
  have k: "key_data demo_key = Some (A_client 0)" "w_clients ?w 0 = Some ?c" "stm_current ?c = Some PLAIN_AUTH"
    by (simp_all add: demo_key_def)
  have "\<not> filled_up ?c ?w" by (rule demo_not_filled) (simp add: demo_credentials_def)
  moreover have "\<not> hung_up ?c ?w" by (simp add: demo_received demo_credentials_def)
  ultimately obtain c' where c': "served 0 ?c ?w (read_plain_auth demo_key ?w) REQUEST CLIENT []
      (take 64 (auth_reply 1 (bytes_of ''foo'') (bytes_of ''bar'') demo_users)) [] c'"
    using read_plain_auth_ok [OF demo_serving, of PLAIN_AUTH ?bs] demo_authentic
    by (auto simp: demo_received demo_parse_auth auth_state_def)
  then obtain w2 where w2: "read_plain_auth demo_key ?w = Inr (REQUEST, w2)" "w_clients w2 0 = Some c'"
    "stm_current c' = Some PLAIN_AUTH"
    using k(3) by (auto simp: served_def)
  have "stm_handler_read proxy_machine client_stm demo_key ?w =
      bindE (arrival REQUEST demo_key (put_client 0 (c'\<lparr>stm_current := Some REQUEST\<rparr>) w2)) (\<lambda>w3. Inr (REQUEST, w3))"
    unfolding stm_handler_read_def using dispatch_run [OF k, of on_read_ready read_plain_auth REQUEST w2 c'] w2
    by simp
  then show ?thesis by (simp add: arrival_def no_action_def)
qed

section \<open>A parser\<close>

definition demo_parser :: pop3_parser where
  "demo_parser = \<lparr>pop_state = POP3_USER_CMD, password_complete = False, user_complete = False,
     pop_user = replicate MAX_CREDENTIALS_LEN 0, pop_pass = replicate MAX_CREDENTIALS_LEN 0,
     pop_buf = buffer_init 0 [], read_ptr = 0, write_ptr = 0\<rparr>"

lemma demo_parser_wf: "pop3_wf demo_parser"
  by (simp add: pop3_wf_def demo_parser_def MAX_CREDENTIALS_LEN_def)

section \<open>An input window\<close>

definition demo_input :: "nat \<Rightarrow> byte list \<Rightarrow> Input" where
  "demo_input cond bs =
     \<lparr>in_buf = bs @ replicate (MGMT_BUFFSIZE + read_buf_padding - length bs) 0, in_lim = length bs, in_cur = 0, in_mar = 0, in_tok = 0,
      in_yyt1 = 0, in_yyt2 = 0, in_state = -1, in_cond = cond, in_bufSize = MGMT_BUFFSIZE\<rparr>"

lemma demo_input_ok:
  assumes "length bs \<le> MGMT_BUFFSIZE"
  shows "input_wf (demo_input cond bs)" and "line_start cond (demo_input cond bs)" and "pending (demo_input cond bs) = bs"
    and "roomy (demo_input cond bs)"
  using assms by (simp_all add: line_start_def input_wf_def roomy_def demo_input_def pending_def nth_append MGMT_BUFFSIZE_def)

lemma demo_input_fields [simp]: "in_tok (demo_input cond bs) = 0" "in_cond (demo_input cond bs) = cond"
  "in_bufSize (demo_input cond bs) = MGMT_BUFFSIZE"
  by (simp_all add: demo_input_def)

section \<open>A management connection\<close>

lemma demo_input_lexer:
  assumes "length bs \<le> MGMT_BUFFSIZE" and "cond \<in> {yycpass, yyctrns}"
  shows "lexer_wf (demo_input cond bs)"
proof -
  have "in_buf (demo_input cond bs) ! MGMT_BUFFSIZE = 0"
    using assms(1) by (simp add: demo_input_def nth_append)
  then show ?thesis
    using assms demo_input_ok(1,4) [OF assms(1)]
    by (simp add: lexer_wf_def demo_input_fields) (simp add: demo_input_def stage_waits_def tag_waits_def progress_waits_def)
qed

definition demo_typed :: "nat \<Rightarrow> byte list \<Rightarrow> mgmt_client" where
  "demo_typed cond bs = demo_mgmt\<lparr>input := demo_input cond bs\<rparr>"

lemma demo_typed_fields [simp]:
  "input (demo_typed cond bs) = demo_input cond bs" "contents (write_buf (demo_typed cond bs)) = []"
  "Buffer.space (write_buf (demo_typed cond bs)) = MGMT_BUFFSIZE" "quitted (demo_typed cond bs) = False"
  "mc_fd (demo_typed cond bs) = 7" "contents (pending_buf (demo_typed cond bs)) = []"
  by (simp_all add: demo_typed_def demo_mgmt_def)

lemma demo_buffers:
  "buffer_wf (write_buf demo_mgmt)" "buf_limit (write_buf demo_mgmt) = MGMT_BUFFSIZE"
  "buffer_wf (pending_buf demo_mgmt)" "buf_limit (pending_buf demo_mgmt) = MGMT_BUFFSIZE"
  by (simp_all add: demo_mgmt_def) (simp_all add: buffer_init_def buffer_reset_def)

lemma demo_typed_wf:
  assumes "length bs \<le> MGMT_BUFFSIZE" and "cond \<in> {yycpass, yyctrns}"
  shows "mgmt_wf (demo_typed cond bs)"
  using demo_buffers demo_input_lexer [OF assms] by (simp add: mgmt_wf_def) (simp add: demo_typed_def)

lemma demo_mgmt_wf: "mgmt_wf demo_mgmt"
proof -
  have "lexer_wf (input demo_mgmt)"
    by (simp add: demo_mgmt_def lexer_wf_def input_wf_def roomy_def stage_waits_def tag_waits_def progress_waits_def del: replicate_Suc)
  then show ?thesis
    using demo_buffers by (simp add: mgmt_wf_def) (simp add: demo_mgmt_def)
qed

lemma demo_token_entries: "token_entries demo_tokens = [bytes_of ''s3cret'']"
  by (simp add: token_entries_def demo_tokens_def empty_tokens_def MAX_TOKENS_def take_update_first bytes_of_def cstr_def)

lemma demo_tables: "tables_ok (demo_world c bs)"
proof -
  have "users_wf demo_users"
    by (auto simp: users_wf_def demo_users_def user_limits no_user_def bytes_of_def dest!: set_update_subset_insert [THEN subsetD])
  moreover have "tokens_wf demo_tokens"
    by (auto simp: tokens_wf_def demo_tokens_def empty_tokens_def token_limits bytes_of_def dest!: set_update_subset_insert [THEN subsetD])
  moreover have "buffsize_ok (w_state (demo_world c bs))"
    by (simp add: buffsize_ok_def demo_world_def initial_state_def)
  ultimately show ?thesis by (simp add: tables_ok_def)
qed

lemma demo_mgmt_inv: "mgmt_inv (demo_world c bs)"
proof -
  have "links [0 \<mapsto> demo_mgmt] (registered (demo_world c bs)) 1"
    using demo_mgmt_wf unfolding demo_registered
    by (intro linksI) (auto simp: new_item_def demo_mgmt_def split: if_splits)
  moreover have "w_next (demo_world c bs) = 1" by (simp add: demo_world_def)
  ultimately show ?thesis by (simp add: mgmt_inv_def demo_tables)
qed

lemma demo_mgmt_key: "mgmt_key demo_mgmt_key 0 demo_mgmt (demo_world c bs)"
  by (simp add: mgmt_key_def demo_mgmt_key_def) (simp add: demo_mgmt_def)

text \<open>What an administrator types: a token, then a command.\<close>

definition demo_lines :: "byte list list" where
  "demo_lines = [bytes_of ''TOKEN s3cret'' @ CRLF, bytes_of ''users'' @ CRLF]"

lemma demo_lines_ok: "list_all2 line_of [Token (bytes_of ''s3cret''), Users_list] demo_lines"
proof -
  have "bytes_of ''TOKEN s3cret'' @ CRLF = arg_line (bytes_of ''TOKEN'') 0 (bytes_of ''s3cret'') 0"
    by (simp add: arg_line_def bytes_of_def CRLF_def)
  moreover have "letters ''token'' (bytes_of ''TOKEN'')" "letters ''users'' (bytes_of ''users'')"
    by (simp_all add: letters_def bytes_of_def tolower_def)
  moreover have "\<forall>c\<in>set (bytes_of ''s3cret''). printable c" "bytes_of ''s3cret'' \<noteq> []"
    by (simp_all add: bytes_of_def printable_def)
  moreover have "bytes_of ''users'' @ CRLF = bytes_of ''users'' @ replicate 0 32 @ [13, 10]"
    by (simp add: CRLF_def)
  ultimately show ?thesis
    unfolding demo_lines_def by (simp del: replicate_0) blast
qed

text \<open>A connection that has not taken its answers: 28 bytes are left in the output buffer.\<close>

definition demo_crowded :: mgmt_client where
  "demo_crowded = (demo_typed yyctrns (bytes_of ''users'' @ CRLF))
     \<lparr>write_buf := \<lparr>buf_data = replicate MGMT_BUFFSIZE 46, buf_limit = MGMT_BUFFSIZE, buf_read = 0, buf_write = 2020\<rparr>\<rparr>"

lemma demo_crowded_ok:
  "mgmt_wf demo_crowded" "Buffer.space (write_buf demo_crowded) = 28" "input demo_crowded = demo_input yyctrns (bytes_of ''users'' @ CRLF)"
  "quitted demo_crowded = False"
proof -
  have "mgmt_wf (demo_typed yyctrns (bytes_of ''users'' @ CRLF))"
    by (rule demo_typed_wf) (simp_all add: bytes_of_def CRLF_def MGMT_BUFFSIZE_def)
  then show "mgmt_wf demo_crowded"
    by (simp add: mgmt_wf_def demo_crowded_def buffer_wf_def MGMT_BUFFSIZE_def)
qed (simp_all add: demo_crowded_def Buffer.space_def MGMT_BUFFSIZE_def)

section \<open>A process that starts\<close>

definition demo_blank :: world where
  "demo_blank = (demo_world (demo_client PROXY) [])
     \<lparr>w_state := initial_state, w_users := empty_users, w_tokens := empty_tokens, w_mgmt := Map.empty, w_clients := Map.empty\<rparr>"

lemma demo_blank_fresh: "fresh_world demo_blank"
  using demo_env_ok [of "[]"] by (simp add: demo_blank_def fresh_world_def) (simp add: demo_world_def)

text \<open>Every call succeeds; the sockets get the descriptors 3 to 6.\<close>

definition demo_listen :: "int \<Rightarrow> listen_env" where
  "demo_listen fd = \<lparr>le_socket = (\<lambda>_. fd), le_setsockopt = True, le_pton = (\<lambda>fam ip. Some (if fam = AF_INET then [127, 0, 0, 1] else replicate 15 0 @ [1])),
     le_bind = (\<lambda>_. True), le_listen = True\<rparr>"

definition demo_main :: main_env where
  "demo_main = \<lparr>me_signal = True, me_token = None, me_socks4 = demo_listen 3, me_socks6 = demo_listen 4, me_mgmt4 = demo_listen 5,
     me_mgmt6 = demo_listen 6, me_sigprocmask = 0, me_sigaction = 0, me_malloc = True, me_alloc = (\<lambda>_. True), me_relisten = (\<lambda>_. True)\<rparr>"

definition demo_argv :: "byte list list" where
  "demo_argv = map bytes_of [''-u'', ''foo:bar'', ''-tsecret'', ''-u'', ''foo:again'', ''-p'', ''9090'']"

lemma demo_options:
  "getopt_scan server_options long_options 63 None demo_argv
    = ([Opt 117 (bytes_of ''foo:bar''), Opt 116 (bytes_of ''secret''), Opt 117 (bytes_of ''foo:again''), Opt 112 (bytes_of ''9090'')], [])"
  by (simp add: demo_argv_def server_options_def bytes_of_def)

lemma demo_started: "started demo_main [] initial_startup"
  by (simp add: started_def demo_main_def demo_listen_def socks_listeners_def listen_at_def try_listen_def setUpMasterSocket_def
      parse_args_def initial_startup_def default_args_def Let_def)

section \<open>The tool at work\<close>

definition demo_tool :: tool where
  "demo_tool = \<lparr>t_reads = 1, t_sent = [], t_buf = replicate MAX_RESPONSE_LEN 0, t_out = []\<rparr>"

text \<open>A peer that takes everything and delivers an answer in two pieces.\<close>

definition demo_peer :: "byte list \<Rightarrow> peer" where
  "demo_peer ans = ((\<lambda>n m. if n = 1 then Read_ok (take 5 ans) else Read_ok (drop 5 ans)), (\<lambda>xs. Send_ok (length xs)))"

lemma demo_peer_answers:
  assumes "5 < length ans" and "length ans < 256"
  shows "answers (demo_peer ans) demo_tool req [take 5 ans, drop 5 ans] ans"
proof -
  have "k = 0 \<or> k = 1" if "k < length [take 5 ans, drop 5 ans]" for k using that by auto
  then show ?thesis
    using assms by (auto simp: answers_def demo_peer_def demo_tool_def delivers_def MAX_RESPONSE_LEN_def)
qed

section \<open>A connection that relays\<close>

text \<open>The client on descriptor 5 with its origin on descriptor 6; both are read, the origin is also written.\<close>

definition demo_relay_client :: client where
  "demo_relay_client = (demo_client PROXY)\<lparr>origin_sock := 6, active_ends := CLIENT OR ORIGIN, atyp := ATYP_IPV4,
     curr_addr := [\<lparr>ai_family = AF_INET, ai_socktype = SOCK_STREAM, ai_protocol = 0, ai_addr = no_addr\<rparr>]\<rparr>"

definition demo_relay :: world where
  "demo_relay = (demo_world demo_relay_client [])
     \<lparr>fds := Some (demo_table[6 := new_item 6 (OP_READ OR OP_WRITE) socks5_handler (Some (A_client 0))]),
      master_r := {5, 6, 7}, master_w := {6}\<rparr>"

lemma demo_relay_registered:
  "registered demo_relay = (registered (demo_world demo_relay_client []))(6 \<mapsto> new_item 6 (OP_READ OR OP_WRITE) socks5_handler (Some (A_client 0)))"
proof
  fix fd
  have len: "6 < length demo_table" by (simp add: demo_table_def ITEMS_MAX_SIZE_def)
  show "registered demo_relay fd
      = ((registered (demo_world demo_relay_client []))(6 \<mapsto> new_item 6 (OP_READ OR OP_WRITE) socks5_handler (Some (A_client 0)))) fd"
  proof (cases "fd = 6")
    case True
    then show ?thesis using len by (simp add: registered_def demo_relay_def new_item_def ITEM_USED_def FD_UNUSED_def)
  next
    case False
    then have "0 \<le> fd \<Longrightarrow> nat fd \<noteq> 6" by auto
    with False show ?thesis by (auto simp: registered_def demo_relay_def demo_world_def nth_list_update)
  qed
qed

lemma demo_relaying: "relaying 0 demo_relay_client demo_relay"
proof -
  have flags: "hasFlag (CLIENT OR ORIGIN) f" if "f \<in> {CLIENT_READ, CLIENT_WRITE, ORIGIN_READ, ORIGIN_WRITE, CLIENT, ORIGIN, CLIENT_READ OR ORIGIN_READ}" for f
    using that by (auto simp: CLIENT_def ORIGIN_def end_flags hasFlag_or)
  have nz: "CLIENT OR ORIGIN \<noteq> 0" by code_simp
  have "wants OP_READ (new_item fd OP_READ h d)" "\<not> wants OP_WRITE (new_item fd OP_READ h d)"
    "wants OP_READ (new_item fd (OP_READ OR OP_WRITE) h d)" "wants OP_WRITE (new_item fd (OP_READ OR OP_WRITE) h d)"
    for fd and h :: handler_id and d :: "attachment option"
    by (simp_all add: wants_def new_item_def hasFlag_def OP_READ_def OP_WRITE_def)
  then have "interested OP_READ (registered demo_relay) = {5, 6, 7}" "interested OP_WRITE (registered demo_relay) = {6}"
    unfolding interested_def demo_relay_registered demo_registered by auto
  moreover have "fds demo_relay = Some (demo_table[6 := new_item 6 (OP_READ OR OP_WRITE) socks5_handler (Some (A_client 0))])"
    "fd_size demo_relay = ITEMS_MAX_SIZE + 1" "max_fd demo_relay = 7" "master_r demo_relay = {5, 6, 7}" "master_w demo_relay = {6}"
    by (simp_all add: demo_relay_def demo_world_def)
  moreover have "item_ok 7 fd it" if "registered demo_relay fd = Some it" for fd it
    using that unfolding demo_relay_registered demo_registered by (auto simp: item_ok_def new_item_def ITEMS_MAX_SIZE_def split: if_splits)
  moreover have "registered demo_relay 7 \<noteq> None" unfolding demo_relay_registered demo_registered by simp
  ultimately have "sel_wf demo_relay"
    unfolding sel_wf_def by (simp add: demo_table_def ITEMS_MAX_SIZE_def)
  moreover have "client_wf demo_relay_client"
    using demo_client_wf [of PROXY] by (simp add: demo_relay_client_def client_wf_def)
  moreover have "settled demo_relay_client demo_relay"
    using flags by (simp add: settled_def ends_quiet_def demo_relay_client_def)
  moreover have "client_state demo_relay_client = PROXY" by (simp add: demo_relay_client_def client_state_def)
  moreover have "\<exists>d. log_dest False demo_relay_client = Inr d"
    by (simp add: log_dest_def demo_relay_client_def ATYP_IPV4_def ATYP_DOMAIN_NAME_def)
  ultimately show ?thesis
    using flags nz
    by (simp add: relaying_def upright_def linked_def proxy_fd_def demo_relay_registered demo_registered new_item_def close_state_def)
      (simp add: demo_relay_client_def demo_relay_def socks5_states)
qed

section \<open>A connection that dials\<close>

definition demo_target :: addrinfo where
  "demo_target = numeric_target AF_INET [10, 0, 0, 1] [0, 80]"

definition demo_dialer :: client where
  "demo_dialer = (demo_client CONNECTING)\<lparr>atyp := ATYP_IPV4, curr_addr := [demo_target]\<rparr>"

lemma demo_dialer_fields [simp]:
  "client_sock demo_dialer = 5" "origin_sock demo_dialer = -1" "active_ends demo_dialer = CLIENT" "stm_current demo_dialer = Some CONNECTING"
  "curr_addr demo_dialer = [demo_target]" "log_dest True demo_dialer = Inr (Log_addr demo_target)" "\<not> curr_freed demo_dialer"
  by (simp_all add: demo_dialer_def log_dest_def atyp_codes)

lemma demo_dialing:
  obtains w where "dialing 0 demo_dialer w" "w_env w = demo_env []" "registered w = [5 \<mapsto> new_item 5 OP_WRITE socks5_handler (Some (A_client 0)),
    7 \<mapsto> new_item 7 OP_READ mgmt_handler (Some (A_mgmt 0))]"
proof -
  let ?w = "demo_world demo_dialer []"
  have "client_wf demo_dialer" using demo_client_wf [of CONNECTING] by (simp add: demo_dialer_def client_wf_def)
  then have "linked 0 demo_dialer ?w" by (simp add: linked_def proxy_fd_def demo_registered new_item_def)
  from linked_set_interest [OF this, of 5 OP_WRITE, simplified] obtain w where w: "linked 0 demo_dialer w" "w_env w = demo_env []"
    "registered w = (registered ?w)(5 := map_option (\<lambda>it. it\<lparr>it_interest := OP_WRITE\<rparr>) (registered ?w 5))"
    by (metis demo_fields(2))
  then have reg: "registered w = [5 \<mapsto> new_item 5 OP_WRITE socks5_handler (Some (A_client 0)), 7 \<mapsto> new_item 7 OP_READ mgmt_handler (Some (A_mgmt 0))]"
    by (simp add: demo_registered new_item_def fun_upd_twist)
  have "\<not> hasFlag OP_WRITE OP_READ" by code_simp
  then have "dialing 0 demo_dialer w" using w(1) by (simp add: dialing_def quiet_def reg new_item_def)
  with that w(2) reg show thesis by blast
qed

lemma demo_acceptable: "acceptable (demo_world c bs)" and demo_admits: "admits (demo_world c bs) = Some 8"
proof -
  have "registered (demo_world c bs) 8 = None" by (simp add: demo_registered)
  then show "acceptable (demo_world c bs)"
    by (simp add: acceptable_def) (simp add: demo_env_def demo_world_def SOCKADDR_SIZE_def INVALID_FD_def ITEMS_MAX_SIZE_def)
  show "admits (demo_world c bs) = Some 8"
    by (simp add: admits_def) (simp add: demo_env_def demo_world_def initial_state_def add_proxy_client_def)
qed

section \<open>A login for the sniffer\<close>

definition holding :: "byte list \<Rightarrow> buffer" where
  "holding bs = \<lparr>buf_data = bs @ [0], buf_limit = length bs + 1, buf_read = 0, buf_write = length bs\<rparr>"

lemma holding_ok [simp]: "buffer_wf (holding bs)" "contents (holding bs) = bs"
  by (simp_all add: buffer_wf_def contents_def holding_def)

definition demo_mailer :: "pop3_parser \<Rightarrow> client" where
  "demo_mailer p = demo_dialer\<lparr>origin_buf := holding [114, 32, 97, 10, 80, 65, 83, 83, 32, 98, 10], pop3_parser := Some p\<rparr>"

lemma demo_mailer_ok:
  "w_clients (demo_world (demo_mailer p) []) 0 = Some (demo_mailer p)" "pop3_parser (demo_mailer p) = Some p"
  "origin_buf (demo_mailer p) = holding [114, 32, 97, 10, 80, 65, 83, 83, 32, 98, 10]"
  "get_dissector_state (w_state (demo_world (demo_mailer p) []))" "log_dest False (demo_mailer p) = Inr (Log_addr demo_target)"
  "w_log (demo_world (demo_mailer p) []) = []" "cstr (socks_user (demo_mailer p)) = [63]" "client_addr (demo_mailer p) = no_addr"
  by (simp_all add: demo_world_def demo_mailer_def demo_dialer_def log_dest_def atyp_codes demo_client_def fresh_client_def
      initial_state_def get_dissector_state_def cstr_def)

section \<open>Printing\<close>

definition demo_ntop :: inet_ntop where
  "demo_ntop af a n = (if a = [127, 0, 0, 1] \<and> n \<ge> 16 then Some (bytes_of ''127.0.0.1'') else None)"

lemma demo_ntop_ok: "ntop_ok demo_ntop"
  by (simp add: ntop_ok_def demo_ntop_def bytes_of_def INET6_ADDRSTRLEN_def)

definition demo_tm :: tm where
  "demo_tm = \<lparr>tm_year = 122, tm_mon = 5, tm_mday = 21, tm_hour = 9, tm_min = 30, tm_sec = 0\<rparr>"

definition demo_arrays :: log_arrays where
  "demo_arrays = \<lparr>client_addr_buf = replicate 64 88, origin_addr_buf = replicate 262 88, port_buf = replicate 7 88\<rparr>"

lemma demo_arrays_ok: "log_arrays_ok demo_arrays"
  by (simp add: log_arrays_ok_def demo_arrays_def)

definition demo_named :: client where
  "demo_named = (demo_client PROXY)\<lparr>client_addr := \<lparr>sa_family = AF_INET, sa_addr = [127, 0, 0, 1], sa_port = [200, 1]\<rparr>,
     atyp := ATYP_DOMAIN_NAME, dest_fqdn := Some (bytes_of ''mail.org'' @ [0]), dest_port := [0, 110]\<rparr>"

lemma demo_named_ports: "dest_ports_ok demo_named"
  by (simp add: dest_ports_ok_def demo_named_def demo_client_def fresh_client_def)

lemma demo_named_access: "\<exists>e. log_access_info demo_named 0 w = Inr (w\<lparr>w_log := w_log w @ [e]\<rparr>)"
proof -
  have "cstr (bytes_of ''mail.org'' @ [0]) = bytes_of ''mail.org''" by (rule cstr_append_nul) (simp add: bytes_of_def)
  then have "log_dest True demo_named = Inr (Log_name (bytes_of ''mail.org'') (ntohs [0, 110]))"
    by (simp add: log_dest_def demo_named_def bytes_of_def)
  then show ?thesis by (simp only: log_access_info_def bindE_Inr) blast
qed

end
