(* ===== verification/Spec2Isabelle.thy ===== *)
theory Spec2Isabelle
  imports Demo_World
begin

text \<open>
  A verification of \<open>socks5d\<close>, a SOCKS5 proxy server in C with a management port and a sniffer for
  POP3 credentials.

  \<^bold>\<open>The program.\<close> One thread runs a selector (\<open>src/selector.c\<close>) over the descriptors of the process and
  calls back. A proxied connection (\<open>src/clients.c\<close>) is driven by a state machine (\<open>src/stm.c\<close>) through
  method negotiation, authentication and request (\<open>src/handshake.c\<close>), name resolution in a thread of its
  own, connection to the origin, and relaying; bytes move through one buffer per direction
  (\<open>src/buffer.c\<close>, \<open>src/socketsIO.c\<close>), and the client's bytes are shown to the POP3 parser
  (\<open>src/pop3_sniffer.c\<close>). A management connection (\<open>src/mgmt.c\<close>) reads lines through a window
  (\<open>src/mgmt_protocol.c\<close>) with a lexer that re2c generated (\<open>src/mgmt_protocol.re.c\<close>) and changes the
  settings and counters (\<open>src/state.c\<close>), the users (\<open>src/users.c\<close>) and reads the tokens (\<open>src/tokens.c\<close>).
  \<open>main\<close> (\<open>src/proxy.c\<close>) reads the command line (\<open>src/args.c\<close>), opens the listening sockets
  (\<open>src/tcpServerUtil.c\<close>) and runs the selector. An administration tool (\<open>client/\<close>) speaks the management
  protocol.

  \<^bold>\<open>The model.\<close> Every C function is a HOL function with the state it changes as an explicit result.
  A failed assertion, an \<open>abort\<close>, an access outside an array, a null or freed pointer is a value of
  type \<open>fault\<close>; \<open>Inr\<close> is a run without any of these. Integers whose overflow matters are words.
  What the operating system answers (\<open>read\<close>, \<open>send\<close>, \<open>accept\<close>, \<open>malloc\<close>, \<open>connect\<close> and so on) is a
  parameter, with the documented contract as a predicate (\<open>read_ok\<close>, \<open>send_ok\<close>, \<open>env_ok\<close>); what the server
  does to it is a trace.

  \<^item> \<open>Socks_Prelude\<close>: bytes, faults, bounded array accesses, C strings, flag words.
  \<^item> \<open>Buffer\<close>, \<open>SocketsIO\<close>: \<open>buffer.c\<close> and \<open>socketsIO.c\<close>; the locale \<open>byte_queue\<close> is the FIFO contract, and
    any interleaving of transfers is shown to refine it.
  \<^item> \<open>Server_State\<close>, \<open>Users\<close>: \<open>state.c\<close>, \<open>users.c\<close>, \<open>tokens.c\<close>; admission against the clients alive; the
    locale \<open>credential_store\<close> with its two interpretations.
  \<^item> \<open>Pop3_Sniffer\<close>: \<open>pop3_sniffer.c\<close>; safety of its arrays, and that a login is captured in whatever pieces its bytes are
    shown to it, each byte once.
  \<^item> \<open>Stm\<close>, \<open>Selector\<close>: the engine and the selector, generic in the world they drive; the locales
    \<open>stm_world\<close> and \<open>interest_op\<close>; the selector refines a finite map.
  \<^item> \<open>Socks_World\<close>: the structs of both kinds of clients and the world of the running server.
  \<^item> \<open>Close_Client\<close>, \<open>Handshake\<close>, \<open>Clients\<close>: \<open>clients.c\<close>, \<open>handshake.c\<close> and the logging of \<open>util.c\<close>; for every
    reader its outcome on every branch (\<open>served\<close>), against decoders of the wire formats.
  \<^item> \<open>Mgmt_Protocol\<close>, \<open>Mgmt_Tables\<close>, \<open>Mgmt_Lexer\<close>, \<open>Mgmt_Commands\<close>: the input window; the generated automaton,
    one definition per label; its execution; the command lines it accepts.
  \<^item> \<open>Lexer_Invariants\<close>: the locale \<open>lex_invariant\<close> carries an invariant of the blocks over a call of the lexer;
    interpreted for the two stages, for the argument pointers and for progress.
  \<^item> \<open>Mgmt\<close>: \<open>mgmt.c\<close>. \<open>Mgmt_Server\<close>: each command and the command loop on arbitrary input. \<open>Mgmt_Session\<close>: the
    protocol as an abstract service, and that the loop refines it. \<open>Mgmt_Handlers\<close>: the event handlers on the
    whole server as a transition system with its invariant.
  \<^item> \<open>Args\<close>, \<open>Startup\<close>: \<open>args.c\<close>, \<open>setUpMasterSocket\<close> and \<open>main\<close> up to its loop; what is typed never faults, and the
    loop is entered in a sound state.
  \<^item> \<open>Client_Tool\<close>, \<open>Client_Session\<close>: the administration tool, and that tool and server understand each other.
  \<^item> \<open>Event_Loop\<close>, \<open>Main_Loop\<close>: the locale \<open>event_loop\<close> is what callbacks owe the selector, with one round proved in it;
    interpreted on the handler tables of the server it gives the loop of \<open>main\<close> and the whole program, for the
    management service.
  \<^item> \<open>Relay\<close>: read and write events on a connection that relays or drains, and what they conserve.
  \<^item> \<open>Connection\<close>, \<open>Lifetime\<close>: the attempts to reach the origin under the state machine; the phases of a connection, the
    events that lead from one to another (the resolver's thread and its notification included) and the hazards that are
    excluded: the password length read behind the buffer, a refusal logged without a name or with one of 255 bytes, a request for
    which there is no memory, a thread that outlives its client.
  \<^item> \<open>Net_Utils\<close>, \<open>Logger\<close>, \<open>Blocking_IO\<close>: \<open>util.c\<close>, \<open>netutils.c\<close>, \<open>logger.c\<close>, \<open>tcpClientUtil.c\<close> and the rest of
    \<open>tcpServerUtil.c\<close>: the strings built in fixed arrays against the text they are to hold, the log lines against the
    entries the handlers record, the blocking transfers.
  \<^item> \<open>Demo_World\<close>: a concrete server, on which the properties are instantiated.

  \<^bold>\<open>Memory behind an array.\<close> One access outside an array is let through. \<open>read_buf_raw\<close> of a management client has 2048 bytes, and the
  sentinel NUL of a full window, which every new client has, is stored at index 2048. In \<open>struct mgmt_client\<close> four bytes of
  padding follow (\<open>read_buf_padding\<close>, computed from the layout on 64-bit targets), so that in practice nothing else is touched. The model
  gives the window these bytes (\<open>create_mgmt_client\<close>), the theorems on the management service rest on them, and
  \<open>sentinel_behind_array\<close> says what happens with the array alone: \<open>initState\<close> is a fault. Everything else outside an array is one:
  in particular an IPv6 peer, whose address is copied into (\<open>client_accepted\<close>) and read from (\<open>log_lines\<close>) 16 bytes. The handlers of the
  handshake and the relay only record log entries; the second of these faults is in the code that prints them, and a client that got past
  the first has no such address.

  \<^bold>\<open>Two reads.\<close> \<open>handle_mgmt_read\<close> passes the call of \<open>fillBuffer\<close> to the macro \<open>checkEOF\<close>, which evaluates it twice unless the first result is
  0; \<open>checkEOF_fillBuffer\<close> does the same, with an answer of the system for each (\<open>env_read\<close>, \<open>env_reread\<close>).

  \<^bold>\<open>Fuel.\<close> The lexer runs with \<open>parse_fuel\<close>, four steps for each byte of the window and a few more; the
  theorem \<open>lexer_ends\<close> shows that this is always enough. The command loop runs with \<open>process_fuel\<close>, one round
  for each byte in the window and two more; \<open>command_loop_ends\<close> shows that this is enough, since every
  command that is returned consumes a byte. The blocking
  transfers run against a list of answers, and \<open>blocking_transfers\<close> says how long a list is enough. All other loops are
  total functions.

  \<^bold>\<open>One connection at a time.\<close> The runs of \<open>Lifetime\<close> are those of one connection, whose socket numbers belong to nobody else
  meanwhile. The code does not quite grant this: a connection that only drains keeps the number of its origin's socket after
  closing it, and goes on to change the mask of whatever is registered under it.

  \<^bold>\<open>Not modelled.\<close> The signal handler is the end of the list of rounds of the main loop. Memory that is allocated but never freed
  is not tracked, except that a freed client or address cannot be used. The mutexes are not modelled: the resolver thread
  acts between events.
\<close>

section \<open>The handshake of a proxied connection\<close>

text \<open>
  C1. The way in is guarded. Whatever bytes arrive, the read event of a client that has not been
  admitted (its first event, for which the machine has no state yet, or one in the first two states) leaves it in
  the handshake, or closing, or moves it to the request phase; and the
  latter only if the server has no users and the client offered "no authentication", or if the
  message it sent carries a user name and password of the table.
\<close>

theorem authentication_gate:
  assumes "serving k cid c w" and "key_fd k = client_sock c"
    and "stm_current c \<in> {None, Some AUTH_METHOD, Some PLAIN_AUTH}"
    and "stm_handler_read proxy_machine client_stm k w = Inr (ret, w')"
  shows "ret \<in> {AUTH_METHOD, PLAIN_AUTH, DONE, WRITE_REMAINING} \<or> ret = REQUEST \<and> admitted c w"
proof (cases "stm_current c")
  case None
  show ?thesis by (rule first_gate [OF assms(1,2) None assms(4) [unfolded stm_handler_read_def]])
next
  case (Some st)
  then have "st = AUTH_METHOD \<or> st = PLAIN_AUTH" using assms(3) by simp
  then show ?thesis by (rule running_gate [OF assms(1,2) Some _ assms(4) [unfolded stm_handler_read_def]])
qed

theorem authentication_gate_witness:
  "\<exists>w'. stm_handler_read proxy_machine client_stm demo_key (demo_world (demo_client PLAIN_AUTH) demo_credentials)
       = Inr (REQUEST, w') \<and> admitted (demo_client PLAIN_AUTH) (demo_world (demo_client PLAIN_AUTH) demo_credentials)"
proof -
  obtain w' where w': "stm_handler_read proxy_machine client_stm demo_key
      (demo_world (demo_client PLAIN_AUTH) demo_credentials) = Inr (REQUEST, w')"
    using demo_login by blast
  with authentication_gate [OF demo_serving _ _ w'] show ?thesis by simp
qed

text \<open>
  C7. Method negotiation, on every branch: the reader waits for the whole message however it is
  cut into reads, answers with the method chosen or with 255, moves to the state that goes with
  the choice or closes the read end, leaves the following bytes in the buffer, and touches nobody
  else's descriptors or data.
\<close>

theorem method_negotiation:
  assumes "serving k cid c w" and "key_fd k = client_sock c"
  shows "\<exists>c'. if hung_up c w
    then served cid c w (read_auth_method k w) (fst (closing c)) (snd (closing c)) (received c w) [] [] c'
    else case parse_hello (user_count (w_users w)) (received c w) of
      None \<Rightarrow> served cid c w (read_auth_method k w) (client_state c) (active_ends c) (received c w) [] [] c'
    | Some (m, rest) \<Rightarrow> served cid c w (read_auth_method k w) (hello_state c m)
        (if m = None then snd (closing c) else active_ends c) rest
        (take (Buffer.space (client_buf c)) (hello_reply m)) [] c'"
  by (rule read_auth_method_ok [OF assms])

theorem method_negotiation_witness:
  "\<exists>c'. served 0 (demo_client AUTH_METHOD) (demo_world (demo_client AUTH_METHOD) [5, 1, 2])
     (read_auth_method demo_key (demo_world (demo_client AUTH_METHOD) [5, 1, 2])) PLAIN_AUTH CLIENT [] [5, 2] [] c'"
  using method_negotiation [OF demo_serving, of AUTH_METHOD "[5, 1, 2]"]
  by (simp add: demo_received parse_hello_def hello_state_def hello_reply_def)

text \<open>
  C8. User name and password, on every branch: the client is admitted to the request phase
  exactly when the pair is in the user table, gets the reply of RFC 1929, and its name is
  recorded; otherwise the read end is closed. The hypothesis excludes the one input on which the
  reader leaves its buffer (\<open>plain_auth_leaves_buffer\<close>).
\<close>

theorem plain_authentication:
  assumes "serving k cid c w" and "key_fd k = client_sock c"
    and "filled_up c w \<and> cut_after_name (received c w) \<longrightarrow> hung_up c w"
  shows "\<exists>c'. if hung_up c w
    then served cid c w (read_plain_auth k w) (fst (closing c)) (snd (closing c)) (received c w) [] [] c'
    else case parse_auth (received c w) of
      None \<Rightarrow> served cid c w (read_plain_auth k w) (client_state c) (active_ends c) (received c w) [] [] c'
    | Some (v, user, pass, rest) \<Rightarrow>
        served cid c w (read_plain_auth k w) (auth_state c (authentic v user pass (w_users w)))
          (if authentic v user pass (w_users w) then active_ends c else snd (closing c)) rest
          (take (Buffer.space (client_buf c)) (auth_reply v user pass (w_users w))) [] c'
        \<and> (authentic v user pass (w_users w) \<longrightarrow> cstr (socks_user c') = cstr user)"
  by (rule read_plain_auth_ok [OF assms])

theorem plain_authentication_witness:
  "\<exists>c'. served 0 (demo_client PLAIN_AUTH) (demo_world (demo_client PLAIN_AUTH) demo_credentials)
     (read_plain_auth demo_key (demo_world (demo_client PLAIN_AUTH) demo_credentials)) REQUEST CLIENT [] [1, 0] [] c'
     \<and> cstr (socks_user c') = bytes_of ''foo''"
proof -
  let ?c = "demo_client PLAIN_AUTH" and ?w = "demo_world (demo_client PLAIN_AUTH) demo_credentials"
  have up: "\<not> filled_up ?c ?w" "\<not> hung_up ?c ?w"
    using demo_not_filled [of demo_credentials] by (simp_all add: demo_received demo_credentials_def)
  have "cstr (bytes_of ''foo'') = bytes_of ''foo''" by (simp add: bytes_of_def cstr_def)
  with plain_authentication [OF demo_serving, of PLAIN_AUTH demo_credentials] up demo_authentic show ?thesis
    by (simp add: demo_received demo_parse_auth auth_state_def auth_reply_def)
qed

text \<open>
  C9. A flaw: the length of the password is fetched before it is known to have arrived, so a
  user name that ends exactly where the buffer ends makes the reader leave its buffer.
\<close>

theorem plain_auth_leaves_buffer:
  assumes "serving k cid c w" and "key_fd k = client_sock c"
    and "filled_up c w" "\<not> hung_up c w" "cut_after_name (received c w)"
  shows "read_plain_auth k w = Inl Out_of_bounds"
  by (rule read_plain_auth_overread [OF assms])

theorem plain_auth_leaves_buffer_witness:
  "read_plain_auth demo_key (demo_world (demo_client PLAIN_AUTH) ([1, 62] @ replicate 62 97)) = Inl Out_of_bounds"
  by (rule plain_auth_leaves_buffer [OF demo_serving])
    (simp_all add: demo_received cut_after_name_def filled_up_def rd_bytes_def demo_env_def BUFFSIZE_def)

text \<open>
  C10. A complete CONNECT request, however it arrives, when there is memory for its two allocations: the target is
  recorded as the client named it, the interest in more input is withdrawn from the client's socket and nothing else changes
  in the selector, and the client goes on to resolve the name or to connect.
\<close>

theorem connect_request:
  assumes "serving k cid c w" and "key_fd k = client_sock c" and "\<not> hung_up c w"
    and "parse_request (received c w) = Req CONNECT at addr port rest"
    and "env_malloc (w_env w) 0" "env_malloc (w_env w) 1"
  shows "(\<exists>c'. served cid c w (read_proxy_request k w) (if at = ATYP_DOMAIN_NAME then RESOLVING else CONNECTING)
      (active_ends c) rest [] [] c' \<and> targeted at addr port c')
    \<and> (\<exists>w'. read_proxy_request k w = Inr (if at = ATYP_DOMAIN_NAME then RESOLVING else CONNECTING, w')
      \<and> quiet w' (client_sock c) OP_READ \<and> registered w' = (registered w)(client_sock c :=
        map_option (\<lambda>it. it\<lparr>it_interest := it_interest it AND NOT OP_READ\<rparr>) (registered w (client_sock c))))"
  using read_proxy_request_connect [OF assms] by blast

theorem connect_request_witness:
  "\<exists>c'. served 0 (demo_client REQUEST) (demo_world (demo_client REQUEST) [5, 1, 0, 1, 10, 0, 0, 1, 0, 80])
     (read_proxy_request demo_key (demo_world (demo_client REQUEST) [5, 1, 0, 1, 10, 0, 0, 1, 0, 80])) CONNECTING CLIENT [] [] [] c'
     \<and> targeted ATYP_IPV4 [10, 0, 0, 1] [0, 80] c'"
proof -
  have "parse_request (received (demo_client REQUEST) (demo_world (demo_client REQUEST) [5, 1, 0, 1, 10, 0, 0, 1, 0, 80]))
      = Req CONNECT ATYP_IPV4 [10, 0, 0, 1] [0, 80] []"
    by (simp add: demo_received parse_request_def request_addr_len_def CONNECT_def atyp_codes)
  from connect_request [OF demo_serving _ _ this] show ?thesis
    by (simp add: demo_received demo_env_def atyp_codes)
qed

text \<open>
  C11. A request that cannot be served (another command, an unknown address type, end of input)
  is answered with the reply code that says so and an empty address, is logged, and the read end
  is closed; unless the destination cannot be logged (\<open>refused_domain_crashes\<close> has the case of a
  domain name), in which case the reader faults there.
\<close>

theorem refused_request:
  assumes "serving k cid c w" and "key_fd k = client_sock c" and "request_failure c w = Some (code, rest)"
  shows "case log_dest True (judged c w) of
      Inl f \<Rightarrow> read_proxy_request k w = Inl f
    | Inr d \<Rightarrow> \<exists>c'. served cid c w (read_proxy_request k w) (fst (closing c)) (snd (closing c)) rest
        (reply_bytes (Buffer.space (client_buf c)) code ATYP_IPV4 EMPTY_IP [0, 0])
        [Access_log (cstr (socks_user c)) (client_addr c) d code] c'"
  using read_proxy_request_refused [OF assms] read_proxy_request_faulted [OF assms] by (auto split: sum.split)

theorem refused_request_witness:
  "\<exists>c'. served 0 (demo_client REQUEST) (demo_world (demo_client REQUEST) [5, 2, 0, 1, 10, 0, 0, 1, 0, 80])
     (read_proxy_request demo_key (demo_world (demo_client REQUEST) [5, 2, 0, 1, 10, 0, 0, 1, 0, 80])) WRITE_REMAINING CLIENT_WRITE []
     [5, 7, 0, 1, 0, 0, 0, 0, 0, 0] [Access_log [63] no_addr Log_unknown REPLY_COMMAND_NOT_SUPPORTED] c'"
proof -
  let ?c = "demo_client REQUEST" and ?w = "demo_world (demo_client REQUEST) [5, 2, 0, 1, 10, 0, 0, 1, 0, 80]"
  have f: "request_failure ?c ?w = Some (REPLY_COMMAND_NOT_SUPPORTED, [])"
    by (simp add: demo_received request_failure_def parse_request_def request_addr_len_def CONNECT_def atyp_codes)
  have l: "log_dest True (judged ?c ?w) = Inr Log_unknown"
    by (simp add: judged_def demo_received seen_atyp_def log_dest_def atyp_codes)
  have e: "closing ?c = (WRITE_REMAINING, CLIENT_WRITE)" by (rule demo_closing)
  from refused_request [OF demo_serving _ f] l e show ?thesis
    by (simp add: reply_bytes_def EMPTY_IP_def atyp_codes reply_codes)
qed

text \<open>
  C12. A flaw: refusing a request for a domain name dereferences the name, which was never stored.
\<close>

theorem refused_domain_crashes:
  assumes "serving k cid c w" and "key_fd k = client_sock c" and "request_failure c w = Some (code, rest)"
    and "atyp (judged c w) = ATYP_DOMAIN_NAME" "dest_fqdn c = None"
  shows "read_proxy_request k w = Inl Null_deref"
  by (rule read_proxy_request_null [OF assms])

theorem refused_domain_crashes_witness:
  "read_proxy_request demo_key (demo_world (demo_client REQUEST) [5, 2, 0, 3, 1, 97, 0, 80]) = Inl Null_deref"
proof -
  let ?c = "demo_client REQUEST" and ?w = "demo_world (demo_client REQUEST) [5, 2, 0, 3, 1, 97, 0, 80]"
  have "request_failure ?c ?w = Some (REPLY_COMMAND_NOT_SUPPORTED, [])"
    by (simp add: demo_received request_failure_def parse_request_def request_addr_len_def CONNECT_def atyp_codes)
  from refused_domain_crashes [OF demo_serving _ this] show ?thesis
    by (simp add: judged_def demo_received seen_atyp_def atyp_codes)
qed

text \<open>
  C19. The three messages of the handshake as a client encodes them, followed by anything: the reader that has received
  one takes exactly that message and leaves the rest in the buffer. A greeting is answered with the method that the
  users configured call for if it was offered, and with 255 otherwise; a user name and password of the table
  admit, any other pair is refused; a CONNECT request gives the target that was encoded, when there is memory for it.
\<close>

theorem handshake_round_trip:
  assumes "serving k cid c w" and "key_fd k = client_sock c" and "\<not> hung_up c w"
  shows "(length ms < 256 \<and> received c w = [5, of_nat (length ms)] @ ms @ rest \<longrightarrow>
      (let m = (if user_count (w_users w) = 0 then 0 else 2) in
       \<exists>c'. if m \<in> set ms
         then served cid c w (read_auth_method k w) (if m = 0 then REQUEST else PLAIN_AUTH) (active_ends c) rest
           (take (Buffer.space (client_buf c)) [5, m]) [] c'
         else served cid c w (read_auth_method k w) (fst (closing c)) (snd (closing c)) rest
           (take (Buffer.space (client_buf c)) [5, 255]) [] c'))
    \<and> (length user < 256 \<and> length pass < 256
        \<and> received c w = [1, of_nat (length user)] @ user @ [of_nat (length pass)] @ pass @ rest \<longrightarrow>
      (\<exists>c'. if (cstr user, cstr pass) \<in> set (user_entries (w_users w))
         then served cid c w (read_plain_auth k w) REQUEST (active_ends c) rest (take (Buffer.space (client_buf c)) [1, 0]) [] c'
           \<and> cstr (socks_user c') = cstr user
         else served cid c w (read_plain_auth k w) (fst (closing c)) (snd (closing c)) rest
           (take (Buffer.space (client_buf c)) [1, 1]) [] c'))
    \<and> (length port = 2 \<and> (at = ATYP_IPV4 \<and> length addr = 4 \<or> at = ATYP_IPV6 \<and> length addr = 16 \<or> at = ATYP_DOMAIN_NAME \<and> length addr < 256)
        \<and> received c w = [5, CONNECT, 0, of_nat at] @ addr_field at addr @ port @ rest
        \<and> env_malloc (w_env w) 0 \<and> env_malloc (w_env w) 1 \<longrightarrow>
      (\<exists>c'. served cid c w (read_proxy_request k w) (if at = ATYP_DOMAIN_NAME then RESOLVING else CONNECTING)
         (active_ends c) rest [] [] c' \<and> targeted at addr port c'))"
  using hello_read_back [OF assms] auth_read_back [OF assms] connect_read_back [OF assms]
  unfolding Let_def by blast

theorem handshake_round_trip_witness:
  "\<exists>c'. served 0 (demo_client AUTH_METHOD) (demo_world (demo_client AUTH_METHOD) [5, 1, 2])
     (read_auth_method demo_key (demo_world (demo_client AUTH_METHOD) [5, 1, 2])) PLAIN_AUTH CLIENT [] [5, 2] [] c'"
  using handshake_round_trip [OF demo_serving, of AUTH_METHOD "[5, 1, 2]" "[2]" "[]"]
  by (simp add: demo_received)

section \<open>Closing\<close>

text \<open>
  C21. \<open>closeClient\<close> always ends without a fault; the ends it takes down are the requested ones
  and those that depend on them; the state returned fits the ends that remain; each socket is
  unregistered and closed exactly once, when its last end goes; an end that is down is not
  polled again.
\<close>

theorem closeClient_closes:
  assumes "sel_wf w" and "w_clients w cid = Some c"
    and "proxy_fd w (client_sock c)" "proxy_fd w (origin_sock c)"
  shows "\<exists>w'. closeClient cid level w = Inr (close_state (client_state c) (ends_after level (active_ends c)), w')
    \<and> close_spec cid c (ends_after level (active_ends c)) w w'"
  by (rule closeClient_ok [OF assms])

theorem closeClient_closes_witness:
  "\<exists>w'. closeClient 0 CLIENT_READ (demo_world (demo_client REQUEST) []) = Inr (WRITE_REMAINING, w')
     \<and> close_spec 0 (demo_client REQUEST) CLIENT_WRITE (demo_world (demo_client REQUEST) []) w'"
proof -
  have "proxy_fd (demo_world (demo_client REQUEST) []) 5" "proxy_fd (demo_world (demo_client REQUEST) []) (- 1)"
    by (simp_all add: proxy_fd_def demo_registered new_item_def)
  with closeClient_closes [of "demo_world (demo_client REQUEST) []" 0 "demo_client REQUEST" CLIENT_READ] demo_closing [of REQUEST]
  show ?thesis by (auto simp: closing_def Let_def)
qed

section \<open>A proxied connection from its beginning to its end\<close>

text \<open>
  C3. A connection from its beginning to its end. Take a client that \<open>master_read_handler\<close> accepted, and any
  sequence of what can happen to it: its sockets become readable or writable, the resolver's thread delivers
  its result, the selector works off the notification, each with whatever the system answers then. As
  long as no event is one of the listed hazards, every event is handled without a fault, and the
  connection is always in one of its phases (handshake, resolving, dialling, relaying, draining), with the
  descriptors, the interests and the state of its machine that go with the phase; or it was destroyed, and
  its socket is not watched any more. Meanwhile nobody else is concerned: the other clients, the management
  side, the descriptors that are not this connection's and the resolver's work for others are as they were.
\<close>

theorem connection_life:
  assumes "acceptable w" and "admits w = Some sock" and "master_read_handler k w = Inr w1" and "safe_run (w_next w) evs w1"
  shows "\<exists>w'. life_run (w_next w) evs w1 = Inr w' \<and> lived (w_next w) sock w' \<and> apart (w_next w) sock w1 w'"
proof -
  obtain w2 c where w2: "master_read_handler k w = Inr w2" "w_clients w2 = (w_clients w)(w_next w \<mapsto> c)" "living (w_next w) c w2" "client_sock c = sock"
    using accept_client [OF assms(1,2), of k] by blast
  then have "lived (w_next w) sock w1" using assms(3) by (simp add: lived_def)
  from lived_run [OF this assms(4)] show ?thesis .
qed

theorem connection_life_witness:
  "\<exists>w1 w'. master_read_handler demo_key (demo_world (demo_client PROXY) []) = Inr w1
     \<and> life_run 1 [(Ready True True, demo_env [5, 1, 2])] w1 = Inr w' \<and> lived 1 8 w'"
proof -
  let ?w = "demo_world (demo_client PROXY) []"
  have w: "w_next ?w = 1" by (simp add: demo_world_def)
  obtain w1 c where w1: "master_read_handler demo_key ?w = Inr w1" "w_clients w1 = (w_clients ?w)(w_next ?w \<mapsto> c)" "stm_current c = None"
    using accept_client [OF demo_acceptable demo_admits] by blast
  have "client_state c = AUTH_METHOD" using w1(3) by (simp add: client_state_def)
  then have "safe_run 1 [(Ready True True, demo_env [5, 1, 2])] w1"
    using w1(2) w by (simp add: Let_def conn_env_def hazard_def socks5_states split: sum.split)
  from connection_life [OF demo_acceptable demo_admits w1(1), unfolded w, OF this] w1(1) show ?thesis by blast
qed

text \<open>
  C6. Accepting a client, on every branch. At the limit, when \<open>accept\<close> fails or when there is no memory, nothing is
  registered, no client is stored and the count of clients is what it was. Otherwise, an address longer than the 16 bytes of
  \<open>client_addr\<close> (every IPv6 peer) is copied out of bounds. Otherwise there is one more client, with empty buffers and a
  machine that has not started, and it is counted; if its descriptor is one the selector takes it is registered for reading
  only, and the client is in its first phase (unless a resolver's result is still due for its number); if not (1024 and more, or
  one in use), nothing is registered, although the client is stored and counted.
\<close>

theorem client_accepted:
  assumes "sel_wf w" and "env_ok (w_env w)"
  shows "case admits w of
      None \<Rightarrow> \<exists>w'. master_read_handler k w = Inr w' \<and> w_clients w' = w_clients w \<and> registered w' = registered w
        \<and> proxy_client_count (w_state w') = proxy_client_count (w_state w)
    | Some sock \<Rightarrow> if SOCKADDR_SIZE < peer_len w then master_read_handler k w = Inl Out_of_bounds
        else \<exists>w' c. master_read_handler k w = Inr w' \<and> stored sock w c w'
          \<and> proxy_client_count (w_state w') = proxy_client_count (w_state w) + 1
          \<and> (if INVALID_FD sock \<or> registered w sock \<noteq> None then registered w' = registered w
             else registered w' = (registered w)(sock \<mapsto> new_item sock OP_READ socks5_handler (Some (A_client (w_next w))))
               \<and> (unawaited sock w \<longrightarrow> living (w_next w) c w'))"
proof (cases "admits w")
  case None
  then show ?thesis using decline_client [OF None, of k] by simp
next
  case (Some sock)
  have one: "proxy_client_count (snd (add_proxy_client (w_state w))) = proxy_client_count (w_state w) + 1"
    by (rule admitsE [OF Some]) (auto simp: add_proxy_client_def split: if_splits)
  show ?thesis
  proof (cases "SOCKADDR_SIZE < peer_len w")
    case True
    then show ?thesis using oversized_peer [OF Some] Some by simp
  next
    case False
    then obtain w' c where "master_read_handler k w = Inr w'" "stored sock w c w'"
      "if INVALID_FD sock \<or> registered w sock \<noteq> None then registered w' = registered w
       else registered w' = (registered w)(sock \<mapsto> new_item sock OP_READ socks5_handler (Some (A_client (w_next w))))
         \<and> (unawaited sock w \<longrightarrow> living (w_next w) c w')"
      using admitted_client [OF assms Some, of k] by auto
    then show ?thesis using False Some one by (intro iffD2 [OF option.case_eq_if]) (auto simp: stored_def)
  qed
qed

theorem client_accepted_witness:
  "\<exists>w' c. master_read_handler demo_key (demo_world (demo_client PROXY) []) = Inr w' \<and> w_clients w' 1 = Some c
     \<and> living 1 c w' \<and> client_sock c = 8"
proof -
  let ?w = "demo_world (demo_client PROXY) []"
  have n: "w_next ?w = 1" by (simp add: demo_world_def)
  have "sel_wf ?w" "env_ok (w_env ?w)" "\<not> SOCKADDR_SIZE < peer_len ?w" "\<not> (INVALID_FD 8 \<or> registered ?w 8 \<noteq> None)" "unawaited 8 ?w"
    by (rule admitsE [OF demo_admits [of "demo_client PROXY" "[]"]],
        use demo_acceptable [of "demo_client PROXY" "[]"] in \<open>simp add: acceptable_def unawaited_def not_less\<close>)+
  with client_accepted [of ?w demo_key, unfolded demo_admits option.case]
  obtain w' c where "master_read_handler demo_key ?w = Inr w'" "stored 8 ?w c w'" "living (w_next ?w) c w'" by auto
  then show ?thesis using n by (intro exI [of _ w'] exI [of _ c]) (simp add: stored_def)
qed

text \<open>
  C5. Reaching the origin, on every branch. While a connection dials, read events do nothing. A write event on
  the client's socket makes the first attempt, one on the origin's socket is its outcome: \<open>dial_verdict\<close> says what
  follows from the addresses left and the system's answers. After a failed attempt the next address is dialled. When an attempt
  succeeded, the client is told the address of the proxy's own end (\<open>getsockname\<close>), the interest of both sockets becomes
  reading and writing with the masks they had, and the connection relays. When no address is left, and also when an attempt
  fails at once with addresses left, the reply that goes with the error is queued and logged, and the connection only
  drains. The destination is one that can be logged.
\<close>

theorem origin_connection:
  assumes "dialing cid c w" and "fd \<in> {client_sock c, origin_sock c}" and "env_ok (w_env w)" and "same_family c (w_env w)"
    and "fresh_socket c w" and "log_dest True c = Inr d"
  shows "\<exists>w'. relay_event rd fd w = Inr w'
    \<and> (if rd \<or> quiet w fd OP_WRITE then w' = w else dial_step cid c w (dial_verdict fd c (w_env w)) w')"
  by (rule dial_event [OF assms])

theorem origin_connection_witness:
  "\<exists>w w'. dialing 0 demo_dialer w \<and> relay_event False 5 w = Inr w' \<and> dial_step 0 demo_dialer w (Underway [demo_target]) w'"
proof -
  obtain w where w: "dialing 0 demo_dialer w" "w_env w = demo_env []"
    "registered w = [5 \<mapsto> new_item 5 OP_WRITE socks5_handler (Some (A_client 0)), 7 \<mapsto> new_item 7 OP_READ mgmt_handler (Some (A_mgmt 0))]"
    by (rule demo_dialing)
  have "env_ok (w_env w)" "same_family demo_dialer (w_env w)" "fresh_socket demo_dialer w"
    unfolding fresh_socket_def w(2,3) by (simp_all add: same_family_def demo_target_def numeric_target_def) (simp_all add: demo_env_def AF_INET_def)
  moreover have "hasFlag OP_WRITE OP_WRITE" by code_simp
  then have "\<not> quiet w 5 OP_WRITE" by (simp add: quiet_def w(3) new_item_def)
  moreover have "dial_verdict 5 demo_dialer (w_env w) = Underway [demo_target]"
    using w(2) by (simp add: dial_verdict_def attempt_def demo_env_def INVALID_FD_def ITEMS_MAX_SIZE_def)
  ultimately show ?thesis
    using origin_connection [OF w(1), of 5 _ False] w(1) by fastforce
qed

section \<open>Relaying\<close>

text \<open>
  C4. The relay as a whole. Take a connection that relays or drains, and any sequence of read and
  write events on its two sockets, each reported as the selector reports it and with whatever the
  system answers then. No event faults. In each direction what the proxy has sent, followed by what
  it still holds, is what it held before followed by what it has received: nothing is lost, doubled
  or reordered, and the connection is again one that relays or drains; or the connection was destroyed,
  and what was sent is a beginning of what was received.
\<close>

theorem relay_conserves:
  assumes "relaying cid c w" and "\<forall>(rd, fd, e)\<in>set evs. env_ok e \<and> fd \<in> {client_sock c, origin_sock c}"
  shows "\<exists>t w'. relay_run cid evs w = Inr (t, w') \<and> (case w_clients w' cid of
      Some c' \<Rightarrow> relaying cid c' w' \<and> conserved c t (contents (origin_buf c')) (contents (client_buf c'))
    | None \<Rightarrow> \<exists>up down. conserved c t up down)"
  by (rule relay_run_ok [OF assms])

theorem relay_conserves_witness:
  "\<exists>t w'. relay_run 0 [(True, 5, demo_env [1, 2, 3]), (False, 6, demo_env []), (True, 5, demo_env [])] demo_relay = Inr (t, w')
     \<and> (case w_clients w' 0 of
          Some c' \<Rightarrow> from_client t = to_origin t @ contents (origin_buf c')
        | None \<Rightarrow> \<exists>lost. from_client t = to_origin t @ lost)
     \<and> event_traffic 0 True 5 (demo_relay\<lparr>w_env := demo_env [1, 2, 3]\<rparr>) = no_traffic\<lparr>from_client := [1, 2, 3]\<rparr>"
proof -
  let ?evs = "[(True, 5, demo_env [1, 2, 3]), (False, 6, demo_env []), (True, 5, demo_env [])]"
  have "\<forall>(rd, fd, e)\<in>set ?evs. env_ok e \<and> fd \<in> {client_sock demo_relay_client, origin_sock demo_relay_client}"
    by (simp add: demo_relay_client_def)
  from relay_conserves [OF demo_relaying this] obtain t w' where run: "relay_run 0 ?evs demo_relay = Inr (t, w')"
    and t: "case w_clients w' 0 of
        Some c' \<Rightarrow> relaying 0 c' w' \<and> conserved demo_relay_client t (contents (origin_buf c')) (contents (client_buf c'))
      | None \<Rightarrow> \<exists>up down. conserved demo_relay_client t up down"
    by blast
  have "contents (origin_buf demo_relay_client) = []" "Buffer.space (origin_buf demo_relay_client) = 64" by (simp_all add: demo_relay_client_def)
  moreover have "hasFlag OP_READ OP_READ" by code_simp
  ultimately show ?thesis
    using run t
    by (auto simp: conserved_def event_traffic_def demo_relay_registered demo_registered new_item_def brought_def rd_bytes_def BUFFSIZE_def
        split: option.splits) (auto simp: demo_relay_def demo_env_def demo_relay_client_def)
qed

section \<open>The state machine and the selector\<close>

text \<open>
  C22. The engine goes where the callback says. An event finds the machine in its state, or puts it into the
  initial one if it is the first; the callback of that state for the event runs; its result is the
  result of the dispatch, is a state of the table, and is the machine's current state afterwards. Only arriving in
  \<open>DONE\<close> may destroy the client, after which the machine can no longer be read.
\<close>

theorem machine_follows_callback:
  assumes "stm_dispatch cb proxy_machine client_stm k w = Inr (ret, w')"
  shows "\<exists>st f w1 w2. handle_first proxy_machine client_stm k w = Inr w1 \<and> get_current client_stm k w1 = Inr (Some st)
    \<and> (case get_current client_stm k w of Inr (Some j) \<Rightarrow> w1 = w \<and> j = st | Inr None \<Rightarrow> st = AUTH_METHOD | Inl _ \<Rightarrow> False)
    \<and> cb (state_actions ! st) = Some f \<and> f k w1 = Inr (ret, w2) \<and> jump proxy_machine client_stm ret k w2 = Inr w'
    \<and> ret \<le> WRITE_REMAINING
    \<and> (get_current client_stm k w' = Inr (Some ret) \<or> ret = DONE \<and> get_current client_stm k w' = Inl Use_after_free)"
proof -
  have m: "initial proxy_machine = AUTH_METHOD" "states proxy_machine = state_actions" "max_state proxy_machine = WRITE_REMAINING"
    by (simp_all add: proxy_machine_def)
  obtain st f w1 w2 where "pm.found_in st k w w1" "cb (state_actions ! st) = Some f" "f k w1 = Inr (ret, w2)"
    "jump proxy_machine client_stm ret k w2 = Inr w'" "ret \<le> WRITE_REMAINING" "pm.settled ret k w'"
    using pm.dispatch_current [OF assms] unfolding m by blast
  then show ?thesis
    unfolding pm.found_in_def pm.settled_def m
    by (intro exI [of _ st] exI [of _ f] exI [of _ w1] exI [of _ w2] conjI) simp_all
qed

theorem machine_follows_callback_witness:
  "\<exists>w' w2. stm_dispatch on_read_ready proxy_machine client_stm demo_key (demo_world (demo_client PLAIN_AUTH) demo_credentials)
      = Inr (REQUEST, w')
    \<and> read_plain_auth demo_key (demo_world (demo_client PLAIN_AUTH) demo_credentials) = Inr (REQUEST, w2)
    \<and> get_current client_stm demo_key w' = Inr (Some REQUEST)"
proof -
  let ?w = "demo_world (demo_client PLAIN_AUTH) demo_credentials"
  obtain w' where run: "stm_dispatch on_read_ready proxy_machine client_stm demo_key ?w = Inr (REQUEST, w')"
    using demo_login unfolding stm_handler_read_def by blast
  have "ATTACHMENT demo_key = Inr 0" "get_client 0 ?w = Inr (demo_client PLAIN_AUTH)" "stm_current (demo_client PLAIN_AUTH) = Some PLAIN_AUTH"
    using demo_serving [of PLAIN_AUTH demo_credentials]
    by (simp_all add: serving_def ATTACHMENT_def get_client_def demo_client_def fresh_client_def)
  then have cur: "get_current client_stm demo_key ?w = Inr (Some PLAIN_AUTH)" by (simp add: get_current_eq)
  have "on_read_ready (state_actions ! PLAIN_AUTH) = Some read_plain_auth" by (rule readers(3))
  with machine_follows_callback [OF run] cur run show ?thesis by auto
qed

text \<open>
  C23. The five interest operations refine updates of a finite map from descriptors to items:
  they never fault, report success exactly for registered descriptors, change only that item,
  and keep the descriptor sets given to \<open>pselect\<close> equal to the effective interests.
\<close>

theorem interest_operations:
  fixes s :: "('h, 'd, 'z) fdselector_scheme"
  assumes "sel_wf s"
  shows "updates_item selector_set_interest (\<lambda>i it. it\<lparr>it_interest := i\<rparr>) s
    \<and> updates_item selector_add_interest (\<lambda>i it. it\<lparr>it_interest := it_interest it OR i, it_mask := it_mask it OR i\<rparr>) s
    \<and> updates_item selector_unmask_interest (\<lambda>i it. it\<lparr>it_mask := it_mask it OR i\<rparr>) s
    \<and> updates_item selector_remove_interest (\<lambda>i it. it\<lparr>it_interest := it_interest it AND NOT i\<rparr>) s
    \<and> updates_item selector_mask_interest (\<lambda>i it. it\<lparr>it_mask := it_mask it AND NOT i\<rparr>) s"
  by (intro conjI updates_item [OF assms])

theorem interest_operations_witness:
  "updates_item selector_mask_interest (\<lambda>i it. it\<lparr>it_mask := it_mask it AND NOT i\<rparr>) (demo_world (demo_client REQUEST) [])"
  using interest_operations [OF demo_sel_wf [of "demo_client REQUEST" "[]"]] by simp

text \<open>
  C24. Registering a valid descriptor that is free adds exactly that item, with the interest,
  handler and attachment given; any other descriptor is refused and nothing changes.
\<close>

theorem registration:
  fixes s :: "('h, 'd, 'z) fdselector_scheme"
  assumes "sel_wf s"
  shows "if \<not> INVALID_FD fd \<and> registered s fd = None
    then \<exists>s'. selector_register alloc junk fd (Some h) interest data s = Inr (SELECTOR_SUCCESS, s') \<and> sel_wf s'
      \<and> registered s' = (registered s)(fd \<mapsto> new_item fd interest h data)
    else \<exists>st. st \<noteq> SELECTOR_SUCCESS \<and> selector_register alloc junk fd (Some h) interest data s = Inr (st, s)"
proof (cases "\<not> INVALID_FD fd \<and> registered s fd = None")
  case True
  then show ?thesis
    using selector_register_fresh [OF assms, of fd alloc junk h interest data] by auto
next
  case False
  then show ?thesis
    using selector_register_refused [OF assms, of fd alloc junk "Some h" interest data] by auto
qed

theorem registration_witness:
  "\<exists>s'. selector_register (\<lambda>_. True) zero_item 9 (Some mgmt_handler) OP_READ None (demo_world (demo_client REQUEST) [])
       = Inr (SELECTOR_SUCCESS, s') \<and> sel_wf s'
     \<and> registered s' = (registered (demo_world (demo_client REQUEST) []))(9 \<mapsto> new_item 9 OP_READ mgmt_handler None)"
  using registration [OF demo_sel_wf, of 9 "demo_client REQUEST" "[]" "\<lambda>_. True" zero_item mgmt_handler OP_READ None]
  by (simp add: demo_registered INVALID_FD_def ITEMS_MAX_SIZE_def)

text \<open>
  C25. Unregistering a descriptor of the proxy succeeds, removes exactly that item, runs no callback and
  leaves the rest of the server alone; for a descriptor that is not registered the status says that the argument is
  wrong, and the world is as it was.
\<close>

theorem unregistration:
  assumes "sel_wf w" and "proxy_fd w fd"
  shows "if registered w fd = None then unregister fd w = Inr (SELECTOR_IARGS, w)
    else \<exists>w'. unregister fd w = Inr (SELECTOR_SUCCESS, w') \<and> touches {fd} w w' \<and> w_clients w' = w_clients w
      \<and> w_trace w' = w_trace w \<and> registered w' = (registered w)(fd := None)"
  by (rule unregister_touches [OF assms]) auto

theorem unregistration_witness:
  "\<exists>w'. unregister 5 (demo_world (demo_client REQUEST) []) = Inr (SELECTOR_SUCCESS, w')
     \<and> touches {5} (demo_world (demo_client REQUEST) []) w' \<and> w_clients w' = w_clients (demo_world (demo_client REQUEST) [])
     \<and> w_trace w' = w_trace (demo_world (demo_client REQUEST) [])
     \<and> registered w' = (registered (demo_world (demo_client REQUEST) []))(5 := None)"
proof -
  have "proxy_fd (demo_world (demo_client REQUEST) []) 5" "registered (demo_world (demo_client REQUEST) []) 5 \<noteq> None"
    by (simp_all add: proxy_fd_def demo_registered new_item_def)
  then show ?thesis using unregistration [OF demo_sel_wf, of "demo_client REQUEST" "[]" 5] by (simp only: if_False)
qed

section \<open>Counters and credentials\<close>

text \<open>
  C26. As long as removals match admitted clients, the counters equal the clients alive, the
  32-bit admission test is exact (it admits precisely when the descriptors of the clients stay within the code's own
  limit of 1020) and the descriptors of the clients never exceed that limit. The listening sockets and the standard
  streams are not counted by the code, and the theorem says nothing of them.
\<close>

theorem admission_control:
  assumes "conn_reach (s, l)"
  shows "counts s l \<and> fds_in_use l \<le> fd_budget
    \<and> (fst (add_proxy_client s) \<longleftrightarrow> fds_in_use l + 2 \<le> fd_budget)
    \<and> (fst (add_mgmt_client s) \<longleftrightarrow> fds_in_use l + 1 \<le> fd_budget)"
proof -
  have c: "counts s l" by (rule conn_reach_counts [OF assms])
  with add_proxy_client_admits(1) [OF c] add_mgmt_client_admits(1) [OF c] show ?thesis
    by (simp add: admit_proxy_def admit_mgmt_def) (simp add: counts_def)
qed

theorem admission_control_witness:
  "counts initial_state \<lparr>live_proxy = 0, live_mgmt = 0\<rparr> \<and> fds_in_use \<lparr>live_proxy = 0, live_mgmt = 0\<rparr> \<le> fd_budget
   \<and> fst (add_proxy_client initial_state)"
  using admission_control [OF conn_reach.start] by (simp add: fds_in_use_def fd_budget_def)

text \<open>
  C27. The users and the tokens as stores, one contract for both: adding never faults, an added
  entry and only that one becomes able to log in, and a full table or an entry that is not valid
  changes nothing. Valid is for a user that name and password are short enough, printable and without a colon, and the name is
  new; for a token only that it is short enough and printable: a token that is already there is accepted and stored once more.
\<close>

theorem credential_stores:
  assumes "users_wf ut" and "tokens_wf tt"
  shows "(\<exists>ok ut'. add_user_pair (name, pass) ut = Inr (ok, ut') \<and> users_wf ut'
      \<and> (ok \<longleftrightarrow> valid_user (name, pass) ut \<and> user_count ut < MAX_USERS) \<and> (\<not> ok \<longrightarrow> ut' = ut)
      \<and> (\<forall>n p. try_credentials n p ut' \<longleftrightarrow> try_credentials n p ut \<or> (ok \<and> n = name \<and> p = pass)))
    \<and> (\<exists>ok tt'. add_token tok tt = Inr (ok, tt') \<and> tokens_wf tt'
      \<and> (ok \<longleftrightarrow> valid_token tok tt \<and> token_count tt < MAX_TOKENS) \<and> (\<not> ok \<longrightarrow> tt' = tt)
      \<and> (\<forall>t. check_token t tt' \<longleftrightarrow> check_token t tt \<or> (ok \<and> t = tok)))"
  using us.contract [OF assms(1), of "(name, pass)"] ts.contract [OF assms(2), of tok]
  by (simp add: length_user_entries [OF assms(1)] length_token_entries [OF assms(2)])

theorem credential_stores_witness:
  "(\<exists>ok ut'. add_user_pair (bytes_of ''ann'', bytes_of ''pw'') empty_users = Inr (ok, ut') \<and> users_wf ut'
      \<and> (ok \<longleftrightarrow> valid_user (bytes_of ''ann'', bytes_of ''pw'') empty_users \<and> user_count empty_users < MAX_USERS)
      \<and> (\<not> ok \<longrightarrow> ut' = empty_users)
      \<and> (\<forall>n p. try_credentials n p ut' \<longleftrightarrow>
           try_credentials n p empty_users \<or> (ok \<and> n = bytes_of ''ann'' \<and> p = bytes_of ''pw'')))
    \<and> (\<exists>ok tt'. add_token (bytes_of ''t0'') empty_tokens = Inr (ok, tt') \<and> tokens_wf tt'
      \<and> (ok \<longleftrightarrow> valid_token (bytes_of ''t0'') empty_tokens \<and> token_count empty_tokens < MAX_TOKENS)
      \<and> (\<not> ok \<longrightarrow> tt' = empty_tokens)
      \<and> (\<forall>t. check_token t tt' \<longleftrightarrow> check_token t empty_tokens \<or> (ok \<and> t = bytes_of ''t0'')))"
  by (rule credential_stores) (rule users_wf_empty tokens_wf_empty)+

section \<open>The POP3 sniffer\<close>

text \<open>
  C28. On any traffic the sniffer ends, never leaves its arrays, and keeps its invariant; it does
  not change the bytes it looks at.
\<close>

theorem sniffer_is_safe:
  assumes "pop3_wf p" and "buffer_wf request"
  shows "\<exists>found p'. pop3_parse p request = Inr (found, p') \<and> pop3_wf p' \<and> buf_data (pop_buf p') = buf_data request"
  by (rule pop3_parse_ok [OF assms])

theorem sniffer_is_safe_witness:
  "\<exists>found p'. pop3_parse demo_parser (buffer_init 2 [65, 66]) = Inr (found, p') \<and> pop3_wf p'
     \<and> buf_data (pop_buf p') = buf_data (buffer_init 2 [65, 66])"
  by (rule sniffer_is_safe) (simp_all add: demo_parser_wf)



section \<open>The management lexer\<close>

text \<open>
  C30. Refilling the window keeps the unfinished token, appends exactly what was read, leaves the
  sentinel behind the last byte and the scanner where it was, whatever \<open>read\<close> answers, provided that there is a byte
  behind the array for the sentinel of a full window.
\<close>

theorem refill_keeps_token:
  assumes "input_wf i" and "roomy i" and "read_ok rd"
  shows "\<exists>n e i'. fillBuffer rd i = Inr (n, e, i') \<and> input_wf i' \<and> roomy i' \<and> in_tok i' = 0
    \<and> in_cur i' = in_cur i - in_tok i \<and> in_cond i' = in_cond i \<and> in_state i' = in_state i
    \<and> (\<exists>bs. pending i' = pending i @ bs \<and> (0 \<le> n \<longrightarrow> n = int (length bs)) \<and> (n < 0 \<longrightarrow> bs = []))"
  using fillBuffer_ok [OF assms] by blast

theorem refill_keeps_token_witness:
  "\<exists>n e i'. fillBuffer (\<lambda>n. Read_ok (take n [13, 10])) (demo_input yycpass [99]) = Inr (n, e, i') \<and> input_wf i' \<and> roomy i' \<and> in_tok i' = 0
    \<and> in_cur i' = in_cur (demo_input yycpass [99]) - in_tok (demo_input yycpass [99])
    \<and> in_cond i' = in_cond (demo_input yycpass [99]) \<and> in_state i' = in_state (demo_input yycpass [99])
    \<and> (\<exists>bs. pending i' = pending (demo_input yycpass [99]) @ bs \<and> (0 \<le> n \<longrightarrow> n = int (length bs)) \<and> (n < 0 \<longrightarrow> bs = []))"
  by (rule refill_keeps_token) (simp_all add: demo_input_ok MGMT_BUFFSIZE_def read_ok_def)

text \<open>
  C20. A flaw: the sentinel of a full window has no place in the array. With \<open>bufSize\<close> bytes of memory \<open>initState\<close> stores it
  outside, and so does the refill that fills the window. Every new management client has it at index 2048 of
  \<open>read_buf_raw\<close>, whose last index is 2047; what it overwrites there is padding of the struct.
\<close>

theorem sentinel_behind_array:
  "(length (in_buf i) = in_bufSize i \<longrightarrow> initState i = Inl Out_of_bounds)
   \<and> (input_wf i \<and> length (in_buf i) = in_bufSize i \<and> rd (in_bufSize i - length (pending i)) = Read_ok bs
       \<and> length (pending i) + length bs = in_bufSize i \<longrightarrow> fillBuffer rd i = Inl Out_of_bounds)
   \<and> (env_ok e \<and> env_malloc e 0 \<longrightarrow> (\<exists>c. create_mgmt_client sock e = Inr (Some c) \<and> in_lim (input c) = MGMT_BUFFSIZE
       \<and> in_buf (input c) ! MGMT_BUFFSIZE = 0 \<and> length (in_buf (input c)) = MGMT_BUFFSIZE + read_buf_padding))"
  using initState_behind_array fillBuffer_behind_array create_mgmt_client_sentinel by blast

theorem sentinel_behind_array_witness:
  "initState ((demo_input yycpass [])\<lparr>in_buf := replicate MGMT_BUFFSIZE 0\<rparr>) = Inl Out_of_bounds
   \<and> (\<exists>c. create_mgmt_client 7 (demo_env []) = Inr (Some c) \<and> in_lim (input c) = MGMT_BUFFSIZE)"
proof -
  let ?i = "(demo_input yycpass [])\<lparr>in_buf := replicate MGMT_BUFFSIZE 0\<rparr>"
  have "length (in_buf ?i) = in_bufSize ?i" "env_malloc (demo_env []) 0" by (simp_all add: demo_env_def)
  then show ?thesis
    using sentinel_behind_array [of ?i _ "[]" "demo_env []" 7] by (auto simp del: replicate_Suc)
qed

text \<open>
  C32. The generated lexer always ends (the fuel is enough), never reads behind the sentinel and
  leaves the window well-formed: it either waits at the end of the input with the token kept, or
  returns a command and steps over exactly the bytes it reports. The memory needed is what the sentinel needs: an
  array of \<open>bufSize\<close> bytes is enough as long as the window is not full (\<open>sentinel_behind_array\<close>).
\<close>

theorem lexer_ends:
  assumes "input_wf i"
  shows "\<exists>cmd out i'. parseMgmtRequest i = Inr (Some (cmd, out, i')) \<and> input_wf i'
    \<and> in_buf i' = in_buf i \<and> in_lim i' = in_lim i \<and> in_cond i' = in_cond i
    \<and> (case out of
         None \<Rightarrow> cmd = MGMT_INCOMPLETE \<and> in_cur i' = in_lim i \<and> in_tok i' = in_tok i
       | Some (arg, argLen, len) \<Rightarrow> in_tok i' = in_tok i + len \<and> in_cur i' = in_tok i' \<and> in_state i' = -1)"
proof -
  obtain cmd out i' where "parseMgmtRequest i = Inr (Some (cmd, out, i'))" "input_wf i'"
    "in_buf i' = in_buf i" "in_lim i' = in_lim i" "in_cond i' = in_cond i"
    "out = None \<longrightarrow> cmd = MGMT_INCOMPLETE \<and> in_cur i' = in_lim i \<and> in_tok i' = in_tok i"
    "\<forall>arg argLen len. out = Some (arg, argLen, len) \<longrightarrow> in_tok i' = in_tok i + len \<and> in_cur i' = in_tok i' \<and> in_state i' = -1"
    by (rule parse_ok [OF assms])
  then show ?thesis by (auto split: option.splits)
qed

theorem lexer_ends_witness:
  "\<exists>cmd out i'. parseMgmtRequest (demo_input yycpass [99, 97]) = Inr (Some (cmd, out, i')) \<and> input_wf i'
    \<and> in_buf i' = in_buf (demo_input yycpass [99, 97]) \<and> in_lim i' = in_lim (demo_input yycpass [99, 97])
    \<and> in_cond i' = in_cond (demo_input yycpass [99, 97])
    \<and> (case out of
         None \<Rightarrow> cmd = MGMT_INCOMPLETE \<and> in_cur i' = in_lim (demo_input yycpass [99, 97]) \<and> in_tok i' = in_tok (demo_input yycpass [99, 97])
       | Some (arg, argLen, len) \<Rightarrow> in_tok i' = in_tok (demo_input yycpass [99, 97]) + len \<and> in_cur i' = in_tok i' \<and> in_state i' = -1)"
  by (rule lexer_ends) (simp add: demo_input_ok MGMT_BUFFSIZE_def)

text \<open>
  C33. The command lines. At the start of a line the keyword in any mixture of cases, spaces and CR LF
  give exactly that command, consume exactly the line and leave the lexer at the start of the next
  one. With an argument the lexer reports its place and its length without the spaces around it.
  The status of the dissector wants at least one space, without which the line is an
  unknown command; its new value is a word in lower case with nothing behind it.
\<close>

theorem command_lines:
  "accepts yyctrns ''stats'' MGMT_STATS \<and> accepts yyctrns ''users'' MGMT_USERS
   \<and> accepts yyctrns ''buffsize'' MGMT_GET_BUFFSIZE \<and> accepts yyctrns ''capa'' MGMT_CAPA
   \<and> accepts yyctrns ''quit'' MGMT_QUIT \<and> accepts yycpass ''capa'' MGMT_CAPA \<and> accepts yycpass ''quit'' MGMT_QUIT
   \<and> accepts_after (\<lambda>spaces. 0 < spaces) yyctrns ''dissector-status'' MGMT_GET_DISSECTOR_STATUS
   \<and> accepts_after (\<lambda>spaces. spaces = 0) yyctrns ''dissector-status'' MGMT_INVALID_CMD
   \<and> accepts_arg yycpass ''token'' (\<lambda>arg _. arg \<noteq> [] \<and> (\<forall>c\<in>set arg. printable c)) MGMT_TOKEN
   \<and> accepts_arg yyctrns ''add-user'' (\<lambda>arg _. arg \<noteq> [] \<and> (\<forall>c\<in>set arg. printable c)) MGMT_ADD_USER
   \<and> accepts_arg yyctrns ''set-buffsize'' (\<lambda>arg _. arg \<noteq> [] \<and> (\<forall>c\<in>set arg. digit c)) MGMT_SET_BUFFSIZE
   \<and> accepts_arg yyctrns ''set-dissector-status''
       (\<lambda>arg spaces. arg \<in> {bytes_of ''on'', bytes_of ''off''} \<and> spaces = 0) MGMT_SET_DISSECTOR_STATUS"
  by (intro conjI plain_accepted dissector_accepted arguments_accepted)

theorem command_lines_witness:
  "lexed (demo_input yycpass (arg_line (bytes_of ''ToKen'') 0 (bytes_of ''s3cret'') 1 @ [99])) MGMT_TOKEN
     (bytes_of ''ToKen'') 0 (bytes_of ''s3cret'') 1 [99]"
proof -
  let ?bs = "arg_line (bytes_of ''ToKen'') 0 (bytes_of ''s3cret'') 1 @ [99]"
  have "line_start yycpass (demo_input yycpass ?bs)" "pending (demo_input yycpass ?bs) = ?bs"
    "letters ''token'' (bytes_of ''ToKen'')" "bytes_of ''s3cret'' \<noteq> []" "\<forall>c\<in>set (bytes_of ''s3cret''). printable c"
    by (simp_all add: demo_input_ok arg_line_def bytes_of_def letters_def tolower_def printable_def MGMT_BUFFSIZE_def)
  moreover have "accepts_arg yycpass ''token'' (\<lambda>arg _. arg \<noteq> [] \<and> (\<forall>c\<in>set arg. printable c)) MGMT_TOKEN"
    using command_lines by blast
  ultimately show ?thesis unfolding accepts_arg_def by blast
qed

section \<open>The management server\<close>

text \<open>
  C13. The management side as a whole: in every run of accepts, reads and writes on any answers of
  the system, every client stays registered under its own descriptor with a sound buffer and
  lexer, the user and token tables and the buffer size stay within their limits, and every event
  is handled to its end without a fault, given the padding behind \<open>read_buf_raw\<close> on which the sentinel of a full window
  falls (\<open>sentinel_behind_array\<close>).
\<close>

theorem management_run:
  assumes "mgmt_inv w" and "mgmt_step\<^sup>*\<^sup>* w w'"
  shows "mgmt_inv w' \<and> handled w'"
  using mgmt_run_inv [OF assms(2,1)] mgmt_inv_handled by simp

theorem management_run_witness:
  "mgmt_inv ((demo_world (demo_client PROXY) [])\<lparr>w_env := demo_env [99]\<rparr>)
   \<and> handled ((demo_world (demo_client PROXY) [])\<lparr>w_env := demo_env [99]\<rparr>)"
  by (rule management_run [OF demo_mgmt_inv]) (rule r_into_rtranclp, rule step_env, rule demo_env_ok)



text \<open>
  C15. The command loop always returns (one round for each byte of the window and two more are
  enough), without a fault on any input, keeps the invariants, changes nothing of the server but
  the two settings and the users, and only appends to the two output buffers. The window's memory is
  \<open>read_buf_raw\<close> with the padding behind it, where the sentinel of a full window is (\<open>sentinel_behind_array\<close>).
\<close>

theorem command_loop_ends:
  assumes "mgmt_wf c" and "tables_ok w"
  shows "\<exists>c' w'. processMgmtClient c w = Inr (Some (True, c', w')) \<and> mgmt_wf c' \<and> tables_ok w' \<and> settings_changed w w'
    \<and> (\<exists>out. contents (write_buf c') = contents (write_buf c) @ out)
    \<and> (\<exists>late. contents (pending_buf c') = contents (pending_buf c) @ late)"
  using processMgmtClient_ok [OF assms] unfolding processed_def by metis

theorem command_loop_ends_witness:
  "\<exists>c' w'. processMgmtClient (demo_typed yyctrns (replicate 2048 13)) (demo_world (demo_client PROXY) []) = Inr (Some (True, c', w'))
     \<and> mgmt_wf c' \<and> tables_ok w' \<and> settings_changed (demo_world (demo_client PROXY) []) w'"
  using command_loop_ends [OF demo_typed_wf demo_tables, of "replicate 2048 13" yyctrns "demo_client PROXY" "[]"]
  by (auto simp: MGMT_BUFFSIZE_def)

text \<open>
  C14. Sessions: fed with the lines of a sequence of requests, each allowed in the stage reached
  by then, and with room in \<open>write_buf\<close> for all the answers (without it they go to \<open>pending_buf\<close> or are
  lost, see \<open>user_listing_lost\<close>), the server queues exactly the answers of the service, in order, and ends in the
  service's state: stage, settings, users and the wish to quit. The service is that of the code: it adds a user with
  an empty password (\<open>ADD-USER juan:\<close>) and none whose name has more than 9 bytes.
\<close>

theorem management_session:
  assumes "stands_for c w sv (concat ls)" and "list_all2 line_of rs ls"
    and "session (token_entries (w_tokens w)) rs sv = Some (out, sv')" and "length out < Buffer.space (write_buf c)"
  shows "\<exists>c' w'. processMgmtClient c w = Inr (Some (True, c', w')) \<and> at_rest c' w' sv'
    \<and> contents (write_buf c') = contents (write_buf c) @ out"
  by (rule session_run [OF assms])

theorem management_session_witness:
  "\<exists>c' w'. processMgmtClient (demo_typed yycpass (concat demo_lines)) (demo_world (demo_client PROXY) []) = Inr (Some (True, c', w'))
     \<and> in_cond (input c') = yyctrns
     \<and> contents (write_buf c') = correct_password_text @ listing [(bytes_of ''foo'', bytes_of ''bar'')]"
proof -
  let ?w = "demo_world (demo_client PROXY) []" and ?c = "demo_typed yycpass (concat demo_lines)"
  let ?sv = "\<lparr>sv_auth = False, sv_quit = False, sv_state = w_state ?w, sv_users = [(bytes_of ''foo'', bytes_of ''bar'')]\<rparr>"
  have len: "length (concat demo_lines) \<le> MGMT_BUFFSIZE"
    by (simp add: demo_lines_def bytes_of_def CRLF_def MGMT_BUFFSIZE_def)
  have "stands_for ?c ?w ?sv (concat demo_lines)"
    using demo_typed_wf [OF len, of yycpass] demo_tables demo_input_ok [OF len, of yycpass] by (simp add: stands_for_def)
  moreover have "session (token_entries (w_tokens ?w)) [Token (bytes_of ''s3cret''), Users_list] ?sv
      = Some (correct_password_text @ listing [(bytes_of ''foo'', bytes_of ''bar'')], ?sv\<lparr>sv_auth := True\<rparr>)"
    by (simp add: demo_token_entries)
  moreover have "length (correct_password_text @ listing [(bytes_of ''foo'', bytes_of ''bar'')]) < Buffer.space (write_buf ?c)"
    by (simp add: correct_password_text_def listing_def users_header_def success_status_def bytes_of_def CRLF_def MGMT_BUFFSIZE_def)
  ultimately show ?thesis
    using management_session [OF _ demo_lines_ok] by (fastforce simp: at_rest_def)
qed

text \<open>
  C34. A read event on a management connection with nothing pending, and how it ends. The input counts as ended exactly when the first
  \<open>read\<close> returns 0 (which it also does when the window is full and nothing is asked for) or the second one, which always follows
  otherwise, fails with another error than \<open>EAGAIN\<close>: then the descriptor
  is unregistered, the client freed and counted out once, and everybody else keeps their place. In all other cases
  the client stays registered and counted, also when the first \<open>read\<close> failed and the second found the end.
\<close>

theorem management_hang_up:
  assumes "mgmt_inv w" and "mgmt_key k mid c w" and "contents (pending_buf c) = []"
  shows "\<exists>w'. handle_mgmt_read k w = Inr (Some w') \<and> mgmt_inv w'
    \<and> (if hangs_up (input c) (w_env w)
       then w_mgmt w' = (w_mgmt w)(mid := None) \<and> registered w' = (registered w)(mc_fd c := None) \<and> w_state w' = rm_mgmt_client (w_state w)
       else \<exists>c'. w_mgmt w' = (w_mgmt w)(mid \<mapsto> c') \<and> mc_fd c' = mc_fd c \<and> registered w' (mc_fd c) \<noteq> None
         \<and> mgmt_client_count (w_state w') = mgmt_client_count (w_state w))"
proof -
  have "buffer_wf (pending_buf c)" using mgmt_wfD(3) [OF mgmt_invD(1) [OF assms(1,2)]] .
  then have "\<not> buffer_can_read (pending_buf c)" using assms(3) by (simp add: buffer_can_read_iff)
  then obtain w' where "handle_mgmt_read k w = Inr (Some w')" "mgmt_inv w'" "read_outcome mid c w w'"
    by (rule_tac handle_mgmt_read_ok [OF assms(1,2)]) blast
  then show ?thesis unfolding read_outcome_def by blast
qed

theorem management_hang_up_witness:
  "\<exists>w'. handle_mgmt_read demo_mgmt_key (demo_world (demo_client PROXY) []) = Inr (Some w') \<and> w_mgmt w' = Map.empty"
proof -
  have "hangs_up (input demo_mgmt) (w_env (demo_world (demo_client PROXY) []))" "contents (pending_buf demo_mgmt) = []"
    by (simp_all add: hangs_up_def demo_env_def demo_mgmt_def)
  then show ?thesis
    using management_hang_up [OF demo_mgmt_inv demo_mgmt_key, of "demo_client PROXY" "[]"] by fastforce
qed

text \<open>
  C37. The check of the range of \<open>SET-BUFFSIZE\<close> looks at the low 32 bits only: a number that
  exceeds a valid size by a multiple of \<open>2 ^ 32\<close> is accepted and stored as that size.
\<close>

theorem oversized_number_accepted:
  assumes "512 < n" and "n \<le> 10240" and "n + k * 2 ^ 32 < 2 ^ 63"
    and "end_arg arg argLen (input c) = Inr (a, i)" and "arg_text a i = Inr (show_nat (n + k * 2 ^ 32))"
  shows "do_set_buffsize arg argLen c w
    = Inr (c\<lparr>input := i\<rparr>, w\<lparr>w_state := set_buffsize (of_nat n) (w_state w)\<rparr>, snprintf set_buffsize_text)"
proof -
  have "n < 2 ^ 31" using assms(2) by simp
  then have a: "atoi (show_nat (n + k * 2 ^ 32)) = int n" using atoi_show assms(3) by blast
  have "MIN_SOCKS_BUFFSIZE < (of_nat n :: 64 word)" "(of_nat n :: 64 word) < MAX_SOCKS_BUFFSIZE"
    using assms(1,2) by (simp_all add: word_less_nat_alt unat_of_nat MIN_SOCKS_BUFFSIZE_def MAX_SOCKS_BUFFSIZE_def)
  then show ?thesis
    unfolding do_set_buffsize_def assms(4) bindE_Inr prod.case assms(5) a by (simp add: Let_def)
qed

theorem oversized_number_accepted_witness:
  "\<exists>i. do_set_buffsize (Some 0) 10 (demo_typed yyctrns (show_nat (1000 + 1 * 2 ^ 32))) (demo_world (demo_client PROXY) [])
     = Inr ((demo_typed yyctrns (show_nat (1000 + 1 * 2 ^ 32)))\<lparr>input := i\<rparr>,
            (demo_world (demo_client PROXY) [])\<lparr>w_state := set_buffsize (of_nat 1000) (w_state (demo_world (demo_client PROXY) []))\<rparr>,
            snprintf set_buffsize_text)"
proof -
  have ds: "show_nat (1000 + 1 * 2 ^ 32) = [52, 50, 57, 52, 57, 54, 56, 50, 57, 54]"
    by (simp add: show_nat.simps)
  let ?i = "(demo_input yyctrns (show_nat (1000 + 1 * 2 ^ 32)))\<lparr>in_buf := overwrite 10 [0] (in_buf (demo_input yyctrns (show_nat (1000 + 1 * 2 ^ 32))))\<rparr>"
  have "end_arg (Some 0) 10 (demo_input yyctrns (show_nat (1000 + 1 * 2 ^ 32))) = Inr (0, ?i)"
    unfolding ds by (simp add: end_arg_def demo_input_def MGMT_BUFFSIZE_def)
  moreover have "arg_text 0 ?i = Inr (show_nat (1000 + 1 * 2 ^ 32))"
    unfolding ds by (simp add: arg_text_def demo_input_def MGMT_BUFFSIZE_def overwrite_def cstr_def)
  ultimately show ?thesis
    by (intro exI [of _ ?i] oversized_number_accepted [of 1000 1 _ _ _ 0]) simp_all
qed

text \<open>
  C39. The listing of the users is lost when \<open>write_buf\<close> has room for its header but not for all
  of it: the command is consumed and no answer is queued anywhere.
\<close>

theorem user_listing_lost:
  assumes "stands_for c w sv (l @ rest)" and "sv_auth sv" and "line_of Users_list l"
    and "length users_header \<le> Buffer.space (write_buf c)" and "Buffer.space (write_buf c) < length (listing (sv_users sv))"
  shows "\<exists>i. (\<forall>fuel. process_loop (Suc fuel) c w = process_loop fuel (c\<lparr>input := i\<rparr>) w) \<and> stands_for (c\<lparr>input := i\<rparr>) w sv rest"
  by (rule listing_lost [OF assms])

theorem user_listing_lost_witness:
  "\<exists>i. process_loop 2 demo_crowded (demo_world (demo_client PROXY) []) = process_loop 1 (demo_crowded\<lparr>input := i\<rparr>) (demo_world (demo_client PROXY) [])"
proof -
  let ?w = "demo_world (demo_client PROXY) []"
  let ?sv = "\<lparr>sv_auth = True, sv_quit = False, sv_state = w_state ?w, sv_users = [(bytes_of ''foo'', bytes_of ''bar'')]\<rparr>"
  have l: "length (bytes_of ''users'' @ CRLF) \<le> MGMT_BUFFSIZE" by (simp add: bytes_of_def CRLF_def MGMT_BUFFSIZE_def)
  have st: "stands_for demo_crowded ?w ?sv ((bytes_of ''users'' @ CRLF) @ [])"
    using demo_crowded_ok demo_tables demo_input_ok [OF l, of yyctrns] by (simp add: stands_for_def)
  have "line_of Users_list (bytes_of ''users'' @ CRLF)" using demo_lines_ok by (simp add: demo_lines_def)
  moreover have "length users_header \<le> 28" "28 < length (listing [(bytes_of ''foo'', bytes_of ''bar'')])"
    by (simp_all add: listing_def users_header_def success_status_def bytes_of_def CRLF_def)
  ultimately have "\<exists>i. (\<forall>fuel. process_loop (Suc fuel) demo_crowded ?w = process_loop fuel (demo_crowded\<lparr>input := i\<rparr>) ?w)
      \<and> stands_for (demo_crowded\<lparr>input := i\<rparr>) ?w ?sv []"
    using demo_crowded_ok(2) by (intro user_listing_lost [OF st]) simp_all
  then show ?thesis by (metis Suc_1)
qed

text \<open>
  C40. A management connection for which there is no memory is counted out twice: the counter is
  one less than the connections that are left. When there were neither management connections nor clients of the proxy, the
  counter has wrapped around and the next test refuses whoever comes, of either kind.
\<close>

theorem failed_accept_miscounts:
  assumes "add_mgmt_client (w_state w) = (True, st)" and "env_accept (w_env w) = Accept_ok sock addr len" and "\<not> env_malloc (w_env w) 0"
  shows "\<exists>w'. mgmt_master_read_handler k w = Inr w' \<and> w_mgmt w' = w_mgmt w
    \<and> mgmt_client_count (w_state w') = mgmt_client_count (w_state w) - 1
    \<and> (mgmt_client_count (w_state w) = 0 \<and> proxy_client_count (w_state w) = 0 \<longrightarrow>
        \<not> fst (add_proxy_client (w_state w')) \<and> \<not> fst (add_mgmt_client (w_state w')))"
  by (rule mgmt_miscount [OF assms])

theorem failed_accept_miscounts_witness:
  "\<exists>w'. mgmt_master_read_handler demo_mgmt_key (demo_blank\<lparr>w_env := (demo_env [])\<lparr>env_malloc := (\<lambda>_. False)\<rparr>\<rparr>) = Inr w'
     \<and> mgmt_client_count (w_state w') = - 1 \<and> \<not> fst (add_proxy_client (w_state w')) \<and> \<not> fst (add_mgmt_client (w_state w'))"
proof -
  let ?w = "demo_blank\<lparr>w_env := (demo_env [])\<lparr>env_malloc := (\<lambda>_. False)\<rparr>\<rparr>"
  have adm: "add_mgmt_client (w_state ?w) = (True, snd (add_mgmt_client (w_state ?w)))"
    and none: "mgmt_client_count (w_state ?w) = 0" "proxy_client_count (w_state ?w) = 0"
    by (simp_all add: demo_blank_def initial_state_def add_mgmt_client_def)
  have acc: "env_accept (w_env ?w) = Accept_ok 8 \<lparr>sa_family = AF_INET, sa_addr = [127, 0, 0, 1], sa_port = [200, 1]\<rparr> 16"
    by (simp add: demo_env_def)
  show ?thesis
    using failed_accept_miscounts [OF adm acc, of demo_mgmt_key] none by auto
qed

section \<open>Starting the server\<close>

text \<open>
  C31. Whatever is typed on the command line, reading it never faults; if the program goes on, the
  users and the tokens are the acceptable ones among those given, in their order, and of the settings
  only the dissector's can have changed.
\<close>

theorem command_line:
  assumes "startup_ok su"
  shows "\<exists>r. parse_args argv su = Inr r \<and> (\<forall>su'. r = Done su' \<longrightarrow> startup_ok su'
    \<and> user_entries (su_users su') = fold option_users (fst (getopt_scan server_options long_options 63 None argv)) (user_entries (su_users su))
    \<and> token_entries (su_tokens su') = fold option_tokens (fst (getopt_scan server_options long_options 63 None argv)) (token_entries (su_tokens su))
    \<and> (\<exists>d. su_state su' = (su_state su)\<lparr>dissector_state := d\<rparr>))"
  using parse_args_ok [OF assms, of argv] unfolding option_done_def by blast

theorem command_line_witness:
  "\<exists>r. parse_args demo_argv initial_startup = Inr r \<and> (\<forall>su'. r = Done su' \<longrightarrow>
     user_entries (su_users su') = [(bytes_of ''foo'', bytes_of ''bar'')] \<and> token_entries (su_tokens su') = [bytes_of ''secret''])"
proof -
  have ok: "startup_ok initial_startup" using users_wf_empty tokens_wf_empty by (simp add: startup_ok_def initial_startup_def)
  have empty: "user_entries (su_users initial_startup) = []" "token_entries (su_tokens initial_startup) = []"
    by (simp_all add: initial_startup_def user_entries_def token_entries_def empty_users_def empty_tokens_def)
  have entries: "fold option_users (fst (getopt_scan server_options long_options 63 None demo_argv)) [] = [(bytes_of ''foo'', bytes_of ''bar'')]"
    "fold option_tokens (fst (getopt_scan server_options long_options 63 None demo_argv)) [] = [bytes_of ''secret'']"
    unfolding demo_options by code_simp+
  show ?thesis using command_line [OF ok, of demo_argv] unfolding empty entries by blast
qed

text \<open>
  C18. Starting never faults. When the command line is accepted, a socket for the proxy can be opened
  and there is memory, the server reaches its loop; whenever it does, the selector and the tables are
  sound, every listening descriptor for the proxy that the selector can watch (below 1024) is watched, there are no management sockets
  without a token, and every management event of any run from there is handled to its end, given the padding behind
  \<open>read_buf_raw\<close> for the sentinel (\<open>sentinel_behind_array\<close>).
\<close>

theorem server_start:
  assumes "fresh_world blank"
  shows "\<exists>r. main_setup e argv blank = Inr r
    \<and> (\<forall>su. started e argv su \<longrightarrow> (\<exists>monitor w. r = Done (socks_listeners e su, monitor, w)))
    \<and> (\<forall>master monitor w. r = Done (master, monitor, w) \<longrightarrow> ready master monitor w \<and> (\<forall>w'. mgmt_step\<^sup>*\<^sup>* w w' \<longrightarrow> handled w'))"
proof -
  obtain r where r: "main_setup e argv blank = Inr r" "\<And>su. started e argv su \<Longrightarrow> \<exists>monitor w. r = Done (socks_listeners e su, monitor, w)"
    "\<And>master monitor w. r = Done (master, monitor, w) \<Longrightarrow> ready master monitor w"
    using main_setup_ok [OF assms, of e argv] by auto
  have "handled w'" if "ready master monitor w" "mgmt_step\<^sup>*\<^sup>* w w'" for master monitor w w'
    using that mgmt_inv_handled [OF mgmt_run_inv [OF that(2)]] by (simp add: ready_def)
  then show ?thesis using r by (intro exI [of _ r] conjI allI impI) (assumption | rule r | metis)+
qed

theorem server_start_witness:
  "\<exists>monitor w. main_setup demo_main [] demo_blank = Inr (Done (socks_listeners demo_main initial_startup, monitor, w))
     \<and> ready (socks_listeners demo_main initial_startup) monitor w \<and> handled w"
proof -
  obtain r where r: "main_setup demo_main [] demo_blank = Inr r"
    "\<And>su. started demo_main [] su \<Longrightarrow> \<exists>monitor w. r = Done (socks_listeners demo_main su, monitor, w)"
    "\<And>master monitor w. r = Done (master, monitor, w) \<Longrightarrow> ready master monitor w \<and> (\<forall>w'. mgmt_step\<^sup>*\<^sup>* w w' \<longrightarrow> handled w')"
    using server_start [OF demo_blank_fresh, of demo_main "[]"] by metis
  obtain monitor w where w: "r = Done (socks_listeners demo_main initial_startup, monitor, w)" using r(2) [OF demo_started] by blast
  with r(3) [OF w] show ?thesis using r(1) by (intro exI [of _ monitor] exI [of _ w]) simp
qed

text \<open>
  C17. The program from its command line to its exit. When it starts, and as long as no socket of the proxy becomes
  ready, any number of rounds of the selector, on any answers of the system to the management service, pass without
  a fault (given the padding behind \<open>read_buf_raw\<close> for the sentinel, \<open>sentinel_behind_array\<close>); when the signal to
  end arrives, every management connection is closed, the selector is freed and the exit status is 0.
\<close>

theorem program_runs:
  assumes "fresh_world blank" and "started e argv su"
    and "\<forall>psel\<in>set psels. spares (fst ` set (socks_listeners e su)) psel"
  shows "\<exists>w'. main e argv psels blank = Inr (0, w') \<and> w_mgmt w' = Map.empty \<and> fds w' = None"
proof -
  obtain monitor w where w: "main_setup e argv blank = Inr (Done (socks_listeners e su, monitor, w))"
    "ready (socks_listeners e su) monitor w"
    using main_setup_ok [OF assms(1), of e argv] assms(2) by metis
  from main_loop_ok [OF ready_resting [OF w(2)] assms(3)] w(1) show ?thesis by (simp add: main_def)
qed

theorem program_runs_witness:
  "\<exists>w'. main demo_main [] [\<lambda>_ _. Psel_ready {} {}, \<lambda>_ _. Psel_err EINTR, \<lambda>_ _. Psel_ready {5} {7}] demo_blank = Inr (0, w')
     \<and> w_mgmt w' = Map.empty \<and> fds w' = None"
proof (rule program_runs [OF demo_blank_fresh demo_started])
  have "fst ` set (socks_listeners demo_main initial_startup) \<subseteq> {3, 4}"
    by (simp add: demo_main_def demo_listen_def socks_listeners_def listen_at_def try_listen_def setUpMasterSocket_def
        initial_startup_def default_args_def Let_def)
  then have "5 \<notin> fst ` set (socks_listeners demo_main initial_startup)" "7 \<notin> fst ` set (socks_listeners demo_main initial_startup)" by auto
  then show "\<forall>psel\<in>set [\<lambda>_ _. Psel_ready {} {}, \<lambda>_ _. Psel_err EINTR, \<lambda>_ _. Psel_ready {5} {7}].
      spares (fst ` set (socks_listeners demo_main initial_startup)) psel"
    by (simp add: spares_def)
qed

section \<open>The administration tool\<close>

text \<open>
  C16. The tool and the server together: the line that the tool sends for a request, on a connection with
  nothing queued, makes the server execute that request; when the bytes it queued have reached the
  tool, in pieces of any size below 256, the tool reports whether the request was granted and prints
  exactly what was asked for. The answer fits into \<open>write_buf\<close>; and for the listing no user has an empty name or one
  that starts with a dot, since the tool does not show those lines, or stops there. What is granted is what the code of the server grants, also
  a user with an empty password (\<open>juan:\<close>).
\<close>

theorem tool_and_server:
  assumes "stands_for c w sv (tool_text r)" and "contents (write_buf c) = []" and "sendable r" "allowed (sv_auth sv) r"
    and "r = Users_list \<Longrightarrow> \<forall>u\<in>set (sv_users sv). plain_line (fst u)"
    and "length (fst (serve (token_entries (w_tokens w)) r sv)) < Buffer.space (write_buf c)"
  shows "\<exists>c' w'. processMgmtClient c w = Inr (Some (True, c', w')) \<and> at_rest c' w' (snd (serve (token_entries (w_tokens w)) r sv))
    \<and> contents (write_buf c') = fst (serve (token_entries (w_tokens w)) r sv)
    \<and> (\<forall>p t ps. answers p t (tool_text r) ps (contents (write_buf c')) \<longrightarrow>
         (\<exists>t'. tool_run r p t = Inr (granted (token_entries (w_tokens w)) r sv, t')
           \<and> asked t (tool_text r) (length ps) (if granted (token_entries (w_tokens w)) r sv then shown r sv else []) t'))"
  by (rule tool_meets_server [OF assms]) blast+

theorem tool_and_server_witness:
  "\<exists>c' w' t'. processMgmtClient (demo_typed yyctrns (tool_text Users_list)) (demo_world (demo_client PROXY) []) = Inr (Some (True, c', w'))
     \<and> tool_users (demo_peer (contents (write_buf c'))) demo_tool = Inr (True, t')
     \<and> t_out t' = framed [bytes_of ''List of users:'', bytes_of ''USER #0: foo'']"
proof -
  let ?w = "demo_world (demo_client PROXY) []" and ?c = "demo_typed yyctrns (tool_text Users_list)"
  let ?sv = "\<lparr>sv_auth = True, sv_quit = False, sv_state = w_state ?w, sv_users = [(bytes_of ''foo'', bytes_of ''bar'')]\<rparr>"
  have len: "length (tool_text Users_list) \<le> MGMT_BUFFSIZE" by (simp add: bytes_of_def EOL_def MGMT_BUFFSIZE_def)
  have st: "stands_for ?c ?w ?sv (tool_text Users_list)"
    using demo_typed_wf [OF len, of yyctrns] demo_tables demo_input_ok [OF len, of yyctrns] by (simp add: stands_for_def)
  have ans: "length (listing [(bytes_of ''foo'', bytes_of ''bar'')]) = 31"
    by (simp add: listing_def users_header_def success_status_def bytes_of_def CRLF_def)
  obtain c' w' where run: "processMgmtClient ?c ?w = Inr (Some (True, c', w'))" "at_rest c' w' ?sv"
    "contents (write_buf c') = listing [(bytes_of ''foo'', bytes_of ''bar'')]"
    "\<And>p t ps. answers p t (tool_text Users_list) ps (contents (write_buf c')) \<Longrightarrow>
      \<exists>t'. tool_run Users_list p t = Inr (True, t') \<and> asked t (tool_text Users_list) (length ps) (shown Users_list ?sv) t'"
    using tool_and_server [OF st] ans by (auto simp: plain_line_def bytes_of_def is_eol_def MGMT_BUFFSIZE_def)
  have "answers (demo_peer (contents (write_buf c'))) demo_tool (tool_text Users_list)
      [take 5 (contents (write_buf c')), drop 5 (contents (write_buf c'))] (contents (write_buf c'))"
    using ans run(3) by (intro demo_peer_answers) simp_all
  from run(4) [OF this] obtain t' where "tool_users (demo_peer (contents (write_buf c'))) demo_tool = Inr (True, t')"
    "t_out t' = shown Users_list ?sv"
    by (auto simp: asked_def demo_tool_def)
  moreover have "shown Users_list ?sv = framed [bytes_of ''List of users:'', bytes_of ''USER #0: foo'']"
    by (simp add: numbered_def bytes_of_def show_nat.simps)
  ultimately show ?thesis using run(1) by auto
qed

text \<open>
  C38. A flaw: the tool cannot ask for the status of the dissector. It sends the keyword without the space
  that the lexer of the server wants, the server answers that there is no such command and stays as it
  is, and the tool reports failure and prints nothing, whatever the status.
\<close>

theorem dissector_status_refused:
  assumes "stands_for c w sv (bytes_of ''DISSECTOR-STATUS'' @ EOL)" and "contents (write_buf c) = []" and "sv_auth sv"
    and "length invalid_cmd_text < Buffer.space (write_buf c)"
  shows "\<exists>c' w'. processMgmtClient c w = Inr (Some (True, c', w')) \<and> at_rest c' w' sv
    \<and> contents (write_buf c') = invalid_cmd_text
    \<and> (\<forall>p t ps. answers p t (bytes_of ''DISSECTOR-STATUS'' @ EOL) ps (contents (write_buf c')) \<longrightarrow>
         (\<exists>t'. dissector_status p t = Inr (False, t') \<and> t_out t' = t_out t))"
proof -
  have st: "stands_for c w sv (tool_text Dissector_bare)" using assms(1) by simp
  obtain c' w' where "processMgmtClient c w = Inr (Some (True, c', w'))" "at_rest c' w' sv" "contents (write_buf c') = invalid_cmd_text"
    and run: "\<And>p t ps. answers p t (tool_text Dissector_bare) ps (contents (write_buf c')) \<Longrightarrow>
       \<exists>t'. tool_run Dissector_bare p t = Inr (False, t') \<and> asked t (tool_text Dissector_bare) (length ps) [] t'"
    by (rule tool_meets_server [OF st assms(2)]) (use assms(3,4) in auto)
  moreover have "\<exists>t'. dissector_status p t = Inr (False, t') \<and> t_out t' = t_out t"
    if "answers p t (bytes_of ''DISSECTOR-STATUS'' @ EOL) ps (contents (write_buf c'))" for p t ps
    using run [of p t ps] that by (auto simp: asked_def)
  ultimately show ?thesis by blast
qed

theorem dissector_status_refused_witness:
  "\<exists>c' w' t'. processMgmtClient (demo_typed yyctrns (bytes_of ''DISSECTOR-STATUS'' @ EOL)) (demo_world (demo_client PROXY) [])
       = Inr (Some (True, c', w'))
     \<and> dissector_status (demo_peer (contents (write_buf c'))) demo_tool = Inr (False, t') \<and> t_out t' = []"
proof -
  let ?w = "demo_world (demo_client PROXY) []" and ?c = "demo_typed yyctrns (bytes_of ''DISSECTOR-STATUS'' @ EOL)"
  let ?sv = "\<lparr>sv_auth = True, sv_quit = False, sv_state = w_state ?w, sv_users = [(bytes_of ''foo'', bytes_of ''bar'')]\<rparr>"
  have len: "length (bytes_of ''DISSECTOR-STATUS'' @ EOL) \<le> MGMT_BUFFSIZE" by (simp add: bytes_of_def EOL_def MGMT_BUFFSIZE_def)
  have st: "stands_for ?c ?w ?sv (bytes_of ''DISSECTOR-STATUS'' @ EOL)"
    using demo_typed_wf [OF len, of yyctrns] demo_tables demo_input_ok [OF len, of yyctrns] by (simp add: stands_for_def)
  have short: "length invalid_cmd_text = 38" by (simp add: invalid_cmd_text_def error_status_def bytes_of_def CRLF_def)
  then have pre: "contents (write_buf ?c) = []" "sv_auth ?sv" "length invalid_cmd_text < Buffer.space (write_buf ?c)"
    by (simp_all add: MGMT_BUFFSIZE_def)
  obtain c' w' where run: "processMgmtClient ?c ?w = Inr (Some (True, c', w'))" "contents (write_buf c') = invalid_cmd_text"
    "\<And>p t ps. answers p t (bytes_of ''DISSECTOR-STATUS'' @ EOL) ps (contents (write_buf c')) \<Longrightarrow>
       \<exists>t'. dissector_status p t = Inr (False, t') \<and> t_out t' = t_out t"
    using dissector_status_refused [OF st pre] by blast
  have "answers (demo_peer (contents (write_buf c'))) demo_tool (bytes_of ''DISSECTOR-STATUS'' @ EOL)
      [take 5 (contents (write_buf c')), drop 5 (contents (write_buf c'))] (contents (write_buf c'))"
    using short run(2) by (intro demo_peer_answers) simp_all
  from run(3) [OF this] run(1) show ?thesis by (auto simp: demo_tool_def)
qed

section \<open>Logs and blocking transfers\<close>

text \<open>
  C35. The two logs. Whatever entry the server records of an access or a captured login, the code that prints it
  never leaves the arrays it writes to and, at the level \<open>main\<close> sets, appends exactly the line of that entry to the
  standard output: time stamp, user, address of the client, destination, and status or credentials, in the format of
  the code. A client address of the family IPv6 makes it read behind the 16 bytes of \<open>client_addr\<close>.
\<close>

theorem log_lines:
  assumes "ntop_ok ntop" and "log_arrays_ok j" and "dest_ports_ok c"
  shows "(log_access_info c reply w = Inr w' \<and> reply < 2 ^ 31 \<longrightarrow>
      (\<exists>e. w' = w\<lparr>w_log := w_log w @ [e]\<rparr> \<and> print_access ntop t (setLogLevel LOG_INFO l) c reply j st
         = (if sa_family (client_addr c) = AF_INET6 then Inl Out_of_bounds
            else Inr (st\<lparr>st_stdout := st_stdout st @ log_line ntop t e\<rparr>, None))))
    \<and> (log_sniffer_info c user pass w = Inr w' \<longrightarrow>
      (\<exists>e. w' = w\<lparr>w_log := w_log w @ [e]\<rparr> \<and> print_sniffer ntop t (setLogLevel LOG_INFO l) c user pass j st
         = (if sa_family (client_addr c) = AF_INET6 then Inl Out_of_bounds
            else Inr (st\<lparr>st_stdout := st_stdout st @ log_line ntop t e\<rparr>, None))))"
proof (intro conjI impI)
  assume h: "log_access_info c reply w = Inr w' \<and> reply < 2 ^ 31"
  obtain e where "w' = w\<lparr>w_log := w_log w @ [e]\<rparr>" "access_message ntop c reply j = message_of ntop c e"
    by (rule access_message_text [OF assms conjunct2 [OF h] conjunct1 [OF h]])
  then show "\<exists>e. w' = w\<lparr>w_log := w_log w @ [e]\<rparr> \<and> print_access ntop t (setLogLevel LOG_INFO l) c reply j st
      = (if sa_family (client_addr c) = AF_INET6 then Inl Out_of_bounds else Inr (st\<lparr>st_stdout := st_stdout st @ log_line ntop t e\<rparr>, None))"
    by (intro exI [of _ e]) (simp add: print_access_def message_of_def logger_info log_line_def)
next
  assume h: "log_sniffer_info c user pass w = Inr w'"
  obtain e where "w' = w\<lparr>w_log := w_log w @ [e]\<rparr>" "sniffer_message ntop c user pass j = message_of ntop c e"
    by (rule sniffer_message_text [OF assms h])
  then show "\<exists>e. w' = w\<lparr>w_log := w_log w @ [e]\<rparr> \<and> print_sniffer ntop t (setLogLevel LOG_INFO l) c user pass j st
      = (if sa_family (client_addr c) = AF_INET6 then Inl Out_of_bounds else Inr (st\<lparr>st_stdout := st_stdout st @ log_line ntop t e\<rparr>, None))"
    by (intro exI [of _ e]) (simp add: print_sniffer_def message_of_def logger_info log_line_def)
qed

theorem log_lines_witness:
  "\<exists>e. log_access_info demo_named 0 demo_blank = Inr (demo_blank\<lparr>w_log := w_log demo_blank @ [e]\<rparr>)
     \<and> print_access demo_ntop demo_tm (setLogLevel LOG_INFO LOG_DEBUG) demo_named 0 demo_arrays \<lparr>st_stdout = [], st_stderr = []\<rparr>
       = Inr (\<lparr>st_stdout = log_line demo_ntop demo_tm e, st_stderr = []\<rparr>, None)"
proof -
  obtain e where e: "log_access_info demo_named 0 demo_blank = Inr (demo_blank\<lparr>w_log := w_log demo_blank @ [e]\<rparr>)"
    using demo_named_access by blast
  let ?st = "\<lparr>st_stdout = [], st_stderr = []\<rparr>"
  note line = log_lines [OF demo_ntop_ok demo_arrays_ok demo_named_ports, where reply = 0 and w = demo_blank and t = demo_tm
      and w' = "demo_blank\<lparr>w_log := w_log demo_blank @ [e]\<rparr>" and l = LOG_DEBUG and st = ?st]
  have "(0 :: nat) < 2 ^ 31" by simp
  from mp [OF conjunct1 [OF line] conjI [OF e this]]
  obtain e' where "demo_blank\<lparr>w_log := w_log demo_blank @ [e]\<rparr> = demo_blank\<lparr>w_log := w_log demo_blank @ [e']\<rparr>"
    and p: "print_access demo_ntop demo_tm (setLogLevel LOG_INFO LOG_DEBUG) demo_named 0 demo_arrays ?st
      = (if sa_family (client_addr demo_named) = AF_INET6 then Inl Out_of_bounds
         else Inr (?st\<lparr>st_stdout := st_stdout ?st @ log_line demo_ntop demo_tm e'\<rparr>, None))" by (elim exE conjE) blast
  with e have "log_access_info demo_named 0 demo_blank = Inr (demo_blank\<lparr>w_log := w_log demo_blank @ [e']\<rparr>)" by simp
  moreover have "sa_family (client_addr demo_named) \<noteq> AF_INET6" by (simp add: demo_named_def AF_INET_def AF_INET6_def)
  ultimately show ?thesis using p by (intro exI [of _ e']) simp
qed

text \<open>
  C36. The blocking transfers, on sockets that accept at least a byte of every call: \<open>sock_blocking_write\<close> returns 0
  once everything in the buffer has been sent in order and the buffer is empty; \<open>sock_blocking_copy\<close> returns 0 at
  the end of the input, having passed on all of it, in order. As many calls of \<open>send\<close> as there are bytes are enough.
\<close>

theorem blocking_transfers:
  assumes "\<forall>sd \<in> set sds. progressing sd" and "buffer_wf b" "contents b \<noteq> []" "length (contents b) \<le> length sds"
    and "list_all2 (\<lambda>rd bs. rd COPY_BUF = Read_ok bs \<and> bs \<noteq> []) rds chunks" "length (concat chunks) \<le> length sds"
    and "eof COPY_BUF = Read_ok []"
  shows "(\<exists>b'. sock_blocking_write err sds b = Inr (Some (0, contents b, b')) \<and> buffer_wf b' \<and> contents b' = [])
    \<and> sock_blocking_copy err (rds @ [eof]) sds = Some (0, concat chunks)"
  using sock_blocking_write_all [OF assms(2,3,1,4)] sock_blocking_copy_all [OF assms(1,6,5), of eof] assms(7) by metis

theorem blocking_transfers_witness:
  "\<exists>b'. sock_blocking_write 0 (replicate 4 (\<lambda>xs. Send_ok (min 2 (length xs)))) \<lparr>buf_data = [1, 2, 3, 0], buf_limit = 4, buf_read = 0, buf_write = 3\<rparr>
       = Inr (Some (0, [1, 2, 3], b')) \<and> buffer_wf b' \<and> contents b' = []
     \<and> sock_blocking_copy 0 [\<lambda>_. Read_ok [7, 8, 9], \<lambda>_. Read_ok []] (replicate 4 (\<lambda>xs. Send_ok (min 2 (length xs)))) = Some (0, [7, 8, 9])"
proof -
  let ?b = "\<lparr>buf_data = [1, 2, 3, 0], buf_limit = 4, buf_read = 0, buf_write = 3\<rparr>"
  have c: "contents ?b = [1, 2, 3]" by (simp add: contents_def)
  have "progressing (\<lambda>xs. Send_ok (min 2 (length xs)))" by (simp add: progressing_def send_ok_def)
  then show ?thesis
    using blocking_transfers [of "replicate 4 (\<lambda>xs. Send_ok (min 2 (length xs)))" ?b "[\<lambda>_. Read_ok [7, 8, 9]]" "[[7, 8, 9]]"
        "\<lambda>_. Read_ok []" 0]
    by (simp add: c buffer_wf_def)
qed

end
